(* ===== verification/Avb_Prelude.thy ===== *)
theory Avb_Prelude
  imports "HOL-Library.Word"
begin

text \<open>
  Shared vocabulary of the libavb development: the machine integers, byte strings, the result
  type of code that can stop abnormally, the allocator oracle, and the lemmas on words, bytes and
  lists that the component theories use.

  The host is the LP64 little-endian target of the repository's build files: \<open>size_t\<close>, \<open>uint64_t\<close>
  and pointers are 64 bits wide, \<open>int\<close> and \<open>unsigned int\<close> 32 bits, and a field of a packed struct
  is loaded with its least significant byte first.
\<close>

unbundle bit_operations_syntax

named_theorems avb_bytes \<open>conversions between words and the bytes they are stored as\<close>
named_theorems avb_sizes \<open>lengths and size bounds of buffers and fields\<close>

type_synonym u8 = "8 word"
type_synonym u32 = "32 word"
type_synonym u64 = "64 word"
type_synonym bytes = "u8 list"

section \<open>Abnormal termination\<close>

text \<open>
  \<open>Abort\<close> is \<open>avb_abort()\<close>, reached by \<open>avb_fatal\<close> and by a failing \<open>avb_assert\<close> (both enabled by
  \<open>-DAVB_ENABLE_DEBUG\<close> in the build); \<open>BadAccess\<close> is a read outside the allocated object or through
  a null pointer, which C leaves undefined (a signed overflow counts as one too). Everything else the C
  code does returns. \<open>OutOfFuel\<close> is no behaviour of the code: the model of the one recursive function is
  given a bound on its depth, and reaching the bound is this value.
\<close>

datatype fault = Abort | BadAccess | OutOfFuel

datatype 'a res = Ok 'a | Fault fault

definition bnd :: "'a res \<Rightarrow> ('a \<Rightarrow> 'b res) \<Rightarrow> 'b res" where
  "bnd m f = (case m of Ok x \<Rightarrow> f x | Fault e \<Rightarrow> Fault e)"

lemma bnd_simps [simp]:
  "bnd (Ok x) f = f x"
  "bnd (Fault e) f = Fault e"
  by (simp_all add: bnd_def)

lemma bnd_eq_Ok: "bnd m f = Ok y \<longleftrightarrow> (\<exists>x. m = Ok x \<and> f x = Ok y)"
  by (cases m) simp_all

lemma bnd_eq_Fault: "bnd m f = Fault e \<longleftrightarrow> m = Fault e \<or> (\<exists>x. m = Ok x \<and> f x = Fault e)"
  by (cases m) auto

lemma bnd_cong [fundef_cong]:
  "m = m' \<Longrightarrow> (\<And>x. m' = Ok x \<Longrightarrow> f x = g x) \<Longrightarrow> bnd m f = bnd m' g"
  by (cases m') auto

text \<open>\<open>avb_assert(e)\<close> with assertions compiled in.\<close>

definition avb_assert :: "bool \<Rightarrow> 'a res \<Rightarrow> 'a res" where
  "avb_assert e k = (if e then k else Fault Abort)"

lemma avb_assert_eq_Ok: "avb_assert e k = Ok y \<longleftrightarrow> e \<and> k = Ok y"
  by (simp add: avb_assert_def)

lemma avb_assert_True [simp]: "avb_assert True k = k"
  by (simp add: avb_assert_def)

text \<open>Reading through a pointer that may be null.\<close>

definition deref :: "'a option \<Rightarrow> ('a \<Rightarrow> 'b res) \<Rightarrow> 'b res" where
  "deref p k = (case p of Some x \<Rightarrow> k x | None \<Rightarrow> Fault BadAccess)"

lemma deref_simps [simp]:
  "deref (Some x) k = k x"
  "deref None k = Fault BadAccess"
  by (simp_all add: deref_def)

lemma deref_eq_Ok: "deref p k = Ok y \<longleftrightarrow> (\<exists>x. p = Some x \<and> k x = Ok y)"
  by (cases p) simp_all

lemma deref_cong [fundef_cong]:
  "p = p' \<Longrightarrow> (\<And>x. p' = Some x \<Longrightarrow> f x = g x) \<Longrightarrow> deref p f = deref p' g"
  by (cases p') auto

lemmas res_inversions = bnd_eq_Ok avb_assert_eq_Ok deref_eq_Ok

section \<open>Words and bytes\<close>

lemma unat_u8_less: "unat (x :: u8) < 256"
  using unsigned_less [of x, where ?'a = nat] by simp

lemma unat_u32_less: "unat (x :: u32) < 4294967296"
  using unsigned_less [of x, where ?'a = nat] by simp

lemma unat_u64_less: "unat (x :: u64) < 18446744073709551616"
  using unsigned_less [of x, where ?'a = nat] by simp

lemma unat_ucast_up:
  fixes x :: "'a::len word"
  assumes "LENGTH('a) \<le> LENGTH('b::len)"
  shows "unat (ucast x :: 'b word) = unat x"
proof -
  have "unat x < 2 ^ LENGTH('b)"
    using unsigned_less [of x, where ?'a = nat] assms
    by (meson less_le_trans one_le_numeral power_increasing)
  then show ?thesis
    by (simp add: unsigned_ucast_eq take_bit_nat_eq_self)
qed

lemma unat_push_bit_exact:
  fixes x :: "'a::len word"
  assumes "unat x * 2 ^ n < 2 ^ LENGTH('a)"
  shows "unat (push_bit n x) = unat x * 2 ^ n"
  using assms
  by (simp add: unsigned_push_bit_eq take_bit_eq_mod push_bit_eq_mult [where ?'a = nat])

text \<open>A shifted word and a word below the shift do not overlap, so OR is addition.\<close>

lemma unat_push_bit_or:
  fixes x y :: "'a::len word"
  assumes y: "unat y < 2 ^ n" and x: "unat x * 2 ^ n < 2 ^ LENGTH('a)"
  shows "unat (push_bit n x OR y) = unat x * 2 ^ n + unat y"
proof -
  have low: "y = take_bit n y"
    using y by (metis take_bit_nat_eq_self unsigned_take_bit_eq word_unat_eq_iff)
  have "push_bit n x OR y = push_bit n x + y"
    by (rule disjunctive_add [symmetric], subst low) (auto simp: bit_simps)
  moreover have "unat x * 2 ^ n + unat y < 2 ^ LENGTH('a)"
  proof (cases "n < LENGTH('a)")
    case True
    then have e: "(2::nat) ^ LENGTH('a) = 2 ^ (LENGTH('a) - n) * 2 ^ n"
      by (simp flip: power_add)
    with x have "unat x < 2 ^ (LENGTH('a) - n)"
      by simp
    then have "(unat x + 1) * 2 ^ n \<le> 2 ^ LENGTH('a)"
      unfolding e by (intro mult_le_mono1) simp
    with y show ?thesis by simp
  next
    case False
    then have "(2::nat) ^ LENGTH('a) \<le> 2 ^ n"
      by (simp add: power_increasing)
    with x have "unat x = 0"
      by (metis le_trans linorder_not_less mult_le_mono1 nat_mult_1 One_nat_def Suc_leI gr0I)
    then show ?thesis
      using unsigned_less [of y, where ?'a = nat] by simp
  qed
  ultimately show ?thesis
    using x by (simp add: unat_word_ariths unat_push_bit_exact)
qed

text \<open>The bytes of a word in the host's memory order, and a word loaded from such bytes.\<close>

definition byte_at :: "'a::len word \<Rightarrow> nat \<Rightarrow> u8" where
  "byte_at w i = ucast (drop_bit (8 * i) w)"

lemma unat_byte_at: "unat (byte_at w i) = unat w div 2 ^ (8 * i) mod 256"
  by (simp add: byte_at_def unsigned_ucast_eq take_bit_eq_mod unsigned_drop_bit_eq
      drop_bit_eq_div [where ?'a = nat])

definition load32 :: "bytes \<Rightarrow> nat \<Rightarrow> u32" where
  "load32 m i = push_bit 24 (ucast (m ! (i + 3))) OR push_bit 16 (ucast (m ! (i + 2))) OR
     push_bit 8 (ucast (m ! (i + 1))) OR ucast (m ! i)"

definition load64 :: "bytes \<Rightarrow> nat \<Rightarrow> u64" where
  "load64 m i = push_bit 56 (ucast (m ! (i + 7))) OR push_bit 48 (ucast (m ! (i + 6))) OR
     push_bit 40 (ucast (m ! (i + 5))) OR push_bit 32 (ucast (m ! (i + 4))) OR
     push_bit 24 (ucast (m ! (i + 3))) OR push_bit 16 (ucast (m ! (i + 2))) OR
     push_bit 8 (ucast (m ! (i + 1))) OR ucast (m ! i)"

text \<open>A byte string read as a big-endian number.\<close>

definition be_nat :: "bytes \<Rightarrow> nat" where
  "be_nat bs = foldl (\<lambda>a b. a * 256 + unat b) 0 bs"

lemma be_nat_Nil [simp]: "be_nat [] = 0"
  by (simp add: be_nat_def)

lemma be_nat_snoc [simp]: "be_nat (bs @ [b]) = be_nat bs * 256 + unat b"
  by (simp add: be_nat_def)

lemma be_nat_append: "be_nat (xs @ ys) = be_nat xs * 256 ^ length ys + be_nat ys"
proof (induction ys rule: rev_induct)
  case (snoc y ys)
  have "be_nat (xs @ ys @ [y]) = be_nat (xs @ ys) * 256 + unat y"
    by (metis append_assoc be_nat_snoc)
  with snoc show ?case
    by (simp add: algebra_simps)
qed simp

lemma be_nat_Cons: "be_nat (x # xs) = unat x * 256 ^ length xs + be_nat xs"
  using be_nat_append [of "[x]" xs] be_nat_snoc [of "[]" x] by simp

lemma be_nat_less: "be_nat bs < 256 ^ length bs"
proof (induction bs rule: rev_induct)
  case (snoc b bs)
  have "be_nat bs * 256 + unat b < (be_nat bs + 1) * 256"
    using unat_u8_less [of b] by simp
  also have "\<dots> \<le> 256 ^ length bs * 256"
    using snoc by (intro mult_le_mono1) simp
  finally show ?case by simp
qed simp

lemma be_nat_inject:
  assumes "length xs = length ys" and "be_nat xs = be_nat ys"
  shows "xs = ys"
  using assms
proof (induction xs ys rule: rev_induct2)
  case (4 x xs y ys)
  then have e: "be_nat xs * 256 + unat x = be_nat ys * 256 + unat y"
    by simp
  have "unat x = (be_nat xs * 256 + unat x) mod 256" "unat y = (be_nat ys * 256 + unat y) mod 256"
    using unat_u8_less [of x] unat_u8_less [of y] by simp_all
  with e have "unat x = unat y" by simp
  with e 4 show ?case by (simp add: word_unat_eq_iff)
qed auto

lemma be_nat_4:
  "be_nat [a, b, c, d] = ((unat a * 256 + unat b) * 256 + unat c) * 256 + unat d"
  by (simp add: be_nat_def)

lemma be_nat_8:
  "be_nat [a, b, c, d, e, f, g, h] =
    ((((((unat a * 256 + unat b) * 256 + unat c) * 256 + unat d) * 256 + unat e) * 256
      + unat f) * 256 + unat g) * 256 + unat h"
  by (simp add: be_nat_def)

lemma unat_or_bytes4 [avb_bytes]:
  "unat (push_bit 24 (ucast (a::u8)) OR push_bit 16 (ucast (b::u8)) OR
      push_bit 8 (ucast (c::u8)) OR ucast (d::u8) :: u32) = be_nat [a, b, c, d]"
  using unat_u8_less [of a] unat_u8_less [of b] unat_u8_less [of c] unat_u8_less [of d]
  by (simp add: unat_push_bit_or unat_ucast_up be_nat_4)

lemma unat_or_bytes8 [avb_bytes]:
  "unat (push_bit 56 (ucast (a::u8)) OR push_bit 48 (ucast (b::u8)) OR
      push_bit 40 (ucast (c::u8)) OR push_bit 32 (ucast (d::u8)) OR
      push_bit 24 (ucast (e::u8)) OR push_bit 16 (ucast (f::u8)) OR
      push_bit 8 (ucast (g::u8)) OR ucast (h::u8) :: u64) = be_nat [a, b, c, d, e, f, g, h]"
  using unat_u8_less [of a] unat_u8_less [of b] unat_u8_less [of c] unat_u8_less [of d]
    unat_u8_less [of e] unat_u8_less [of f] unat_u8_less [of g] unat_u8_less [of h]
  by (simp add: unat_push_bit_or unat_ucast_up be_nat_8)

text \<open>The bytes of a word are the digits of its value in base 256.\<close>

lemma byte_at_be_nat [avb_bytes]:
  assumes w: "unat w = be_nat bs" and k: "k < length bs"
  shows "byte_at w k = rev bs ! k"
proof -
  let ?j = "length bs - Suc k"
  let ?xs = "take ?j bs" and ?ys = "drop (Suc ?j) bs"
  have split: "bs = (?xs @ [bs ! ?j]) @ ?ys"
    using k id_take_nth_drop [of ?j bs] by simp
  have len: "length ?ys = k"
    using k by simp
  have "be_nat bs div 256 ^ k = be_nat (?xs @ [bs ! ?j])"
  proof -
    have "be_nat bs = be_nat (?xs @ [bs ! ?j]) * 256 ^ k + be_nat ?ys"
      using be_nat_append [of "?xs @ [bs ! ?j]" ?ys] unfolding len split [symmetric] .
    then show ?thesis
      using be_nat_less [of ?ys] unfolding len by simp
  qed
  moreover have "be_nat (?xs @ [bs ! ?j]) mod 256 = unat (bs ! ?j)"
    using unat_u8_less [of "bs ! ?j"] by simp
  moreover have "(2::nat) ^ (8 * k) = 256 ^ k"
    by (simp add: power_mult)
  ultimately have "unat (byte_at w k) = unat (bs ! ?j)"
    by (simp add: unat_byte_at w)
  then show ?thesis
    using k by (simp add: rev_nth word_unat_eq_iff)
qed

lemma be_nat_bytes_of: "be_nat (map (byte_at x) (rev [0..<n])) = unat x mod 256 ^ n"
proof (induction n)
  case (Suc n)
  have "unat x mod 256 ^ Suc n = 256 ^ n * (unat x div 256 ^ n mod 256) + unat x mod 256 ^ n"
    by (metis mod_mult2_eq mult.commute power_Suc)
  moreover have "(2::nat) ^ (8 * n) = 256 ^ n"
    by (simp add: power_mult)
  ultimately show ?case
    using Suc by (simp add: be_nat_Cons unat_byte_at)
qed simp

lemma unat_load32: "unat (load32 m i) = be_nat [m ! (i + 3), m ! (i + 2), m ! (i + 1), m ! i]"
  unfolding load32_def by (rule unat_or_bytes4)

lemma unat_load64:
  "unat (load64 m i) = be_nat [m ! (i + 7), m ! (i + 6), m ! (i + 5), m ! (i + 4),
     m ! (i + 3), m ! (i + 2), m ! (i + 1), m ! i]"
  unfolding load64_def by (rule unat_or_bytes8)

lemma byte_at_load32 [avb_bytes]: "k < 4 \<Longrightarrow> byte_at (load32 m i) k = m ! (i + k)"
  by (auto simp: byte_at_be_nat [OF unat_load32] numeral_eq_Suc less_Suc_eq)

lemma byte_at_load64 [avb_bytes]: "k < 8 \<Longrightarrow> byte_at (load64 m i) k = m ! (i + k)"
  by (auto simp: byte_at_be_nat [OF unat_load64] numeral_eq_Suc less_Suc_eq)

lemma take_4_drop: "i + 4 \<le> length m \<Longrightarrow> take 4 (drop i m) = [m ! i, m ! (i + 1), m ! (i + 2), m ! (i + 3)]"
  by (rule nth_equalityI) (auto simp: numeral_eq_Suc less_Suc_eq)

lemma take_8_drop:
  "i + 8 \<le> length m \<Longrightarrow> take 8 (drop i m) = [m ! i, m ! (i + 1), m ! (i + 2), m ! (i + 3),
     m ! (i + 4), m ! (i + 5), m ! (i + 6), m ! (i + 7)]"
  by (rule nth_equalityI) (auto simp: numeral_eq_Suc less_Suc_eq)

section \<open>Finite enumeration of bytes\<close>

lemma all_u8:
  assumes "list_all P (map of_nat [0..<256])"
  shows "P (c :: u8)"
proof -
  have "c \<in> of_nat ` {0..<256}"
    using unat_u8_less [of c] by (intro image_eqI [where x = "unat c"]) auto
  with assms show ?thesis by (auto simp: list_all_iff)
qed

end
