(* ===== verification/Avb_Util.thy ===== *)
theory Avb_Util
  imports Avb_Prelude
begin

text \<open>
  The utility layer: \<open>avb_util.c\<close> and the wrappers of \<open>avb_sysdeps_posix.c\<close> it rests on. Byte
  order conversion, overflow-checked addition, constant-time comparison, UTF-8 validation, C
  strings (search, replacement, concatenation, hex printing) and allocation.

  A pointer into memory is modelled by the list of bytes from that address to the end of the
  allocated object, so a read past the list is a \<open>BadAccess\<close>. A NUL-terminated string that the code
  owns is modelled by its contents, the bytes before the terminator; \<open>cget\<close> reads it as C does.
\<close>

section \<open>Definitions\<close>

subsection \<open>Memory and C strings (avb_sysdeps_posix.c)\<close>

text \<open>The bytes of a string literal, without and with its terminator.\<close>

definition str :: "string \<Rightarrow> bytes" where
  "str s = map of_char s"

definition lit :: "string \<Rightarrow> bytes" where
  "lit s = str s @ [0]"

text \<open>\<open>s[n]\<close> for a NUL-terminated string with contents \<open>s\<close>.\<close>

definition cget :: "bytes \<Rightarrow> nat \<Rightarrow> u8 res" where
  "cget s n = (if n < length s then Ok (s ! n) else if n = length s then Ok 0 else Fault BadAccess)"

text \<open>The contents of the C string that starts at a pointer.\<close>

definition cstr :: "bytes \<Rightarrow> bytes res" where
  "cstr m = (if 0 \<in> set m then Ok (takeWhile (\<lambda>b. b \<noteq> 0) m) else Fault BadAccess)"

definition cstring :: "bytes \<Rightarrow> bool" where
  "cstring s \<longleftrightarrow> 0 \<notin> set s"

definition avb_strlen :: "bytes \<Rightarrow> nat res" where
  "avb_strlen m = bnd (cstr m) (\<lambda>s. Ok (length s))"

text \<open>\<open>memcmp\<close> and \<open>strcmp\<close> return the sign of the first difference.\<close>

fun memcmp_sign :: "bytes \<Rightarrow> bytes \<Rightarrow> int" where
  "memcmp_sign (x # xs) (y # ys) = (if x = y then memcmp_sign xs ys else if x < y then -1 else 1)"
| "memcmp_sign _ _ = 0"

definition avb_memcmp :: "bytes \<Rightarrow> bytes \<Rightarrow> nat \<Rightarrow> int res" where
  "avb_memcmp src1 src2 n =
     (if n \<le> length src1 \<and> n \<le> length src2 then Ok (memcmp_sign (take n src1) (take n src2))
      else Fault BadAccess)"

fun avb_strcmp :: "bytes \<Rightarrow> bytes \<Rightarrow> int res" where
  "avb_strcmp (x # xs) (y # ys) =
     (if x = y then (if x = 0 then Ok 0 else avb_strcmp xs ys) else Ok (if x < y then -1 else 1))"
| "avb_strcmp _ _ = Fault BadAccess"

fun avb_strncmp :: "bytes \<Rightarrow> bytes \<Rightarrow> nat \<Rightarrow> int res" where
  "avb_strncmp _ _ 0 = Ok 0"
| "avb_strncmp (x # xs) (y # ys) (Suc n) =
     (if x = y then (if x = 0 then Ok 0 else avb_strncmp xs ys n) else Ok (if x < y then -1 else 1))"
| "avb_strncmp _ _ (Suc n) = Fault BadAccess"

text \<open>
  \<open>memcpy\<close> and \<open>memset\<close> into the object \<open>dest\<close>, at an offset from its start: the object afterwards.
  Reading past the source or writing past the destination is a \<open>BadAccess\<close>.
\<close>

definition avb_memcpy :: "bytes \<Rightarrow> nat \<Rightarrow> bytes \<Rightarrow> nat \<Rightarrow> bytes res" where
  "avb_memcpy dest ofs src n =
     (if n \<le> length src \<and> ofs + n \<le> length dest
      then Ok (take ofs dest @ take n src @ drop (ofs + n) dest) else Fault BadAccess)"

definition avb_memset :: "bytes \<Rightarrow> nat \<Rightarrow> u8 \<Rightarrow> nat \<Rightarrow> bytes res" where
  "avb_memset dest ofs c n =
     (if ofs + n \<le> length dest
      then Ok (take ofs dest @ replicate n c @ drop (ofs + n) dest) else Fault BadAccess)"

definition avb_div_by_10 :: "u64 \<Rightarrow> u32 \<times> u64" where
  "avb_div_by_10 dividend = (ucast (dividend mod 10), dividend div 10)"

subsection \<open>Allocation\<close>

text \<open>
  \<open>malloc\<close> may fail at any call and returns addresses of its choosing: \<open>hp_alloc k n\<close> is the outcome
  of the \<open>k\<close>-th request, for \<open>n\<close> bytes, and \<open>hp_junk k i\<close> what byte \<open>i\<close> of the object holds before it is
  written. Freed memory is not reused by the model.
\<close>

record heap =
  hp_alloc :: "nat \<Rightarrow> nat \<Rightarrow> u64 option"
  hp_junk :: "nat \<Rightarrow> nat \<Rightarrow> u8"
  hp_calls :: nat

definition avb_malloc :: "nat \<Rightarrow> heap \<Rightarrow> u64 option \<times> heap" where
  "avb_malloc sz h = (hp_alloc h (hp_calls h) sz, h\<lparr>hp_calls := Suc (hp_calls h)\<rparr>)"

text \<open>\<open>avb_malloc\<close> with the object it returns: its address and its contents, unspecified.\<close>

definition avb_malloc_obj :: "nat \<Rightarrow> heap \<Rightarrow> (u64 \<times> bytes) option \<times> heap" where
  "avb_malloc_obj sz h =
     (let junk = map (hp_junk h (hp_calls h)) [0..<sz]; (ret, h) = avb_malloc sz h
      in (case ret of None \<Rightarrow> None | Some a \<Rightarrow> Some (a, junk), h))"

text \<open>\<open>avb_calloc\<close>: the address and the zeroed contents.\<close>

definition avb_calloc :: "nat \<Rightarrow> heap \<Rightarrow> (u64 \<times> bytes) option \<times> heap" where
  "avb_calloc sz h =
     (let (ret, h) = avb_malloc sz h
      in (case ret of None \<Rightarrow> None | Some a \<Rightarrow> Some (a, replicate sz 0), h))"

subsection \<open>Byte order\<close>

definition avb_be32toh :: "u32 \<Rightarrow> u32" where
  "avb_be32toh in' =
     (let d = byte_at in'
      in push_bit 24 (ucast (d 0)) OR push_bit 16 (ucast (d 1)) OR push_bit 8 (ucast (d 2)) OR
         ucast (d 3))"

definition avb_be64toh :: "u64 \<Rightarrow> u64" where
  "avb_be64toh in' =
     (let d = byte_at in'
      in push_bit 56 (ucast (d 0)) OR push_bit 48 (ucast (d 1)) OR push_bit 40 (ucast (d 2)) OR
         push_bit 32 (ucast (d 3)) OR push_bit 24 (ucast (d 4)) OR push_bit 16 (ucast (d 5)) OR
         push_bit 8 (ucast (d 6)) OR ucast (d 7))"

definition avb_htobe32 :: "u32 \<Rightarrow> u32" where
  "avb_htobe32 in' =
     load32 [ucast (drop_bit 24 in' AND 0xff), ucast (drop_bit 16 in' AND 0xff),
             ucast (drop_bit 8 in' AND 0xff), ucast (in' AND 0xff)] 0"

definition avb_htobe64 :: "u64 \<Rightarrow> u64" where
  "avb_htobe64 in' =
     load64 [ucast (drop_bit 56 in' AND 0xff), ucast (drop_bit 48 in' AND 0xff),
             ucast (drop_bit 40 in' AND 0xff), ucast (drop_bit 32 in' AND 0xff),
             ucast (drop_bit 24 in' AND 0xff), ucast (drop_bit 16 in' AND 0xff),
             ucast (drop_bit 8 in' AND 0xff), ucast (in' AND 0xff)] 0"

subsection \<open>Comparison and checked addition\<close>

fun safe_memcmp_loop :: "nat \<Rightarrow> bytes \<Rightarrow> bytes \<Rightarrow> u32 \<Rightarrow> u32 res" where
  "safe_memcmp_loop 0 us1 us2 result = Ok result"
| "safe_memcmp_loop (Suc n) (x # us1) (y # us2) result =
     safe_memcmp_loop n us1 us2 (result OR (ucast x XOR ucast y))"
| "safe_memcmp_loop (Suc n) _ _ result = Fault BadAccess"

definition avb_safe_memcmp :: "bytes \<Rightarrow> bytes \<Rightarrow> nat \<Rightarrow> int res" where
  "avb_safe_memcmp s1 s2 n =
     (if n = 0 then Ok 0
      else bnd (safe_memcmp_loop n s1 s2 0) (\<lambda>result. Ok (if result \<noteq> 0 then 1 else 0)))"

definition avb_safe_add_to :: "u64 \<Rightarrow> u64 \<Rightarrow> bool \<times> u64" where
  "avb_safe_add_to value value_to_add =
     (let original_value = value; value = value + value_to_add
      in if value < original_value then (False, value) else (True, value))"

definition avb_safe_add :: "u64 \<Rightarrow> u64 \<Rightarrow> bool \<times> u64" where
  "avb_safe_add a b = avb_safe_add_to a b"

subsection \<open>UTF-8\<close>

text \<open>The loop with \<open>n\<close> bytes to go; a byte beyond the memory at \<open>data\<close> is a \<open>Fault\<close> only when it is read.\<close>

fun utf8_loop :: "bytes \<Rightarrow> nat \<Rightarrow> nat \<Rightarrow> bool res" where
  "utf8_loop data 0 num_cc = Ok (num_cc = 0)"
| "utf8_loop [] (Suc n) num_cc = Fault BadAccess"
| "utf8_loop (c # data) (Suc n) num_cc =
     (if num_cc > 0
      then (if c AND (0x80 OR 0x40) = 0x80 then utf8_loop data n (num_cc - 1) else Ok False)
      else if c < 0x80 then utf8_loop data n 0
      else if c AND (0x80 OR 0x40 OR 0x20) = (0x80 OR 0x40) then utf8_loop data n 1
      else if c AND (0x80 OR 0x40 OR 0x20 OR 0x10) = (0x80 OR 0x40 OR 0x20) then utf8_loop data n 2
      else if c AND (0x80 OR 0x40 OR 0x20 OR 0x10 OR 0x08) = (0x80 OR 0x40 OR 0x20 OR 0x10)
        then utf8_loop data n 3
      else Ok False)"

definition avb_validate_utf8 :: "bytes \<Rightarrow> nat \<Rightarrow> bool res" where
  "avb_validate_utf8 data num_bytes = utf8_loop data num_bytes 0"

subsection \<open>Strings\<close>

text \<open>The buffer after the call, and whether both strings fitted.\<close>

definition avb_str_concat :: "bytes \<Rightarrow> u64 \<Rightarrow> bytes \<Rightarrow> u64 \<Rightarrow> bytes \<Rightarrow> u64 \<Rightarrow> (bool \<times> bytes) res" where
  "avb_str_concat buf buf_size str1 str1_len str2 str2_len =
     (case avb_safe_add str1_len str2_len of
        (False, _) \<Rightarrow> Ok (False, buf)
      | (True, combined_len) \<Rightarrow>
          if combined_len > buf_size - 1 then Ok (False, buf)
          else if unat str1_len \<le> length str1 \<and> unat str2_len \<le> length str2
                  \<and> unat combined_len < length buf
          then Ok (True, take (unat str1_len) str1 @ take (unat str2_len) str2 @ [0] @
                 drop (unat combined_len + 1) buf)
          else Fault BadAccess)"

text \<open>A duplicate of a string with contents \<open>s\<close>; \<open>None\<close> is the null pointer.\<close>

definition avb_strdup :: "bytes \<Rightarrow> heap \<Rightarrow> bytes option \<times> heap" where
  "avb_strdup s h =
     (let (ret, h) = avb_malloc (length s + 1) h
      in (case ret of None \<Rightarrow> None | Some _ \<Rightarrow> Some s, h))"

text \<open>The inner loop of \<open>avb_strstr\<close>: does the rest of the needle match at \<open>n\<close>?\<close>

function strstr_match :: "bytes \<Rightarrow> bytes \<Rightarrow> nat \<Rightarrow> nat \<Rightarrow> bool res" where
  "strstr_match haystack needle n m =
     bnd (cget needle m) (\<lambda>c.
       if c = 0 then Ok True
       else bnd (cget haystack (n + m)) (\<lambda>d.
         if d \<noteq> c then Ok False else strstr_match haystack needle n (Suc m)))"
  by pat_completeness auto
termination
  by (relation "measure (\<lambda>(haystack, needle, n, m). length needle - m)")
    (auto simp: cget_def split: if_splits)

function strstr_loop :: "bytes \<Rightarrow> bytes \<Rightarrow> nat \<Rightarrow> nat option res" where
  "strstr_loop haystack needle n =
     bnd (cget haystack n) (\<lambda>c.
       if c = 0 then Ok None
       else bnd (cget needle 0) (\<lambda>d.
         if c \<noteq> d then strstr_loop haystack needle (Suc n)
         else bnd (strstr_match haystack needle n 1) (\<lambda>found.
           if found then Ok (Some n) else strstr_loop haystack needle (Suc n))))"
  by pat_completeness auto
termination
  by (relation "measure (\<lambda>(haystack, needle, n). length haystack - n)")
    (auto simp: cget_def split: if_splits)

declare strstr_match.simps [simp del] strstr_loop.simps [simp del]

text \<open>The offset of the match in the haystack; \<open>None\<close> is the null pointer.\<close>

definition avb_strstr :: "bytes \<Rightarrow> bytes \<Rightarrow> nat option res" where
  "avb_strstr haystack needle = strstr_loop haystack needle 0"

fun avb_strv_find_str :: "bytes list \<Rightarrow> bytes \<Rightarrow> nat \<Rightarrow> bytes option res" where
  "avb_strv_find_str [] s str_size = Ok None"
| "avb_strv_find_str (x # strings) s str_size =
     (if length x = str_size
      then bnd (avb_memcmp x s str_size) (\<lambda>c.
             if c = 0 then Ok (Some x) else avb_strv_find_str strings s str_size)
      else avb_strv_find_str strings s str_size)"


text \<open>
  \<open>avb_replace\<close>. \<open>str\<close> is the part of the input not yet scanned. A failed allocation leaves the loop
  with \<open>goto out\<close> (\<open>True\<close>), whatever \<open>ret\<close> holds at that point.
\<close>

lemma cget_Nil_0 [simp]: "cget [] 0 = Ok 0"
  by (simp add: cget_def)

lemma strstr_loop_empty_needle: "strstr_loop s [] n \<noteq> Ok (Some k)"
proof (induction s "[] :: bytes" n rule: strstr_loop.induct)
  case (1 s n)
  show ?case
    by (subst strstr_loop.simps) (use "1.hyps" in \<open>auto simp: bnd_eq_Ok\<close>)
qed

function replace_loop ::
    "bytes \<Rightarrow> bytes \<Rightarrow> bytes \<Rightarrow> bytes option \<Rightarrow> heap \<Rightarrow> (bool \<times> bytes \<times> bytes option \<times> heap) res" where
  "replace_loop s search replace ret h =
     (if s = [] then Ok (False, s, ret, h)
      else bnd (avb_strstr s search) (\<lambda>p. case p of
        None \<Rightarrow> Ok (False, s, ret, h)
      | Some num_before \<Rightarrow>
          (let ret_len = (case ret of None \<Rightarrow> 0 | Some r \<Rightarrow> length r);
               num_new = ret_len + num_before + length replace + 1;
               (p, h) = avb_malloc num_new h
           in case p of
                None \<Rightarrow> Ok (True, s, ret, h)
              | Some _ \<Rightarrow>
                  replace_loop (drop (num_before + length search) s) search replace
                    (Some ((case ret of None \<Rightarrow> [] | Some r \<Rightarrow> r) @ take num_before s @ replace)) h)))"
  by pat_completeness auto
termination
proof (relation "measure (\<lambda>(s, search, replace, ret, h). length s)", goal_cases)
  case (2 s search replace ret h x k)
  then have "search \<noteq> []"
    by (auto simp: avb_strstr_def strstr_loop_empty_needle)
  with 2 show ?case by (cases search; cases s) auto
qed simp

declare replace_loop.simps [simp del]

definition avb_replace :: "bytes \<Rightarrow> bytes \<Rightarrow> bytes \<Rightarrow> heap \<Rightarrow> (bytes option \<times> heap) res" where
  "avb_replace s search replace h =
     bnd (replace_loop s search replace None h) (\<lambda>(goto_out, rest, ret, h).
       if goto_out then Ok (ret, h)
       else case ret of
         None \<Rightarrow> Ok (avb_strdup rest h)
       | Some r \<Rightarrow>
           (let (p, h) = avb_malloc (length r + length rest + 1) h
            in case p of None \<Rightarrow> Ok (ret, h) | Some _ \<Rightarrow> Ok (Some (r @ rest), h)))"

text \<open>
  \<open>avb_strdupv\<close>: the argument loop stops the program on the 32nd string, before the terminating
  null argument is fetched.
\<close>

definition AVB_STRDUPV_MAX_NUM_STRINGS :: nat where
  "AVB_STRDUPV_MAX_NUM_STRINGS = 32"

fun strdupv_collect :: "bytes list \<Rightarrow> nat \<Rightarrow> u64 \<Rightarrow> u64 res" where
  "strdupv_collect [] num_strings total_length = Ok total_length"
| "strdupv_collect (s # strs) num_strings total_length =
     (case avb_safe_add_to total_length (of_nat (length s)) of
        (False, _) \<Rightarrow> Fault Abort
      | (True, total_length) \<Rightarrow>
          if Suc num_strings = AVB_STRDUPV_MAX_NUM_STRINGS then Fault Abort
          else strdupv_collect strs (Suc num_strings) total_length)"

definition avb_strdupv :: "bytes list \<Rightarrow> heap \<Rightarrow> (bytes option \<times> heap) res" where
  "avb_strdupv strs h =
     bnd (strdupv_collect strs 0 0) (\<lambda>total_length.
       let (ret, h) = avb_malloc (unat (total_length + 1)) h
       in case ret of
            None \<Rightarrow> Ok (None, h)
          | Some _ \<Rightarrow> avb_assert (length (concat strs) = unat total_length) (Ok (Some (concat strs), h)))"

text \<open>\<open>avb_basename\<close>: the loop runs down from \<open>len - 2\<close>; \<open>k\<close> is \<open>n + 1\<close>.\<close>

fun basename_loop :: "bytes \<Rightarrow> nat \<Rightarrow> bytes" where
  "basename_loop s 0 = s"
| "basename_loop s (Suc n) = (if s ! n = of_char (CHR ''/'') then drop (n + 1) s else basename_loop s n)"

definition avb_basename :: "bytes \<Rightarrow> bytes" where
  "avb_basename s = (if length s \<ge> 2 then basename_loop s (length s - 1) else s)"

fun avb_uppercase :: "bytes \<Rightarrow> bytes" where
  "avb_uppercase [] = []"
| "avb_uppercase (c # s) =
     (if c = 0 then c # s
      else (if c \<le> 0x7A \<and> c \<ge> 0x61 then c - 0x20 else c) # avb_uppercase s)"

definition hex_digits :: bytes where
  "hex_digits = str ''0123456789abcdef''"

definition bin2hex_bytes :: "bytes \<Rightarrow> bytes" where
  "bin2hex_bytes data =
     concat (map (\<lambda>b. [hex_digits ! unat (drop_bit 4 b), hex_digits ! unat (b AND 0x0f)]) data)"

definition avb_bin2hex :: "bytes \<Rightarrow> nat \<Rightarrow> heap \<Rightarrow> (bytes option \<times> heap) res" where
  "avb_bin2hex data data_len h =
     (let (p, h) = avb_malloc (data_len * 2 + 1) h
      in case p of
           None \<Rightarrow> Ok (None, h)
         | Some _ \<Rightarrow>
             if data_len \<le> length data then Ok (Some (bin2hex_bytes (take data_len data)), h)
             else Fault BadAccess)"

section \<open>Byte order\<close>

lemma unat_be32toh: "unat (avb_be32toh x) = be_nat [byte_at x 0, byte_at x 1, byte_at x 2, byte_at x 3]"
  by (simp add: avb_be32toh_def Let_def unat_or_bytes4)

lemma unat_be64toh:
  "unat (avb_be64toh x) = be_nat [byte_at x 0, byte_at x 1, byte_at x 2, byte_at x 3,
     byte_at x 4, byte_at x 5, byte_at x 6, byte_at x 7]"
  by (simp add: avb_be64toh_def Let_def unat_or_bytes8)

text \<open>Loading a field natively and converting it reads the field's bytes as a big-endian number.\<close>

lemma be32toh_load32 [avb_bytes]:
  "i + 4 \<le> length m \<Longrightarrow> unat (avb_be32toh (load32 m i)) = be_nat (take 4 (drop i m))"
  by (simp add: unat_be32toh byte_at_load32 take_4_drop)

lemma be64toh_load64 [avb_bytes]:
  "i + 8 \<le> length m \<Longrightarrow> unat (avb_be64toh (load64 m i)) = be_nat (take 8 (drop i m))"
  by (simp add: unat_be64toh byte_at_load64 take_8_drop)

lemma ucast_and_byte: "ucast (w AND 0xff) = (ucast (w :: 'a::len word) :: u8)"
proof -
  have "(0xff :: 'a word) = mask 8"
    by (simp add: mask_eq_exp_minus_1)
  then have "w AND 0xff = take_bit 8 w"
    by (simp add: take_bit_eq_mask)
  then show ?thesis
    by (auto intro!: bit_word_eqI simp: bit_simps dest: bit_imp_le_length)
qed

lemma rev_upt_4: "rev [0..<4] = [3, 2, 1, 0 :: nat]"
  by (simp add: upt_rec numeral_eq_Suc)

lemma rev_upt_8: "rev [0..<8] = [7, 6, 5, 4, 3, 2, 1, 0 :: nat]"
  by (simp add: upt_rec numeral_eq_Suc)

lemma be32toh_htobe32: "avb_be32toh (avb_htobe32 x) = x"
proof -
  have h: "avb_htobe32 x = load32 (map (byte_at x) (rev [0..<4])) 0"
    by (simp add: avb_htobe32_def rev_upt_4 byte_at_def ucast_and_byte)
  have "unat (avb_be32toh (avb_htobe32 x)) = be_nat (take 4 (drop 0 (map (byte_at x) (rev [0..<4]))))"
    unfolding h by (rule be32toh_load32) simp
  also have "\<dots> = unat x"
    using be_nat_bytes_of [of x 4] unat_u32_less [of x] by simp
  finally show ?thesis by (simp add: word_unat_eq_iff)
qed

lemma be64toh_htobe64: "avb_be64toh (avb_htobe64 x) = x"
proof -
  have h: "avb_htobe64 x = load64 (map (byte_at x) (rev [0..<8])) 0"
    by (simp add: avb_htobe64_def rev_upt_8 byte_at_def ucast_and_byte)
  have "unat (avb_be64toh (avb_htobe64 x)) = be_nat (take 8 (drop 0 (map (byte_at x) (rev [0..<8]))))"
    unfolding h by (rule be64toh_load64) simp
  also have "\<dots> = unat x"
    using be_nat_bytes_of [of x 8] unat_u64_less [of x] by simp
  finally show ?thesis by (simp add: word_unat_eq_iff)
qed

section \<open>Comparison and checked addition\<close>

lemma memcmp_sign_zero: "length xs = length ys \<Longrightarrow> memcmp_sign xs ys = 0 \<longleftrightarrow> xs = ys"
  by (induction xs ys rule: list_induct2) auto

lemma avb_memcmp_zero:
  "n \<le> length xs \<Longrightarrow> n \<le> length ys \<Longrightarrow>
     (\<exists>c. avb_memcmp xs ys n = Ok c \<and> (c = 0 \<longleftrightarrow> take n xs = take n ys))"
  by (simp add: avb_memcmp_def memcmp_sign_zero)

lemma or_eq_zero_word: "(a :: 'a::len word) OR b = 0 \<longleftrightarrow> a = 0 \<and> b = 0"
  by (auto simp: bit_eq_iff bit_simps)

lemma ucast_xor_zero: "(ucast (x::u8) XOR ucast y :: u32) = 0 \<longleftrightarrow> x = y"
proof
  assume a: "(ucast x XOR ucast y :: u32) = 0"
  show "x = y"
  proof (rule bit_word_eqI)
    fix n assume "n < LENGTH(8)"
    moreover have "\<not> bit (ucast x XOR ucast y :: u32) n"
      by (simp add: a)
    ultimately show "bit x n \<longleftrightarrow> bit y n"
      by (simp add: bit_simps)
  qed
qed simp

lemma safe_memcmp_loop_spec:
  "n \<le> length xs \<Longrightarrow> n \<le> length ys \<Longrightarrow>
     (\<exists>r'. safe_memcmp_loop n xs ys r = Ok r' \<and> (r' = 0 \<longleftrightarrow> r = 0 \<and> take n xs = take n ys))"
proof (induction n arbitrary: xs ys r)
  case (Suc n)
  then obtain x xs' y ys' where "xs = x # xs'" "ys = y # ys'"
    by (metis Suc_le_length_iff)
  with Suc.prems Suc.IH [of xs' ys' "r OR (ucast x XOR ucast y)"] show ?case
    by (auto simp: or_eq_zero_word ucast_xor_zero)
qed simp

lemma avb_safe_memcmp_eq:
  assumes "n \<le> length xs" "n \<le> length ys"
  shows "avb_safe_memcmp xs ys n = Ok (if take n xs = take n ys then 0 else 1)"
  using safe_memcmp_loop_spec [OF assms, of 0] by (auto simp: avb_safe_memcmp_def)

lemma avb_safe_add_to_spec:
  "avb_safe_add_to a b = (unat a + unat b < 2 ^ 64, a + b)"
proof -
  have "a + b < a \<longleftrightarrow> \<not> unat a + unat b < 2 ^ 64"
    using unat_u64_less [of a] unat_u64_less [of b]
    by (auto simp: word_less_nat_alt unat_word_ariths mod_if)
  then show ?thesis
    by (simp add: avb_safe_add_to_def Let_def)
qed

lemma avb_safe_add_spec: "avb_safe_add a b = (unat a + unat b < 2 ^ 64, a + b)"
  by (simp add: avb_safe_add_def avb_safe_add_to_spec)

lemma avb_safe_add_to_True:
  "avb_safe_add_to a b = (True, c) \<Longrightarrow> unat c = unat a + unat b"
  by (auto simp: avb_safe_add_to_spec unat_word_ariths)

section \<open>UTF-8\<close>

text \<open>The texts the validator accepts, as a grammar of lead and continuation bytes.\<close>

definition utf8_cont :: "u8 \<Rightarrow> bool" where
  "utf8_cont b \<longleftrightarrow> 0x80 \<le> b \<and> b < 0xC0"

text \<open>
  The shape of UTF-8: characters of one to four bytes, with the number of continuation bytes that the lead
  byte announces. This is all the code looks at.
\<close>

inductive utf8_shape :: "bytes \<Rightarrow> bool" where
  empty: "utf8_shape []"
| ascii: "b < 0x80 \<Longrightarrow> utf8_shape bs \<Longrightarrow> utf8_shape (b # bs)"
| lead2: "0xC0 \<le> b \<Longrightarrow> b < 0xE0 \<Longrightarrow> list_all utf8_cont cs \<Longrightarrow> length cs = 1 \<Longrightarrow> utf8_shape bs \<Longrightarrow>
    utf8_shape (b # cs @ bs)"
| lead3: "0xE0 \<le> b \<Longrightarrow> b < 0xF0 \<Longrightarrow> list_all utf8_cont cs \<Longrightarrow> length cs = 2 \<Longrightarrow> utf8_shape bs \<Longrightarrow>
    utf8_shape (b # cs @ bs)"
| lead4: "0xF0 \<le> b \<Longrightarrow> b < 0xF8 \<Longrightarrow> list_all utf8_cont cs \<Longrightarrow> length cs = 3 \<Longrightarrow> utf8_shape bs \<Longrightarrow>
    utf8_shape (b # cs @ bs)"

text \<open>
  UTF-8 as RFC 3629 defines it: the encodings of Unicode scalar values, which are at most \<open>U+10FFFF\<close> and no
  surrogates; each has one encoding, the shortest.
\<close>

definition scalar_value :: "nat \<Rightarrow> bool" where
  "scalar_value c \<longleftrightarrow> c < 0xD800 \<or> 0xE000 \<le> c \<and> c < 0x110000"

definition utf8_encode :: "nat \<Rightarrow> bytes" where
  "utf8_encode c =
     (if c < 0x80 then [of_nat c]
      else if c < 0x800 then [of_nat (0xC0 + c div 64), of_nat (0x80 + c mod 64)]
      else if c < 0x10000 then [of_nat (0xE0 + c div 4096), of_nat (0x80 + c div 64 mod 64), of_nat (0x80 + c mod 64)]
      else [of_nat (0xF0 + c div 262144), of_nat (0x80 + c div 4096 mod 64), of_nat (0x80 + c div 64 mod 64), of_nat (0x80 + c mod 64)])"

definition utf8_valid :: "bytes \<Rightarrow> bool" where
  "utf8_valid bs \<longleftrightarrow> (\<exists>cs. list_all scalar_value cs \<and> bs = concat (map utf8_encode cs))"

lemma utf8_cont_mask: "(c AND (0x80 OR 0x40) = 0x80) = utf8_cont c"
  unfolding utf8_cont_def
  by (rule all_u8 [where P = "\<lambda>c. (c AND (0x80 OR 0x40) = 0x80) = (0x80 \<le> c \<and> c < 0xC0)"]) code_simp

lemma utf8_lead2_mask: "(c AND (0x80 OR 0x40 OR 0x20) = (0x80 OR 0x40 :: u8)) = (0xC0 \<le> c \<and> c < 0xE0)"
  by (rule all_u8 [where P = "\<lambda>c. (c AND (0x80 OR 0x40 OR 0x20) = (0x80 OR 0x40)) = (0xC0 \<le> c \<and> c < 0xE0)"])
    code_simp

lemma utf8_lead3_mask:
  "(c AND (0x80 OR 0x40 OR 0x20 OR 0x10) = (0x80 OR 0x40 OR 0x20 :: u8)) = (0xE0 \<le> c \<and> c < 0xF0)"
  by (rule all_u8 [where P = "\<lambda>c. (c AND (0x80 OR 0x40 OR 0x20 OR 0x10) = (0x80 OR 0x40 OR 0x20)) =
      (0xE0 \<le> c \<and> c < 0xF0)"]) code_simp

lemma utf8_lead4_mask:
  "(c AND (0x80 OR 0x40 OR 0x20 OR 0x10 OR 0x08) = (0x80 OR 0x40 OR 0x20 OR 0x10 :: u8)) =
     (0xF0 \<le> c \<and> c < 0xF8)"
  by (rule all_u8 [where P = "\<lambda>c. (c AND (0x80 OR 0x40 OR 0x20 OR 0x10 OR 0x08) =
      (0x80 OR 0x40 OR 0x20 OR 0x10)) = (0xF0 \<le> c \<and> c < 0xF8)"]) code_simp

lemmas utf8_masks = utf8_cont_mask utf8_lead2_mask utf8_lead3_mask utf8_lead4_mask

text \<open>The verdict when all bytes are there.\<close>

fun utf8_accepts :: "bytes \<Rightarrow> nat \<Rightarrow> bool" where
  "utf8_accepts [] num_cc = (num_cc = 0)"
| "utf8_accepts (c # data) (Suc n) = (utf8_cont c \<and> utf8_accepts data n)"
| "utf8_accepts (c # data) 0 =
     (if c < 0x80 then utf8_accepts data 0
      else if 0xC0 \<le> c \<and> c < 0xE0 then utf8_accepts data 1
      else if 0xE0 \<le> c \<and> c < 0xF0 then utf8_accepts data 2
      else if 0xF0 \<le> c \<and> c < 0xF8 then utf8_accepts data 3 else False)"

lemma utf8_loop_Cons:
  "utf8_loop (c # data) (Suc n) 0 =
     (if c < 0x80 then utf8_loop data n 0
      else if 0xC0 \<le> c \<and> c < 0xE0 then utf8_loop data n 1
      else if 0xE0 \<le> c \<and> c < 0xF0 then utf8_loop data n 2
      else if 0xF0 \<le> c \<and> c < 0xF8 then utf8_loop data n 3 else Ok False)"
  "utf8_loop (c # data) (Suc n) (Suc k) = (if utf8_cont c then utf8_loop data n k else Ok False)"
  by (simp_all only: utf8_loop.simps utf8_masks) auto

declare utf8_loop.simps(3) [simp del]

lemma utf8_loop_accepts: "n \<le> length data \<Longrightarrow> utf8_loop data n k = Ok (utf8_accepts (take n data) k)"
proof (induction data arbitrary: n k)
  case (Cons c data)
  then show ?case by (cases n; cases k) (auto simp: utf8_loop_Cons)
qed simp

text \<open>Beyond the end of memory the loop runs only while what it has read can still become acceptable.\<close>

lemma utf8_accepts_more: "\<exists>more. utf8_accepts more k"
  by (rule exI [of _ "replicate k 0x80"]) (induction k; simp add: utf8_cont_def)

lemma utf8_loop_beyond:
  "length data < n \<Longrightarrow> utf8_loop data n k = (if \<exists>more. utf8_accepts (data @ more) k then Fault BadAccess else Ok False)"
proof (induction data arbitrary: n k)
  case Nil
  then show ?case using utf8_accepts_more [of k] by (cases n) auto
next
  case (Cons c data)
  then show ?case by (cases n; cases k) (auto simp: utf8_loop_Cons)
qed

lemma utf8_accepts_shape:
  "utf8_accepts bs n \<Longrightarrow> \<exists>cs rest. bs = cs @ rest \<and> length cs = n \<and> list_all utf8_cont cs \<and> utf8_shape rest"
proof (induction bs arbitrary: n)
  case Nil
  then show ?case by (auto intro: utf8_shape.intros)
next
  case (Cons c data)
  show ?case
  proof (cases n)
    case 0
    have "utf8_shape (c # data)"
      using Cons.prems unfolding 0
      by (auto split: if_splits dest!: Cons.IH intro: utf8_shape.intros)
    with 0 show ?thesis by auto
  next
    case (Suc k)
    with Cons.prems obtain cs rest where "data = cs @ rest" "length cs = k" "list_all utf8_cont cs" "utf8_shape rest"
      using Cons.IH [of k] by auto
    with Cons.prems Suc show ?thesis by (intro exI [of _ "c # cs"] exI [of _ rest]) simp
  qed
qed

lemma utf8_accepts_conts: "list_all utf8_cont cs \<Longrightarrow> utf8_accepts (cs @ bs) (length cs) = utf8_accepts bs 0"
  by (induction cs) auto

lemma utf8_shape_accepts: "utf8_shape bs \<Longrightarrow> utf8_accepts bs 0"
proof (induction rule: utf8_shape.induct)
  case (lead2 b cs bs)
  then show ?case
    using utf8_accepts_conts [of cs bs] by (auto simp: word_less_nat_alt word_le_nat_alt)
next
  case (lead3 b cs bs)
  then show ?case
    using utf8_accepts_conts [of cs bs] by (auto simp: word_less_nat_alt word_le_nat_alt)
next
  case (lead4 b cs bs)
  then show ?case
    using utf8_accepts_conts [of cs bs] by (auto simp: word_less_nat_alt word_le_nat_alt)
qed auto

lemma utf8_accepts_iff: "utf8_accepts bs 0 \<longleftrightarrow> utf8_shape bs"
  using utf8_accepts_shape [of bs 0] utf8_shape_accepts by auto

lemma validate_utf8_verdict:
  "avb_validate_utf8 data n =
     (if n \<le> length data then Ok (utf8_shape (take n data))
      else if \<exists>more. utf8_shape (data @ more) then Fault BadAccess else Ok False)"
  by (simp add: avb_validate_utf8_def utf8_loop_accepts utf8_loop_beyond utf8_accepts_iff)

text \<open>Valid UTF-8 has the shape, but not everything of the shape is valid.\<close>

lemma u8_of_nat:
  "n < 256 \<Longrightarrow> of_nat n < (numeral k :: u8) \<longleftrightarrow> n < unat (numeral k :: u8)"
  "n < 256 \<Longrightarrow> (numeral k :: u8) \<le> of_nat n \<longleftrightarrow> unat (numeral k :: u8) \<le> n"
  by (simp_all add: word_less_nat_alt word_le_nat_alt unsigned_of_nat take_bit_nat_eq_self)

lemma utf8_encode_shape:
  assumes "scalar_value c"
  shows "utf8_encode c \<noteq> [] \<and> hd (utf8_encode c) \<noteq> 0xC0 \<and> (utf8_shape bs \<longrightarrow> utf8_shape (utf8_encode c @ bs))"
proof -
  have cc: "utf8_cont (of_nat (0x80 + n mod 64))" for n
  proof -
    have "0x80 + n mod 64 < 256" "0x80 + n mod 64 < 0xC0" using mod_less_divisor [of 64 n] by linarith+
    then show ?thesis unfolding utf8_cont_def using u8_of_nat [of "0x80 + n mod 64"] by simp
  qed
  have lead: "(of_nat n :: u8) \<noteq> 0xC0" if "n < 256" "n \<noteq> 0xC0" for n
    using that by (auto simp: word_unat_eq_iff unsigned_of_nat take_bit_nat_eq_self)
  consider "c < 0x80" | "0x80 \<le> c" "c < 0x800" | "0x800 \<le> c" "c < 0x10000" | "0x10000 \<le> c" "c < 0x110000"
    using assms unfolding scalar_value_def by linarith
  then show ?thesis
  proof cases
    case 1
    then have e: "utf8_encode c = [of_nat c]" by (simp add: utf8_encode_def)
    have "(of_nat c :: u8) < 0x80" using u8_of_nat(1) [of c "num.Bit0 (num.Bit0 (num.Bit0 (num.Bit0 (num.Bit0 (num.Bit0 (num.Bit0 num.One))))))"] 1 by simp
    then show ?thesis unfolding e using lead [of c] 1 by (auto intro: utf8_shape.ascii)
  next
    case 2
    define n where "n = 0xC0 + c div 64"
    have n: "0xC2 \<le> n" "n < 0xE0" using 2 unfolding n_def by linarith+
    have e: "utf8_encode c = of_nat n # [of_nat (0x80 + c mod 64)]" using 2 by (simp add: utf8_encode_def n_def)
    have "utf8_shape bs \<Longrightarrow> utf8_shape (of_nat n # [of_nat (0x80 + c mod 64)] @ bs)"
      using n cc [of c] by (intro utf8_shape.lead2) (simp_all add: u8_of_nat)
    then show ?thesis unfolding e using lead [of n] n by simp
  next
    case 3
    define n where "n = 0xE0 + c div 4096"
    have n: "0xE0 \<le> n" "n < 0xF0" using 3 unfolding n_def by linarith+
    have e: "utf8_encode c = of_nat n # [of_nat (0x80 + c div 64 mod 64), of_nat (0x80 + c mod 64)]"
      using 3 by (simp add: utf8_encode_def n_def)
    have "utf8_shape bs \<Longrightarrow> utf8_shape (of_nat n # [of_nat (0x80 + c div 64 mod 64), of_nat (0x80 + c mod 64)] @ bs)"
      using n cc [of c] cc [of "c div 64"] by (intro utf8_shape.lead3) (simp_all add: u8_of_nat)
    then show ?thesis unfolding e using lead [of n] n by simp
  next
    case 4
    define n where "n = 0xF0 + c div 262144"
    have n: "0xF0 \<le> n" "n < 0xF8" using 4 unfolding n_def by linarith+
    have e: "utf8_encode c = of_nat n # [of_nat (0x80 + c div 4096 mod 64), of_nat (0x80 + c div 64 mod 64), of_nat (0x80 + c mod 64)]"
      using 4 by (simp add: utf8_encode_def n_def)
    have "utf8_shape bs \<Longrightarrow> utf8_shape (of_nat n # [of_nat (0x80 + c div 4096 mod 64), of_nat (0x80 + c div 64 mod 64), of_nat (0x80 + c mod 64)] @ bs)"
      using n cc [of c] cc [of "c div 64"] cc [of "c div 4096"] by (intro utf8_shape.lead4) (simp_all add: u8_of_nat)
    then show ?thesis unfolding e using lead [of n] n by simp
  qed
qed

lemma utf8_valid_shape: "utf8_valid bs \<Longrightarrow> utf8_shape bs"
proof -
  have "utf8_shape (concat (map utf8_encode cs))" if "list_all scalar_value cs" for cs
    using that utf8_encode_shape by (induction cs) (auto intro: utf8_shape.empty)
  then show "utf8_valid bs \<Longrightarrow> utf8_shape bs" by (auto simp: utf8_valid_def)
qed

lemma utf8_overlong: "utf8_shape [0xC0, 0x80]" "\<not> utf8_valid [0xC0, 0x80]"
proof -
  show "utf8_shape [0xC0, 0x80]"
    using utf8_shape.lead2 [of "0xC0" "[0x80]" "[]"] utf8_shape.empty by (simp add: utf8_cont_def)
  show "\<not> utf8_valid [0xC0, 0x80]"
  proof
    assume "utf8_valid [0xC0, 0x80]"
    then obtain cs where cs: "list_all scalar_value cs" "[0xC0, 0x80] = concat (map utf8_encode cs)" by (auto simp: utf8_valid_def)
    then obtain c ds where d: "cs = c # ds" by (cases cs) auto
    then have "hd (utf8_encode c @ concat (map utf8_encode ds)) = 0xC0" using cs(2) by (metis concat.simps(2) list.sel(1) list.simps(9))
    then show False using utf8_encode_shape [of c "[]"] cs(1) d by simp
  qed
qed

section \<open>String search and replacement\<close>

fun first_occ :: "bytes \<Rightarrow> bytes \<Rightarrow> nat option" where
  "first_occ needle [] = None"
| "first_occ needle (x # xs) =
     (if take (length needle) (x # xs) = needle then Some 0 else map_option Suc (first_occ needle xs))"

lemma cget_in: "n < length s \<Longrightarrow> cget s n = Ok (s ! n)"
  by (simp add: cget_def)

lemma cget_end: "cget s (length s) = Ok 0"
  by (simp add: cget_def)

lemma cstring_nth: "cstring s \<Longrightarrow> n < length s \<Longrightarrow> s ! n \<noteq> 0"
  by (auto simp: cstring_def in_set_conv_nth)

lemma strstr_match_spec:
  assumes "cstring h" "cstring nd" "n + m \<le> length h" "m \<le> length nd"
  shows "strstr_match h nd n m = Ok (take (length nd - m) (drop (n + m) h) = drop m nd)"
  using assms
proof (induction h nd n m rule: strstr_match.induct)
  case (1 h nd n m)
  show ?case
  proof (cases "m = length nd")
    case True
    then show ?thesis by (subst strstr_match.simps) (simp add: cget_end)
  next
    case False
    with "1.prems" have m: "m < length nd" and c: "nd ! m \<noteq> 0"
      by (simp_all add: cstring_nth)
    then have d: "drop m nd = nd ! m # drop (Suc m) nd" "length nd - m = Suc (length nd - Suc m)"
      by (simp_all add: Cons_nth_drop_Suc)
    show ?thesis
    proof (cases "n + m < length h")
      case True
      then have e: "drop (n + m) h = h ! (n + m) # drop (Suc (n + m)) h"
        by (simp add: Cons_nth_drop_Suc)
      show ?thesis
        by (subst strstr_match.simps)
          (use True m c e d "1.prems" "1.IH" in \<open>auto simp: cget_in\<close>)
    next
      case False
      with "1.prems" have e: "n + m = length h" by simp
      show ?thesis
        by (subst strstr_match.simps) (use e m c d in \<open>auto simp: cget_in cget_end\<close>)
    qed
  qed
qed

lemma strstr_loop_spec:
  assumes "cstring h" "cstring nd" "nd \<noteq> []" "n \<le> length h"
  shows "strstr_loop h nd n = Ok (map_option (\<lambda>k. n + k) (first_occ nd (drop n h)))"
  using assms
proof (induction h nd n rule: strstr_loop.induct)
  case (1 h nd n)
  show ?case
  proof (cases "n = length h")
    case True
    then show ?thesis by (subst strstr_loop.simps) (simp add: cget_end)
  next
    case False
    with "1.prems" have n: "n < length h" and c: "h ! n \<noteq> 0" and nd: "nd ! 0 \<noteq> 0"
      by (simp_all add: cstring_nth)
    then have d: "drop n h = h ! n # drop (Suc n) h"
      by (simp add: Cons_nth_drop_Suc)
    have dn: "drop 0 nd = nd ! 0 # drop (Suc 0) nd"
      using "1.prems" by (metis Cons_nth_drop_Suc length_greater_0_conv)
    have m: "strstr_match h nd n 1 = Ok (take (length nd - 1) (drop (Suc n) h) = drop 1 nd)"
      using strstr_match_spec [of h nd n 1] "1.prems" n by (simp add: Suc_leI)
    have occ: "(take (length nd) (drop n h) = nd) =
        (h ! n = nd ! 0 \<and> take (length nd - 1) (drop (Suc n) h) = drop 1 nd)"
      using dn "1.prems"(3) by (subst d) (cases nd, auto)
    have IH: "strstr_loop h nd (Suc n) = Ok (map_option (\<lambda>k. Suc n + k) (first_occ nd (drop (Suc n) h)))"
      if "h ! n \<noteq> nd ! 0 \<or> strstr_match h nd n 1 = Ok False"
      using that "1.IH" "1.prems" n c by (cases "h ! n = nd ! 0") (auto simp: cget_in)
    show ?thesis
      by (subst strstr_loop.simps)
        (use n c nd "1.prems" m IH occ d in
          \<open>auto simp: cget_in option.map_comp comp_def\<close>)
  qed
qed

lemma avb_strstr_spec:
  "cstring h \<Longrightarrow> cstring nd \<Longrightarrow> nd \<noteq> [] \<Longrightarrow> avb_strstr h nd = Ok (first_occ nd h)"
  using strstr_loop_spec [of h nd 0] by (simp add: avb_strstr_def option.map_ident)

text \<open>\<open>first_occ\<close> is the leftmost position at which the needle occurs.\<close>

lemma first_occ_Some:
  "first_occ nd h = Some k \<Longrightarrow>
     k < length h \<and> take (length nd) (drop k h) = nd \<and> (\<forall>j < k. take (length nd) (drop j h) \<noteq> nd)"
proof (induction nd h arbitrary: k rule: first_occ.induct)
  case (2 nd x xs)
  show ?case
  proof (cases "take (length nd) (x # xs) = nd")
    case False
    with 2 obtain k' where "first_occ nd xs = Some k'" "k = Suc k'" by auto
    with 2 False show ?thesis by (auto simp: less_Suc_eq_0_disj)
  qed (use 2 in auto)
qed simp

lemma first_occ_None:
  "first_occ nd h = None \<Longrightarrow> k < length h \<Longrightarrow> take (length nd) (drop k h) \<noteq> nd"
  by (induction nd h arbitrary: k rule: first_occ.induct) (auto split: if_splits simp: less_Suc_eq_0_disj)

text \<open>
  The reference for \<open>avb_replace\<close>: scan the string once; at each position either the search string
  starts there and is replaced, or the byte is copied.
\<close>

function replace_ref :: "bytes \<Rightarrow> bytes \<Rightarrow> bytes \<Rightarrow> bytes" where
  "replace_ref search rep s =
     (if s = [] then []
      else if search \<noteq> [] \<and> take (length search) s = search
      then rep @ replace_ref search rep (drop (length search) s)
      else hd s # replace_ref search rep (tl s))"
  by pat_completeness auto
termination
  by (relation "measure (\<lambda>(search, rep, s). length s)") (auto simp: neq_Nil_conv)

declare replace_ref.simps [simp del]

lemma replace_ref_Nil [simp]: "replace_ref search rep [] = []"
  by (subst replace_ref.simps) simp

lemma replace_ref_empty_search [simp]: "replace_ref [] rep s = s"
  by (induction s) (subst replace_ref.simps, simp)+

lemma replace_ref_None: "first_occ search s = None \<Longrightarrow> replace_ref search rep s = s"
proof (induction s)
  case (Cons x s)
  then show ?case by (subst replace_ref.simps) (auto split: if_splits)
qed simp

lemma replace_ref_Some:
  "first_occ search s = Some k \<Longrightarrow> search \<noteq> [] \<Longrightarrow>
     replace_ref search rep s = take k s @ rep @ replace_ref search rep (drop (k + length search) s)"
proof (induction s arbitrary: k)
  case (Cons x s)
  show ?case
  proof (cases "take (length search) (x # s) = search")
    case True
    with Cons.prems show ?thesis by (subst replace_ref.simps) auto
  next
    case False
    with Cons.prems obtain k' where k: "first_occ search s = Some k'" "k = Suc k'" by auto
    from False have "replace_ref search rep (x # s) = x # replace_ref search rep s"
      by (subst replace_ref.simps) simp
    with Cons.IH [OF k(1) Cons.prems(2)] k show ?thesis by simp
  qed
qed simp

text \<open>From now on, every request for memory is granted.\<close>

definition malloc_total :: "heap \<Rightarrow> bool" where
  "malloc_total h \<longleftrightarrow> (\<forall>k\<ge>hp_calls h. \<forall>n. hp_alloc h k n \<noteq> None)"

lemma hp_alloc_malloc [simp]: "hp_alloc (snd (avb_malloc n h)) = hp_alloc h"
  by (simp add: avb_malloc_def)

lemma malloc_total_malloc:
  assumes "malloc_total h"
  obtains a h' where "avb_malloc n h = (Some a, h')" "malloc_total h'"
proof -
  from assms obtain a where a: "hp_alloc h (hp_calls h) n = Some a"
    unfolding malloc_total_def by (meson le_refl option.exhaust)
  show ?thesis
    by (rule that [of a "h\<lparr>hp_calls := Suc (hp_calls h)\<rparr>"])
      (use a assms in \<open>auto simp: avb_malloc_def malloc_total_def\<close>)
qed

lemma cstring_take_drop [simp]:
  "cstring s \<Longrightarrow> cstring (take n s)" "cstring s \<Longrightarrow> cstring (drop n s)"
  by (auto simp: cstring_def dest: in_set_takeD in_set_dropD)

lemma cstring_append [simp]: "cstring (s @ t) \<longleftrightarrow> cstring s \<and> cstring t"
  by (auto simp: cstring_def)

lemma cstring_Nil [simp]: "cstring []"
  by (simp add: cstring_def)

text \<open>When no allocation fails, the loop leaves the scanned part replaced and the rest untouched.\<close>

lemma replace_loop_total:
  assumes "cstring s" "cstring search" "search \<noteq> []" "malloc_total h"
  shows "\<exists>rest ret' h'. replace_loop s search rep ret h = Ok (False, rest, ret', h') \<and> malloc_total h' \<and>
     (ret' = None \<longrightarrow> ret = None \<and> rest = s \<and> replace_ref search rep s = s) \<and>
     (\<forall>r'. ret' = Some r' \<longrightarrow>
        r' @ rest = (case ret of None \<Rightarrow> [] | Some r \<Rightarrow> r) @ replace_ref search rep s)"
  using assms
proof (induction s search rep ret h rule: replace_loop.induct)
  case (1 s search rep ret h)
  show ?case
  proof (cases "s = [] \<or> first_occ search s = None")
    case True
    then show ?thesis
      by (subst replace_loop.simps)
        (use "1.prems" in \<open>auto simp: avb_strstr_spec replace_ref_None\<close>)
  next
    case False
    then obtain k where s: "s \<noteq> []" and k: "first_occ search s = Some k" by auto
    let ?r = "case ret of None \<Rightarrow> [] | Some r \<Rightarrow> r"
    let ?n = "(case ret of None \<Rightarrow> 0 | Some r \<Rightarrow> length r) + k + length rep + 1"
    obtain a h' where m: "avb_malloc ?n h = (Some a, h')" "malloc_total h'"
      using malloc_total_malloc [OF "1.prems"(4)] by blast
    have st: "avb_strstr s search = Ok (Some k)"
      using "1.prems" k by (simp add: avb_strstr_spec)
    have IH: "\<exists>rest ret' h''. replace_loop (drop (k + length search) s) search rep
        (Some (?r @ take k s @ rep)) h' = Ok (False, rest, ret', h'') \<and> malloc_total h'' \<and>
        (ret' = None \<longrightarrow> False) \<and>
        (\<forall>r'. ret' = Some r' \<longrightarrow> r' @ rest = (?r @ take k s @ rep) @
            replace_ref search rep (drop (k + length search) s))"
      using "1.IH" [OF s st refl refl refl refl m(1) [symmetric] refl] m(2) "1.prems" by simp
    have step: "replace_loop s search rep ret h =
        replace_loop (drop (k + length search) s) search rep (Some (?r @ take k s @ rep)) h'"
      by (subst replace_loop.simps) (use s k "1.prems" m in \<open>simp add: avb_strstr_spec\<close>)
    show ?thesis
      unfolding step using IH replace_ref_Some [OF k "1.prems"(3), of rep] by fastforce
  qed
qed

lemma strstr_loop_Nil: "cstring s \<Longrightarrow> n \<le> length s \<Longrightarrow> strstr_loop s [] n = Ok None"
proof (induction s "[] :: bytes" n rule: strstr_loop.induct)
  case (1 s n)
  show ?case
  proof (cases "n = length s")
    case True
    then show ?thesis by (subst strstr_loop.simps) (simp add: cget_end)
  next
    case False
    with 1 show ?thesis by (subst strstr_loop.simps) (simp add: cget_in cstring_nth)
  qed
qed

lemma avb_strdup_total:
  assumes "malloc_total h"
  shows "\<exists>h'. avb_strdup s h = (Some s, h') \<and> malloc_total h'"
proof -
  obtain a h' where "avb_malloc (length s + 1) h = (Some a, h')" "malloc_total h'"
    using malloc_total_malloc [OF assms] by blast
  then show ?thesis by (simp add: avb_strdup_def)
qed

lemma avb_replace_total:
  assumes "cstring s" "cstring search" "malloc_total h"
  shows "\<exists>h'. avb_replace s search rep h = Ok (Some (replace_ref search rep s), h') \<and> malloc_total h'"
proof (cases "search = []")
  case True
  then have "replace_loop s search rep None h = Ok (False, s, None, h)"
    using strstr_loop_Nil [OF assms(1), of 0]
    by (subst replace_loop.simps) (simp add: avb_strstr_def)
  with True show ?thesis
    using avb_strdup_total [OF assms(3)] by (auto simp: avb_replace_def)
next
  case False
  from replace_loop_total [OF assms(1,2) False assms(3), of rep None] obtain rest ret' h' where
    l: "replace_loop s search rep None h = Ok (False, rest, ret', h')" "malloc_total h'"
      "ret' = None \<longrightarrow> rest = s \<and> replace_ref search rep s = s"
      "\<forall>r'. ret' = Some r' \<longrightarrow> r' @ rest = replace_ref search rep s"
    by auto
  show ?thesis
  proof (cases ret')
    case None
    with l show ?thesis
      using avb_strdup_total [OF l(2), of s] by (auto simp: avb_replace_def)
  next
    case (Some r)
    obtain a h'' where "avb_malloc (length r + length rest + 1) h' = (Some a, h'')" "malloc_total h''"
      using malloc_total_malloc [OF l(2)] by blast
    with l Some show ?thesis by (auto simp: avb_replace_def)
  qed
qed

section \<open>Hexadecimal printing, concatenation, upper case\<close>

definition hex_value :: "u8 \<Rightarrow> u8 option" where
  "hex_value c = (if 0x30 \<le> c \<and> c \<le> 0x39 then Some (c - 0x30)
     else if 0x61 \<le> c \<and> c \<le> 0x66 then Some (c - 0x61 + 10) else None)"

fun unhex :: "bytes \<Rightarrow> bytes option" where
  "unhex [] = Some []"
| "unhex [c] = None"
| "unhex (c # d # cs) = (case (hex_value c, hex_value d, unhex cs) of
     (Some a, Some b, Some bs) \<Rightarrow> Some ((push_bit 4 a OR b) # bs) | _ \<Rightarrow> None)"

lemma hex_digits_eq:
  "hex_digits = [0x30, 0x31, 0x32, 0x33, 0x34, 0x35, 0x36, 0x37, 0x38, 0x39,
     0x61, 0x62, 0x63, 0x64, 0x65, 0x66]"
  by (simp add: hex_digits_def str_def of_char_def)

lemma hex_value_digit: "n < 16 \<Longrightarrow> hex_value (hex_digits ! n) = Some (of_nat n)"
proof -
  have "list_all (\<lambda>n. hex_value (hex_digits ! n) = Some (of_nat n)) [0..<16]"
    by (simp add: hex_digits_eq hex_value_def upt_conv_Cons)
  then show "n < 16 \<Longrightarrow> hex_value (hex_digits ! n) = Some (of_nat n)"
    by (simp add: list_all_iff)
qed

lemma and_0xf: "(b :: u8) AND 0x0f = take_bit 4 b"
  by (simp add: take_bit_eq_mask mask_eq_exp_minus_1)

lemma nibbles: "push_bit 4 (drop_bit 4 b) OR (b AND 0x0f) = (b :: u8)"
  unfolding and_0xf by (rule bit_word_eqI) (auto simp: bit_simps)

lemma hex_byte_decode:
  "hex_value (hex_digits ! unat (drop_bit 4 b)) = Some (drop_bit 4 b)"
  "hex_value (hex_digits ! unat (b AND 0x0f)) = Some (b AND 0x0f)"
proof -
  have "unat (drop_bit 4 b) < 16"
    using unat_u8_less [of b]
    by (simp add: unsigned_drop_bit_eq drop_bit_eq_div [where ?'a = nat] take_bit_eq_mod)
  then show "hex_value (hex_digits ! unat (drop_bit 4 b)) = Some (drop_bit 4 b)"
    by (simp add: hex_value_digit)
  have "unat (b AND 0x0f) < 16"
    by (simp add: and_0xf unsigned_take_bit_eq take_bit_eq_mod [where ?'a = nat])
  then show "hex_value (hex_digits ! unat (b AND 0x0f)) = Some (b AND 0x0f)"
    by (simp add: hex_value_digit)
qed

lemma unhex_bin2hex: "unhex (bin2hex_bytes data) = Some data"
  by (induction data) (simp_all add: bin2hex_bytes_def hex_byte_decode nibbles)

lemma length_bin2hex [simp]: "length (bin2hex_bytes data) = 2 * length data"
  by (induction data) (simp_all add: bin2hex_bytes_def)

lemma strdupv_collect_Ok:
  assumes "num + length strs < 32" "unat tot + length (concat strs) < 2 ^ 64"
  shows "strdupv_collect strs num tot = Ok (tot + of_nat (length (concat strs)))"
  using assms
proof (induction strs num tot rule: strdupv_collect.induct)
  case (2 s strs num tot)
  let ?t = "tot + of_nat (length s)"
  have l: "length s < 2 ^ 64" using "2.prems"(2) by simp
  then have s: "unat (of_nat (length s) :: u64) = length s"
    by (simp add: unat_of_nat take_bit_nat_eq_self)
  then have t: "avb_safe_add_to tot (of_nat (length s)) = (True, ?t)"
    using "2.prems"(2) by (simp add: avb_safe_add_to_spec)
  then have "unat ?t = unat tot + length s"
    using avb_safe_add_to_True s by metis
  with "2.IH" [OF t [symmetric]] "2.prems" t show ?case
    by (simp add: AVB_STRDUPV_MAX_NUM_STRINGS_def algebra_simps)
qed simp

lemma avb_uppercase_idem: "avb_uppercase (avb_uppercase s) = avb_uppercase s"
proof (induction s)
  case (Cons c s)
  have "\<not> (c - 0x20 \<le> 0x7A \<and> c - 0x20 \<ge> 0x61) \<and> c - 0x20 \<noteq> 0" if "c \<le> 0x7A" "c \<ge> 0x61"
  proof -
    have "unat c \<le> 122" "97 \<le> unat c" using that by (simp_all add: word_le_nat_alt)
    moreover then have "unat (c - 0x20) = unat c - 32"
      by (simp add: unat_sub word_le_nat_alt)
    ultimately show ?thesis by (auto simp: word_le_nat_alt)
  qed
  with Cons show ?case by auto
qed simp

end
