(* ===== verification/Avb_Ops.thy ===== *)
theory Avb_Ops
  imports Avb_Util
begin

text \<open>
  The interface between libavb and its host, \<open>avb_ops.h\<close>: the result codes, the record of operations, and
  the programs that call them. A program runs in a system made of the heap and of the host's world, on
  which the operations act; it ends with a value or with a fault. \<open>post\<close> is the triple used to reason
  about the value a program returns.
\<close>

section \<open>Definitions\<close>

datatype AvbIOResult =
    AVB_IO_RESULT_OK
  | AVB_IO_RESULT_ERROR_OOM
  | AVB_IO_RESULT_ERROR_IO
  | AVB_IO_RESULT_ERROR_NO_SUCH_PARTITION
  | AVB_IO_RESULT_ERROR_RANGE_OUTSIDE_PARTITION
  | AVB_IO_RESULT_ERROR_NO_SUCH_VALUE
  | AVB_IO_RESULT_ERROR_INVALID_VALUE_SIZE
  | AVB_IO_RESULT_ERROR_INSUFFICIENT_SPACE

definition AVB_NPV_PERSISTENT_DIGEST_PREFIX :: bytes where
  "AVB_NPV_PERSISTENT_DIGEST_PREFIX = str ''avb.persistent_digest.''"

definition AVB_NPV_MANAGED_VERITY_MODE :: bytes where
  "AVB_NPV_MANAGED_VERITY_MODE = str ''avb.managed_verity_mode''"

text \<open>
  The operations. A field is \<open>None\<close> when the function pointer is null. Names are the contents of
  NUL-terminated strings; an output buffer is returned as the bytes written at its start, an output
  variable as its value after the call (for \<open>validate_public_key_for_partition\<close>, which may leave the
  rollback index location alone, the value before the call is an argument). The libraries' own fields
  \<open>user_data\<close>, \<open>ab_ops\<close> and \<open>atx_ops\<close> are the host's and part of its world.
\<close>

record 'w AvbOps =
  read_from_partition :: "(bytes \<Rightarrow> int \<Rightarrow> u64 \<Rightarrow> 'w \<Rightarrow> ((AvbIOResult \<times> bytes \<times> u64) \<times> 'w) res) option"
  get_preloaded_partition ::
    "(bytes \<Rightarrow> u64 \<Rightarrow> 'w \<Rightarrow> ((AvbIOResult \<times> (u64 \<times> bytes) option \<times> u64) \<times> 'w) res) option"
  write_to_partition :: "(bytes \<Rightarrow> int \<Rightarrow> u64 \<Rightarrow> bytes \<Rightarrow> 'w \<Rightarrow> (AvbIOResult \<times> 'w) res) option"
  validate_vbmeta_public_key ::
    "(bytes \<Rightarrow> u64 \<Rightarrow> bytes option \<Rightarrow> u64 \<Rightarrow> 'w \<Rightarrow> ((AvbIOResult \<times> bool) \<times> 'w) res) option"
  read_rollback_index :: "(u64 \<Rightarrow> 'w \<Rightarrow> ((AvbIOResult \<times> u64) \<times> 'w) res) option"
  write_rollback_index :: "(u64 \<Rightarrow> u64 \<Rightarrow> 'w \<Rightarrow> (AvbIOResult \<times> 'w) res) option"
  read_is_device_unlocked :: "('w \<Rightarrow> ((AvbIOResult \<times> bool) \<times> 'w) res) option"
  get_unique_guid_for_partition :: "(bytes \<Rightarrow> u64 \<Rightarrow> 'w \<Rightarrow> ((AvbIOResult \<times> bytes) \<times> 'w) res) option"
  get_size_of_partition :: "(bytes \<Rightarrow> 'w \<Rightarrow> ((AvbIOResult \<times> u64) \<times> 'w) res) option"
  read_persistent_value :: "(bytes \<Rightarrow> u64 \<Rightarrow> 'w \<Rightarrow> ((AvbIOResult \<times> bytes \<times> u64) \<times> 'w) res) option"
  write_persistent_value :: "(bytes \<Rightarrow> u64 \<Rightarrow> bytes \<Rightarrow> 'w \<Rightarrow> (AvbIOResult \<times> 'w) res) option"
  validate_public_key_for_partition ::
    "(bytes \<Rightarrow> bytes \<Rightarrow> u64 \<Rightarrow> bytes option \<Rightarrow> u64 \<Rightarrow> u32 \<Rightarrow> 'w \<Rightarrow> ((AvbIOResult \<times> bool \<times> u32) \<times> 'w) res) option"

section \<open>Programs\<close>

record 'w sys =
  sy_heap :: heap
  sy_world :: 'w

type_synonym ('a, 'w) act = "'w sys \<Rightarrow> ('a \<times> 'w sys) res"

definition retn :: "'a \<Rightarrow> ('a, 'w) act" where
  "retn x s = Ok (x, s)"

definition andthen :: "('a, 'w) act \<Rightarrow> ('a \<Rightarrow> ('b, 'w) act) \<Rightarrow> ('b, 'w) act" where
  "andthen m f s = bnd (m s) (\<lambda>(x, s). f x s)"

text \<open>A computation without effects, an allocation, a call of an operation, an assertion.\<close>

definition pure :: "'a res \<Rightarrow> ('a, 'w) act" where
  "pure r s = bnd r (\<lambda>x. Ok (x, s))"

definition heap_act :: "(heap \<Rightarrow> ('a \<times> heap) res) \<Rightarrow> ('a, 'w) act" where
  "heap_act f s = bnd (f (sy_heap s)) (\<lambda>(x, h). Ok (x, s\<lparr>sy_heap := h\<rparr>))"

definition alloc :: "(heap \<Rightarrow> 'a \<times> heap) \<Rightarrow> ('a, 'w) act" where
  "alloc f = heap_act (\<lambda>h. Ok (f h))"

definition call :: "'f option \<Rightarrow> ('f \<Rightarrow> 'w \<Rightarrow> ('a \<times> 'w) res) \<Rightarrow> ('a, 'w) act" where
  "call op arg s = deref op (\<lambda>f. bnd (arg f (sy_world s)) (\<lambda>(x, w). Ok (x, s\<lparr>sy_world := w\<rparr>)))"

definition asserting :: "bool \<Rightarrow> ('a, 'w) act \<Rightarrow> ('a, 'w) act" where
  "asserting b m s = avb_assert b (m s)"

text \<open>A buffer after a callee wrote \<open>data\<close> at its start.\<close>

definition filled :: "bytes \<Rightarrow> bytes \<Rightarrow> bytes res" where
  "filled buf data = (if length data \<le> length buf then Ok (data @ drop (length data) buf) else Fault BadAccess)"

section \<open>Programs that end\<close>

lemma andthen_eq_Ok:
  "andthen m f s = Ok (y, s') \<longleftrightarrow> (\<exists>x t. m s = Ok (x, t) \<and> f x t = Ok (y, s'))"
  by (auto simp: andthen_def bnd_eq_Ok)

lemma pure_eq_Ok: "pure r s = Ok (x, s') \<longleftrightarrow> r = Ok x \<and> s' = s"
  by (auto simp: pure_def bnd_eq_Ok)

lemma heap_act_eq_Ok:
  "heap_act g s = Ok (x, s') \<longleftrightarrow> (\<exists>h. g (sy_heap s) = Ok (x, h) \<and> s' = s\<lparr>sy_heap := h\<rparr>)"
  by (auto simp: heap_act_def bnd_eq_Ok)

lemma call_eq_Ok:
  "call op arg s = Ok (x, s') \<longleftrightarrow>
    (\<exists>g w. op = Some g \<and> arg g (sy_world s) = Ok (x, w) \<and> s' = s\<lparr>sy_world := w\<rparr>)"
  by (auto simp: call_def bnd_eq_Ok deref_eq_Ok)

section \<open>The value a program returns\<close>

text \<open>
  The triple: from a world in \<open>I\<close>, a program that ends leaves the world in \<open>I\<close> and returns a value in \<open>Q\<close>.
\<close>

definition post :: "('w \<Rightarrow> bool) \<Rightarrow> ('a, 'w) act \<Rightarrow> ('a \<Rightarrow> bool) \<Rightarrow> bool" where
  "post I m Q \<longleftrightarrow> (\<forall>s x s'. I (sy_world s) \<longrightarrow> m s = Ok (x, s') \<longrightarrow> I (sy_world s') \<and> Q x)"

named_theorems avb_post \<open>verification rules for \<open>post\<close>\<close>
named_theorems avb_calm \<open>programs that keep the invariant, whatever they return\<close>

lemma postD: "post I m Q \<Longrightarrow> I (sy_world s) \<Longrightarrow> m s = Ok (x, s') \<Longrightarrow> I (sy_world s') \<and> Q x"
  unfolding post_def by blast

lemma post_weaken: "post I m P \<Longrightarrow> (\<And>x. P x \<Longrightarrow> Q x) \<Longrightarrow> post I m Q"
  unfolding post_def by blast

lemma post_retn [avb_post]: "Q x \<Longrightarrow> post I (retn x) Q"
  by (simp add: post_def retn_def)

lemma post_Fault [avb_post]: "post I (pure (Fault e)) Q"
  by (simp add: post_def pure_def)

lemma post_andthen: "post I m P \<Longrightarrow> (\<And>x. P x \<Longrightarrow> post I (f x) Q) \<Longrightarrow> post I (andthen m f) Q"
  unfolding post_def andthen_eq_Ok by blast

text \<open>When nothing is asked of the first program.\<close>

lemma post_seq: "post I m (\<lambda>_. True) \<Longrightarrow> (\<And>x. post I (f x) Q) \<Longrightarrow> post I (andthen m f) Q"
  by (rule post_andthen)

lemma post_pure [avb_post]: "(\<And>x. r = Ok x \<Longrightarrow> post I (f x) Q) \<Longrightarrow> post I (andthen (pure r) f) Q"
  unfolding post_def andthen_eq_Ok pure_eq_Ok by blast

lemma post_heap_act [avb_post]:
  "(\<And>h x h'. g h = Ok (x, h') \<Longrightarrow> post I (f x) Q) \<Longrightarrow> post I (andthen (heap_act g) f) Q"
  by (rule post_andthen [of _ _ "\<lambda>x. \<exists>h h'. g h = Ok (x, h')"]) (auto simp: post_def heap_act_eq_Ok)

lemma post_alloc [avb_post]: "(\<And>h x h'. g h = (x, h') \<Longrightarrow> post I (f x) Q) \<Longrightarrow> post I (andthen (alloc g) f) Q"
  unfolding alloc_def by (rule post_heap_act) simp

lemma post_call_last:
  assumes "\<And>g w x w'. op = Some g \<Longrightarrow> I w \<Longrightarrow> arg g w = Ok (x, w') \<Longrightarrow> I w' \<and> Q x"
  shows "post I (call op arg) Q"
  unfolding post_def call_eq_Ok using assms by auto

lemma post_call:
  assumes "\<And>g w x w'. op = Some g \<Longrightarrow> I w \<Longrightarrow> arg g w = Ok (x, w') \<Longrightarrow> I w'"
    and "\<And>g w x w'. op = Some g \<Longrightarrow> I w \<Longrightarrow> arg g w = Ok (x, w') \<Longrightarrow> post I (f x) Q"
  shows "post I (andthen (call op arg) f) Q"
proof -
  have "post I (call op arg) (\<lambda>x. post I (f x) Q)"
    by (rule post_call_last) (use assms in blast)
  then show ?thesis by (rule post_andthen)
qed

text \<open>A program that ends with another one's value.\<close>

lemma andthen_retn_last: "andthen m retn = m"
  by (rule ext) (simp add: andthen_def retn_def bnd_def split: res.split prod.split)

lemma post_last: "post I (andthen m retn) Q \<Longrightarrow> post I m Q"
  by (simp add: andthen_retn_last)

lemma post_asserting [avb_post]: "(b \<Longrightarrow> post I m Q) \<Longrightarrow> post I (asserting b m) Q"
  by (auto simp: post_def asserting_def avb_assert_eq_Ok)

lemma post_if [avb_post]: "(b \<Longrightarrow> post I m Q) \<Longrightarrow> (\<not> b \<Longrightarrow> post I m' Q) \<Longrightarrow> post I (if b then m else m') Q"
  by simp

lemma post_option [avb_post]:
  "(v = None \<Longrightarrow> post I m Q) \<Longrightarrow> (\<And>x. v = Some x \<Longrightarrow> post I (f x) Q) \<Longrightarrow>
    post I (case v of None \<Rightarrow> m | Some x \<Rightarrow> f x) Q"
  by (cases v) simp_all

lemma post_sum [avb_post]:
  "(\<And>x. v = Inl x \<Longrightarrow> post I (f x) Q) \<Longrightarrow> (\<And>y. v = Inr y \<Longrightarrow> post I (g y) Q) \<Longrightarrow>
    post I (case v of Inl x \<Rightarrow> f x | Inr y \<Rightarrow> g y) Q"
  by (cases v) simp_all

lemma post_prod [avb_post]: "(\<And>x y. p = (x, y) \<Longrightarrow> post I (f x y) Q) \<Longrightarrow> post I (case p of (x, y) \<Rightarrow> f x y) Q"
  by (cases p) simp

lemma post_let [avb_post]: "(\<And>x. x = t \<Longrightarrow> post I (f x) Q) \<Longrightarrow> post I (let x = t in f x) Q"
  by simp

lemma andthen_retn [simp]: "andthen (retn x) f = f x"
  by (rule ext) (simp add: andthen_def retn_def)

lemma andthen_pure: "andthen (pure (Ok x)) f = f x" "andthen (pure (Fault e)) f = (\<lambda>_. Fault e)"
  by (simp_all add: fun_eq_iff andthen_def pure_def)

lemma andthen_assoc: "andthen (andthen m f) g = andthen m (\<lambda>x. andthen (f x) g)"
  by (auto simp: fun_eq_iff andthen_def bnd_def split: res.split prod.split)

lemma andthen_asserting: "andthen (asserting b m) f = asserting b (andthen m f)"
  by (simp add: fun_eq_iff andthen_def asserting_def avb_assert_def)

text \<open>The rules for a first program with cases of its own.\<close>

lemma post_nested [avb_post]:
  "post I (andthen m (\<lambda>x. andthen (f x) g)) Q \<Longrightarrow> post I (andthen (andthen m f) g) Q"
  by (simp add: andthen_assoc)

lemma post_first [avb_post]:
  "(c \<Longrightarrow> post I (andthen m g) Q) \<Longrightarrow> post I (andthen (asserting c m) g) Q"
  "(c \<Longrightarrow> post I (andthen m g) Q) \<Longrightarrow> (\<not> c \<Longrightarrow> post I (andthen m' g) Q) \<Longrightarrow>
    post I (andthen (if c then m else m') g) Q"
  "(v = None \<Longrightarrow> post I (andthen m g) Q) \<Longrightarrow> (\<And>x. v = Some x \<Longrightarrow> post I (andthen (k x) g) Q) \<Longrightarrow>
    post I (andthen (case v of None \<Rightarrow> m | Some x \<Rightarrow> k x) g) Q"
  "(\<And>x y. p = (x, y) \<Longrightarrow> post I (andthen (l x y) g) Q) \<Longrightarrow> post I (andthen (case p of (x, y) \<Rightarrow> l x y) g) Q"
  "post I (g z) Q \<Longrightarrow> post I (andthen (retn z) g) Q"
  "post I (andthen (pure (Fault e)) g) Q"
  by (simp_all add: andthen_asserting post_asserting andthen_pure post_Fault split: option.split prod.split)
    (simp add: post_def)

lemma andthen_cong [fundef_cong]:
  "m s = m' s \<Longrightarrow> (\<And>x t. m' s = Ok (x, t) \<Longrightarrow> f x t = g x t) \<Longrightarrow> andthen m f s = andthen m' g s"
  by (auto simp: andthen_def intro: bnd_cong)

section \<open>The host\<close>

text \<open>
  What a client relies on when it reasons about a host's answers: the operations it calls keep an
  invariant of the host's world. With \<open>\<lambda>w. w = w0\<close> it says that the host only reads.
\<close>

locale host =
  fixes ops :: "'w AvbOps" and I :: "'w \<Rightarrow> bool"
  assumes
    read_keeps: "read_from_partition ops = Some fread \<Longrightarrow> I w \<Longrightarrow> fread p ofs n w = Ok (xread, w') \<Longrightarrow> I w'"
    and preloaded_keeps: "get_preloaded_partition ops = Some fpreloaded \<Longrightarrow> I w \<Longrightarrow> fpreloaded p n w = Ok (xpreloaded, w') \<Longrightarrow> I w'"
    and validate_keeps: "validate_vbmeta_public_key ops = Some fvalidate \<Longrightarrow> I w \<Longrightarrow> fvalidate k n m l w = Ok (xvalidate, w') \<Longrightarrow> I w'"
    and rollback_keeps: "read_rollback_index ops = Some frollback \<Longrightarrow> I w \<Longrightarrow> frollback loc w = Ok (xrollback, w') \<Longrightarrow> I w'"
    and unlocked_keeps: "read_is_device_unlocked ops = Some funlocked \<Longrightarrow> I w \<Longrightarrow> funlocked w = Ok (xunlocked, w') \<Longrightarrow> I w'"
    and guid_keeps: "get_unique_guid_for_partition ops = Some fguid \<Longrightarrow> I w \<Longrightarrow> fguid p n w = Ok (xguid, w') \<Longrightarrow> I w'"
    and size_keeps: "get_size_of_partition ops = Some fsize \<Longrightarrow> I w \<Longrightarrow> fsize p w = Ok (xsize, w') \<Longrightarrow> I w'"
    and read_persistent_keeps: "read_persistent_value ops = Some fread_persistent \<Longrightarrow> I w \<Longrightarrow> fread_persistent p n w = Ok (xread_persistent, w') \<Longrightarrow> I w'"
    and write_persistent_keeps: "write_persistent_value ops = Some fwrite_persistent \<Longrightarrow> I w \<Longrightarrow> fwrite_persistent p n d w = Ok (xwrite_persistent, w') \<Longrightarrow> I w'"
    and validate_for_keeps: "validate_public_key_for_partition ops = Some fvalidate_for \<Longrightarrow> I w \<Longrightarrow> fvalidate_for p k n m l loc32 w = Ok (xvalidate_for, w') \<Longrightarrow> I w'"
begin

lemma post_read [avb_post]:
  "(\<And>g w x w'. read_from_partition ops = Some g \<Longrightarrow> I w \<Longrightarrow> g p ofs n w = Ok (x, w') \<Longrightarrow> post I (f x) Q) \<Longrightarrow>
    post I (andthen (call (read_from_partition ops) (\<lambda>g. g p ofs n)) f) Q"
  by (rule post_call) (use read_keeps in blast)+

lemma post_preloaded [avb_post]:
  "(\<And>g w x w'. get_preloaded_partition ops = Some g \<Longrightarrow> I w \<Longrightarrow> g p n w = Ok (x, w') \<Longrightarrow> post I (f x) Q) \<Longrightarrow>
    post I (andthen (call (get_preloaded_partition ops) (\<lambda>g. g p n)) f) Q"
  by (rule post_call) (use preloaded_keeps in blast)+

lemma post_validate [avb_post]:
  "(\<And>g w x w'. validate_vbmeta_public_key ops = Some g \<Longrightarrow> I w \<Longrightarrow> g k n m l w = Ok (x, w') \<Longrightarrow> post I (f x) Q) \<Longrightarrow>
    post I (andthen (call (validate_vbmeta_public_key ops) (\<lambda>g. g k n m l)) f) Q"
  by (rule post_call) (use validate_keeps in blast)+

lemma post_rollback [avb_post]:
  "(\<And>g w x w'. read_rollback_index ops = Some g \<Longrightarrow> I w \<Longrightarrow> g loc w = Ok (x, w') \<Longrightarrow> post I (f x) Q) \<Longrightarrow>
    post I (andthen (call (read_rollback_index ops) (\<lambda>g. g loc)) f) Q"
  by (rule post_call) (use rollback_keeps in blast)+

lemma post_unlocked [avb_post]:
  "(\<And>g w x w'. read_is_device_unlocked ops = Some g \<Longrightarrow> I w \<Longrightarrow> g w = Ok (x, w') \<Longrightarrow> post I (f x) Q) \<Longrightarrow>
    post I (andthen (call (read_is_device_unlocked ops) (\<lambda>g. g)) f) Q"
  by (rule post_call) (use unlocked_keeps in blast)+

lemma post_guid [avb_post]:
  "(\<And>g w x w'. get_unique_guid_for_partition ops = Some g \<Longrightarrow> I w \<Longrightarrow> g p n w = Ok (x, w') \<Longrightarrow> post I (f x) Q) \<Longrightarrow>
    post I (andthen (call (get_unique_guid_for_partition ops) (\<lambda>g. g p n)) f) Q"
  by (rule post_call) (use guid_keeps in blast)+

lemma post_size [avb_post]:
  "(\<And>g w x w'. get_size_of_partition ops = Some g \<Longrightarrow> I w \<Longrightarrow> g p w = Ok (x, w') \<Longrightarrow> post I (f x) Q) \<Longrightarrow>
    post I (andthen (call (get_size_of_partition ops) (\<lambda>g. g p)) f) Q"
  by (rule post_call) (use size_keeps in blast)+

lemma post_read_persistent [avb_post]:
  "(\<And>g w x w'. read_persistent_value ops = Some g \<Longrightarrow> I w \<Longrightarrow> g p n w = Ok (x, w') \<Longrightarrow> post I (f x) Q) \<Longrightarrow>
    post I (andthen (call (read_persistent_value ops) (\<lambda>g. g p n)) f) Q"
  by (rule post_call) (use read_persistent_keeps in blast)+

lemma post_write_persistent [avb_post]:
  "(\<And>g w x w'. write_persistent_value ops = Some g \<Longrightarrow> I w \<Longrightarrow> g p n d w = Ok (x, w') \<Longrightarrow> post I (f x) Q) \<Longrightarrow>
    post I (andthen (call (write_persistent_value ops) (\<lambda>g. g p n d)) f) Q"
  by (rule post_call) (use write_persistent_keeps in blast)+

lemma post_validate_for [avb_post]:
  "(\<And>g w x w'. validate_public_key_for_partition ops = Some g \<Longrightarrow> I w \<Longrightarrow> g p k n m l loc w = Ok (x, w') \<Longrightarrow> post I (f x) Q) \<Longrightarrow>
    post I (andthen (call (validate_public_key_for_partition ops) (\<lambda>g. g p k n m l loc)) f) Q"
  by (rule post_call) (use validate_for_keeps in blast)+

end

end
