(* ===== verification/Avb_Vbmeta_Header.thy ===== *)
theory Avb_Vbmeta_Header
  imports Avb_Util
begin

text \<open>
  The packed on-disk structs that every part of libavb reads: the vbmeta image header
  (\<open>avb_vbmeta_image.h\<close>) and the footer (\<open>avb_footer.h\<close>), their native loads from memory, and the
  conversions to host byte order (\<open>avb_vbmeta_image.c\<close>, \<open>avb_footer.c\<close>).
\<close>

section \<open>The vbmeta image header\<close>

definition AVB_VBMETA_IMAGE_HEADER_SIZE :: nat where
  "AVB_VBMETA_IMAGE_HEADER_SIZE = 256"

definition AVB_MAGIC :: bytes where
  "AVB_MAGIC = str ''AVB0''"

definition AVB_MAGIC_LEN :: nat where
  "AVB_MAGIC_LEN = 4"

definition AVB_RELEASE_STRING_SIZE :: nat where
  "AVB_RELEASE_STRING_SIZE = 48"

record AvbVBMetaImageHeader =
  magic :: bytes
  required_libavb_version_major :: u32
  required_libavb_version_minor :: u32
  authentication_data_block_size :: u64
  auxiliary_data_block_size :: u64
  algorithm_type :: u32
  hash_offset :: u64
  hash_size :: u64
  signature_offset :: u64
  signature_size :: u64
  public_key_offset :: u64
  public_key_size :: u64
  public_key_metadata_offset :: u64
  public_key_metadata_size :: u64
  descriptors_offset :: u64
  descriptors_size :: u64
  rollback_index :: u64
  flags :: u32
  reserved0 :: bytes
  release_string :: bytes
  reserved :: bytes

text \<open>The struct at a pointer, its integer fields as the host loads them.\<close>

definition load_AvbVBMetaImageHeader :: "bytes \<Rightarrow> AvbVBMetaImageHeader res" where
  "load_AvbVBMetaImageHeader m =
     (if length m < AVB_VBMETA_IMAGE_HEADER_SIZE then Fault BadAccess
      else Ok \<lparr>magic = take 4 m,
        required_libavb_version_major = load32 m 4,
        required_libavb_version_minor = load32 m 8,
        authentication_data_block_size = load64 m 12,
        auxiliary_data_block_size = load64 m 20,
        algorithm_type = load32 m 28,
        hash_offset = load64 m 32,
        hash_size = load64 m 40,
        signature_offset = load64 m 48,
        signature_size = load64 m 56,
        public_key_offset = load64 m 64,
        public_key_size = load64 m 72,
        public_key_metadata_offset = load64 m 80,
        public_key_metadata_size = load64 m 88,
        descriptors_offset = load64 m 96,
        descriptors_size = load64 m 104,
        rollback_index = load64 m 112,
        flags = load32 m 120,
        reserved0 = take 4 (drop 124 m),
        release_string = take AVB_RELEASE_STRING_SIZE (drop 128 m),
        reserved = take 80 (drop 176 m)\<rparr>)"

definition avb_vbmeta_image_header_to_host_byte_order ::
    "AvbVBMetaImageHeader \<Rightarrow> AvbVBMetaImageHeader" where
  "avb_vbmeta_image_header_to_host_byte_order src =
     (let dest = src in dest
      \<lparr>required_libavb_version_major := avb_be32toh (required_libavb_version_major dest),
       required_libavb_version_minor := avb_be32toh (required_libavb_version_minor dest),
       authentication_data_block_size := avb_be64toh (authentication_data_block_size dest),
       auxiliary_data_block_size := avb_be64toh (auxiliary_data_block_size dest),
       algorithm_type := avb_be32toh (algorithm_type dest),
       hash_offset := avb_be64toh (hash_offset dest),
       hash_size := avb_be64toh (hash_size dest),
       signature_offset := avb_be64toh (signature_offset dest),
       signature_size := avb_be64toh (signature_size dest),
       public_key_offset := avb_be64toh (public_key_offset dest),
       public_key_size := avb_be64toh (public_key_size dest),
       public_key_metadata_offset := avb_be64toh (public_key_metadata_offset dest),
       public_key_metadata_size := avb_be64toh (public_key_metadata_size dest),
       descriptors_offset := avb_be64toh (descriptors_offset dest),
       descriptors_size := avb_be64toh (descriptors_size dest),
       rollback_index := avb_be64toh (rollback_index dest),
       flags := avb_be32toh (flags dest)\<rparr>)"

text \<open>Flag bits of \<open>AvbVBMetaImageFlags\<close>.\<close>

definition AVB_VBMETA_IMAGE_FLAGS_HASHTREE_DISABLED :: u32 where
  "AVB_VBMETA_IMAGE_FLAGS_HASHTREE_DISABLED = push_bit 0 1"

definition AVB_VBMETA_IMAGE_FLAGS_VERIFICATION_DISABLED :: u32 where
  "AVB_VBMETA_IMAGE_FLAGS_VERIFICATION_DISABLED = push_bit 1 1"

section \<open>The footer\<close>

definition AVB_FOOTER_MAGIC :: bytes where
  "AVB_FOOTER_MAGIC = str ''AVBf''"

definition AVB_FOOTER_MAGIC_LEN :: nat where
  "AVB_FOOTER_MAGIC_LEN = 4"

definition AVB_FOOTER_SIZE :: nat where
  "AVB_FOOTER_SIZE = 64"

definition AVB_FOOTER_VERSION_MAJOR :: u32 where
  "AVB_FOOTER_VERSION_MAJOR = 1"

record AvbFooter =
  ft_magic :: bytes
  version_major :: u32
  version_minor :: u32
  original_image_size :: u64
  vbmeta_offset :: u64
  vbmeta_size :: u64
  ft_reserved :: bytes

definition load_AvbFooter :: "bytes \<Rightarrow> AvbFooter res" where
  "load_AvbFooter m =
     (if length m < AVB_FOOTER_SIZE then Fault BadAccess
      else Ok \<lparr>ft_magic = take 4 m,
        version_major = load32 m 4,
        version_minor = load32 m 8,
        original_image_size = load64 m 12,
        vbmeta_offset = load64 m 20,
        vbmeta_size = load64 m 28,
        ft_reserved = take 28 (drop 36 m)\<rparr>)"

definition avb_footer_validate_and_byteswap :: "AvbFooter \<Rightarrow> (bool \<times> AvbFooter) res" where
  "avb_footer_validate_and_byteswap src =
     (let dest = src;
          dest = dest\<lparr>version_major := avb_be32toh (version_major dest),
                      version_minor := avb_be32toh (version_minor dest),
                      original_image_size := avb_be64toh (original_image_size dest),
                      vbmeta_offset := avb_be64toh (vbmeta_offset dest),
                      vbmeta_size := avb_be64toh (vbmeta_size dest)\<rparr>
      in bnd (avb_safe_memcmp (ft_magic dest) AVB_FOOTER_MAGIC AVB_FOOTER_MAGIC_LEN) (\<lambda>c.
           if c \<noteq> 0 then Ok (False, dest)
           else if version_major dest > AVB_FOOTER_VERSION_MAJOR then Ok (False, dest)
           else Ok (True, dest)))"

section \<open>Writing the structs back\<close>

text \<open>The on-disk encoding of the footer, the inverse of load and byte swap.\<close>

definition be_bytes :: "nat \<Rightarrow> 'a::len word \<Rightarrow> bytes" where
  "be_bytes n x = map (byte_at x) (rev [0..<n])"

lemma length_be_bytes [simp]: "length (be_bytes n x) = n"
  by (simp add: be_bytes_def)

lemma be_nat_be_bytes: "be_nat (be_bytes n x) = unat x mod 256 ^ n"
  by (simp add: be_bytes_def be_nat_bytes_of)

lemma be32toh_be_bytes:
  "take 4 (drop i m) = be_bytes 4 (x :: u32) \<Longrightarrow> avb_be32toh (load32 m i) = x"
proof -
  assume a: "take 4 (drop i m) = be_bytes 4 x"
  then have "length (take 4 (drop i m)) = 4" by simp
  then have "i + 4 \<le> length m" by (simp add: min_def split: if_splits)
  then have "unat (avb_be32toh (load32 m i)) = unat x"
    using unat_u32_less [of x] by (simp add: be32toh_load32 a be_nat_be_bytes)
  then show ?thesis by (simp add: word_unat_eq_iff)
qed

lemma be64toh_be_bytes:
  "take 8 (drop i m) = be_bytes 8 (x :: u64) \<Longrightarrow> avb_be64toh (load64 m i) = x"
proof -
  assume a: "take 8 (drop i m) = be_bytes 8 x"
  then have "length (take 8 (drop i m)) = 8" by simp
  then have "i + 8 \<le> length m" by (simp add: min_def split: if_splits)
  then have "unat (avb_be64toh (load64 m i)) = unat x"
    using unat_u64_less [of x] by (simp add: be64toh_load64 a be_nat_be_bytes)
  then show ?thesis by (simp add: word_unat_eq_iff)
qed

definition footer_bytes :: "AvbFooter \<Rightarrow> bytes" where
  "footer_bytes f = AVB_FOOTER_MAGIC @ be_bytes 4 (version_major f) @ be_bytes 4 (version_minor f) @
     be_bytes 8 (original_image_size f) @ be_bytes 8 (vbmeta_offset f) @ be_bytes 8 (vbmeta_size f) @
     ft_reserved f"

lemma length_AVB_FOOTER_MAGIC [simp]: "length AVB_FOOTER_MAGIC = 4"
  by (simp add: AVB_FOOTER_MAGIC_def str_def)

lemma footer_roundtrip:
  assumes "length (ft_reserved f) = 28" "ft_magic f = AVB_FOOTER_MAGIC" "version_major f \<le> 1"
  shows "bnd (load_AvbFooter (footer_bytes f)) avb_footer_validate_and_byteswap = Ok (True, f)"
  using assms
  by (simp add: load_AvbFooter_def AVB_FOOTER_SIZE_def footer_bytes_def
      avb_footer_validate_and_byteswap_def Let_def be32toh_be_bytes be64toh_be_bytes
      avb_safe_memcmp_eq AVB_FOOTER_MAGIC_LEN_def AVB_FOOTER_VERSION_MAJOR_def not_le [symmetric])

end
