(* ===== verification/Avb_Descriptors.thy ===== *)
theory Avb_Descriptors
  imports Avb_Vbmeta_Header
begin

text \<open>
  Descriptors: the packed structs of the descriptor headers, the five
  \<open>..._validate_and_byteswap\<close> functions, and the walk over the descriptor area of a vbmeta image
  (\<open>avb_descriptor.c\<close>). The locale \<open>sized_descriptor\<close> is the contract the validators share: a
  descriptor that validates holds all the variable-length fields its header announces.
\<close>

section \<open>Definitions\<close>

subsection \<open>The common header\<close>

datatype AvbDescriptorTag =
    AVB_DESCRIPTOR_TAG_PROPERTY
  | AVB_DESCRIPTOR_TAG_HASHTREE
  | AVB_DESCRIPTOR_TAG_HASH
  | AVB_DESCRIPTOR_TAG_KERNEL_CMDLINE
  | AVB_DESCRIPTOR_TAG_CHAIN_PARTITION

fun tag_value :: "AvbDescriptorTag \<Rightarrow> u64" where
  "tag_value AVB_DESCRIPTOR_TAG_PROPERTY = 0"
| "tag_value AVB_DESCRIPTOR_TAG_HASHTREE = 1"
| "tag_value AVB_DESCRIPTOR_TAG_HASH = 2"
| "tag_value AVB_DESCRIPTOR_TAG_KERNEL_CMDLINE = 3"
| "tag_value AVB_DESCRIPTOR_TAG_CHAIN_PARTITION = 4"

record AvbDescriptor =
  tag :: u64
  num_bytes_following :: u64

definition sizeof_AvbDescriptor :: nat where
  "sizeof_AvbDescriptor = 16"

definition load_AvbDescriptor :: "bytes \<Rightarrow> AvbDescriptor res" where
  "load_AvbDescriptor m =
     (if length m < sizeof_AvbDescriptor then Fault BadAccess
      else Ok \<lparr>tag = load64 m 0, num_bytes_following = load64 m 8\<rparr>)"

definition avb_descriptor_validate_and_byteswap :: "AvbDescriptor \<Rightarrow> bool \<times> AvbDescriptor" where
  "avb_descriptor_validate_and_byteswap src =
     (let dest = \<lparr>tag = avb_be64toh (tag src),
                  num_bytes_following = avb_be64toh (num_bytes_following src)\<rparr>
      in if num_bytes_following dest AND 0x07 \<noteq> 0 then (False, dest) else (True, dest))"

text \<open>The chain \<open>!avb_safe_add_to(&e, x) || !avb_safe_add_to(&e, y) || ...\<close>; \<open>None\<close> on overflow.\<close>

fun safe_add_all :: "u64 \<Rightarrow> u64 list \<Rightarrow> u64 option" where
  "safe_add_all v [] = Some v"
| "safe_add_all v (x # xs) =
     (case avb_safe_add_to v x of (False, _) \<Rightarrow> None | (True, v) \<Rightarrow> safe_add_all v xs)"

subsection \<open>Hash descriptors\<close>

record AvbHashDescriptor =
  hd_parent :: AvbDescriptor
  hd_image_size :: u64
  hd_hash_algorithm :: bytes
  hd_partition_name_len :: u32
  hd_salt_len :: u32
  hd_digest_len :: u32
  hd_flags :: u32
  hd_reserved :: bytes

definition sizeof_AvbHashDescriptor :: nat where
  "sizeof_AvbHashDescriptor = 132"

definition AVB_HASH_DESCRIPTOR_FLAGS_DO_NOT_USE_AB :: u32 where
  "AVB_HASH_DESCRIPTOR_FLAGS_DO_NOT_USE_AB = push_bit 0 1"

definition load_AvbHashDescriptor :: "bytes \<Rightarrow> AvbHashDescriptor res" where
  "load_AvbHashDescriptor m =
     (if length m < sizeof_AvbHashDescriptor then Fault BadAccess
      else Ok \<lparr>hd_parent = \<lparr>tag = load64 m 0, num_bytes_following = load64 m 8\<rparr>,
        hd_image_size = load64 m 16,
        hd_hash_algorithm = take 32 (drop 24 m),
        hd_partition_name_len = load32 m 56,
        hd_salt_len = load32 m 60,
        hd_digest_len = load32 m 64,
        hd_flags = load32 m 68,
        hd_reserved = take 60 (drop 72 m)\<rparr>)"

definition avb_hash_descriptor_validate_and_byteswap :: "AvbHashDescriptor \<Rightarrow> bool \<times> AvbHashDescriptor" where
  "avb_hash_descriptor_validate_and_byteswap src =
     (let dest = src; (ok, p) = avb_descriptor_validate_and_byteswap (hd_parent src);
          dest = dest\<lparr>hd_parent := p\<rparr>
      in if \<not> ok then (False, dest)
         else if tag (hd_parent dest) \<noteq> tag_value AVB_DESCRIPTOR_TAG_HASH then (False, dest)
         else let dest = dest\<lparr>hd_image_size := avb_be64toh (hd_image_size dest),
                    hd_partition_name_len := avb_be32toh (hd_partition_name_len dest),
                    hd_salt_len := avb_be32toh (hd_salt_len dest),
                    hd_digest_len := avb_be32toh (hd_digest_len dest),
                    hd_flags := avb_be32toh (hd_flags dest)\<rparr>
         in case safe_add_all (of_nat (sizeof_AvbHashDescriptor - sizeof_AvbDescriptor))
                   [ucast (hd_partition_name_len dest), ucast (hd_salt_len dest),
                    ucast (hd_digest_len dest)] of
              None \<Rightarrow> (False, dest)
            | Some expected_size \<Rightarrow>
                if expected_size > num_bytes_following (hd_parent dest) then (False, dest)
                else (True, dest))"

subsection \<open>Hashtree descriptors\<close>

record AvbHashtreeDescriptor =
  ht_parent :: AvbDescriptor
  ht_dm_verity_version :: u32
  ht_image_size :: u64
  ht_tree_offset :: u64
  ht_tree_size :: u64
  ht_data_block_size :: u32
  ht_hash_block_size :: u32
  ht_fec_num_roots :: u32
  ht_fec_offset :: u64
  ht_fec_size :: u64
  ht_hash_algorithm :: bytes
  ht_partition_name_len :: u32
  ht_salt_len :: u32
  ht_root_digest_len :: u32
  ht_flags :: u32
  ht_reserved :: bytes

definition sizeof_AvbHashtreeDescriptor :: nat where
  "sizeof_AvbHashtreeDescriptor = 180"

definition AVB_HASHTREE_DESCRIPTOR_FLAGS_DO_NOT_USE_AB :: u32 where
  "AVB_HASHTREE_DESCRIPTOR_FLAGS_DO_NOT_USE_AB = push_bit 0 1"

definition load_AvbHashtreeDescriptor :: "bytes \<Rightarrow> AvbHashtreeDescriptor res" where
  "load_AvbHashtreeDescriptor m =
     (if length m < sizeof_AvbHashtreeDescriptor then Fault BadAccess
      else Ok \<lparr>ht_parent = \<lparr>tag = load64 m 0, num_bytes_following = load64 m 8\<rparr>,
        ht_dm_verity_version = load32 m 16,
        ht_image_size = load64 m 20,
        ht_tree_offset = load64 m 28,
        ht_tree_size = load64 m 36,
        ht_data_block_size = load32 m 44,
        ht_hash_block_size = load32 m 48,
        ht_fec_num_roots = load32 m 52,
        ht_fec_offset = load64 m 56,
        ht_fec_size = load64 m 64,
        ht_hash_algorithm = take 32 (drop 72 m),
        ht_partition_name_len = load32 m 104,
        ht_salt_len = load32 m 108,
        ht_root_digest_len = load32 m 112,
        ht_flags = load32 m 116,
        ht_reserved = take 60 (drop 120 m)\<rparr>)"

definition avb_hashtree_descriptor_validate_and_byteswap ::
    "AvbHashtreeDescriptor \<Rightarrow> bool \<times> AvbHashtreeDescriptor" where
  "avb_hashtree_descriptor_validate_and_byteswap src =
     (let dest = src; (ok, p) = avb_descriptor_validate_and_byteswap (ht_parent src);
          dest = dest\<lparr>ht_parent := p\<rparr>
      in if \<not> ok then (False, dest)
         else if tag (ht_parent dest) \<noteq> tag_value AVB_DESCRIPTOR_TAG_HASHTREE then (False, dest)
         else let dest = dest\<lparr>ht_dm_verity_version := avb_be32toh (ht_dm_verity_version dest),
                    ht_image_size := avb_be64toh (ht_image_size dest),
                    ht_tree_offset := avb_be64toh (ht_tree_offset dest),
                    ht_tree_size := avb_be64toh (ht_tree_size dest),
                    ht_data_block_size := avb_be32toh (ht_data_block_size dest),
                    ht_hash_block_size := avb_be32toh (ht_hash_block_size dest),
                    ht_fec_num_roots := avb_be32toh (ht_fec_num_roots dest),
                    ht_fec_offset := avb_be64toh (ht_fec_offset dest),
                    ht_fec_size := avb_be64toh (ht_fec_size dest),
                    ht_partition_name_len := avb_be32toh (ht_partition_name_len dest),
                    ht_salt_len := avb_be32toh (ht_salt_len dest),
                    ht_root_digest_len := avb_be32toh (ht_root_digest_len dest),
                    ht_flags := avb_be32toh (ht_flags dest)\<rparr>
         in case safe_add_all (of_nat (sizeof_AvbHashtreeDescriptor - sizeof_AvbDescriptor))
                   [ucast (ht_partition_name_len dest), ucast (ht_salt_len dest),
                    ucast (ht_root_digest_len dest)] of
              None \<Rightarrow> (False, dest)
            | Some expected_size \<Rightarrow>
                if expected_size > num_bytes_following (ht_parent dest) then (False, dest)
                else (True, dest))"

subsection \<open>Chain partition descriptors\<close>

record AvbChainPartitionDescriptor =
  cp_parent :: AvbDescriptor
  cp_rollback_index_location :: u32
  cp_partition_name_len :: u32
  cp_public_key_len :: u32
  cp_reserved :: bytes

definition sizeof_AvbChainPartitionDescriptor :: nat where
  "sizeof_AvbChainPartitionDescriptor = 92"

definition load_AvbChainPartitionDescriptor :: "bytes \<Rightarrow> AvbChainPartitionDescriptor res" where
  "load_AvbChainPartitionDescriptor m =
     (if length m < sizeof_AvbChainPartitionDescriptor then Fault BadAccess
      else Ok \<lparr>cp_parent = \<lparr>tag = load64 m 0, num_bytes_following = load64 m 8\<rparr>,
        cp_rollback_index_location = load32 m 16,
        cp_partition_name_len = load32 m 20,
        cp_public_key_len = load32 m 24,
        cp_reserved = take 64 (drop 28 m)\<rparr>)"

definition avb_chain_partition_descriptor_validate_and_byteswap ::
    "AvbChainPartitionDescriptor \<Rightarrow> bool \<times> AvbChainPartitionDescriptor" where
  "avb_chain_partition_descriptor_validate_and_byteswap src =
     (let dest = src; (ok, p) = avb_descriptor_validate_and_byteswap (cp_parent src);
          dest = dest\<lparr>cp_parent := p\<rparr>
      in if \<not> ok then (False, dest)
         else if tag (cp_parent dest) \<noteq> tag_value AVB_DESCRIPTOR_TAG_CHAIN_PARTITION then (False, dest)
         else let dest = dest
                   \<lparr>cp_rollback_index_location := avb_be32toh (cp_rollback_index_location dest),
                    cp_partition_name_len := avb_be32toh (cp_partition_name_len dest),
                    cp_public_key_len := avb_be32toh (cp_public_key_len dest)\<rparr>
         in if cp_rollback_index_location dest < 1 then (False, dest)
         else case safe_add_all (of_nat (sizeof_AvbChainPartitionDescriptor - sizeof_AvbDescriptor))
                   [ucast (cp_partition_name_len dest), ucast (cp_public_key_len dest)] of
              None \<Rightarrow> (False, dest)
            | Some expected_size \<Rightarrow>
                if expected_size > num_bytes_following (cp_parent dest) then (False, dest)
                else (True, dest))"

subsection \<open>Kernel command line descriptors\<close>

record AvbKernelCmdlineDescriptor =
  kc_parent :: AvbDescriptor
  kc_flags :: u32
  kc_kernel_cmdline_length :: u32

definition sizeof_AvbKernelCmdlineDescriptor :: nat where
  "sizeof_AvbKernelCmdlineDescriptor = 24"

definition AVB_KERNEL_CMDLINE_FLAGS_USE_ONLY_IF_HASHTREE_NOT_DISABLED :: u32 where
  "AVB_KERNEL_CMDLINE_FLAGS_USE_ONLY_IF_HASHTREE_NOT_DISABLED = push_bit 0 1"

definition AVB_KERNEL_CMDLINE_FLAGS_USE_ONLY_IF_HASHTREE_DISABLED :: u32 where
  "AVB_KERNEL_CMDLINE_FLAGS_USE_ONLY_IF_HASHTREE_DISABLED = push_bit 1 1"

definition load_AvbKernelCmdlineDescriptor :: "bytes \<Rightarrow> AvbKernelCmdlineDescriptor res" where
  "load_AvbKernelCmdlineDescriptor m =
     (if length m < sizeof_AvbKernelCmdlineDescriptor then Fault BadAccess
      else Ok \<lparr>kc_parent = \<lparr>tag = load64 m 0, num_bytes_following = load64 m 8\<rparr>,
        kc_flags = load32 m 16,
        kc_kernel_cmdline_length = load32 m 20\<rparr>)"

definition avb_kernel_cmdline_descriptor_validate_and_byteswap ::
    "AvbKernelCmdlineDescriptor \<Rightarrow> bool \<times> AvbKernelCmdlineDescriptor" where
  "avb_kernel_cmdline_descriptor_validate_and_byteswap src =
     (let dest = src; (ok, p) = avb_descriptor_validate_and_byteswap (kc_parent src);
          dest = dest\<lparr>kc_parent := p\<rparr>
      in if \<not> ok then (False, dest)
         else if tag (kc_parent dest) \<noteq> tag_value AVB_DESCRIPTOR_TAG_KERNEL_CMDLINE then (False, dest)
         else let dest = dest\<lparr>kc_flags := avb_be32toh (kc_flags dest),
                    kc_kernel_cmdline_length := avb_be32toh (kc_kernel_cmdline_length dest)\<rparr>
         in case safe_add_all (of_nat (sizeof_AvbKernelCmdlineDescriptor - sizeof_AvbDescriptor))
                   [ucast (kc_kernel_cmdline_length dest)] of
              None \<Rightarrow> (False, dest)
            | Some expected_size \<Rightarrow>
                if expected_size > num_bytes_following (kc_parent dest) then (False, dest)
                else (True, dest))"

subsection \<open>Walking the descriptor area\<close>

text \<open>
  \<open>image_data\<close> is the address of the image and the bytes of the allocation it points into; \<open>None\<close> is
  the null pointer. Addresses are 64-bit and pointer arithmetic wraps, as the code's own range checks
  assume. The callback receives the offset of the descriptor from \<open>image_data\<close>.
\<close>

type_synonym 's visitor = "nat \<Rightarrow> 's \<Rightarrow> (bool \<times> 's) res"

lemma foreach_progress:
  assumes "p < desc_end" "(True, nb_total) = avb_safe_add (of_nat sizeof_AvbDescriptor) nb_following"
    and "(True, p') = avb_safe_add_to p nb_total"
  shows "unat desc_end - unat p' < unat desc_end - unat p"
proof -
  have "unat nb_total = 16 + unat nb_following"
    using avb_safe_add_to_True [of 16 nb_following nb_total] assms(2)
    by (simp add: avb_safe_add_def sizeof_AvbDescriptor_def)
  moreover have "unat p' = unat p + unat nb_total"
    by (rule avb_safe_add_to_True) (rule assms(3) [symmetric])
  ultimately show ?thesis
    using assms(1) by (simp add: word_less_nat_alt)
qed

function foreach_loop ::
    "u64 \<Rightarrow> bytes \<Rightarrow> u64 \<Rightarrow> u64 \<Rightarrow> 's visitor \<Rightarrow> u64 \<Rightarrow> 's \<Rightarrow> (bool \<times> 's) res" where
  "foreach_loop base img desc_start desc_end foreach_func p s =
     (if \<not> p < desc_end then Ok (True, s)
      else avb_assert (p AND 7 = 0)
        (if length img < unat (p - base) + sizeof_AvbDescriptor then Fault BadAccess
         else let nb_following = avb_be64toh (load64 img (unat (p - base) + 8))
         in case avb_safe_add (of_nat sizeof_AvbDescriptor) nb_following of
              (False, _) \<Rightarrow> Ok (False, s)
            | (True, nb_total) \<Rightarrow>
                if nb_total AND 7 \<noteq> 0 then Ok (False, s)
                else if nb_total + p < desc_start \<or> nb_total + p > desc_end then Ok (False, s)
                else bnd (foreach_func (unat (p - base)) s) (\<lambda>(continue, s).
                  if \<not> continue then Ok (False, s)
                  else case avb_safe_add_to p nb_total of
                         (False, _) \<Rightarrow> Ok (False, s)
                       | (True, p) \<Rightarrow> foreach_loop base img desc_start desc_end foreach_func p s)))"
  by pat_completeness auto
termination
  by (relation "measure (\<lambda>(base, img, ds, de, f, p, s). unat de - unat p)")
    (simp, simp only: in_measure split_conv not_not, rule foreach_progress)

declare foreach_loop.simps [simp del]

definition avb_descriptor_foreach ::
    "(u64 \<times> bytes) option \<Rightarrow> u64 \<Rightarrow> 's visitor option \<Rightarrow> 's \<Rightarrow> (bool \<times> 's) res" where
  "avb_descriptor_foreach image_data image_size foreach_func user_data =
     (case image_data of None \<Rightarrow> Ok (False, user_data) | Some (base, img) \<Rightarrow>
      case foreach_func of None \<Rightarrow> Ok (False, user_data) | Some f \<Rightarrow>
      if image_size < of_nat AVB_VBMETA_IMAGE_HEADER_SIZE then Ok (False, user_data)
      else bnd (avb_memcmp img AVB_MAGIC AVB_MAGIC_LEN) (\<lambda>c.
        if c \<noteq> 0 then Ok (False, user_data)
        else avb_assert (base AND 7 = 0)
          (bnd (load_AvbVBMetaImageHeader img) (\<lambda>header.
            let image_end = base + image_size;
                desc_start = base + of_nat AVB_VBMETA_IMAGE_HEADER_SIZE +
                  avb_be64toh (authentication_data_block_size header) +
                  avb_be64toh (descriptors_offset header);
                desc_end = desc_start + avb_be64toh (descriptors_size header)
            in if desc_start < base \<or> desc_start > image_end \<or> desc_end < base \<or>
                  desc_end > image_end \<or> desc_end < desc_start
               then Ok (False, user_data)
               else foreach_loop base img desc_start desc_end f desc_start user_data))))"

definition count_descriptors :: "nat visitor" where
  "count_descriptors descriptor num_descriptors = Ok (True, num_descriptors + 1)"

text \<open>\<open>SetDescriptorData\<close>: the array's capacity and the pointers stored so far.\<close>

definition set_descriptors :: "(nat \<times> nat list) visitor" where
  "set_descriptors descriptor data =
     (let (capacity, descriptors) = data
      in if length descriptors < capacity then Ok (True, (capacity, descriptors @ [descriptor]))
         else Fault BadAccess)"

text \<open>\<open>None\<close> is the null pointer returned on allocation failure, with the count left unset.\<close>

definition avb_descriptor_get_all ::
    "(u64 \<times> bytes) option \<Rightarrow> u64 \<Rightarrow> heap \<Rightarrow> ((nat list \<times> nat) option \<times> heap) res" where
  "avb_descriptor_get_all image_data image_size h =
     bnd (avb_descriptor_foreach image_data image_size (Some count_descriptors) 0) (\<lambda>(_, num_descriptors).
       let (p, h) = avb_calloc (8 * (num_descriptors + 1)) h
       in case p of
            None \<Rightarrow> Ok (None, h)
          | Some _ \<Rightarrow>
              bnd (avb_descriptor_foreach image_data image_size (Some set_descriptors)
                    (num_descriptors + 1, [])) (\<lambda>(_, data).
                avb_assert (length (snd data) = num_descriptors)
                  (Ok (Some (snd data, num_descriptors), h))))"

section \<open>The contract of the validators\<close>

lemma safe_add_all_Some:
  "safe_add_all v xs = Some e \<Longrightarrow> unat e = unat v + sum_list (map unat xs)"
  by (induction v xs rule: safe_add_all.induct)
    (auto split: prod.splits bool.splits dest: avb_safe_add_to_True)

lemma and_7_eq_0: "(x :: u64) AND 7 = 0 \<longleftrightarrow> unat x mod 8 = 0"
proof -
  have "x AND 7 = take_bit 3 x"
    by (simp add: take_bit_eq_mask mask_eq_exp_minus_1)
  then have "unat (x AND 7) = unat x mod 8"
    by (simp add: unsigned_take_bit_eq take_bit_eq_mod [where ?'a = nat])
  then show ?thesis by (simp add: word_unat_eq_iff)
qed

lemma descriptor_validate_True:
  "avb_descriptor_validate_and_byteswap src = (True, dest) \<longleftrightarrow>
     dest = \<lparr>tag = avb_be64toh (tag src), num_bytes_following = avb_be64toh (num_bytes_following src)\<rparr> \<and>
     unat (num_bytes_following dest) mod 8 = 0"
  by (auto simp: avb_descriptor_validate_and_byteswap_def Let_def and_7_eq_0)

text \<open>
  What a client of a descriptor relies on: \<open>hdr\<close> is the struct's size, \<open>extra\<close> the fixed bytes
  beside the variable-length fields, \<open>field_lens\<close> their announced lengths.
\<close>

locale sized_descriptor =
  fixes load_desc :: "bytes \<Rightarrow> 'd res"
    and validate :: "'d \<Rightarrow> bool \<times> 'd"
    and parent :: "'d \<Rightarrow> AvbDescriptor"
    and hdr :: nat and extra :: nat
    and kind :: AvbDescriptorTag
    and field_lens :: "'d \<Rightarrow> nat list"
  assumes load_parent: "load_desc m = Ok d \<Longrightarrow>
      hdr \<le> length m \<and> parent d = \<lparr>tag = load64 m 0, num_bytes_following = load64 m 8\<rparr>"
    and validate_parent: "validate d = (True, d') \<Longrightarrow>
      avb_descriptor_validate_and_byteswap (parent d) = (True, parent d')"
    and validate_tag: "validate d = (True, d') \<Longrightarrow> tag (parent d') = tag_value kind"
    and validate_fits: "validate d = (True, d') \<Longrightarrow>
      hdr + extra + sum_list (field_lens d') \<le> sizeof_AvbDescriptor + unat (num_bytes_following (parent d'))"
    and hdr_16: "sizeof_AvbDescriptor \<le> hdr"
begin

text \<open>The validated header announces exactly the bytes its own size field holds, big-endian.\<close>

lemma announced_size:
  assumes "load_desc m = Ok d" "validate d = (True, d')"
  shows "unat (num_bytes_following (parent d')) = be_nat (take 8 (drop 8 m))"
    and "unat (num_bytes_following (parent d')) mod 8 = 0"
proof -
  have l: "16 \<le> length m"
    using load_parent [OF assms(1)] hdr_16 by (simp add: sizeof_AvbDescriptor_def)
  have e: "parent d = \<lparr>tag = load64 m 0, num_bytes_following = load64 m 8\<rparr>"
    using load_parent [OF assms(1)] by simp
  have v: "avb_descriptor_validate_and_byteswap (parent d) = (True, parent d')"
    using validate_parent [OF assms(2)] .
  then have n: "num_bytes_following (parent d') = avb_be64toh (load64 m 8)"
    by (simp add: descriptor_validate_True e)
  then show "unat (num_bytes_following (parent d')) = be_nat (take 8 (drop 8 m))"
    using l by (simp add: be64toh_load64)
  show "unat (num_bytes_following (parent d')) mod 8 = 0"
    using v unfolding descriptor_validate_True by blast
qed

text \<open>Every announced field lies inside the descriptor, so inside any memory that holds it whole.\<close>

lemma fields_inside:
  assumes "load_desc m = Ok d" "validate d = (True, d')"
    and "sizeof_AvbDescriptor + be_nat (take 8 (drop 8 m)) \<le> length m"
  shows "hdr + extra + sum_list (field_lens d') \<le> length m"
  using validate_fits [OF assms(2)] announced_size(1) [OF assms(1,2)] assms(3) by simp

end

lemmas validator_defs =
  avb_descriptor_validate_and_byteswap_def sizeof_AvbDescriptor_def Let_def

lemma unat_ucast_u32_u64 [simp]: "unat (ucast (x :: u32) :: u64) = unat x"
  by (simp add: unat_ucast_up)

interpretation hash_desc: sized_descriptor load_AvbHashDescriptor
  avb_hash_descriptor_validate_and_byteswap hd_parent sizeof_AvbHashDescriptor 0
  AVB_DESCRIPTOR_TAG_HASH
  "\<lambda>d. [unat (hd_partition_name_len d), unat (hd_salt_len d), unat (hd_digest_len d)]"
  by unfold_locales
    (auto simp: load_AvbHashDescriptor_def avb_hash_descriptor_validate_and_byteswap_def
      validator_defs sizeof_AvbHashDescriptor_def word_le_nat_alt not_less
      split: if_splits option.splits prod.splits simp del: safe_add_all.simps dest!: safe_add_all_Some)

interpretation hashtree_desc: sized_descriptor load_AvbHashtreeDescriptor
  avb_hashtree_descriptor_validate_and_byteswap ht_parent sizeof_AvbHashtreeDescriptor 0
  AVB_DESCRIPTOR_TAG_HASHTREE
  "\<lambda>d. [unat (ht_partition_name_len d), unat (ht_salt_len d), unat (ht_root_digest_len d)]"
  by unfold_locales
    (auto simp: load_AvbHashtreeDescriptor_def avb_hashtree_descriptor_validate_and_byteswap_def
      validator_defs sizeof_AvbHashtreeDescriptor_def word_le_nat_alt not_less
      split: if_splits option.splits prod.splits simp del: safe_add_all.simps dest!: safe_add_all_Some)

interpretation chain_desc: sized_descriptor load_AvbChainPartitionDescriptor
  avb_chain_partition_descriptor_validate_and_byteswap cp_parent sizeof_AvbChainPartitionDescriptor 0
  AVB_DESCRIPTOR_TAG_CHAIN_PARTITION
  "\<lambda>d. [unat (cp_partition_name_len d), unat (cp_public_key_len d)]"
  by unfold_locales
    (auto simp: load_AvbChainPartitionDescriptor_def
      avb_chain_partition_descriptor_validate_and_byteswap_def
      validator_defs sizeof_AvbChainPartitionDescriptor_def word_le_nat_alt not_less
      split: if_splits option.splits prod.splits simp del: safe_add_all.simps dest!: safe_add_all_Some)

interpretation cmdline_desc: sized_descriptor load_AvbKernelCmdlineDescriptor
  avb_kernel_cmdline_descriptor_validate_and_byteswap kc_parent sizeof_AvbKernelCmdlineDescriptor 0
  AVB_DESCRIPTOR_TAG_KERNEL_CMDLINE
  "\<lambda>d. [unat (kc_kernel_cmdline_length d)]"
  by unfold_locales
    (auto simp: load_AvbKernelCmdlineDescriptor_def
      avb_kernel_cmdline_descriptor_validate_and_byteswap_def
      validator_defs sizeof_AvbKernelCmdlineDescriptor_def word_le_nat_alt not_less
      split: if_splits option.splits prod.splits simp del: safe_add_all.simps dest!: safe_add_all_Some)

section \<open>What the walk visits\<close>

text \<open>The total size of the descriptor at an offset, header included.\<close>

definition desc_total :: "bytes \<Rightarrow> nat \<Rightarrow> nat" where
  "desc_total img ofs = sizeof_AvbDescriptor + be_nat (take 8 (drop (ofs + 8) img))"

text \<open>
  The offsets visited between \<open>ofs\<close> and \<open>fin\<close>, and whether the walk reached \<open>fin\<close>, on natural
  numbers. The third branch is a size so large that the 64-bit end address wraps round to an address
  between the start of the area and the descriptor: the code's range check passes, the callback runs,
  and only the addition that advances the pointer notices the overflow.
\<close>

function walk :: "bytes \<Rightarrow> nat \<Rightarrow> nat \<Rightarrow> nat \<Rightarrow> nat list \<times> bool" where
  "walk img start ofs fin =
     (if \<not> ofs < fin then ([], True)
      else if 2 ^ 64 \<le> desc_total img ofs \<or> desc_total img ofs mod 8 \<noteq> 0 then ([], False)
      else if ofs + desc_total img ofs \<le> fin
      then (let (os, ok) = walk img start (ofs + desc_total img ofs) fin in (ofs # os, ok))
      else if start + 2 ^ 64 \<le> ofs + desc_total img ofs then ([ofs], False)
      else ([], False))"
  by pat_completeness auto
termination
  by (relation "measure (\<lambda>(img, start, ofs, fin). fin - ofs)")
    (auto simp: desc_total_def sizeof_AvbDescriptor_def)

declare walk.simps [simp del]

text \<open>Running a callback over visited offsets, stopping when it says so.\<close>

fun visit :: "'s visitor \<Rightarrow> nat list \<Rightarrow> bool \<Rightarrow> 's \<Rightarrow> (bool \<times> 's) res" where
  "visit f [] ok s = Ok (ok, s)"
| "visit f (ofs # os) ok s =
     bnd (f ofs s) (\<lambda>(continue, s). if continue then visit f os ok s else Ok (False, s))"

lemma unat_add_offset:
  "unat (base :: u64) + k < 2 ^ 64 \<Longrightarrow> unat (base + of_nat k) = unat base + k"
  by (simp add: unat_word_ariths unat_of_nat take_bit_nat_eq_self)

text \<open>The three tests of the loop body, in terms of offsets.\<close>

lemma foreach_tests:
  fixes base :: u64
  assumes b: "unat base + len < 2 ^ 64" and r: "start \<le> ofs" "ofs < fin" "fin \<le> len"
    and n: "unat nb = n" "16 + n < 2 ^ 64"
  shows "base + of_nat ofs < base + of_nat fin"
    and "unat (base + of_nat ofs - base) = ofs"
    and "avb_safe_add (of_nat sizeof_AvbDescriptor) nb = (True, 16 + nb)" "unat (16 + nb) = 16 + n"
    and "(16 + nb + (base + of_nat ofs) < base + of_nat start \<or>
          16 + nb + (base + of_nat ofs) > base + of_nat fin) =
         (\<not> (ofs + (16 + n) \<le> fin \<or> start + 2 ^ 64 \<le> ofs + (16 + n)))"
    and "avb_safe_add_to (base + of_nat ofs) (16 + nb) =
         (unat base + ofs + (16 + n) < 2 ^ 64, base + of_nat ofs + (16 + nb))"
proof -
  have u: "unat (base + of_nat ofs) = unat base + ofs" "unat (base + of_nat fin) = unat base + fin"
    "unat (base + of_nat start) = unat base + start"
    using b r by (simp_all add: unat_add_offset)
  show "base + of_nat ofs < base + of_nat fin"
    using u r by (simp add: word_less_nat_alt)
  show "unat (base + of_nat ofs - base) = ofs"
    using b r by (simp add: unat_of_nat take_bit_nat_eq_self)
  have "avb_safe_add_to 16 nb = (True, 16 + nb)"
    using n by (simp add: avb_safe_add_to_spec)
  then show "avb_safe_add (of_nat sizeof_AvbDescriptor) nb = (True, 16 + nb)"
    by (simp add: avb_safe_add_def sizeof_AvbDescriptor_def)
  show t: "unat (16 + nb) = 16 + n"
    using avb_safe_add_to_True [OF \<open>avb_safe_add_to 16 nb = (True, 16 + nb)\<close>] n by simp
  have w: "unat (16 + nb + (base + of_nat ofs)) = (16 + n + (unat base + ofs)) mod 2 ^ 64"
    using t u by (simp add: unat_word_ariths)
  have m: "(16 + n + (unat base + ofs)) mod 2 ^ 64 =
      (if unat base + ofs + (16 + n) < 2 ^ 64 then unat base + ofs + (16 + n)
       else unat base + ofs + (16 + n) - 2 ^ 64)"
    using n b r by (auto simp: mod_if)
  show "(16 + nb + (base + of_nat ofs) < base + of_nat start \<or>
          16 + nb + (base + of_nat ofs) > base + of_nat fin) =
         (\<not> (ofs + (16 + n) \<le> fin \<or> start + 2 ^ 64 \<le> ofs + (16 + n)))"
    unfolding word_less_nat_alt w m u using n b r by auto
  show "avb_safe_add_to (base + of_nat ofs) (16 + nb) =
         (unat base + ofs + (16 + n) < 2 ^ 64, base + of_nat ofs + (16 + nb))"
    using t u by (simp add: avb_safe_add_to_spec)
qed

lemma foreach_loop_walk:
  assumes "unat base + length img < 2 ^ 64" "unat base mod 8 = 0"
    and "fin \<le> length img" "start \<le> ofs" "ofs \<le> fin" "ofs mod 8 = 0"
    and "snd (walk img start ofs fin) \<or> fin + 15 \<le> length img"
  shows "foreach_loop base img (base + of_nat start) (base + of_nat fin) f (base + of_nat ofs) s =
    visit f (fst (walk img start ofs fin)) (snd (walk img start ofs fin)) s"
  using assms
proof (induction img start ofs fin arbitrary: s rule: walk.induct)
  case (1 img start ofs fin)
  note W = walk.simps [of img start ofs fin]
  let ?nb = "avb_be64toh (load64 img (ofs + 8))"
  let ?n = "be_nat (take 8 (drop (ofs + 8) img))"
  show ?case
  proof (cases "ofs < fin")
    case False
    with "1.prems" have "ofs = fin" by simp
    then show ?thesis by (subst foreach_loop.simps) (simp add: walk.simps [of img start fin fin])
  next
    case True
    have tot: "desc_total img ofs = 16 + ?n"
      by (simp add: desc_total_def sizeof_AvbDescriptor_def)
    have rng: "fin \<le> length img" "ofs + 16 \<le> length img"
      using "1.prems" True W tot by (auto split: if_splits prod.splits)
    have n: "unat ?nb = ?n"
      using rng by (simp add: be64toh_load64)
    have al: "(base + of_nat ofs) AND 7 = 0"
      using "1.prems" True unat_add_offset [of base ofs] by (auto simp: and_7_eq_0 mod_add_eq)
    note tests = foreach_tests [OF "1.prems"(1,4) True _ n]
    show ?thesis
    proof (cases "16 + ?n < 2 ^ 64")
      case False
      then have "\<not> fst (avb_safe_add (of_nat sizeof_AvbDescriptor) ?nb)"
        using n by (simp add: avb_safe_add_spec sizeof_AvbDescriptor_def)
      moreover have "unat (base + of_nat ofs - base) = ofs" "base + of_nat ofs < base + of_nat fin"
        using "1.prems" True by (simp_all add: unat_of_nat take_bit_nat_eq_self word_less_nat_alt unat_add_offset)
      ultimately show ?thesis
        using False True rng al tot
        unfolding W by (subst foreach_loop.simps)
          (auto simp: Let_def sizeof_AvbDescriptor_def split: prod.splits bool.splits)
    next
      case small: True
      note T = tests [OF rng(1) small]
      have mod8: "(16 + ?nb) AND 7 = 0 \<longleftrightarrow> desc_total img ofs mod 8 = 0"
        by (simp only: and_7_eq_0 T(4) tot)
      show ?thesis
      proof (cases "desc_total img ofs mod 8 = 0 \<and> ofs + desc_total img ofs \<le> fin")
        case inside: True
        then have next_ok: "unat base + ofs + (16 + ?n) < 2 ^ 64"
          using "1.prems"(1) rng(1) tot by simp
        have nxt: "base + of_nat ofs + (16 + ?nb) = base + of_nat (ofs + desc_total img ofs)"
          unfolding tot n [symmetric] by simp
        have al8: "(ofs + desc_total img ofs) mod 8 = 0"
          using inside "1.prems"(6) by presburger
        have IH: "foreach_loop base img (base + of_nat start) (base + of_nat fin) f
            (base + of_nat (ofs + desc_total img ofs)) s' =
          visit f (fst (walk img start (ofs + desc_total img ofs) fin))
            (snd (walk img start (ofs + desc_total img ofs) fin)) s'" for s'
        proof (rule "1.IH")
          show "start \<le> ofs + desc_total img ofs" using "1.prems"(4) by simp
          show "snd (walk img start (ofs + desc_total img ofs) fin) \<or> fin + 15 \<le> length img"
            using "1.prems"(7) inside True small tot unfolding W by (auto split: prod.splits)
        qed (use inside True small tot al8 "1.prems" in auto)
        show ?thesis
          using inside T True rng al mod8 next_ok nxt IH tot small
          unfolding W by (subst foreach_loop.simps)
            (auto simp: Let_def sizeof_AvbDescriptor_def split: prod.splits bool.splits
              intro!: arg_cong [where f = "bnd _"])
      next
        case outside: False
        show ?thesis
          using outside T True rng al mod8 tot small "1.prems"
          unfolding W by (subst foreach_loop.simps)
            (auto simp: Let_def sizeof_AvbDescriptor_def split: prod.splits bool.splits
              intro!: arg_cong [where f = "bnd _"])
      qed
    qed
  qed
qed

text \<open>
  A descriptor area without gaps or overlaps: each descriptor starts where the previous one ends, its
  size is a multiple of eight, and the last one ends exactly at \<open>fin\<close>.
\<close>

inductive desc_tiles :: "bytes \<Rightarrow> nat \<Rightarrow> nat \<Rightarrow> nat list \<Rightarrow> bool" for img fin where
  tiles_end: "desc_tiles img fin fin []"
| tiles_step: "\<lbrakk>ofs < fin; desc_total img ofs < 2 ^ 64; desc_total img ofs mod 8 = 0;
    ofs + desc_total img ofs \<le> fin; desc_tiles img fin (ofs + desc_total img ofs) os\<rbrakk>
   \<Longrightarrow> desc_tiles img fin ofs (ofs # os)"

inductive_cases desc_tiles_ConsE: "desc_tiles img fin ofs (x # os)"
inductive_cases desc_tiles_NilE: "desc_tiles img fin ofs []"

lemma desc_total_ge: "16 \<le> desc_total img ofs"
  by (simp add: desc_total_def sizeof_AvbDescriptor_def)

lemma tiles_walk: "desc_tiles img fin ofs os \<Longrightarrow> walk img start ofs fin = (os, True)"
  by (induction rule: desc_tiles.induct) (subst walk.simps, simp)+

lemma walk_tiles:
  "walk img start ofs fin = (os, True) \<Longrightarrow> ofs \<le> fin \<Longrightarrow> desc_tiles img fin ofs os"
proof (induction img start ofs fin arbitrary: os rule: walk.induct)
  case (1 img start ofs fin)
  show ?case
  proof (cases "ofs < fin")
    case False
    then show ?thesis
      using "1.prems" unfolding walk.simps [of img start ofs fin] by (auto intro: tiles_end)
  next
    case True
    with "1.prems"(1) obtain os' where
      w: "desc_total img ofs < 2 ^ 64" "desc_total img ofs mod 8 = 0"
        "ofs + desc_total img ofs \<le> fin" "os = ofs # os'"
        "walk img start (ofs + desc_total img ofs) fin = (os', True)"
      unfolding walk.simps [of img start ofs fin] by (auto split: if_splits prod.splits)
    then show ?thesis
      using "1.IH" [of os'] True by (auto intro: tiles_step)
  qed
qed

text \<open>Each tile lies inside the area, and starts at a multiple of eight.\<close>

lemma tiles_inside:
  assumes "desc_tiles img fin ofs os" "o' \<in> set os"
  shows "ofs \<le> o' \<and> o' + desc_total img o' \<le> fin"
  using assms by (induction rule: desc_tiles.induct) auto

text \<open>
  The descriptor area the header of an image announces, as offsets from the start of the image: its
  first byte and the first byte after it. The three fields are added modulo \<open>2 ^ 64\<close>; nothing before
  the walk has checked them.
\<close>

definition desc_area :: "bytes \<Rightarrow> nat \<times> nat" where
  "desc_area img =
     (let start = (256 + be_nat (take 8 (drop 12 img)) + be_nat (take 8 (drop 96 img))) mod 2 ^ 64
      in (start, (start + be_nat (take 8 (drop 104 img))) mod 2 ^ 64))"

text \<open>An image of \<open>n\<close> bytes in a buffer at an aligned address, with the right magic.\<close>

definition image_ok :: "u64 \<Rightarrow> bytes \<Rightarrow> nat \<Rightarrow> bool" where
  "image_ok base img n \<longleftrightarrow>
     unat base + length img < 2 ^ 64 \<and> unat base mod 8 = 0 \<and> 256 \<le> n \<and> n \<le> length img \<and>
     take 4 img = AVB_MAGIC"

text \<open>The tests on the descriptor area: they pass exactly when it lies inside the image.\<close>

lemma area_tests:
  fixes base :: u64
  assumes b: "unat base + len < 2 ^ 64" "n \<le> len" and w: "start < 2 ^ 64" "fin < 2 ^ 64"
  shows "(base + of_nat start < base \<or> base + of_nat start > base + of_nat n \<or>
      base + of_nat fin < base \<or> base + of_nat fin > base + of_nat n \<or>
      base + of_nat fin < base + of_nat start) = (\<not> (start \<le> fin \<and> fin \<le> n))"
proof -
  have u: "unat (base + of_nat k) =
      (if unat base + k < 2 ^ 64 then unat base + k else unat base + k - 2 ^ 64)" if "k < 2 ^ 64" for k
    using that b unat_u64_less [of base]
    by (auto simp: unat_word_ariths unat_of_nat take_bit_nat_eq_self mod_if)
  have "n < 2 ^ 64" using b by simp
  then show ?thesis
    using b w unfolding word_less_nat_alt u [OF w(1)] u [OF w(2)] u [OF \<open>n < 2 ^ 64\<close>] by auto
qed

lemma foreach_visit:
  assumes A: "image_ok base img n" and D: "desc_area img = (start, fin)" "start mod 8 = 0"
    and S: "snd (walk img start start fin) \<or> fin + 15 \<le> length img"
  shows "avb_descriptor_foreach (Some (base, img)) (of_nat n) (Some f) s =
    (if start \<le> fin \<and> fin \<le> n
     then visit f (fst (walk img start start fin)) (snd (walk img start start fin)) s
     else Ok (False, s))"
proof -
  define au where "au = be_nat (take 8 (drop 12 img))"
  define of' where "of' = be_nat (take 8 (drop 96 img))"
  define sz where "sz = be_nat (take 8 (drop 104 img))"
  have bnds: "unat base + length img < 2 ^ 64" "256 \<le> n" "n \<le> length img"
    "take 4 img = AVB_MAGIC" "unat base mod 8 = 0"
    using A by (auto simp: image_ok_def)
  have se: "start = (256 + au + of') mod 2 ^ 64" "fin = (start + sz) mod 2 ^ 64"
    using D by (auto simp: desc_area_def au_def of'_def sz_def Let_def)
  then have lt: "start < 2 ^ 64" "fin < 2 ^ 64" by simp_all
  have words: "avb_be64toh (load64 img 12) = of_nat au" "avb_be64toh (load64 img 96) = of_nat of'"
    "avb_be64toh (load64 img 104) = of_nat sz"
    using bnds by (simp_all add: au_def of'_def sz_def flip: be64toh_load64)
  have w: "(of_nat (k mod 2 ^ 64) :: u64) = of_nat k" for k
    by (simp add: word_unat_eq_iff unat_of_nat take_bit_eq_mod)
  have ptrs: "base + 256 + of_nat au + of_nat of' = base + of_nat start"
    "base + of_nat start + of_nat sz = base + of_nat fin"
    unfolding se w by (simp_all only: of_nat_add add.assoc of_nat_numeral w)
  have mag: "avb_memcmp img AVB_MAGIC AVB_MAGIC_LEN = Ok 0"
    using bnds avb_memcmp_zero [of AVB_MAGIC_LEN img AVB_MAGIC]
    by (auto simp: AVB_MAGIC_LEN_def AVB_MAGIC_def str_def)
  have sz_ok: "\<not> (of_nat n :: u64) < 256"
    using bnds by (simp add: word_less_nat_alt unat_of_nat take_bit_nat_eq_self)
  have al: "base AND 7 = 0"
    using bnds by (simp add: and_7_eq_0)
  have loop: "foreach_loop base img (base + of_nat start) (base + of_nat fin) f (base + of_nat start) s =
      visit f (fst (walk img start start fin)) (snd (walk img start start fin)) s"
    if "start \<le> fin" "fin \<le> n"
    using bnds D(2) S that by (intro foreach_loop_walk) auto
  show ?thesis
    using bnds mag sz_ok al loop
    by (simp add: avb_descriptor_foreach_def AVB_VBMETA_IMAGE_HEADER_SIZE_def
        load_AvbVBMetaImageHeader_def words ptrs Let_def area_tests [OF bnds(1,3) lt])
qed

lemma visit_count: "visit count_descriptors os ok k = Ok (ok, k + length os)"
  by (induction os arbitrary: k) (simp_all add: count_descriptors_def)

lemma visit_set:
  "length ds + length os \<le> c \<Longrightarrow> visit set_descriptors os ok (c, ds) = Ok (ok, (c, ds @ os))"
  by (induction os arbitrary: ds) (simp_all add: set_descriptors_def)

lemma get_all_walk:
  assumes "image_ok base img n" "desc_area img = (start, fin)" "start mod 8 = 0"
    and "snd (walk img start start fin) \<or> fin + 15 \<le> length img"
  shows "avb_descriptor_get_all (Some (base, img)) (of_nat n) h =
    (let os = (if start \<le> fin \<and> fin \<le> n then fst (walk img start start fin) else []);
         (p, h) = avb_calloc (8 * (length os + 1)) h
     in Ok (case p of None \<Rightarrow> None | Some _ \<Rightarrow> Some (os, length os), h))"
  by (cases "start \<le> fin \<and> fin \<le> n")
    (auto simp: avb_descriptor_get_all_def foreach_visit [OF assms] visit_count visit_set
      Let_def split: prod.splits option.splits)

text \<open>On a tiled area inside the image the walk visits every descriptor, in order.\<close>

lemma foreach_tiles:
  assumes "image_ok base img n" "desc_area img = (start, fin)" "start mod 8 = 0"
    and "fin \<le> n" "desc_tiles img fin start os"
  shows "avb_descriptor_foreach (Some (base, img)) (of_nat n) (Some f) s = visit f os True s"
proof -
  have "start \<le> fin"
    using assms(5) by (auto elim: desc_tiles.cases)
  then show ?thesis
    using foreach_visit [OF assms(1-3), of f s] tiles_walk [OF assms(5), of start] assms(4) by simp
qed

end
