(* ===== verification/Avb_Property.thy ===== *)
theory Avb_Property
  imports Avb_Descriptors
begin

text \<open>
  Property descriptors (\<open>avb_property_descriptor.c\<close>): the validator, the lookup callback driven by
  \<open>avb_descriptor_foreach\<close>, the lookup of a key and the parser of numeric values. The lookup is shown
  to find exactly the first matching property of a well-formed descriptor area.
\<close>

section \<open>Definitions\<close>

record AvbPropertyDescriptor =
  pd_parent :: AvbDescriptor
  pd_key_num_bytes :: u64
  pd_value_num_bytes :: u64

definition sizeof_AvbPropertyDescriptor :: nat where
  "sizeof_AvbPropertyDescriptor = 32"

definition load_AvbPropertyDescriptor :: "bytes \<Rightarrow> AvbPropertyDescriptor res" where
  "load_AvbPropertyDescriptor m =
     (if length m < sizeof_AvbPropertyDescriptor then Fault BadAccess
      else Ok \<lparr>pd_parent = \<lparr>tag = load64 m 0, num_bytes_following = load64 m 8\<rparr>,
        pd_key_num_bytes = load64 m 16,
        pd_value_num_bytes = load64 m 24\<rparr>)"

definition avb_property_descriptor_validate_and_byteswap ::
    "AvbPropertyDescriptor \<Rightarrow> bool \<times> AvbPropertyDescriptor" where
  "avb_property_descriptor_validate_and_byteswap src =
     (let dest = src; (ok, p) = avb_descriptor_validate_and_byteswap (pd_parent src);
          dest = dest\<lparr>pd_parent := p\<rparr>
      in if \<not> ok then (False, dest)
         else if tag (pd_parent dest) \<noteq> tag_value AVB_DESCRIPTOR_TAG_PROPERTY then (False, dest)
         else let dest = dest\<lparr>pd_key_num_bytes := avb_be64toh (pd_key_num_bytes dest),
                    pd_value_num_bytes := avb_be64toh (pd_value_num_bytes dest)\<rparr>
         in case safe_add_all (of_nat (sizeof_AvbPropertyDescriptor - sizeof_AvbDescriptor + 2))
                   [pd_key_num_bytes dest, pd_value_num_bytes dest] of
              None \<Rightarrow> (False, dest)
            | Some expected_size \<Rightarrow>
                if expected_size > num_bytes_following (pd_parent dest) then (False, dest)
                else (True, dest))"

text \<open>
  \<open>PropertyIteratorData\<close>: the key is constant during the walk and stays an argument; the two
  \<open>ret_value\<close> fields start uninitialised (\<open>None\<close>) and receive the offset and the size of the value.
\<close>

type_synonym prop_ret = "(nat \<times> u64) option"

definition property_lookup_desc_foreach :: "bytes \<Rightarrow> bytes \<Rightarrow> u64 \<Rightarrow> prop_ret visitor" where
  "property_lookup_desc_foreach img key key_size header data =
     (if length img < header + 8 then Fault BadAccess
      else if load64 img header \<noteq> tag_value AVB_DESCRIPTOR_TAG_PROPERTY then Ok (True, data)
      else bnd (load_AvbPropertyDescriptor (drop header img)) (\<lambda>src.
        case avb_property_descriptor_validate_and_byteswap src of
          (False, _) \<Rightarrow> Ok (True, data)
        | (True, prop_desc) \<Rightarrow>
            let p = of_nat header :: u64;
                key_at = p + of_nat sizeof_AvbPropertyDescriptor;
                nul_at = unat (key_at + pd_key_num_bytes prop_desc)
            in if length img \<le> nul_at then Fault BadAccess
               else if img ! nul_at \<noteq> 0 then Ok (True, data)
               else if key_size = pd_key_num_bytes prop_desc
               then bnd (avb_memcmp (drop (unat key_at) img) key (unat key_size)) (\<lambda>c.
                      if c = 0
                      then Ok (False, Some (unat (key_at + pd_key_num_bytes prop_desc + 1),
                                            pd_value_num_bytes prop_desc))
                      else Ok (True, data))
               else Ok (True, data)))"

text \<open>
  What \<open>avb_property_lookup\<close> returns: a pointer (as an offset into the image) with its size, the null
  pointer with size zero, or the uninitialised fields of \<open>data\<close>.
\<close>

datatype prop_result = PropValue nat u64 | PropNull | PropUninit

definition avb_property_lookup :: "(u64 \<times> bytes) option \<Rightarrow> u64 \<Rightarrow> bytes \<Rightarrow> u64 \<Rightarrow> prop_result res" where
  "avb_property_lookup image_data image_size key key_size =
     bnd (if key_size = 0 then bnd (avb_strlen key) (\<lambda>n. Ok (of_nat n)) else Ok key_size) (\<lambda>key_size.
     bnd (avb_descriptor_foreach image_data image_size
            (Some (property_lookup_desc_foreach
               (case image_data of Some (base, img) \<Rightarrow> img | None \<Rightarrow> []) key key_size)) None)
       (\<lambda>(continued, data).
          if \<not> continued
          then Ok (case data of Some (v, n) \<Rightarrow> PropValue v n | None \<Rightarrow> PropUninit)
          else Ok PropNull))"

text \<open>One digit: \<open>None\<close> is the jump to \<open>out\<close> after \<open>Invalid digit\<close>.\<close>

definition prop_digit :: "u64 \<Rightarrow> u8 \<Rightarrow> u64 option" where
  "prop_digit base c =
     (if 0x30 \<le> c \<and> c \<le> 0x39 then Some (ucast (c - 0x30))
      else if base = 16 \<and> 0x61 \<le> c \<and> c \<le> 0x66 then Some (ucast (c - 0x61) + 10)
      else if base = 16 \<and> 0x41 \<le> c \<and> c \<le> 0x46 then Some (ucast (c - 0x41) + 10)
      else None)"

fun parse_loop :: "u64 \<Rightarrow> bytes \<Rightarrow> u64 \<Rightarrow> u64 option res" where
  "parse_loop base [] parsed_val = Fault BadAccess"
| "parse_loop base (c # value) parsed_val =
     (if c = 0 then Ok (Some parsed_val)
      else let parsed_val = parsed_val * base
           in case prop_digit base c of
                None \<Rightarrow> Ok None
              | Some digit \<Rightarrow> parse_loop base value (parsed_val + digit))"

definition parse_uint64 :: "bytes \<Rightarrow> u64 option res" where
  "parse_uint64 value =
     bnd (avb_memcmp value (str ''0x'') 2) (\<lambda>c.
       if c = 0 then parse_loop 16 (drop 2 value) 0 else parse_loop 10 value 0)"

text \<open>\<open>Some v\<close> is \<open>true\<close> with \<open>*out_value = v\<close>, \<open>None\<close> is \<open>false\<close>. An uninitialised pointer is not null
  to the test \<open>value == NULL\<close> and is read.\<close>

definition avb_property_lookup_uint64 ::
    "(u64 \<times> bytes) option \<Rightarrow> u64 \<Rightarrow> bytes \<Rightarrow> u64 \<Rightarrow> u64 option res" where
  "avb_property_lookup_uint64 image_data image_size key key_size =
     bnd (avb_property_lookup image_data image_size key key_size) (\<lambda>r. case r of
       PropNull \<Rightarrow> Ok None
     | PropUninit \<Rightarrow> Fault BadAccess
     | PropValue value _ \<Rightarrow>
         deref image_data (\<lambda>(base, img). parse_uint64 (drop value img)))"

section \<open>The validator\<close>

interpretation prop_desc: sized_descriptor load_AvbPropertyDescriptor
  avb_property_descriptor_validate_and_byteswap pd_parent sizeof_AvbPropertyDescriptor 2
  AVB_DESCRIPTOR_TAG_PROPERTY
  "\<lambda>d. [unat (pd_key_num_bytes d), unat (pd_value_num_bytes d)]"
  by unfold_locales
    (auto simp: load_AvbPropertyDescriptor_def avb_property_descriptor_validate_and_byteswap_def
      validator_defs sizeof_AvbPropertyDescriptor_def word_le_nat_alt not_less
      split: if_splits option.splits prod.splits simp del: safe_add_all.simps dest!: safe_add_all_Some)

text \<open>The converse direction: overflow aside, a property descriptor that fits validates.\<close>

lemma safe_add_all_eq:
  "unat v + sum_list (map unat xs) < 2 ^ 64 \<Longrightarrow> safe_add_all v xs = Some (v + sum_list xs)"
proof (induction xs arbitrary: v)
  case (Cons x xs)
  then have "avb_safe_add_to v x = (True, v + x)"
    by (simp add: avb_safe_add_to_spec)
  moreover from this have "unat (v + x) = unat v + unat x"
    by (rule avb_safe_add_to_True)
  ultimately show ?case
    using Cons by (simp add: add.assoc)
qed simp

section \<open>What the lookup finds\<close>

text \<open>
  The property at an offset, if it is one with this key: a zero tag, room for key, value and the two
  terminators, a terminated key equal to \<open>key\<close>. The result is the place and length of the value.
\<close>

definition prop_at :: "bytes \<Rightarrow> bytes \<Rightarrow> nat \<Rightarrow> (nat \<times> nat) option" where
  "prop_at img key ofs =
     (let k = be_nat (take 8 (drop (ofs + 16) img)); v = be_nat (take 8 (drop (ofs + 24) img))
      in if be_nat (take 8 (drop ofs img)) = 0 \<and> 34 + k + v \<le> desc_total img ofs \<and>
            img ! (ofs + 32 + k) = 0 \<and> k = length key \<and> take k (drop (ofs + 32) img) = key
         then Some (ofs + 33 + k, v) else None)"

fun first_prop :: "bytes \<Rightarrow> bytes \<Rightarrow> nat list \<Rightarrow> (nat \<times> nat) option" where
  "first_prop img key [] = None"
| "first_prop img key (ofs # os) =
     (case prop_at img key ofs of Some r \<Rightarrow> Some r | None \<Rightarrow> first_prop img key os)"

text \<open>Whether the value of a property descriptor is followed by a NUL, as the header has it.\<close>

definition value_ended :: "bytes \<Rightarrow> nat \<Rightarrow> bool" where
  "value_ended img ofs \<longleftrightarrow>
     (let k = be_nat (take 8 (drop (ofs + 16) img)); v = be_nat (take 8 (drop (ofs + 24) img))
      in be_nat (take 8 (drop ofs img)) = 0 \<longrightarrow> img ! (ofs + 33 + k + v) = 0)"

lemma first_prop_ended:
  assumes "\<forall>x\<in>set os. value_ended img x" "first_prop img key os = Some (a, v)"
  shows "img ! (a + v) = 0"
  using assms by (induction os) (auto simp: value_ended_def prop_at_def Let_def split: option.splits if_splits)

lemma be_nat_eq_0: "be_nat bs = 0 \<longleftrightarrow> (\<forall>b\<in>set bs. b = 0)"
  by (induction bs) (auto simp: be_nat_Cons unat_eq_0)

lemma load64_eq_0:
  "ofs + 8 \<le> length m \<Longrightarrow> load64 m ofs = 0 \<longleftrightarrow> be_nat (take 8 (drop ofs m)) = 0"
  by (auto simp: take_8_drop be_nat_eq_0 unat_load64 word_unat_eq_iff [of "load64 m ofs"])

lemma be64toh_0 [simp]: "avb_be64toh 0 = 0"
  by (simp add: avb_be64toh_def byte_at_def)

lemma property_validate_eq:
  assumes "ofs + 32 \<le> length img" "desc_total img ofs < 2 ^ 64" "desc_total img ofs mod 8 = 0"
    and "load64 img ofs = 0"
  shows "avb_property_descriptor_validate_and_byteswap
      \<lparr>pd_parent = \<lparr>tag = load64 img ofs, num_bytes_following = load64 img (ofs + 8)\<rparr>,
       pd_key_num_bytes = load64 img (ofs + 16), pd_value_num_bytes = load64 img (ofs + 24)\<rparr> =
    (34 + be_nat (take 8 (drop (ofs + 16) img)) + be_nat (take 8 (drop (ofs + 24) img))
       \<le> desc_total img ofs,
     \<lparr>pd_parent = \<lparr>tag = 0, num_bytes_following = avb_be64toh (load64 img (ofs + 8))\<rparr>,
      pd_key_num_bytes = avb_be64toh (load64 img (ofs + 16)),
      pd_value_num_bytes = avb_be64toh (load64 img (ofs + 24))\<rparr>)"
proof -
  let ?nb = "avb_be64toh (load64 img (ofs + 8))"
  let ?k = "avb_be64toh (load64 img (ofs + 16))" and ?v = "avb_be64toh (load64 img (ofs + 24))"
  have u: "unat ?nb = be_nat (take 8 (drop (ofs + 8) img))" "unat ?k = be_nat (take 8 (drop (ofs + 16) img))"
    "unat ?v = be_nat (take 8 (drop (ofs + 24) img))"
    using assms(1) by (simp_all add: be64toh_load64)
  have tot: "desc_total img ofs = 16 + unat ?nb"
    by (simp add: u desc_total_def sizeof_AvbDescriptor_def)
  have al: "?nb AND 7 = 0"
    using assms(3) unfolding and_7_eq_0 tot by presburger
  have sum: "(case safe_add_all 18 [?k, ?v] of None \<Rightarrow> False | Some e \<Rightarrow> \<not> e > ?nb) =
      (34 + unat ?k + unat ?v \<le> desc_total img ofs)"
  proof (cases "18 + unat ?k + unat ?v < 2 ^ 64")
    case True
    then have e: "safe_add_all 18 [?k, ?v] = Some (18 + (?k + ?v))"
      using safe_add_all_eq [of 18 "[?k, ?v]"] by simp
    then have "unat (18 + (?k + ?v)) = 18 + unat ?k + unat ?v"
      using safe_add_all_Some [of 18 "[?k, ?v]"] by simp
    then show ?thesis
      unfolding e tot by (auto simp: word_less_nat_alt)
  next
    case False
    have "safe_add_all 18 [?k, ?v] = None"
    proof (rule ccontr)
      assume "safe_add_all 18 [?k, ?v] \<noteq> None"
      then obtain e where "safe_add_all 18 [?k, ?v] = Some e" by blast
      from safe_add_all_Some [OF this] show False
        using False unat_u64_less [of e] by simp
    qed
    then show ?thesis
      using False assms(2) by (simp del: safe_add_all.simps)
  qed
  show ?thesis
    using al sum assms(4)
    by (auto simp: avb_property_descriptor_validate_and_byteswap_def
        avb_descriptor_validate_and_byteswap_def Let_def u
        sizeof_AvbPropertyDescriptor_def sizeof_AvbDescriptor_def
        simp del: safe_add_all.simps split: option.splits)
qed

text \<open>The callback on a descriptor that lies inside the buffer, for a key of any length.\<close>

lemma lookup_callback:
  assumes len: "length img < 2 ^ 64" "ofs + 32 \<le> length img" "ofs + desc_total img ofs \<le> length img"
    and al: "desc_total img ofs mod 8 = 0"
    and key: "length key < 2 ^ 64" "length key \<le> length kbuf" "take (length key) kbuf = key"
  shows "property_lookup_desc_foreach img kbuf (of_nat (length key)) ofs data =
    (case prop_at img key ofs of
       Some (a, v) \<Rightarrow> Ok (False, Some (a, of_nat v)) | None \<Rightarrow> Ok (True, data))"
proof (cases "load64 img ofs = 0")
  case False
  then show ?thesis
    using len by (simp add: property_lookup_desc_foreach_def prop_at_def load64_eq_0)
next
  case True
  define k where "k = be_nat (take 8 (drop (ofs + 16) img))"
  define v where "v = be_nat (take 8 (drop (ofs + 24) img))"
  have zero: "be_nat (take 8 (drop ofs img)) = 0"
    using True len by (simp add: load64_eq_0)
  have ld: "load_AvbPropertyDescriptor (drop ofs img) =
      Ok \<lparr>pd_parent = \<lparr>tag = load64 img ofs, num_bytes_following = load64 img (ofs + 8)\<rparr>,
       pd_key_num_bytes = load64 img (ofs + 16), pd_value_num_bytes = load64 img (ofs + 24)\<rparr>"
    using len by (simp add: load_AvbPropertyDescriptor_def sizeof_AvbPropertyDescriptor_def
        load64_def add.commute add.left_commute)
  have val: "avb_property_descriptor_validate_and_byteswap
      \<lparr>pd_parent = \<lparr>tag = load64 img ofs, num_bytes_following = load64 img (ofs + 8)\<rparr>,
       pd_key_num_bytes = load64 img (ofs + 16), pd_value_num_bytes = load64 img (ofs + 24)\<rparr> =
    (34 + k + v \<le> desc_total img ofs,
     \<lparr>pd_parent = \<lparr>tag = 0, num_bytes_following = avb_be64toh (load64 img (ofs + 8))\<rparr>,
      pd_key_num_bytes = of_nat k, pd_value_num_bytes = of_nat v\<rparr>)"
    using property_validate_eq [of ofs img] len al True
    by (simp add: k_def v_def flip: be64toh_load64)
  show ?thesis
  proof (cases "34 + k + v \<le> desc_total img ofs")
    case False
    then show ?thesis
      using len True ld val zero
      by (simp add: property_lookup_desc_foreach_def prop_at_def k_def v_def Let_def)
  next
    case fits: True
    then have b: "ofs + 34 + k + v \<le> length img" using len by simp
    have ptr: "unat (of_nat ofs + 32 + of_nat k :: u64) = ofs + 32 + k"
      "unat (of_nat ofs + 32 + of_nat k + 1 :: u64) = ofs + 33 + k"
      "unat (of_nat ofs + 32 :: u64) = ofs + 32"
      using b len by (simp_all add: unat_word_ariths unat_of_nat take_bit_nat_eq_self)
    have same: "(of_nat (length key) :: u64) = of_nat k \<longleftrightarrow> length key = k"
      using key b len by (auto simp: word_unat_eq_iff unat_of_nat take_bit_nat_eq_self)
    have cmp: "\<exists>c. avb_memcmp (drop (ofs + 32) img) kbuf k = Ok c \<and>
        (c = 0 \<longleftrightarrow> take k (drop (ofs + 32) img) = key)" if "length key = k"
      using avb_memcmp_zero [of k "drop (ofs + 32) img" kbuf] key b that by simp
    have uk: "unat (of_nat k :: u64) = k"
      using b len by (simp add: unat_of_nat take_bit_nat_eq_self)
    have patt: "prop_at img key ofs =
      (if img ! (ofs + 32 + k) = 0 \<and> k = length key \<and> take k (drop (ofs + 32) img) = key
       then Some (ofs + 33 + k, v) else None)"
      using fits zero by (auto simp: prop_at_def k_def v_def Let_def)
    show ?thesis
      unfolding patt property_lookup_desc_foreach_def ld bnd_simps val
      using len True b ptr same cmp uk fits
      by (auto simp: Let_def sizeof_AvbPropertyDescriptor_def)
  qed
qed

lemma visit_lookup:
  assumes "length img < 2 ^ 64" "desc_tiles img fin ofs os" "fin \<le> length img"
    and "\<forall>x\<in>set os. x + 32 \<le> length img"
    and "length key < 2 ^ 64" "length key \<le> length kbuf" "take (length key) kbuf = key"
  shows "visit (property_lookup_desc_foreach img kbuf (of_nat (length key))) os True data =
    (case first_prop img key os of Some (a, v) \<Rightarrow> Ok (False, Some (a, of_nat v)) | None \<Rightarrow> Ok (True, data))"
  using assms(2,4)
proof (induction rule: desc_tiles.induct)
  case (tiles_step ofs os)
  have "property_lookup_desc_foreach img kbuf (of_nat (length key)) ofs data =
    (case prop_at img key ofs of
       Some (a, v) \<Rightarrow> Ok (False, Some (a, of_nat v)) | None \<Rightarrow> Ok (True, data))"
    using assms tiles_step by (intro lookup_callback) auto
  then show ?case
    using tiles_step by (simp split: option.splits)
qed simp

text \<open>
  The arguments \<open>key\<close> and \<open>key_size\<close> of a lookup denote a key: the pointed-to memory starts with it,
  and the size is its length or zero for a NUL-terminated key.
\<close>

definition key_arg :: "bytes \<Rightarrow> bytes \<Rightarrow> u64 \<Rightarrow> bool" where
  "key_arg key kbuf key_size \<longleftrightarrow> length key < 2 ^ 64 \<and> take (length key) kbuf = key \<and>
     (key_size = of_nat (length key) \<and> key \<noteq> [] \<or>
      key_size = 0 \<and> cstring key \<and> length key < length kbuf \<and> kbuf ! length key = 0)"

lemma strlen_prefix:
  assumes "take (length key) kbuf = key" "cstring key" "length key < length kbuf" "kbuf ! length key = 0"
  shows "avb_strlen kbuf = Ok (length key)"
proof -
  have "kbuf = key @ 0 # drop (Suc (length key)) kbuf"
    using id_take_nth_drop [OF assms(3)] assms by simp
  then obtain rest where k: "kbuf = key @ 0 # rest" by blast
  show ?thesis
    using assms(2) unfolding k avb_strlen_def cstr_def cstring_def
    by (simp add: takeWhile_append2 takeWhile_append)
qed

lemma lookup_first_prop:
  assumes A: "image_ok base img n" "desc_area img = (start, fin)" "start mod 8 = 0" "fin \<le> n"
    and T: "desc_tiles img fin start os"
    and R: "\<forall>x\<in>set os. x + 32 \<le> length img" and K: "key_arg key kbuf key_size"
  shows "avb_property_lookup (Some (base, img)) (of_nat n) kbuf key_size =
    Ok (case first_prop img key os of Some (a, v) \<Rightarrow> PropValue a (of_nat v) | None \<Rightarrow> PropNull)"
proof -
  have b: "length img < 2 ^ 64" "fin \<le> length img"
    using A(1,4) by (auto simp: image_ok_def)
  have k: "length key \<le> length kbuf" "take (length key) kbuf = key" "length key < 2 ^ 64"
    using K by (auto simp: key_arg_def) (metis length_take min.cobounded1)+
  have size: "(if key_size = 0 then bnd (avb_strlen kbuf) (\<lambda>n. Ok (of_nat n)) else Ok key_size) =
      Ok (of_nat (length key))"
    using K strlen_prefix [of key kbuf]
    by (auto simp: key_arg_def word_unat_eq_iff unat_of_nat take_bit_nat_eq_self)
  show ?thesis
    unfolding avb_property_lookup_def size bnd_simps
    by (subst foreach_tiles [OF A T])
      (auto simp: visit_lookup [OF b(1) T b(2) R k(3,1,2)] split: option.splits)
qed

section \<open>Numeric values\<close>

definition digits_value :: "nat \<Rightarrow> nat list \<Rightarrow> nat" where
  "digits_value b ds = foldl (\<lambda>a d. a * b + d) 0 ds"

text \<open>The loop computes the value of the digits modulo \<open>2 ^ 64\<close>.\<close>

lemma parse_loop_digits:
  assumes "\<forall>c\<in>set cs. c \<noteq> 0 \<and> prop_digit base c \<noteq> None"
  shows "parse_loop base (cs @ 0 # rest) (of_nat a) =
    Ok (Some (of_nat (foldl (\<lambda>a c. a * unat base + unat (the (prop_digit base c))) a cs)))"
  using assms
proof (induction cs arbitrary: a)
  case (Cons c cs)
  then obtain d where d: "prop_digit base c = Some d" by auto
  have "of_nat a * base + d = (of_nat (a * unat base + unat d) :: u64)"
    by simp
  with d Cons show ?case
    by (simp del: of_nat_mult of_nat_add)
qed simp

text \<open>Any other byte before the terminator is rejected.\<close>

lemma parse_loop_reject:
  assumes "\<forall>c\<in>set cs. c \<noteq> 0 \<and> prop_digit base c \<noteq> None" "c \<noteq> 0" "prop_digit base c = None"
  shows "parse_loop base (cs @ c # rest) a = Ok None"
  using assms by (induction cs arbitrary: a) (auto simp: Let_def)

end
