(* ===== verification/Avb_Hash_Stream.thy ===== *)
theory Avb_Hash_Stream
  imports Avb_Util
begin

text \<open>
  What the SHA-256 and SHA-512 streams of libavb have in common. \<open>avb_hash\<close> is the contract their
  clients use: after \<open>init\<close> and any sequence of \<open>update\<close> calls, \<open>final\<close> returns the digest of the bytes
  fed so far. \<open>block_stream\<close> is the shape the two implementations share (buffering of a partial block,
  padding, the length field); it is proved once that every such implementation fulfils \<open>avb_hash\<close>.
\<close>

section \<open>The context\<close>

text \<open>\<open>AvbSHA256Ctx\<close> and \<open>AvbSHA512Ctx\<close> differ in the width of the chaining words only.\<close>

record 'w sha_ctx =
  sc_h :: "'w list"
  sc_tot_len :: u64
  sc_len :: u64
  sc_block :: bytes
  sc_buf :: bytes

section \<open>Iterating a compression function\<close>

definition md_iter :: "nat \<Rightarrow> ('h \<Rightarrow> bytes \<Rightarrow> 'h) \<Rightarrow> 'h \<Rightarrow> bytes \<Rightarrow> 'h" where
  "md_iter bs f h m = foldl (\<lambda>h i. f h (take bs (drop (i * bs) m))) h [0..<length m div bs]"

text \<open>The standard's padding: a one bit, zeros, and the bit length as a big-endian number of \<open>lb\<close> bytes.\<close>

definition md_pad :: "nat \<Rightarrow> nat \<Rightarrow> bytes \<Rightarrow> bytes" where
  "md_pad bs lb m =
     m @ [0x80] @ replicate ((bs - (length m + 1 + lb) mod bs) mod bs) 0 @
     map (\<lambda>i. of_nat (8 * length m div 256 ^ i)) (rev [0..<lb])"

lemma take_drop_exact: "length xs = n \<Longrightarrow> take n (xs @ ys) = xs \<and> drop n (xs @ ys) = ys"
  by auto

lemma md_iter_Nil [simp]: "md_iter bs f h [] = h"
  by (simp add: md_iter_def)

lemma md_iter_append:
  assumes "bs dvd length a" "0 < bs"
  shows "md_iter bs f h (a @ b) = md_iter bs f (md_iter bs f h a) b"
proof -
  obtain p where p: "length a = p * bs"
    using assms(1) by (metis dvd_def mult.commute)
  let ?q = "length b div bs"
  have n: "length (a @ b) div bs = p + ?q"
    using p assms(2) by simp
  have low: "take bs (drop (i * bs) (a @ b)) = take bs (drop (i * bs) a)" if "i < p" for i
  proof -
    have "Suc i * bs \<le> p * bs" using that by (intro mult_le_mono1) simp
    then show ?thesis using p by simp
  qed
  have high: "take bs (drop ((p + i) * bs) (a @ b)) = take bs (drop (i * bs) b)" for i
    using p by (simp add: add_mult_distrib)
  have fst_part: "foldl (\<lambda>h i. f h (take bs (drop (i * bs) (a @ b)))) h [0..<p] =
      foldl (\<lambda>h i. f h (take bs (drop (i * bs) a))) h [0..<p]"
    by (rule foldl_cong) (simp_all add: low del: take_append drop_append)
  have "[0..<p + k] = [0..<p] @ map ((+) p) [0..<k]" for k
    by (induction k) simp_all
  then have "md_iter bs f h (a @ b) =
      foldl (\<lambda>h i. f h (take bs (drop (i * bs) (a @ b)))) (foldl (\<lambda>h i. f h (take bs (drop (i * bs) (a @ b)))) h [0..<p])
        (map ((+) p) [0..<?q])"
    unfolding md_iter_def n by simp
  also have "\<dots> = foldl (\<lambda>h i. f h (take bs (drop (i * bs) b))) (foldl (\<lambda>h i. f h (take bs (drop (i * bs) a))) h [0..<p])
        [0..<?q]"
    by (simp add: foldl_map high fst_part del: take_append drop_append)
  finally show ?thesis
    unfolding md_iter_def using p assms(2) by simp
qed

lemma md_iter_block: "length b = bs \<Longrightarrow> 0 < bs \<Longrightarrow> md_iter bs f h b = f h b"
  by (simp add: md_iter_def)

lemma md_iter_induct:
  assumes "P h" "\<And>h b. P h \<Longrightarrow> P (f h b)"
  shows "P (md_iter bs f h m)"
proof -
  have "P (foldl (\<lambda>h i. f h (g i)) h is)" for g :: "nat \<Rightarrow> bytes" and "is"
    using assms(1) by (induction "is" arbitrary: h) (auto intro: assms(2))
  then show ?thesis unfolding md_iter_def .
qed

text \<open>The contract of a digest component.\<close>

locale avb_hash =
  fixes init :: "'c \<Rightarrow> 'c"
    and update :: "'c \<Rightarrow> bytes \<Rightarrow> u64 \<Rightarrow> 'c res"
    and final :: "'c \<Rightarrow> (bytes \<times> 'c) res"
    and shape :: "'c \<Rightarrow> bool"
    and absorbed :: "'c \<Rightarrow> bytes \<Rightarrow> bool"
    and digest :: "bytes \<Rightarrow> bytes"
    and dsize :: nat
  assumes init: "shape c \<Longrightarrow> absorbed (init c) []"
    and update: "\<lbrakk>absorbed c m; n \<le> length data; n + 128 < 2 ^ 64\<rbrakk> \<Longrightarrow>
      \<exists>c'. update c data (of_nat n) = Ok c' \<and> absorbed c' (m @ take n data)"
    and update_enough: "\<lbrakk>absorbed c m; update c data (of_nat n) = Ok c'; n + 128 < 2 ^ 64\<rbrakk> \<Longrightarrow> n \<le> length data"
    and final: "\<lbrakk>absorbed c m; length m < 2 ^ 61\<rbrakk> \<Longrightarrow> \<exists>c'. final c = Ok (digest m, c')"
    and digest_size: "length (digest m) = dsize"
begin

lemma stream1:
  assumes "shape c" "n \<le> length data" "n < 2 ^ 61"
  shows "\<exists>c'. bnd (update (init c) data (of_nat n)) final = Ok (digest (take n data), c')"
  using update [OF init [OF assms(1)], of n data] final [of _ "take n data"] assms by fastforce

lemma stream2:
  assumes "shape c" "n \<le> length a" "k \<le> length b" "n + k < 2 ^ 61"
  shows "\<exists>c'. bnd (update (init c) a (of_nat n)) (\<lambda>c. bnd (update c b (of_nat k)) final) =
    Ok (digest (take n a @ take k b), c')"
proof -
  obtain c1 where c1: "update (init c) a (of_nat n) = Ok c1" "absorbed c1 (take n a)"
    using update [OF init [OF assms(1)], of n a] assms by auto
  obtain c2 where c2: "update c1 b (of_nat k) = Ok c2" "absorbed c2 (take n a @ take k b)"
    using update [OF c1(2), of k b] assms by auto
  show ?thesis
    using c1 c2 final [OF c2(2)] assms by auto
qed

text \<open>Two pieces that were hashed were there to be read.\<close>

lemma stream2_Ok:
  assumes "shape c" "n + k < 2 ^ 61"
    and R: "bnd (update (init c) a (of_nat n)) (\<lambda>c. bnd (update c b (of_nat k)) final) = Ok (d, c')"
  shows "n \<le> length a \<and> k \<le> length b \<and> d = digest (take n a @ take k b)"
proof -
  obtain c1 c2 where c: "update (init c) a (of_nat n) = Ok c1" "update c1 b (of_nat k) = Ok c2"
    using R by (auto simp: bnd_eq_Ok)
  have n: "n \<le> length a"
    using update_enough [OF init [OF assms(1)] c(1)] assms(2) by simp
  have "absorbed c1 (take n a)"
    using update [OF init [OF assms(1)] n] c(1) assms(2) by auto
  then have "k \<le> length b"
    using update_enough [OF _ c(2)] assms(2) by simp
  with n show ?thesis
    using stream2 [OF assms(1) n] assms(2) R by fastforce
qed

end

text \<open>Feeding a message in pieces.\<close>

fun feed :: "('c \<Rightarrow> bytes \<Rightarrow> u64 \<Rightarrow> 'c res) \<Rightarrow> 'c \<Rightarrow> bytes list \<Rightarrow> 'c res" where
  "feed update c [] = Ok c"
| "feed update c (x # xs) = bnd (update c x (of_nat (length x))) (\<lambda>c. feed update c xs)"

context avb_hash
begin

lemma feed_absorbed:
  assumes "absorbed c m" "length (concat xs) < 2 ^ 61"
  shows "\<exists>c'. feed update c xs = Ok c' \<and> absorbed c' (m @ concat xs)"
  using assms
proof (induction xs arbitrary: c m)
  case (Cons x xs)
  obtain c1 where "update c x (of_nat (length x)) = Ok c1" "absorbed c1 (m @ x)"
    using update [OF Cons.prems(1), of "length x" x] Cons.prems(2) by auto
  with Cons.IH [of c1 "m @ x"] Cons.prems(2) show ?case by simp
qed simp

lemma stream_pieces:
  assumes "shape c" "length (concat xs) < 2 ^ 61"
  shows "\<exists>c'. bnd (feed update (init c) xs) final = Ok (digest (concat xs), c')"
  using feed_absorbed [OF init [OF assms(1)] assms(2)] final assms(2) by fastforce

end

section \<open>The shared implementation\<close>

definition stream_shape :: "nat \<Rightarrow> nat \<Rightarrow> 'w sha_ctx \<Rightarrow> bool" where
  "stream_shape bs dsize c \<longleftrightarrow>
     length (sc_h c) = 8 \<and> length (sc_block c) = 2 * bs \<and> length (sc_buf c) = dsize"

definition md_digest :: "nat \<Rightarrow> nat \<Rightarrow> ('h \<Rightarrow> bytes \<Rightarrow> 'h) \<Rightarrow> 'h \<Rightarrow> ('h \<Rightarrow> bytes) \<Rightarrow> bytes \<Rightarrow> bytes" where
  "md_digest bs lb compress h0 out m = out (md_iter bs compress h0 (md_pad bs lb m))"

text \<open>The bytes of whole blocks have gone through the compression function, the rest is buffered.\<close>

definition absorbed_by ::
    "nat \<Rightarrow> nat \<Rightarrow> ('w list \<Rightarrow> bytes \<Rightarrow> 'w list) \<Rightarrow> 'w list \<Rightarrow> 'w sha_ctx \<Rightarrow> bytes \<Rightarrow> bool" where
  "absorbed_by bs dsize compress h0 c m \<longleftrightarrow> stream_shape bs dsize c \<and>
     sc_h c = md_iter bs compress h0 (take (bs * (length m div bs)) m) \<and>
     sc_tot_len c = of_nat (bs * (length m div bs)) \<and>
     unat (sc_len c) = length m mod bs \<and>
     take (length m mod bs) (sc_block c) = drop (bs * (length m div bs)) m"

locale block_stream =
  fixes bs sh lb dsize :: nat
    and compress :: "'w list \<Rightarrow> bytes \<Rightarrow> 'w list"
    and h0 :: "'w list"
    and out :: "'w list \<Rightarrow> bytes"
    and transform :: "'w sha_ctx \<Rightarrow> bytes \<Rightarrow> u64 \<Rightarrow> 'w sha_ctx res"
    and init :: "'w sha_ctx \<Rightarrow> 'w sha_ctx"
    and update :: "'w sha_ctx \<Rightarrow> bytes \<Rightarrow> u64 \<Rightarrow> 'w sha_ctx res"
    and final :: "'w sha_ctx \<Rightarrow> (bytes \<times> 'w sha_ctx) res"
  assumes bs: "bs = 2 ^ sh" "lb + 1 < bs" "8 \<le> lb" "lb < 2 ^ 7" "bs \<le> 128"
    and h0: "length h0 = 8"
    and compress_len: "length h = 8 \<Longrightarrow> length (compress h b) = 8"
    and out_len: "length h = 8 \<Longrightarrow> length (out h) = dsize"
    and init_eq: "length (sc_h c) = 8 \<Longrightarrow> init c = c\<lparr>sc_h := h0, sc_len := 0, sc_tot_len := 0\<rparr>"
    and transform_eq: "length (sc_h c) = 8 \<Longrightarrow> unat nb * bs \<le> length m \<Longrightarrow>
      transform c m nb = Ok (c\<lparr>sc_h := md_iter bs compress (sc_h c) (take (unat nb * bs) m)\<rparr>)"
    and transform_short: "length m < unat nb * bs \<Longrightarrow> transform c m nb = Fault BadAccess"
    and update_eq: "update c data len =
      (let tmp_len = of_nat bs - sc_len c; rem_len = (if len < tmp_len then len else tmp_len)
       in bnd (avb_memcpy (sc_block c) (unat (sc_len c)) data (unat rem_len)) (\<lambda>blk.
         let c = c\<lparr>sc_block := blk\<rparr>
         in if sc_len c + len < of_nat bs then Ok (c\<lparr>sc_len := sc_len c + len\<rparr>)
         else let new_len = len - rem_len; block_nb = new_len div of_nat bs;
                  shifted_data = drop (unat rem_len) data
         in bnd (transform c (sc_block c) 1) (\<lambda>c.
            bnd (transform c shifted_data block_nb) (\<lambda>c.
              let rem_len = new_len mod of_nat bs
              in bnd (avb_memcpy (sc_block c) 0 (drop (unat (push_bit sh block_nb)) shifted_data)
                       (unat rem_len)) (\<lambda>blk.
                   Ok (c\<lparr>sc_block := blk, sc_len := rem_len,
                         sc_tot_len := sc_tot_len c + push_bit sh (block_nb + 1)\<rparr>))))))"
    and final_eq: "length (sc_buf c) = dsize \<Longrightarrow> length (sc_h c) = 8 \<Longrightarrow> sc_len c < of_nat bs \<Longrightarrow>
      length (sc_block c) = 2 * bs \<Longrightarrow> final c =
      (let block_nb = 1 + (if of_nat (bs - (lb + 1)) < sc_len c mod of_nat bs then 1 else 0);
           len_b = push_bit 3 (sc_tot_len c + sc_len c);
           pm_len = push_bit sh block_nb
       in bnd (avb_memset (sc_block c) (unat (sc_len c)) 0 (unat (pm_len - sc_len c))) (\<lambda>blk.
          let blk = blk[unat (sc_len c) := 0x80]
          in bnd (avb_memcpy blk (unat (pm_len - 8)) (map (byte_at len_b) (rev [0..<8])) 8) (\<lambda>blk.
             bnd (transform (c\<lparr>sc_block := blk\<rparr>) blk block_nb) (\<lambda>c.
               Ok (out (sc_h c), c\<lparr>sc_buf := out (sc_h c)\<rparr>)))))"
begin

lemma bs_pos [simp]: "0 < bs"
  using bs by simp

lemma bs_word: "unat (of_nat bs :: u64) = bs"
  using bs(5) by (simp add: unat_of_nat take_bit_nat_eq_self)

lemma h_len: "length h = 8 \<Longrightarrow> length (md_iter bs compress h m) = 8"
  by (rule md_iter_induct) (auto intro: compress_len)

lemma init_absorbed: "stream_shape bs dsize c \<Longrightarrow> absorbed_by bs dsize compress h0 (init c) []"
  by (simp add: stream_shape_def absorbed_by_def init_eq h0)

text \<open>The numbers of an \<open>update\<close> that completes a block, with \<open>r\<close> bytes buffered and \<open>k\<close> bytes left over.\<close>

lemma update_numbers:
  assumes "unat (l :: u64) = r" "r < bs" "bs - r + k + 128 < 2 ^ 64"
  defines "len \<equiv> of_nat (bs - r + k)"
  shows "unat (of_nat bs - l) = bs - r" "unat len = bs - r + k" "\<not> len < of_nat bs - l"
    and "\<not> l + len < of_nat bs" "len - (of_nat bs - l) = of_nat k"
    and "unat (of_nat k div of_nat bs :: u64) = k div bs"
    and "unat (of_nat k mod of_nat bs :: u64) = k mod bs"
    and "unat (push_bit sh (of_nat k div of_nat bs) :: u64) = k div bs * bs"
    and "push_bit sh (of_nat k div of_nat bs + 1) = (of_nat ((k div bs + 1) * bs) :: u64)"
proof -
  have l: "l = of_nat r" by (simp flip: assms(1))
  have small: "bs \<le> 128" "k < 2 ^ 64" using bs assms(3) by simp_all
  show d: "unat (of_nat bs - l) = bs - r"
    using assms(1,2) bs_word by (simp add: unat_sub word_le_nat_alt)
  show ln: "unat len = bs - r + k"
    using assms(3) unfolding len_def by (simp add: unat_of_nat take_bit_nat_eq_self del: of_nat_add)
  show "\<not> len < of_nat bs - l"
    using d ln by (simp add: word_less_nat_alt)
  have "unat (l + len) = bs + k"
    using assms(1-3) ln small by (simp add: unat_word_ariths)
  then show "\<not> l + len < of_nat bs"
    by (simp add: word_less_nat_alt bs_word)
  show "len - (of_nat bs - l) = of_nat k"
    using assms(2) unfolding l len_def by (simp add: of_nat_diff)
  have uk: "unat (of_nat k :: u64) = k"
    using small by (simp add: unat_of_nat take_bit_nat_eq_self)
  show q: "unat (of_nat k div of_nat bs :: u64) = k div bs"
    by (simp add: unat_div uk bs_word)
  show "unat (of_nat k mod of_nat bs :: u64) = k mod bs"
    by (simp add: unat_mod uk bs_word)
  have "k div bs * bs < 2 ^ 64"
    using small div_times_less_eq_dividend [of k bs] by linarith
  then show "unat (push_bit sh (of_nat k div of_nat bs) :: u64) = k div bs * bs"
    using q bs(1) by (simp add: unat_push_bit_exact)
  have "(of_nat k div of_nat bs :: u64) = of_nat (k div bs)"
    by (simp flip: q)
  then show "push_bit sh (of_nat k div of_nat bs + 1) = (of_nat ((k div bs + 1) * bs) :: u64)"
    using bs(1) by (simp add: push_bit_eq_mult algebra_simps)
qed

lemma update_short:
  assumes A: "absorbed_by bs dsize compress h0 c m" and n: "n \<le> length data"
    and short: "length m mod bs + n < bs"
  shows "\<exists>c'. update c data (of_nat n) = Ok c' \<and> absorbed_by bs dsize compress h0 c' (m @ take n data)"
proof -
  let ?r = "length m mod bs"
  have l: "unat (sc_len c) = ?r" "length (sc_block c) = 2 * bs"
    using A by (auto simp: absorbed_by_def stream_shape_def)
  have un: "unat (of_nat n :: u64) = n"
    using short bs(5) by (simp add: unat_of_nat take_bit_nat_eq_self)
  have "unat (of_nat bs - sc_len c) = bs - ?r"
    using l bs_word by (simp add: unat_sub word_le_nat_alt)
  then have cmp: "of_nat n < of_nat bs - sc_len c"
    using un short by (simp add: word_less_nat_alt)
  have sum: "unat (sc_len c + of_nat n) = ?r + n"
    using l un short bs(5) by (simp add: unat_word_ariths)
  then have lt: "sc_len c + of_nat n < of_nat bs"
    using short by (simp add: word_less_nat_alt bs_word)
  have "(length m + n) div bs = length m div bs" "(length m + n) mod bs = ?r + n"
    using short by (simp_all add: div_add1_eq [of "length m"] mod_add_eq [of "length m" bs n, symmetric])
  moreover have "take (?r + n) (take ?r (sc_block c) @ take n data @ drop (?r + n) (sc_block c)) =
      drop (bs * (length m div bs)) m @ take n data"
    using A l n short by (simp add: absorbed_by_def minus_mult_div_eq_mod)
  ultimately show ?thesis
    using A n l short cmp lt sum un
    by (auto simp: update_eq avb_memcpy_def absorbed_by_def stream_shape_def Let_def
        minus_mult_div_eq_mod)
qed

lemma update_long:
  assumes A: "absorbed_by bs dsize compress h0 c m" and n: "n \<le> length data" "n + 128 < 2 ^ 64"
    and long: "\<not> length m mod bs + n < bs"
  shows "\<exists>c'. update c data (of_nat n) = Ok c' \<and> absorbed_by bs dsize compress h0 c' (m @ take n data)"
proof -
  define r where "r = length m mod bs"
  define q where "q = length m div bs"
  define k where "k = n - (bs - r)"
  have r: "r < bs" by (simp add: r_def)
  have lm: "length m = bs * q + r" by (simp add: q_def r_def)
  have nk: "n = bs - r + k" using long r by (simp add: k_def r_def)
  have l: "unat (sc_len c) = r" "length (sc_block c) = 2 * bs" "length (sc_h c) = 8"
    "length (sc_buf c) = dsize" "sc_tot_len c = of_nat (bs * q)"
    "sc_h c = md_iter bs compress h0 (take (bs * q) m)" "take r (sc_block c) = drop (bs * q) m"
    using A by (auto simp: absorbed_by_def stream_shape_def r_def q_def)
  note N = update_numbers [OF l(1) r, of k]
  have big: "bs - r + k + 128 < 2 ^ 64" using n(2) nk by simp
  define blk where "blk = take r (sc_block c) @ take (bs - r) data @ drop bs (sc_block c)"
  have first: "take bs blk = drop (bs * q) m @ take (bs - r) data"
    using l r n nk lm by (simp add: blk_def)
  define rest where "rest = drop (bs - r) data"
  have kr: "k \<le> length rest" using n nk by (simp add: rest_def)
  have kd: "k div bs * bs \<le> k" "k div bs * bs + k mod bs = k" by simp_all
  have len': "length (m @ take n data) = bs * (q + 1 + k div bs) + k mod bs"
    using n(1) nk r kd(2) lm by (simp add: algebra_simps)
  have dm: "length (m @ take n data) div bs = q + 1 + k div bs"
    "length (m @ take n data) mod bs = k mod bs"
  proof -
    have "(bs * x + k mod bs) div bs = x" "(bs * x + k mod bs) mod bs = k mod bs" for x
      by simp_all
    then show "length (m @ take n data) div bs = q + 1 + k div bs"
      "length (m @ take n data) mod bs = k mod bs"
      unfolding len' by blast+
  qed
  have split: "m @ take n data =
      (take (bs * q) m @ (drop (bs * q) m @ take (bs - r) data) @ take (k div bs * bs) rest) @
      take (k mod bs) (drop (k div bs * bs) rest)"
  proof -
    have "take n data = take (bs - r) data @ take k rest"
      unfolding nk by (simp add: take_add rest_def)
    moreover have "take k rest = take (k div bs * bs) rest @ take (k mod bs) (drop (k div bs * bs) rest)"
      by (metis kd(2) take_add)
    ultimately show ?thesis by simp
  qed
  have lens: "length (take (bs * q) m) = bs * q" "length (drop (bs * q) m @ take (bs - r) data) = bs"
    "length (take (k div bs * bs) rest) = k div bs * bs"
    using lm n(1) nk r le_trans [OF kd(1) kr] by (simp_all add: min_absorb2)
  have all_len: "length (take (bs * q) m @ (drop (bs * q) m @ take (bs - r) data) @
      take (k div bs * bs) rest) = bs * (q + 1 + k div bs)"
    unfolding length_append [of "take (bs * q) m"] length_append [of "drop (bs * q) m @ take (bs - r) data"]
      lens by (simp add: algebra_simps)
  have whole: "take (bs * (q + 1 + k div bs)) (m @ take n data) =
      take (bs * q) m @ (drop (bs * q) m @ take (bs - r) data) @ take (k div bs * bs) rest"
    "drop (bs * (q + 1 + k div bs)) (m @ take n data) = take (k mod bs) (drop (k div bs * bs) rest)"
    by (simp_all only: split take_drop_exact [OF all_len])
  have h': "md_iter bs compress h0 (take (bs * (q + 1 + k div bs)) (m @ take n data)) =
      md_iter bs compress (md_iter bs compress (sc_h c) (take bs blk)) (take (k div bs * bs) rest)"
    unfolding whole first l(6)
    by (subst md_iter_append, unfold lens, simp, simp, subst md_iter_append, unfold lens, simp_all)
  have t: "of_nat (bs * q) + of_nat (bs + k div bs * bs) = (of_nat (bs + bs * (q + k div bs)) :: u64)"
    by (simp add: algebra_simps)
  have blk_len: "length blk = 2 * bs" using l r n nk lm by (simp add: blk_def)
  define h1 where "h1 = md_iter bs compress (sc_h c) (take bs blk)"
  let ?c1 = "c\<lparr>sc_block := blk\<rparr>" and ?nb = "of_nat k div of_nat bs :: u64"
  let ?h2 = "md_iter bs compress h1 (take (k div bs * bs) rest)"
  let ?blk2 = "take (k mod bs) (drop (k div bs * bs) rest) @ drop (k mod bs) blk"
  have s0: "avb_memcpy (sc_block c) r data (bs - r) = Ok blk"
    using l r n nk by (simp add: avb_memcpy_def blk_def)
  have s1: "transform ?c1 blk 1 = Ok (?c1\<lparr>sc_h := h1\<rparr>)"
    using transform_eq [of ?c1 1 blk] l(3) blk_len by (simp add: h1_def)
  have s2: "transform (?c1\<lparr>sc_h := h1\<rparr>) rest ?nb = Ok (?c1\<lparr>sc_h := ?h2\<rparr>)"
    using transform_eq [of "?c1\<lparr>sc_h := h1\<rparr>" ?nb rest] h_len [OF l(3)] N(6) [OF big] le_trans [OF kd(1) kr]
    by (simp add: h1_def)
  have km: "k mod bs \<le> length rest - k div bs * bs" "k mod bs \<le> 2 * bs"
    using kd kr mod_less_divisor [OF bs_pos, of k] by linarith+
  have s3: "avb_memcpy blk 0 (drop (k div bs * bs) rest) (k mod bs) = Ok ?blk2"
    using blk_len km by (simp add: avb_memcpy_def)
  define len :: u64 where "len = of_nat (bs - r + k)"
  note NN = N [OF big, folded len_def]
  have "update c data len = Ok (c\<lparr>sc_h := ?h2, sc_block := ?blk2, sc_len := of_nat k mod of_nat bs,
      sc_tot_len := of_nat (bs * (q + 1 + k div bs))\<rparr>)"
    using s1 s2 s3 unfolding update_eq Let_def
    by (simp add: NN l(1,5) s0 t rest_def [symmetric] del: of_nat_mult of_nat_add drop_drop)
  moreover have "absorbed_by bs dsize compress h0 (c\<lparr>sc_h := ?h2, sc_block := ?blk2,
      sc_len := of_nat k mod of_nat bs, sc_tot_len := of_nat (bs * (q + 1 + k div bs))\<rparr>)
      (m @ take n data)"
    unfolding absorbed_by_def stream_shape_def dm h' whole(2) h1_def
    using N(7) [OF big] blk_len km l h_len [OF h_len [OF l(3)]] by simp
  ultimately show ?thesis unfolding len_def nk by blast
qed

lemma update_enough:
  assumes A: "absorbed_by bs dsize compress h0 c m" and U: "update c data (of_nat n) = Ok c'" and n: "n + 128 < 2 ^ 64"
  shows "n \<le> length data"
proof (cases "length m mod bs + n < bs")
  case True
  have "unat (of_nat bs - sc_len c) = bs - length m mod bs"
    using A bs_word by (simp add: absorbed_by_def unat_sub word_le_nat_alt)
  moreover have un: "unat (of_nat n :: u64) = n"
    using n by (simp add: unat_of_nat take_bit_nat_eq_self)
  ultimately have "of_nat n < of_nat bs - sc_len c"
    using True by (simp add: word_less_nat_alt)
  with U un show ?thesis
    by (simp add: update_eq Let_def avb_memcpy_def split: if_splits)
next
  case False
  define r where "r = length m mod bs"
  define k where "k = n - (bs - r)"
  have r: "unat (sc_len c) = r" "r < bs" using A by (simp_all add: absorbed_by_def r_def)
  have nk: "n = bs - r + k" using False r by (simp add: k_def r_def)
  define len :: u64 where "len = of_nat (bs - r + k)"
  note N = update_numbers [OF r, of k, folded len_def]
  define rest where "rest = drop (bs - r) data"
  have big: "bs - r + k + 128 < 2 ^ 64" using n nk by simp
  let ?nb = "of_nat k div of_nat bs :: u64"
  obtain c1 c2 where c: "bs - r \<le> length data" "transform c1 rest ?nb = Ok c2"
      "avb_memcpy (sc_block c2) 0 (drop (k div bs * bs) rest) (k mod bs) \<noteq> Fault BadAccess"
    using U unfolding nk len_def [symmetric] update_eq Let_def
    by (auto simp: N [OF big] r rest_def [symmetric] bnd_eq_Ok avb_memcpy_def [of "sc_block c"] split: if_splits
        simp del: drop_drop)
  have "k div bs * bs \<le> length rest"
    using transform_short [of rest ?nb c1] c(2) N(6) [OF big] by (auto simp: not_less [symmetric])
  moreover have "k mod bs \<le> length (drop (k div bs * bs) rest)"
    using c(3) by (auto simp: avb_memcpy_def split: if_splits)
  moreover have "k div bs * bs + k mod bs = k" by simp
  ultimately have "k \<le> length rest" unfolding length_drop by linarith
  with c(1) show ?thesis by (simp add: nk rest_def)
qed

text \<open>The last block or two: the buffered bytes, the marker, zeros and the length.\<close>

definition tail_blocks :: "bytes \<Rightarrow> bytes \<Rightarrow> bytes" where
  "tail_blocks b lenb =
     (let sz = (if bs - (lb + 1) < length b then 2 * bs else bs)
      in b @ 0x80 # replicate (sz - length b - 9) 0 @ lenb)"

lemma pad_tail:
  assumes "8 * length m < 2 ^ 64"
  shows "md_pad bs lb m = take (bs * (length m div bs)) m @
    tail_blocks (drop (bs * (length m div bs)) m) (map (byte_at (of_nat (8 * length m) :: u64)) (rev [0..<8]))"
proof -
  define r where "r = length m mod bs"
  have r: "r < bs" "length (drop (bs * (length m div bs)) m) = r"
    by (simp_all add: r_def minus_mult_div_eq_mod)
  define z where "z = (bs - (length m + 1 + lb) mod bs) mod bs"
  have m: "(length m + 1 + lb) mod bs = (r + 1 + lb) mod bs"
    unfolding r_def by (metis mod_add_left_eq add.assoc)
  have z: "z + (lb - 8) = (if bs - (lb + 1) < r then 2 * bs else bs) - r - 9"
    unfolding z_def m using r(1) bs(2,3) by (auto simp: mod_if)
  have hi: "of_nat (8 * length m div 256 ^ i) = (0 :: u8)" if "8 \<le> i" for i
  proof -
    have "(256 :: nat) ^ 8 \<le> 256 ^ i" using that by (intro power_increasing) simp_all
    then have "8 * length m < 256 ^ i" using assms by simp
    then show ?thesis by simp
  qed
  have lo: "of_nat (8 * length m div 256 ^ i) = byte_at (of_nat (8 * length m) :: u64) i" for i
  proof -
    have "unat (of_nat (8 * length m) :: u64) = 8 * length m"
      using assms by (simp add: unat_of_nat take_bit_nat_eq_self del: of_nat_mult)
    then show ?thesis
      unfolding word_unat_eq_iff unat_byte_at
      by (simp add: unat_of_nat take_bit_eq_mod power_mult del: of_nat_mult)
  qed
  have "rev [0..<lb] = rev [8..<lb] @ rev [0..<8]"
    using bs(3) by (metis le0 rev_append upt_add_eq_append le_add_diff_inverse)
  moreover have "map (\<lambda>i. of_nat (8 * length m div 256 ^ i) :: u8) (rev [8..<lb]) = replicate (lb - 8) 0"
    using hi by (intro replicate_eqI) (auto simp del: of_nat_mult)
  ultimately have "map (\<lambda>i. of_nat (8 * length m div 256 ^ i)) (rev [0..<lb]) =
      replicate (lb - 8) 0 @ map (byte_at (of_nat (8 * length m) :: u64)) (rev [0..<8])"
    using lo by (simp del: of_nat_mult)
  then show ?thesis
    unfolding md_pad_def tail_blocks_def z_def [symmetric] Let_def r(2) z [symmetric]
    by (simp add: replicate_add)
qed

lemma final_block:
  assumes "r + 9 \<le> sz" "sz \<le> length blk" "length lenb = 8"
  shows "bnd (avb_memset blk r 0 (sz - r)) (\<lambda>b. avb_memcpy (b[r := 0x80]) (sz - 8) lenb 8) =
    Ok (take r blk @ 0x80 # replicate (sz - r - 9) 0 @ lenb @ drop sz blk)"
proof -
  have e: "replicate (sz - r) (0 :: u8) = 0 # replicate (sz - r - 9) 0 @ replicate 8 0"
    using assms(1) by (simp flip: replicate_add replicate_Suc)
  have "take (sz - 8) (take r blk @ 0x80 # replicate (sz - r - 9) 0 @ replicate 8 0 @ drop sz blk) =
      take r blk @ 0x80 # replicate (sz - r - 9) 0"
    using assms take_drop_exact [of "take r blk @ 0x80 # replicate (sz - r - 9) 0" "sz - 8"] by simp
  moreover have "drop sz (take r blk @ 0x80 # replicate (sz - r - 9) 0 @ replicate 8 0 @ drop sz blk) = drop sz blk"
    using assms take_drop_exact [of "take r blk @ 0x80 # replicate (sz - r - 9) 0 @ replicate 8 0" sz] by simp
  ultimately show ?thesis
    using assms by (simp add: avb_memset_def avb_memcpy_def e list_update_append del: replicate.simps)
qed

lemma final_absorbed:
  assumes A: "absorbed_by bs dsize compress h0 c m" and small: "length m < 2 ^ 61"
  shows "\<exists>c'. final c = Ok (md_digest bs lb compress h0 out m, c')"
proof -
  define r where "r = length m mod bs"
  define q where "q = length m div bs"
  have r: "r < bs" by (simp add: r_def)
  have lm: "length m = bs * q + r" by (simp add: q_def r_def)
  have l: "unat (sc_len c) = r" "length (sc_block c) = 2 * bs" "length (sc_h c) = 8"
    "length (sc_buf c) = dsize" "sc_tot_len c = of_nat (bs * q)"
    "sc_h c = md_iter bs compress h0 (take (bs * q) m)" "take r (sc_block c) = drop (bs * q) m"
    using A by (auto simp: absorbed_by_def stream_shape_def r_def q_def)
  have lr: "sc_len c = of_nat r" by (simp flip: l(1))
  define two where "two \<longleftrightarrow> bs - (lb + 1) < r"
  define sz where "sz = (if two then 2 * bs else bs)"
  have cmp: "(of_nat (bs - (lb + 1)) < sc_len c mod of_nat bs) = two"
    using bs(5) r by (simp add: two_def word_less_nat_alt unat_mod bs_word l unat_of_nat
        take_bit_nat_eq_self del: of_nat_diff)
  define nb :: u64 where "nb = 1 + (if two then 1 else 0)"
  have nb: "unat nb * bs = sz" "unat nb = (if two then 2 else 1)" by (simp_all add: nb_def sz_def)
  have pm: "unat (push_bit sh nb) = sz"
    using nb bs by (simp add: unat_push_bit_exact sz_def split: if_splits)
  have sz: "r + 9 \<le> sz" "sz \<le> 2 * bs" "sz \<le> 256" "8 \<le> sz"
    using bs r by (auto simp: sz_def two_def)
  have pml: "unat (push_bit sh nb - sc_len c) = sz - r" "unat (push_bit sh nb - 8) = sz - 8"
    using pm sz l by (simp_all add: unat_sub word_le_nat_alt)
  define lenb where "lenb = map (byte_at (of_nat (8 * length m) :: u64)) (rev [0..<8])"
  have len_b: "push_bit 3 (sc_tot_len c + sc_len c) = of_nat (8 * length m)"
    unfolding l(5) lr lm by (simp add: push_bit_eq_mult algebra_simps)
  let ?blk = "take r (sc_block c) @ 0x80 # replicate (sz - r - 9) 0 @ lenb @ drop sz (sc_block c)"
  have blk: "bnd (avb_memset (sc_block c) r 0 (sz - r))
      (\<lambda>b. avb_memcpy (b[r := 0x80]) (sz - 8) lenb 8) = Ok ?blk"
    using sz l by (intro final_block) (simp_all add: lenb_def)
  have tail: "take sz ?blk = tail_blocks (drop (bs * q) m) lenb" "sz \<le> length ?blk"
  proof -
    have ll: "length lenb = 8" "length (drop (bs * q) m) = r" by (simp_all add: lenb_def lm)
    have len: "length (take r (sc_block c) @ 0x80 # replicate (sz - r - 9) 0 @ lenb) = sz"
      using sz l(2) r ll by simp
    then show "sz \<le> length ?blk" by simp
    have "tail_blocks (drop (bs * q) m) lenb = take r (sc_block c) @ 0x80 # replicate (sz - r - 9) 0 @ lenb"
      unfolding tail_blocks_def ll(2) two_def [symmetric] sz_def [symmetric] Let_def l(7) ..
    then show "take sz ?blk = tail_blocks (drop (bs * q) m) lenb"
      using take_drop_exact [OF len, of "drop sz (sc_block c)"] by simp
  qed
  define c1 where "c1 = c\<lparr>sc_block := ?blk\<rparr>"
  define h1 where "h1 = md_iter bs compress (sc_h c) (take sz ?blk)"
  have tr: "transform c1 ?blk nb = Ok (c1\<lparr>sc_h := h1\<rparr>)"
  proof -
    have e: "sc_h c1 = sc_h c" by (simp add: c1_def)
    have "length (sc_h c1) = 8" by (simp add: e l(3))
    from transform_eq [OF this, of nb ?blk, unfolded nb(1), OF tail(2)] show ?thesis
      unfolding h1_def e .
  qed
  have "sc_len c < of_nat bs"
    using l r by (simp add: word_less_nat_alt bs_word)
  then have "final c = bnd (bnd (avb_memset (sc_block c) r 0 (sz - r))
      (\<lambda>b. avb_memcpy (b[r := 0x80]) (sz - 8) lenb 8)) (\<lambda>blk.
        bnd (transform (c\<lparr>sc_block := blk\<rparr>) blk nb) (\<lambda>c. Ok (out (sc_h c), c\<lparr>sc_buf := out (sc_h c)\<rparr>)))"
    unfolding final_eq [OF l(4,3) \<open>sc_len c < of_nat bs\<close> l(2)] cmp Let_def nb_def [symmetric] pml l(1) len_b lenb_def
    by (simp add: bnd_def split: res.splits)
  also have "\<dots> = Ok (out h1, c1\<lparr>sc_h := h1, sc_buf := out h1\<rparr>)"
    unfolding blk bnd_simps using tr by (simp add: c1_def)
  finally have "final c = Ok (out h1, c1\<lparr>sc_h := h1, sc_buf := out h1\<rparr>)" .
  moreover have "h1 = md_iter bs compress h0 (md_pad bs lb m)"
  proof -
    have "8 * length m < 2 ^ 64" using small by simp
    note pad = pad_tail [OF this, folded q_def lenb_def]
    have "bs dvd length (take (bs * q) m)" using lm by simp
    then show ?thesis
      unfolding h1_def tail(1) l(6) pad by (simp only: md_iter_append bs_pos)
  qed
  ultimately show ?thesis
    by (auto simp: md_digest_def)
qed

end

text \<open>Every such implementation fulfils the contract.\<close>

sublocale block_stream \<subseteq> stream: avb_hash init update final "stream_shape bs dsize"
  "absorbed_by bs dsize compress h0" "md_digest bs lb compress h0 out" dsize
proof unfold_locales
  show "absorbed_by bs dsize compress h0 (init c) []" if "stream_shape bs dsize c" for c
    using that by (rule init_absorbed)
  show "\<exists>c'. update c data (of_nat n) = Ok c' \<and> absorbed_by bs dsize compress h0 c' (m @ take n data)"
    if "absorbed_by bs dsize compress h0 c m" "n \<le> length data" "n + 128 < 2 ^ 64" for c m n data
    using that by (cases "length m mod bs + n < bs") (auto intro: update_short update_long)
  show "n \<le> length data"
    if "absorbed_by bs dsize compress h0 c m" "update c data (of_nat n) = Ok c'" "n + 128 < 2 ^ 64" for c m data n c'
    using that by (rule update_enough)
  show "\<exists>c'. final c = Ok (md_digest bs lb compress h0 out m, c')"
    if "absorbed_by bs dsize compress h0 c m" "length m < 2 ^ 61" for c m
    using that by (rule final_absorbed)
  show "length (md_digest bs lb compress h0 out m) = dsize" for m
    by (simp add: md_digest_def out_len h_len h0)
qed

end
