(* ===== verification/Avb_Sha2.thy ===== *)
theory Avb_Sha2
  imports Avb_Hash_Stream
begin

text \<open>
  The macros \<open>avb_sha256.c\<close> and \<open>avb_sha512.c\<close> share, over words of any width, and the standard they
  implement: the message schedule as a recursive function, the round as a map on eight working
  variables, rotation as a rotation. Three facts are proved for both widths at once: the schedule
  loop computes the schedule, the rolled round is the standard's, and the unrolled rounds, which rename
  the working variables instead of moving them, compute the same.
\<close>

section \<open>Macros\<close>

definition SHFR :: "'a::len word \<Rightarrow> nat \<Rightarrow> 'a word" where
  "SHFR x n = drop_bit n x"

definition ROTR :: "'a::len word \<Rightarrow> nat \<Rightarrow> 'a word" where
  "ROTR x n = drop_bit n x OR push_bit (LENGTH('a) - n) x"

definition CH :: "'a::len word \<Rightarrow> 'a word \<Rightarrow> 'a word \<Rightarrow> 'a word" where
  "CH x y z = (x AND y) XOR (NOT x AND z)"

definition MAJ :: "'a::len word \<Rightarrow> 'a word \<Rightarrow> 'a word \<Rightarrow> 'a word" where
  "MAJ x y z = (x AND y) XOR (x AND z) XOR (y AND z)"

definition UNPACK32 :: "u32 \<Rightarrow> bytes" where
  "UNPACK32 x = [ucast (drop_bit 24 x), ucast (drop_bit 16 x), ucast (drop_bit 8 x), ucast x]"

definition UNPACK64 :: "u64 \<Rightarrow> bytes" where
  "UNPACK64 x = [ucast (drop_bit 56 x), ucast (drop_bit 48 x), ucast (drop_bit 40 x),
     ucast (drop_bit 32 x), ucast (drop_bit 24 x), ucast (drop_bit 16 x), ucast (drop_bit 8 x), ucast x]"

definition PACK32 :: "bytes \<Rightarrow> nat \<Rightarrow> u32" where
  "PACK32 src i = ucast (src ! (i + 3)) OR push_bit 8 (ucast (src ! (i + 2))) OR
     push_bit 16 (ucast (src ! (i + 1))) OR push_bit 24 (ucast (src ! i))"

definition PACK64 :: "bytes \<Rightarrow> nat \<Rightarrow> u64" where
  "PACK64 src i = ucast (src ! (i + 7)) OR push_bit 8 (ucast (src ! (i + 6))) OR
     push_bit 16 (ucast (src ! (i + 5))) OR push_bit 24 (ucast (src ! (i + 4))) OR
     push_bit 32 (ucast (src ! (i + 3))) OR push_bit 40 (ucast (src ! (i + 2))) OR
     push_bit 48 (ucast (src ! (i + 1))) OR push_bit 56 (ucast (src ! i))"

lemma UNPACK64_byte_at: "UNPACK64 x = map (byte_at x) (rev [0..<8])"
  by (simp add: UNPACK64_def byte_at_def upt_rec)

lemma length_UNPACK [simp]: "length (UNPACK32 x) = 4" "length (UNPACK64 y) = 8"
  by (simp_all add: UNPACK32_def UNPACK64_def)

lemma unat_PACK32: "i + 4 \<le> length m \<Longrightarrow> unat (PACK32 m i) = be_nat (take 4 (drop i m))"
  using unat_or_bytes4 [of "m ! i" "m ! (i + 1)" "m ! (i + 2)" "m ! (i + 3)"]
  by (simp add: PACK32_def take_4_drop or.commute or.left_commute)

lemma unat_PACK64: "i + 8 \<le> length m \<Longrightarrow> unat (PACK64 m i) = be_nat (take 8 (drop i m))"
  using unat_or_bytes8 [of "m ! i" "m ! (i + 1)" "m ! (i + 2)" "m ! (i + 3)"
      "m ! (i + 4)" "m ! (i + 5)" "m ! (i + 6)" "m ! (i + 7)"]
  by (simp add: PACK64_def take_8_drop or.commute or.left_commute)

text \<open>The shift-and-or idiom is a rotation.\<close>

lemma ROTR_rotr:
  fixes x :: "'a::len word"
  assumes "0 < n" "n < LENGTH('a)"
  shows "ROTR x n = word_rotr n x"
  using assms
  by (auto simp: ROTR_def bit_eq_iff bit_simps mod_if add.commute [of _ n] dest: bit_imp_le_length)

text \<open>The loops that write eight words into the digest buffer.\<close>

definition store_words :: "('w \<Rightarrow> bytes) \<Rightarrow> nat \<Rightarrow> 'w list \<Rightarrow> bytes \<Rightarrow> bytes" where
  "store_words unpack wd h buf =
     foldl (\<lambda>buf i. take (i * wd) buf @ unpack (h ! i) @ drop (i * wd + wd) buf) buf [0..<8]"

lemma store_words_eq:
  assumes "\<And>x. length (unpack x) = wd" "length h = 8" "length buf = 8 * wd"
  shows "store_words unpack wd h buf = concat (map unpack h)"
proof -
  have len: "length (concat (map unpack xs)) = length xs * wd" for xs
    using assms(1) by (induction xs) simp_all
  have "foldl (\<lambda>buf i. take (i * wd) buf @ unpack (h ! i) @ drop (i * wd + wd) buf) buf [0..<k] =
      concat (map unpack (take k h)) @ drop (k * wd) buf" if "k \<le> 8" for k
    using that
  proof (induction k)
    case (Suc k)
    let ?c = "concat (map unpack (take k h))"
    have l: "length ?c = k * wd" using len [of "take k h"] Suc.prems assms(2) by simp
    have "drop (k * wd + wd) (?c @ drop (k * wd) buf) = drop (Suc k * wd) buf"
      unfolding drop_append l by (simp add: l add.commute)
    moreover have "take (Suc k) h = take k h @ [h ! k]"
      using Suc.prems assms(2) by (simp add: take_Suc_conv_app_nth)
    ultimately show ?case
      using Suc l by simp
  qed simp
  from this [of 8] show ?thesis
    using assms by (simp add: store_words_def)
qed

section \<open>The message schedule\<close>

text \<open>\<open>SCR(i)\<close> in a loop: the array grows by one word at a time.\<close>

definition sha2_scr :: "('a::len word \<Rightarrow> 'a word) \<Rightarrow> ('a word \<Rightarrow> 'a word) \<Rightarrow> 'a word list \<Rightarrow> nat \<Rightarrow> 'a word list" where
  "sha2_scr F3 F4 w i = w @ [F4 (w ! (i - 2)) + w ! (i - 7) + F3 (w ! (i - 15)) + w ! (i - 16)]"

fun sha2_W :: "('a::len word \<Rightarrow> 'a word) \<Rightarrow> ('a word \<Rightarrow> 'a word) \<Rightarrow> (nat \<Rightarrow> 'a word) \<Rightarrow> nat \<Rightarrow> 'a word" where
  "sha2_W s0 s1 M t =
     (if t < 16 then M t
      else s1 (sha2_W s0 s1 M (t - 2)) + sha2_W s0 s1 M (t - 7) + s0 (sha2_W s0 s1 M (t - 15)) +
           sha2_W s0 s1 M (t - 16))"

declare sha2_W.simps [simp del]

lemma sha2_W_cong:
  assumes "\<And>j. j < 16 \<Longrightarrow> M j = M' j"
  shows "sha2_W s0 s1 M t = sha2_W s0 s1 M' t"
proof (induction t rule: less_induct)
  case (less t)
  show ?case
    by (subst (1 2) sha2_W.simps) (simp add: assms less)
qed

lemma schedule_loop:
  "16 \<le> n \<Longrightarrow> foldl (sha2_scr F3 F4) (map M [0..<16]) [16..<n] = map (sha2_W F3 F4 M) [0..<n]"
proof (induction n rule: nat_induct_at_least)
  case base
  show ?case by (auto simp: sha2_W.simps)
next
  case (Suc n)
  then show ?case
    by (simp add: sha2_scr_def sha2_W.simps [of F3 F4 M n])
qed

section \<open>The rounds\<close>

text \<open>The body of the rolled loop: two temporaries, then the assignments in their order.\<close>

definition sha2_round ::
    "('a::len word \<Rightarrow> 'a word) \<Rightarrow> ('a word \<Rightarrow> 'a word) \<Rightarrow> 'a word \<Rightarrow> 'a word \<Rightarrow> 'a word list \<Rightarrow> 'a word list" where
  "sha2_round F1 F2 kj wj wv =
     (let t1 = wv ! 7 + F2 (wv ! 4) + CH (wv ! 4) (wv ! 5) (wv ! 6) + kj + wj;
          t2 = F1 (wv ! 0) + MAJ (wv ! 0) (wv ! 1) (wv ! 2);
          wv = wv[7 := wv ! 6]; wv = wv[6 := wv ! 5]; wv = wv[5 := wv ! 4];
          wv = wv[4 := wv ! 3 + t1]; wv = wv[3 := wv ! 2]; wv = wv[2 := wv ! 1];
          wv = wv[1 := wv ! 0]; wv = wv[0 := t1 + t2]
      in wv)"

text \<open>The macro of the unrolled loop: the indices rotate, the words stay.\<close>

definition sha2_exp ::
    "('a::len word \<Rightarrow> 'a word) \<Rightarrow> ('a word \<Rightarrow> 'a word) \<Rightarrow> 'a word \<Rightarrow> 'a word \<Rightarrow>
     nat \<times> nat \<times> nat \<times> nat \<times> nat \<times> nat \<times> nat \<times> nat \<Rightarrow> 'a word list \<Rightarrow> 'a word list" where
  "sha2_exp F1 F2 kj wj idx wv =
     (let (a, b, c, d, e, f, g, h) = idx;
          t1 = wv ! h + F2 (wv ! e) + CH (wv ! e) (wv ! f) (wv ! g) + kj + wj;
          t2 = F1 (wv ! a) + MAJ (wv ! a) (wv ! b) (wv ! c);
          wv = wv[d := wv ! d + t1]
      in wv[h := t1 + t2])"

text \<open>The eight index patterns of the unrolled code, in its order.\<close>

definition exp_indices :: "(nat \<times> nat \<times> nat \<times> nat \<times> nat \<times> nat \<times> nat \<times> nat) list" where
  "exp_indices =
    [(0, 1, 2, 3, 4, 5, 6, 7),
     (7, 0, 1, 2, 3, 4, 5, 6),
     (6, 7, 0, 1, 2, 3, 4, 5),
     (5, 6, 7, 0, 1, 2, 3, 4),
     (4, 5, 6, 7, 0, 1, 2, 3),
     (3, 4, 5, 6, 7, 0, 1, 2),
     (2, 3, 4, 5, 6, 7, 0, 1),
     (1, 2, 3, 4, 5, 6, 7, 0)]"

lemma length_8_cases:
  "length xs = 8 \<Longrightarrow> \<exists>a b c d e f g h. xs = [a, b, c, d, e, f, g, h]"
  by (auto simp: numeral_eq_Suc length_Suc_conv)

lemma length_round [simp]: "length (sha2_round F1 F2 k w wv) = length wv"
  by (simp add: sha2_round_def Let_def)

lemma round_variables:
  "sha2_round F1 F2 k w [a, b, c, d, e, f, g, h] =
    (let t1 = h + F2 e + CH e f g + k + w; t2 = F1 a + MAJ a b c
     in [t1 + t2, a, b, c, d + t1, e, f, g])"
  by (simp add: sha2_round_def Let_def)

lemma less_8_cases: "(j :: nat) < 8 \<Longrightarrow> j = 0 \<or> j = 1 \<or> j = 2 \<or> j = 3 \<or> j = 4 \<or> j = 5 \<or> j = 6 \<or> j = 7"
  by linarith

lemma exp_round:
  assumes "length wv = 8" "j < 8"
  shows "sha2_exp F1 F2 k w (exp_indices ! j) (rotate j wv) = rotate (j + 1) (sha2_round F1 F2 k w wv)"
proof -
  obtain a b c d e f g h where wv: "wv = [a, b, c, d, e, f, g, h]"
    using length_8_cases [OF assms(1)] by blast
  show ?thesis
    using less_8_cases [OF assms(2)]
    by (elim disjE)
      (simp_all add: wv round_variables sha2_exp_def exp_indices_def Let_def eval_nat_numeral rotate_def)
qed

text \<open>Any number of unrolled rounds.\<close>

lemma unrolled_rounds:
  assumes "length wv = 8"
  shows "foldl (\<lambda>wv j. sha2_exp F1 F2 (k j) (w j) (exp_indices ! (j mod 8)) wv) wv [0..<n] =
    rotate (n mod 8) (foldl (\<lambda>wv j. sha2_round F1 F2 (k j) (w j) wv) wv [0..<n])"
proof (induction n)
  case (Suc n)
  let ?r = "foldl (\<lambda>wv j. sha2_round F1 F2 (k j) (w j) wv) wv [0..<n]"
  have len: "length ?r = 8"
    using assms by (induction n) simp_all
  have "rotate (Suc (n mod 8)) xs = rotate (Suc n mod 8) xs" if "length xs = 8" for xs :: "'a word list"
    using that by (metis mod_Suc_eq rotate_conv_mod)
  with Suc len exp_round [OF len, of "n mod 8"] show ?case
    by simp
qed simp

section \<open>One block\<close>

text \<open>The loop body of the two \<open>transform\<close> functions, rolled and unrolled: \<open>M j\<close> is the \<open>j\<close>-th word
  of the block and \<open>n\<close> the number of rounds.\<close>

definition sha2_block ::
    "('a::len word \<Rightarrow> 'a word) \<Rightarrow> ('a word \<Rightarrow> 'a word) \<Rightarrow> ('a word \<Rightarrow> 'a word) \<Rightarrow> ('a word \<Rightarrow> 'a word) \<Rightarrow>
     'a word list \<Rightarrow> nat \<Rightarrow> (nat \<Rightarrow> 'a word) \<Rightarrow> 'a word list \<Rightarrow> 'a word list" where
  "sha2_block F1 F2 F3 F4 k n M h =
     (let w = map M [0..<16];
          w = foldl (sha2_scr F3 F4) w [16..<n];
          wv = map (\<lambda>j. h ! j) [0..<8];
          wv = foldl (\<lambda>wv j. sha2_round F1 F2 (k ! j) (w ! j) wv) wv [0..<n]
      in map (\<lambda>j. h ! j + wv ! j) [0..<8])"

definition sha2_block_unrolled ::
    "('a::len word \<Rightarrow> 'a word) \<Rightarrow> ('a word \<Rightarrow> 'a word) \<Rightarrow> ('a word \<Rightarrow> 'a word) \<Rightarrow> ('a word \<Rightarrow> 'a word) \<Rightarrow>
     'a word list \<Rightarrow> nat \<Rightarrow> (nat \<Rightarrow> 'a word) \<Rightarrow> 'a word list \<Rightarrow> 'a word list" where
  "sha2_block_unrolled F1 F2 F3 F4 k n M h =
     (let w = map M [0..<16];
          w = foldl (sha2_scr F3 F4) w [16..<n];
          wv = map (\<lambda>j. h ! j) [0..<8];
          wv = foldl (\<lambda>wv j. sha2_exp F1 F2 (k ! j) (w ! j) (exp_indices ! (j mod 8)) wv) wv [0..<n]
      in map (\<lambda>j. h ! j + wv ! j) [0..<8])"

lemma unrolled_block:
  "n mod 8 = 0 \<Longrightarrow> sha2_block_unrolled F1 F2 F3 F4 k n M h = sha2_block F1 F2 F3 F4 k n M h"
  by (simp add: sha2_block_def sha2_block_unrolled_def Let_def
      unrolled_rounds [where k = "(!) k" and w = "(!) w" for w])

text \<open>The compression function of FIPS 180-4, section 6: eight working variables, the schedule as a
  function of the round number.\<close>

fun fips_round ::
    "('a::len word \<Rightarrow> 'a word) \<Rightarrow> ('a word \<Rightarrow> 'a word) \<Rightarrow> 'a word \<Rightarrow> 'a word \<Rightarrow>
     'a word \<times> 'a word \<times> 'a word \<times> 'a word \<times> 'a word \<times> 'a word \<times> 'a word \<times> 'a word \<Rightarrow>
     'a word \<times> 'a word \<times> 'a word \<times> 'a word \<times> 'a word \<times> 'a word \<times> 'a word \<times> 'a word" where
  "fips_round S0 S1 Kt Wt (a, b, c, d, e, f, g, h) =
     (let T1 = h + S1 e + CH e f g + Kt + Wt; T2 = S0 a + MAJ a b c
      in (T1 + T2, a, b, c, d + T1, e, f, g))"

definition fips_compress ::
    "('a::len word \<Rightarrow> 'a word) \<Rightarrow> ('a word \<Rightarrow> 'a word) \<Rightarrow> ('a word \<Rightarrow> 'a word) \<Rightarrow> ('a word \<Rightarrow> 'a word) \<Rightarrow>
     (nat \<Rightarrow> 'a word) \<Rightarrow> nat \<Rightarrow> (nat \<Rightarrow> 'a word) \<Rightarrow> 'a word list \<Rightarrow> 'a word list" where
  "fips_compress S0 S1 s0 s1 K n M H =
     (case foldl (\<lambda>v t. fips_round S0 S1 (K t) (sha2_W s0 s1 M t) v)
             (H ! 0, H ! 1, H ! 2, H ! 3, H ! 4, H ! 5, H ! 6, H ! 7) [0..<n] of
        (a, b, c, d, e, f, g, h) \<Rightarrow>
          [H ! 0 + a, H ! 1 + b, H ! 2 + c, H ! 3 + d, H ! 4 + e, H ! 5 + f, H ! 6 + g, H ! 7 + h])"

lemma rounds_fips:
  fixes H :: "'a::len word list"
  shows "foldl (\<lambda>wv j. sha2_round F1 F2 (K j) (w j) wv) [H ! 0, H ! 1, H ! 2, H ! 3, H ! 4, H ! 5, H ! 6, H ! 7] [0..<n] =
    (case foldl (\<lambda>v t. fips_round F1 F2 (K t) (w t) v)
             (H ! 0, H ! 1, H ! 2, H ! 3, H ! 4, H ! 5, H ! 6, H ! 7) [0..<n] of
        (a, b, c, d, e, f, g, h) \<Rightarrow> [a, b, c, d, e, f, g, h])"
  by (induction n) (simp_all add: round_variables Let_def split: prod.splits)

lemma upt_8: "[0..<8] = [0, 1, 2, 3, 4, 5, 6, 7 :: nat]"
  by (simp add: upt_rec)

lemma block_fips:
  assumes "16 \<le> n"
  shows "sha2_block F1 F2 F3 F4 k n M h = fips_compress F1 F2 F3 F4 ((!) k) n M h"
proof -
  have "foldl (\<lambda>wv j. sha2_round F1 F2 (k ! j) (map (sha2_W F3 F4 M) [0..<n] ! j) wv) xs [0..<n] =
      foldl (\<lambda>wv j. sha2_round F1 F2 (k ! j) (sha2_W F3 F4 M j) wv) xs [0..<n]" for xs
    by (rule foldl_cong) simp_all
  then show ?thesis
    using rounds_fips [of F1 F2 "(!) k" "sha2_W F3 F4 M" h n]
    by (simp add: sha2_block_def fips_compress_def Let_def schedule_loop [OF assms] upt_8
        split: prod.splits)
qed

lemma length_fips_compress [simp]: "length (fips_compress S0 S1 s0 s1 K n M H) = 8"
  by (simp add: fips_compress_def split: prod.splits)

lemma length_sha2_block [simp]: "length (sha2_block F1 F2 F3 F4 k n M h) = 8"
  by (simp add: sha2_block_def Let_def)

section \<open>The tables\<close>

text \<open>
  The constants are the leading fractional bits of square and cube roots of the first primes. With
  \<open>x = 2 ^ b * root\<close> rounded down, the integer part is below \<open>2 ^ 3\<close> for the square roots and the cube
  roots used here, so a constant is checked by bracketing \<open>p * 2 ^ (b * e)\<close> between powers.
\<close>

definition root_bits :: "nat \<Rightarrow> nat \<Rightarrow> nat \<Rightarrow> nat \<Rightarrow> nat \<Rightarrow> bool" where
  "root_bits e b p i c \<longleftrightarrow> (i * 2 ^ b + c) ^ e \<le> p * 2 ^ (b * e) \<and> p * 2 ^ (b * e) < (i * 2 ^ b + c + 1) ^ e"

definition first_primes :: "nat list" where
  "first_primes = [2, 3, 5, 7, 11, 13, 17, 19, 23, 29, 31, 37, 41, 43, 47, 53, 59, 61, 67, 71, 73,
     79, 83, 89, 97, 101, 103, 107, 109, 113, 127, 131, 137, 139, 149, 151, 157, 163, 167, 173, 179,
     181, 191, 193, 197, 199, 211, 223, 227, 229, 233, 239, 241, 251, 257, 263, 269, 271, 277, 281,
     283, 293, 307, 311, 313, 317, 331, 337, 347, 349, 353, 359, 367, 373, 379, 383, 389, 397, 401, 409]"

text \<open>The integer part of the \<open>e\<close>-th root of a prime of the list.\<close>

fun iroot :: "nat \<Rightarrow> nat \<Rightarrow> nat \<Rightarrow> nat" where
  "iroot e p 0 = 0"
| "iroot e p (Suc i) = (if Suc i ^ e \<le> p then Suc i else iroot e p i)"

definition roots_table :: "nat \<Rightarrow> nat \<Rightarrow> nat list \<Rightarrow> nat list \<Rightarrow> bool" where
  "roots_table e b ps cs \<longleftrightarrow> list_all2 (\<lambda>p c. c < 2 ^ b \<and> root_bits e b p (iroot e p 8) c) ps cs"

lemma iroot_numeral:
  "iroot e p (numeral k) = (if numeral k ^ e \<le> p then numeral k else iroot e p (pred_numeral k))"
  by (simp add: numeral_eq_Suc)

lemma roots_table_simps:
  "roots_table e b [] [] = True"
  "roots_table e b (p # ps) (c # cs) =
    (let m = 2 ^ b; q = p * m ^ e; i = iroot e p 8 * m + c in c < m \<and> i ^ e \<le> q \<and> q < (i + 1) ^ e \<and> roots_table e b ps cs)"
  by (simp_all add: roots_table_def root_bits_def Let_def power_mult)

end
