(* ===== verification/Avb_Sha256.thy ===== *)
theory Avb_Sha256
  imports Avb_Sha2
begin

text \<open>
  \<open>avb_sha256.c\<close>: the SHA-256 stream. The rolled loops are the ones the repository compiles; the body
  of the \<open>UNROLL_LOOPS\<close> variant is modelled beside them and shown to compute the same. The stream is shown
  to compute the SHA-256 of FIPS 180-4 of the bytes it was fed, in any number of pieces.
\<close>

section \<open>Definitions\<close>

definition AVB_SHA256_BLOCK_SIZE :: nat where
  "AVB_SHA256_BLOCK_SIZE = 64"

definition AVB_SHA256_DIGEST_SIZE :: nat where
  "AVB_SHA256_DIGEST_SIZE = 32"

type_synonym AvbSHA256Ctx = "u32 sha_ctx"

definition SHA256_F1 :: "u32 \<Rightarrow> u32" where
  "SHA256_F1 x = ROTR x 2 XOR ROTR x 13 XOR ROTR x 22"

definition SHA256_F2 :: "u32 \<Rightarrow> u32" where
  "SHA256_F2 x = ROTR x 6 XOR ROTR x 11 XOR ROTR x 25"

definition SHA256_F3 :: "u32 \<Rightarrow> u32" where
  "SHA256_F3 x = ROTR x 7 XOR ROTR x 18 XOR SHFR x 3"

definition SHA256_F4 :: "u32 \<Rightarrow> u32" where
  "SHA256_F4 x = ROTR x 17 XOR ROTR x 19 XOR SHFR x 10"

definition SHA256_SCR :: "u32 list \<Rightarrow> nat \<Rightarrow> u32 list" where
  "SHA256_SCR w i = w @ [SHA256_F4 (w ! (i - 2)) + w ! (i - 7) + SHA256_F3 (w ! (i - 15)) + w ! (i - 16)]"

definition sha256_h0 :: "u32 list" where
  "sha256_h0 =
    [0x6a09e667, 0xbb67ae85, 0x3c6ef372, 0xa54ff53a,
     0x510e527f, 0x9b05688c, 0x1f83d9ab, 0x5be0cd19]"

text \<open>The rows of the table as the source has them.\<close>

definition sha256_k :: "u32 list" where
  "sha256_k = concat
    [[0x428a2f98, 0x71374491, 0xb5c0fbcf, 0xe9b5dba5, 0x3956c25b, 0x59f111f1],
     [0x923f82a4, 0xab1c5ed5, 0xd807aa98, 0x12835b01, 0x243185be, 0x550c7dc3],
     [0x72be5d74, 0x80deb1fe, 0x9bdc06a7, 0xc19bf174, 0xe49b69c1, 0xefbe4786],
     [0x0fc19dc6, 0x240ca1cc, 0x2de92c6f, 0x4a7484aa, 0x5cb0a9dc, 0x76f988da],
     [0x983e5152, 0xa831c66d, 0xb00327c8, 0xbf597fc7, 0xc6e00bf3, 0xd5a79147],
     [0x06ca6351, 0x14292967, 0x27b70a85, 0x2e1b2138, 0x4d2c6dfc, 0x53380d13],
     [0x650a7354, 0x766a0abb, 0x81c2c92e, 0x92722c85, 0xa2bfe8a1, 0xa81a664b],
     [0xc24b8b70, 0xc76c51a3, 0xd192e819, 0xd6990624, 0xf40e3585, 0x106aa070],
     [0x19a4c116, 0x1e376c08, 0x2748774c, 0x34b0bcb5, 0x391c0cb3, 0x4ed8aa4a],
     [0x5b9cca4f, 0x682e6ff3, 0x748f82ee, 0x78a5636f, 0x84c87814, 0x8cc70208],
     [0x90befffa, 0xa4506ceb, 0xbef9a3f7, 0xc67178f2]]"

definition SHA256_EXP ::
    "u32 list \<Rightarrow> nat \<times> nat \<times> nat \<times> nat \<times> nat \<times> nat \<times> nat \<times> nat \<Rightarrow> nat \<Rightarrow> u32 list \<Rightarrow> u32 list" where
  "SHA256_EXP w idx j wv =
     (let (a, b, c, d, e, f, g, h) = idx;
          t1 = wv ! h + SHA256_F2 (wv ! e) + CH (wv ! e) (wv ! f) (wv ! g) + sha256_k ! j + w ! j;
          t2 = SHA256_F1 (wv ! a) + MAJ (wv ! a) (wv ! b) (wv ! c);
          wv = wv[d := wv ! d + t1]
      in wv[h := t1 + t2])"

definition avb_sha256_init :: "AvbSHA256Ctx \<Rightarrow> AvbSHA256Ctx" where
  "avb_sha256_init ctx =
     ctx\<lparr>sc_h := foldl (\<lambda>h i. h[i := sha256_h0 ! i]) (sc_h ctx) [0..<8], sc_len := 0, sc_tot_len := 0\<rparr>"

text \<open>One iteration of the loop over blocks.\<close>

definition sha256_block :: "u32 list \<Rightarrow> bytes \<Rightarrow> u32 list" where
  "sha256_block ctx_h sub_block =
     (let w = map (\<lambda>j. PACK32 sub_block (j * 4)) [0..<16];
          w = foldl SHA256_SCR w [16..<64];
          wv = map (\<lambda>j. ctx_h ! j) [0..<8];
          wv = foldl (\<lambda>wv j.
            let t1 = wv ! 7 + SHA256_F2 (wv ! 4) + CH (wv ! 4) (wv ! 5) (wv ! 6) + sha256_k ! j + w ! j;
                t2 = SHA256_F1 (wv ! 0) + MAJ (wv ! 0) (wv ! 1) (wv ! 2);
                wv = wv[7 := wv ! 6]; wv = wv[6 := wv ! 5]; wv = wv[5 := wv ! 4];
                wv = wv[4 := wv ! 3 + t1]; wv = wv[3 := wv ! 2]; wv = wv[2 := wv ! 1];
                wv = wv[1 := wv ! 0]; wv = wv[0 := t1 + t2]
            in wv) wv [0..<64]
      in map (\<lambda>j. ctx_h ! j + wv ! j) [0..<8])"

text \<open>The same under \<open>UNROLL_LOOPS\<close>: 64 uses of the macro, whose index patterns repeat every eight.\<close>

definition sha256_block_unrolled :: "u32 list \<Rightarrow> bytes \<Rightarrow> u32 list" where
  "sha256_block_unrolled ctx_h sub_block =
     (let w = map (\<lambda>j. PACK32 sub_block (j * 4)) [0..<16];
          w = foldl SHA256_SCR w [16..<64];
          wv = map (\<lambda>j. ctx_h ! j) [0..<8];
          wv = foldl (\<lambda>wv j. SHA256_EXP w (exp_indices ! (j mod 8)) j wv) wv [0..<64]
      in map (\<lambda>j. ctx_h ! j + wv ! j) [0..<8])"

definition SHA256_transform :: "AvbSHA256Ctx \<Rightarrow> bytes \<Rightarrow> u64 \<Rightarrow> AvbSHA256Ctx res" where
  "SHA256_transform ctx message block_nb =
     (if length message < unat block_nb * AVB_SHA256_BLOCK_SIZE then Fault BadAccess
      else Ok (foldl (\<lambda>ctx i. ctx\<lparr>sc_h := sha256_block (sc_h ctx)
             (take AVB_SHA256_BLOCK_SIZE (drop (i * 2 ^ 6) message))\<rparr>) ctx [0..<unat block_nb]))"

definition avb_sha256_update :: "AvbSHA256Ctx \<Rightarrow> bytes \<Rightarrow> u64 \<Rightarrow> AvbSHA256Ctx res" where
  "avb_sha256_update ctx data len =
     (let tmp_len = of_nat AVB_SHA256_BLOCK_SIZE - sc_len ctx;
          rem_len = (if len < tmp_len then len else tmp_len)
      in bnd (avb_memcpy (sc_block ctx) (unat (sc_len ctx)) data (unat rem_len)) (\<lambda>block.
         let ctx = ctx\<lparr>sc_block := block\<rparr>
         in if sc_len ctx + len < of_nat AVB_SHA256_BLOCK_SIZE then Ok (ctx\<lparr>sc_len := sc_len ctx + len\<rparr>)
         else let new_len = len - rem_len;
                  block_nb = new_len div of_nat AVB_SHA256_BLOCK_SIZE;
                  shifted_data = drop (unat rem_len) data
         in bnd (SHA256_transform ctx (sc_block ctx) 1) (\<lambda>ctx.
            bnd (SHA256_transform ctx shifted_data block_nb) (\<lambda>ctx.
              let rem_len = new_len mod of_nat AVB_SHA256_BLOCK_SIZE
              in bnd (avb_memcpy (sc_block ctx) 0 (drop (unat (push_bit 6 block_nb)) shifted_data)
                       (unat rem_len)) (\<lambda>block.
                   Ok (ctx\<lparr>sc_block := block, sc_len := rem_len,
                           sc_tot_len := sc_tot_len ctx + push_bit 6 (block_nb + 1)\<rparr>))))))"

text \<open>The digest \<open>ctx->buf\<close> points to, and the context afterwards.\<close>

definition avb_sha256_final :: "AvbSHA256Ctx \<Rightarrow> (bytes \<times> AvbSHA256Ctx) res" where
  "avb_sha256_final ctx =
     (let block_nb = 1 + (if of_nat (AVB_SHA256_BLOCK_SIZE - 9) < sc_len ctx mod of_nat AVB_SHA256_BLOCK_SIZE
                          then 1 else 0);
          len_b = push_bit 3 (sc_tot_len ctx + sc_len ctx);
          pm_len = push_bit 6 block_nb
      in bnd (avb_memset (sc_block ctx) (unat (sc_len ctx)) 0 (unat (pm_len - sc_len ctx))) (\<lambda>block.
         if length block \<le> unat (sc_len ctx) then Fault BadAccess
         else let block = block[unat (sc_len ctx) := 0x80]
         in bnd (avb_memcpy block (unat (pm_len - 8)) (UNPACK64 len_b) 8) (\<lambda>block.
            bnd (SHA256_transform (ctx\<lparr>sc_block := block\<rparr>) block block_nb) (\<lambda>ctx.
              let ctx = ctx\<lparr>sc_buf := store_words UNPACK32 4 (sc_h ctx) (sc_buf ctx)\<rparr>
              in Ok (sc_buf ctx, ctx)))))"

section \<open>Agreement with the standard\<close>

definition fips256_compress :: "u32 list \<Rightarrow> bytes \<Rightarrow> u32 list" where
  "fips256_compress H b =
     fips_compress
       (\<lambda>x. word_rotr 2 x XOR word_rotr 13 x XOR word_rotr 22 x)
       (\<lambda>x. word_rotr 6 x XOR word_rotr 11 x XOR word_rotr 25 x)
       (\<lambda>x. word_rotr 7 x XOR word_rotr 18 x XOR drop_bit 3 x)
       (\<lambda>x. word_rotr 17 x XOR word_rotr 19 x XOR drop_bit 10 x)
       ((!) sha256_k) 64 (\<lambda>j. of_nat (be_nat (take 4 (drop (j * 4) b)))) H"

definition sha256 :: "bytes \<Rightarrow> bytes" where
  "sha256 m = concat (map UNPACK32 (md_iter 64 fips256_compress sha256_h0 (md_pad 64 8 m)))"

lemma sha256_functions:
  "SHA256_F1 = (\<lambda>x. word_rotr 2 x XOR word_rotr 13 x XOR word_rotr 22 x)"
  "SHA256_F2 = (\<lambda>x. word_rotr 6 x XOR word_rotr 11 x XOR word_rotr 25 x)"
  "SHA256_F3 = (\<lambda>x. word_rotr 7 x XOR word_rotr 18 x XOR drop_bit 3 x)"
  "SHA256_F4 = (\<lambda>x. word_rotr 17 x XOR word_rotr 19 x XOR drop_bit 10 x)"
  by (simp_all add: fun_eq_iff SHA256_F1_def SHA256_F2_def SHA256_F3_def SHA256_F4_def SHFR_def ROTR_rotr)

lemma sha256_block_shared:
  "sha256_block h b = sha2_block SHA256_F1 SHA256_F2 SHA256_F3 SHA256_F4 sha256_k 64 (\<lambda>j. PACK32 b (j * 4)) h"
  "sha256_block_unrolled h b =
     sha2_block_unrolled SHA256_F1 SHA256_F2 SHA256_F3 SHA256_F4 sha256_k 64 (\<lambda>j. PACK32 b (j * 4)) h"
proof -
  have scr: "SHA256_SCR = sha2_scr SHA256_F3 SHA256_F4"
    by (simp add: fun_eq_iff SHA256_SCR_def sha2_scr_def)
  show "sha256_block h b = sha2_block SHA256_F1 SHA256_F2 SHA256_F3 SHA256_F4 sha256_k 64 (\<lambda>j. PACK32 b (j * 4)) h"
    unfolding sha256_block_def sha2_block_def sha2_round_def scr ..
  show "sha256_block_unrolled h b =
     sha2_block_unrolled SHA256_F1 SHA256_F2 SHA256_F3 SHA256_F4 sha256_k 64 (\<lambda>j. PACK32 b (j * 4)) h"
    unfolding sha256_block_unrolled_def sha2_block_unrolled_def SHA256_EXP_def sha2_exp_def scr ..
qed

lemma sha256_block_length [simp]: "length (sha256_block h b) = 8"
  by (simp add: sha256_block_shared)

lemma sha256_block_fips: "length b = 64 \<Longrightarrow> sha256_block h b = fips256_compress h b"
proof -
  assume b: "length b = 64"
  have "PACK32 b (j * 4) = of_nat (be_nat (take 4 (drop (j * 4) b)))" if "j < 16" for j
    using that b by (simp flip: unat_PACK32)
  then have "sha2_W s0 s1 (\<lambda>j. PACK32 b (j * 4)) t =
      sha2_W s0 s1 (\<lambda>j. of_nat (be_nat (take 4 (drop (j * 4) b)))) t" for s0 s1 t
    by (rule sha2_W_cong)
  then show ?thesis
    unfolding sha256_block_shared fips256_compress_def sha256_functions [symmetric]
    by (simp add: block_fips fips_compress_def)
qed

section \<open>The stream\<close>

lemma sha256_transform_iter:
  assumes "unat nb * AVB_SHA256_BLOCK_SIZE \<le> length m"
  shows "SHA256_transform c m nb =
    Ok (c\<lparr>sc_h := md_iter AVB_SHA256_BLOCK_SIZE fips256_compress (sc_h c) (take (unat nb * AVB_SHA256_BLOCK_SIZE) m)\<rparr>)"
proof -
  have "foldl (\<lambda>ctx i. ctx\<lparr>sc_h := sha256_block (sc_h ctx) (take 64 (drop (i * 64) m))\<rparr>) c [0..<k] =
      c\<lparr>sc_h := foldl (\<lambda>h i. fips256_compress h (take 64 (drop (i * 64) (take (unat nb * 64) m)))) (sc_h c) [0..<k]\<rparr>"
    if "k \<le> unat nb" for k
    using that
  proof (induction k)
    case (Suc k)
    have "Suc k * 64 \<le> unat nb * 64" using Suc.prems by (intro mult_le_mono1)
    then have "take 64 (drop (k * 64) (take (unat nb * 64) m)) = take 64 (drop (k * 64) m)"
      "length (take 64 (drop (k * 64) m)) = 64"
      using assms by (auto simp: drop_take min_def AVB_SHA256_BLOCK_SIZE_def)
    then show ?case
      using Suc by (simp add: sha256_block_fips)
  qed simp
  from this [of "unat nb"] show ?thesis
    using assms by (simp add: SHA256_transform_def md_iter_def AVB_SHA256_BLOCK_SIZE_def)
qed

lemma sha256_init_eq:
  assumes "length (sc_h c) = 8"
  shows "avb_sha256_init c = c\<lparr>sc_h := sha256_h0, sc_len := 0, sc_tot_len := 0\<rparr>"
proof -
  obtain p0 p1 p2 p3 p4 p5 p6 p7 where "sc_h c = [p0, p1, p2, p3, p4, p5, p6, p7]"
    using length_8_cases [OF assms] by blast
  then show ?thesis
    by (simp add: avb_sha256_init_def sha256_h0_def upt_8)
qed

interpretation sha256_stream: block_stream AVB_SHA256_BLOCK_SIZE 6 8 AVB_SHA256_DIGEST_SIZE
  fips256_compress sha256_h0 "\<lambda>h. concat (map UNPACK32 h)"
  SHA256_transform avb_sha256_init avb_sha256_update avb_sha256_final
proof unfold_locales
  show "length (concat (map UNPACK32 h)) = AVB_SHA256_DIGEST_SIZE" if "length h = 8" for h
    using length_8_cases [OF that] by (auto simp: AVB_SHA256_DIGEST_SIZE_def)
  show "avb_sha256_init c = c\<lparr>sc_h := sha256_h0, sc_len := 0, sc_tot_len := 0\<rparr>" if "length (sc_h c) = 8" for c
    using that by (rule sha256_init_eq)
  show "SHA256_transform c m nb = Ok (c\<lparr>sc_h := md_iter AVB_SHA256_BLOCK_SIZE fips256_compress (sc_h c)
      (take (unat nb * AVB_SHA256_BLOCK_SIZE) m)\<rparr>)"
    if "unat nb * AVB_SHA256_BLOCK_SIZE \<le> length m" for c nb m
    using that by (rule sha256_transform_iter)
  show "SHA256_transform c m nb = Fault BadAccess" if "length m < unat nb * AVB_SHA256_BLOCK_SIZE" for c m nb
    using that by (simp add: SHA256_transform_def)
next
  fix c :: AvbSHA256Ctx
  assume c: "length (sc_buf c) = AVB_SHA256_DIGEST_SIZE" "length (sc_h c) = 8"
    "sc_len c < of_nat AVB_SHA256_BLOCK_SIZE" "length (sc_block c) = 2 * AVB_SHA256_BLOCK_SIZE"
  have l: "unat (sc_len c) < 2 * AVB_SHA256_BLOCK_SIZE"
    using c(3) by (simp add: word_less_nat_alt AVB_SHA256_BLOCK_SIZE_def)
  have st: "store_words UNPACK32 4 (sc_h c') (sc_buf c') = concat (map UNPACK32 (sc_h c'))"
    if "SHA256_transform (c\<lparr>sc_block := block\<rparr>) block nb = Ok c'" for block nb c'
  proof (rule store_words_eq)
    have "length (foldl (\<lambda>h i. sha256_block h (f i)) (sc_h c) is) = 8" for f :: "nat \<Rightarrow> bytes" and "is"
      using c(2) by (induction "is" rule: rev_induct) simp_all
    moreover have "foldl (\<lambda>ctx i. ctx\<lparr>sc_h := sha256_block (sc_h ctx) (f i)\<rparr>) c is =
        c\<lparr>sc_h := foldl (\<lambda>h i. sha256_block h (f i)) (sc_h c) is\<rparr>"
      for c :: AvbSHA256Ctx and f :: "nat \<Rightarrow> bytes" and "is"
      by (induction "is" arbitrary: c) simp_all
    ultimately show "length (sc_h c') = 8" "length (sc_buf c') = 8 * 4"
      using that c(1) by (auto simp: SHA256_transform_def AVB_SHA256_DIGEST_SIZE_def split: if_splits)
  qed simp
  show "avb_sha256_final c =
      (let block_nb = 1 + (if of_nat (AVB_SHA256_BLOCK_SIZE - (8 + 1)) < sc_len c mod of_nat AVB_SHA256_BLOCK_SIZE then 1 else 0);
           len_b = push_bit 3 (sc_tot_len c + sc_len c);
           pm_len = push_bit 6 block_nb
       in bnd (avb_memset (sc_block c) (unat (sc_len c)) 0 (unat (pm_len - sc_len c))) (\<lambda>blk.
          let blk = blk[unat (sc_len c) := 0x80]
          in bnd (avb_memcpy blk (unat (pm_len - 8)) (map (byte_at len_b) (rev [0..<8])) 8) (\<lambda>blk.
             bnd (SHA256_transform (c\<lparr>sc_block := blk\<rparr>) blk block_nb) (\<lambda>c.
               Ok (concat (map UNPACK32 (sc_h c)), c\<lparr>sc_buf := concat (map UNPACK32 (sc_h c))\<rparr>)))))"
    unfolding avb_sha256_final_def UNPACK64_byte_at [symmetric] Let_def
    using l c(4) st
    by (auto simp: avb_memset_def intro!: bnd_cong)
qed (simp_all add: AVB_SHA256_BLOCK_SIZE_def AVB_SHA256_DIGEST_SIZE_def sha256_h0_def
    fips256_compress_def avb_sha256_update_def)

text \<open>The constants are the leading fractional bits of the roots of the first primes.\<close>

lemma sha256_tables:
  "roots_table 2 32 (take 8 first_primes) (map unat sha256_h0)"
  "roots_table 3 32 (take 64 first_primes) (map unat sha256_k)"
  by (simp_all add: roots_table_simps first_primes_def sha256_h0_def sha256_k_def Let_def iroot_numeral)

end
