(* ===== verification/Avb_Sha512.thy ===== *)
theory Avb_Sha512
  imports Avb_Sha2
begin

text \<open>
  \<open>avb_sha512.c\<close>: the SHA-512 stream. The rolled loops are the ones the repository compiles; the body
  of the \<open>UNROLL_LOOPS_SHA512\<close> variant is modelled beside them and shown to compute the same. The stream is shown
  to compute the SHA-512 of FIPS 180-4 of the bytes it was fed, in any number of pieces.
\<close>

section \<open>Definitions\<close>

definition AVB_SHA512_BLOCK_SIZE :: nat where
  "AVB_SHA512_BLOCK_SIZE = 128"

definition AVB_SHA512_DIGEST_SIZE :: nat where
  "AVB_SHA512_DIGEST_SIZE = 64"

type_synonym AvbSHA512Ctx = "u64 sha_ctx"

definition SHA512_F1 :: "u64 \<Rightarrow> u64" where
  "SHA512_F1 x = ROTR x 28 XOR ROTR x 34 XOR ROTR x 39"

definition SHA512_F2 :: "u64 \<Rightarrow> u64" where
  "SHA512_F2 x = ROTR x 14 XOR ROTR x 18 XOR ROTR x 41"

definition SHA512_F3 :: "u64 \<Rightarrow> u64" where
  "SHA512_F3 x = ROTR x 1 XOR ROTR x 8 XOR SHFR x 7"

definition SHA512_F4 :: "u64 \<Rightarrow> u64" where
  "SHA512_F4 x = ROTR x 19 XOR ROTR x 61 XOR SHFR x 6"

definition SHA512_SCR :: "u64 list \<Rightarrow> nat \<Rightarrow> u64 list" where
  "SHA512_SCR w i = w @ [SHA512_F4 (w ! (i - 2)) + w ! (i - 7) + SHA512_F3 (w ! (i - 15)) + w ! (i - 16)]"

definition sha512_h0 :: "u64 list" where
  "sha512_h0 =
    [0x6a09e667f3bcc908, 0xbb67ae8584caa73b, 0x3c6ef372fe94f82b, 0xa54ff53a5f1d36f1,
     0x510e527fade682d1, 0x9b05688c2b3e6c1f, 0x1f83d9abfb41bd6b, 0x5be0cd19137e2179]"

text \<open>The rows of the table as the source has them.\<close>

definition sha512_k :: "u64 list" where
  "sha512_k = concat
    [[0x428a2f98d728ae22, 0x7137449123ef65cd, 0xb5c0fbcfec4d3b2f],
     [0xe9b5dba58189dbbc, 0x3956c25bf348b538, 0x59f111f1b605d019],
     [0x923f82a4af194f9b, 0xab1c5ed5da6d8118, 0xd807aa98a3030242],
     [0x12835b0145706fbe, 0x243185be4ee4b28c, 0x550c7dc3d5ffb4e2],
     [0x72be5d74f27b896f, 0x80deb1fe3b1696b1, 0x9bdc06a725c71235],
     [0xc19bf174cf692694, 0xe49b69c19ef14ad2, 0xefbe4786384f25e3],
     [0x0fc19dc68b8cd5b5, 0x240ca1cc77ac9c65, 0x2de92c6f592b0275],
     [0x4a7484aa6ea6e483, 0x5cb0a9dcbd41fbd4, 0x76f988da831153b5],
     [0x983e5152ee66dfab, 0xa831c66d2db43210, 0xb00327c898fb213f],
     [0xbf597fc7beef0ee4, 0xc6e00bf33da88fc2, 0xd5a79147930aa725],
     [0x06ca6351e003826f, 0x142929670a0e6e70, 0x27b70a8546d22ffc],
     [0x2e1b21385c26c926, 0x4d2c6dfc5ac42aed, 0x53380d139d95b3df],
     [0x650a73548baf63de, 0x766a0abb3c77b2a8, 0x81c2c92e47edaee6],
     [0x92722c851482353b, 0xa2bfe8a14cf10364, 0xa81a664bbc423001],
     [0xc24b8b70d0f89791, 0xc76c51a30654be30, 0xd192e819d6ef5218],
     [0xd69906245565a910, 0xf40e35855771202a, 0x106aa07032bbd1b8],
     [0x19a4c116b8d2d0c8, 0x1e376c085141ab53, 0x2748774cdf8eeb99],
     [0x34b0bcb5e19b48a8, 0x391c0cb3c5c95a63, 0x4ed8aa4ae3418acb],
     [0x5b9cca4f7763e373, 0x682e6ff3d6b2b8a3, 0x748f82ee5defb2fc],
     [0x78a5636f43172f60, 0x84c87814a1f0ab72, 0x8cc702081a6439ec],
     [0x90befffa23631e28, 0xa4506cebde82bde9, 0xbef9a3f7b2c67915],
     [0xc67178f2e372532b, 0xca273eceea26619c, 0xd186b8c721c0c207],
     [0xeada7dd6cde0eb1e, 0xf57d4f7fee6ed178, 0x06f067aa72176fba],
     [0x0a637dc5a2c898a6, 0x113f9804bef90dae, 0x1b710b35131c471b],
     [0x28db77f523047d84, 0x32caab7b40c72493, 0x3c9ebe0a15c9bebc],
     [0x431d67c49c100d4c, 0x4cc5d4becb3e42b6, 0x597f299cfc657e2a],
     [0x5fcb6fab3ad6faec, 0x6c44198c4a475817]]"

definition SHA512_EXP ::
    "u64 list \<Rightarrow> nat \<times> nat \<times> nat \<times> nat \<times> nat \<times> nat \<times> nat \<times> nat \<Rightarrow> nat \<Rightarrow> u64 list \<Rightarrow> u64 list" where
  "SHA512_EXP w idx j wv =
     (let (a, b, c, d, e, f, g, h) = idx;
          t1 = wv ! h + SHA512_F2 (wv ! e) + CH (wv ! e) (wv ! f) (wv ! g) + sha512_k ! j + w ! j;
          t2 = SHA512_F1 (wv ! a) + MAJ (wv ! a) (wv ! b) (wv ! c);
          wv = wv[d := wv ! d + t1]
      in wv[h := t1 + t2])"

definition avb_sha512_init :: "AvbSHA512Ctx \<Rightarrow> AvbSHA512Ctx" where
  "avb_sha512_init ctx =
     ctx\<lparr>sc_h := foldl (\<lambda>h i. h[i := sha512_h0 ! i]) (sc_h ctx) [0..<8], sc_len := 0, sc_tot_len := 0\<rparr>"

text \<open>One iteration of the loop over blocks.\<close>

definition sha512_block :: "u64 list \<Rightarrow> bytes \<Rightarrow> u64 list" where
  "sha512_block ctx_h sub_block =
     (let w = map (\<lambda>j. PACK64 sub_block (j * 8)) [0..<16];
          w = foldl SHA512_SCR w [16..<80];
          wv = map (\<lambda>j. ctx_h ! j) [0..<8];
          wv = foldl (\<lambda>wv j.
            let t1 = wv ! 7 + SHA512_F2 (wv ! 4) + CH (wv ! 4) (wv ! 5) (wv ! 6) + sha512_k ! j + w ! j;
                t2 = SHA512_F1 (wv ! 0) + MAJ (wv ! 0) (wv ! 1) (wv ! 2);
                wv = wv[7 := wv ! 6]; wv = wv[6 := wv ! 5]; wv = wv[5 := wv ! 4];
                wv = wv[4 := wv ! 3 + t1]; wv = wv[3 := wv ! 2]; wv = wv[2 := wv ! 1];
                wv = wv[1 := wv ! 0]; wv = wv[0 := t1 + t2]
            in wv) wv [0..<80]
      in map (\<lambda>j. ctx_h ! j + wv ! j) [0..<8])"

text \<open>The same under \<open>UNROLL_LOOPS_SHA512\<close>: 80 uses of the macro, whose index patterns repeat every eight.\<close>

definition sha512_block_unrolled :: "u64 list \<Rightarrow> bytes \<Rightarrow> u64 list" where
  "sha512_block_unrolled ctx_h sub_block =
     (let w = map (\<lambda>j. PACK64 sub_block (j * 8)) [0..<16];
          w = foldl SHA512_SCR w [16..<80];
          wv = map (\<lambda>j. ctx_h ! j) [0..<8];
          wv = foldl (\<lambda>wv j. SHA512_EXP w (exp_indices ! (j mod 8)) j wv) wv [0..<80]
      in map (\<lambda>j. ctx_h ! j + wv ! j) [0..<8])"

definition SHA512_transform :: "AvbSHA512Ctx \<Rightarrow> bytes \<Rightarrow> u64 \<Rightarrow> AvbSHA512Ctx res" where
  "SHA512_transform ctx message block_nb =
     (if length message < unat block_nb * AVB_SHA512_BLOCK_SIZE then Fault BadAccess
      else Ok (foldl (\<lambda>ctx i. ctx\<lparr>sc_h := sha512_block (sc_h ctx)
             (take AVB_SHA512_BLOCK_SIZE (drop (i * 2 ^ 7) message))\<rparr>) ctx [0..<unat block_nb]))"

definition avb_sha512_update :: "AvbSHA512Ctx \<Rightarrow> bytes \<Rightarrow> u64 \<Rightarrow> AvbSHA512Ctx res" where
  "avb_sha512_update ctx data len =
     (let tmp_len = of_nat AVB_SHA512_BLOCK_SIZE - sc_len ctx;
          rem_len = (if len < tmp_len then len else tmp_len)
      in bnd (avb_memcpy (sc_block ctx) (unat (sc_len ctx)) data (unat rem_len)) (\<lambda>block.
         let ctx = ctx\<lparr>sc_block := block\<rparr>
         in if sc_len ctx + len < of_nat AVB_SHA512_BLOCK_SIZE then Ok (ctx\<lparr>sc_len := sc_len ctx + len\<rparr>)
         else let new_len = len - rem_len;
                  block_nb = new_len div of_nat AVB_SHA512_BLOCK_SIZE;
                  shifted_data = drop (unat rem_len) data
         in bnd (SHA512_transform ctx (sc_block ctx) 1) (\<lambda>ctx.
            bnd (SHA512_transform ctx shifted_data block_nb) (\<lambda>ctx.
              let rem_len = new_len mod of_nat AVB_SHA512_BLOCK_SIZE
              in bnd (avb_memcpy (sc_block ctx) 0 (drop (unat (push_bit 7 block_nb)) shifted_data)
                       (unat rem_len)) (\<lambda>block.
                   Ok (ctx\<lparr>sc_block := block, sc_len := rem_len,
                           sc_tot_len := sc_tot_len ctx + push_bit 7 (block_nb + 1)\<rparr>))))))"

text \<open>The digest \<open>ctx->buf\<close> points to, and the context afterwards.\<close>

definition avb_sha512_final :: "AvbSHA512Ctx \<Rightarrow> (bytes \<times> AvbSHA512Ctx) res" where
  "avb_sha512_final ctx =
     (let block_nb = 1 + (if of_nat (AVB_SHA512_BLOCK_SIZE - 17) < sc_len ctx mod of_nat AVB_SHA512_BLOCK_SIZE
                          then 1 else 0);
          len_b = push_bit 3 (sc_tot_len ctx + sc_len ctx);
          pm_len = push_bit 7 block_nb
      in bnd (avb_memset (sc_block ctx) (unat (sc_len ctx)) 0 (unat (pm_len - sc_len ctx))) (\<lambda>block.
         if length block \<le> unat (sc_len ctx) then Fault BadAccess
         else let block = block[unat (sc_len ctx) := 0x80]
         in bnd (avb_memcpy block (unat (pm_len - 8)) (UNPACK64 len_b) 8) (\<lambda>block.
            bnd (SHA512_transform (ctx\<lparr>sc_block := block\<rparr>) block block_nb) (\<lambda>ctx.
              let ctx = ctx\<lparr>sc_buf := store_words UNPACK64 8 (sc_h ctx) (sc_buf ctx)\<rparr>
              in Ok (sc_buf ctx, ctx)))))"

section \<open>Agreement with the standard\<close>

definition fips512_compress :: "u64 list \<Rightarrow> bytes \<Rightarrow> u64 list" where
  "fips512_compress H b =
     fips_compress
       (\<lambda>x. word_rotr 28 x XOR word_rotr 34 x XOR word_rotr 39 x)
       (\<lambda>x. word_rotr 14 x XOR word_rotr 18 x XOR word_rotr 41 x)
       (\<lambda>x. word_rotr 1 x XOR word_rotr 8 x XOR drop_bit 7 x)
       (\<lambda>x. word_rotr 19 x XOR word_rotr 61 x XOR drop_bit 6 x)
       ((!) sha512_k) 80 (\<lambda>j. of_nat (be_nat (take 8 (drop (j * 8) b)))) H"

definition sha512 :: "bytes \<Rightarrow> bytes" where
  "sha512 m = concat (map UNPACK64 (md_iter 128 fips512_compress sha512_h0 (md_pad 128 16 m)))"

lemma sha512_functions:
  "SHA512_F1 = (\<lambda>x. word_rotr 28 x XOR word_rotr 34 x XOR word_rotr 39 x)"
  "SHA512_F2 = (\<lambda>x. word_rotr 14 x XOR word_rotr 18 x XOR word_rotr 41 x)"
  "SHA512_F3 = (\<lambda>x. word_rotr 1 x XOR word_rotr 8 x XOR drop_bit 7 x)"
  "SHA512_F4 = (\<lambda>x. word_rotr 19 x XOR word_rotr 61 x XOR drop_bit 6 x)"
  by (simp_all add: fun_eq_iff SHA512_F1_def SHA512_F2_def SHA512_F3_def SHA512_F4_def SHFR_def ROTR_rotr)

lemma sha512_block_shared:
  "sha512_block h b = sha2_block SHA512_F1 SHA512_F2 SHA512_F3 SHA512_F4 sha512_k 80 (\<lambda>j. PACK64 b (j * 8)) h"
  "sha512_block_unrolled h b =
     sha2_block_unrolled SHA512_F1 SHA512_F2 SHA512_F3 SHA512_F4 sha512_k 80 (\<lambda>j. PACK64 b (j * 8)) h"
proof -
  have scr: "SHA512_SCR = sha2_scr SHA512_F3 SHA512_F4"
    by (simp add: fun_eq_iff SHA512_SCR_def sha2_scr_def)
  show "sha512_block h b = sha2_block SHA512_F1 SHA512_F2 SHA512_F3 SHA512_F4 sha512_k 80 (\<lambda>j. PACK64 b (j * 8)) h"
    unfolding sha512_block_def sha2_block_def sha2_round_def scr ..
  show "sha512_block_unrolled h b =
     sha2_block_unrolled SHA512_F1 SHA512_F2 SHA512_F3 SHA512_F4 sha512_k 80 (\<lambda>j. PACK64 b (j * 8)) h"
    unfolding sha512_block_unrolled_def sha2_block_unrolled_def SHA512_EXP_def sha2_exp_def scr ..
qed

lemma sha512_block_length [simp]: "length (sha512_block h b) = 8"
  by (simp add: sha512_block_shared)

lemma sha512_block_fips: "length b = 128 \<Longrightarrow> sha512_block h b = fips512_compress h b"
proof -
  assume b: "length b = 128"
  have "PACK64 b (j * 8) = of_nat (be_nat (take 8 (drop (j * 8) b)))" if "j < 16" for j
    using that b by (simp flip: unat_PACK64)
  then have "sha2_W s0 s1 (\<lambda>j. PACK64 b (j * 8)) t =
      sha2_W s0 s1 (\<lambda>j. of_nat (be_nat (take 8 (drop (j * 8) b)))) t" for s0 s1 t
    by (rule sha2_W_cong)
  then show ?thesis
    unfolding sha512_block_shared fips512_compress_def sha512_functions [symmetric]
    by (simp add: block_fips fips_compress_def)
qed

section \<open>The stream\<close>

lemma sha512_transform_iter:
  assumes "unat nb * AVB_SHA512_BLOCK_SIZE \<le> length m"
  shows "SHA512_transform c m nb =
    Ok (c\<lparr>sc_h := md_iter AVB_SHA512_BLOCK_SIZE fips512_compress (sc_h c) (take (unat nb * AVB_SHA512_BLOCK_SIZE) m)\<rparr>)"
proof -
  have "foldl (\<lambda>ctx i. ctx\<lparr>sc_h := sha512_block (sc_h ctx) (take 128 (drop (i * 128) m))\<rparr>) c [0..<k] =
      c\<lparr>sc_h := foldl (\<lambda>h i. fips512_compress h (take 128 (drop (i * 128) (take (unat nb * 128) m)))) (sc_h c) [0..<k]\<rparr>"
    if "k \<le> unat nb" for k
    using that
  proof (induction k)
    case (Suc k)
    have "Suc k * 128 \<le> unat nb * 128" using Suc.prems by (intro mult_le_mono1)
    then have "take 128 (drop (k * 128) (take (unat nb * 128) m)) = take 128 (drop (k * 128) m)"
      "length (take 128 (drop (k * 128) m)) = 128"
      using assms by (auto simp: drop_take min_def AVB_SHA512_BLOCK_SIZE_def)
    then show ?case
      using Suc by (simp add: sha512_block_fips)
  qed simp
  from this [of "unat nb"] show ?thesis
    using assms by (simp add: SHA512_transform_def md_iter_def AVB_SHA512_BLOCK_SIZE_def)
qed

lemma sha512_init_eq:
  assumes "length (sc_h c) = 8"
  shows "avb_sha512_init c = c\<lparr>sc_h := sha512_h0, sc_len := 0, sc_tot_len := 0\<rparr>"
proof -
  obtain p0 p1 p2 p3 p4 p5 p6 p7 where "sc_h c = [p0, p1, p2, p3, p4, p5, p6, p7]"
    using length_8_cases [OF assms] by blast
  then show ?thesis
    by (simp add: avb_sha512_init_def sha512_h0_def upt_8)
qed

interpretation sha512_stream: block_stream AVB_SHA512_BLOCK_SIZE 7 16 AVB_SHA512_DIGEST_SIZE
  fips512_compress sha512_h0 "\<lambda>h. concat (map UNPACK64 h)"
  SHA512_transform avb_sha512_init avb_sha512_update avb_sha512_final
proof unfold_locales
  show "length (concat (map UNPACK64 h)) = AVB_SHA512_DIGEST_SIZE" if "length h = 8" for h
    using length_8_cases [OF that] by (auto simp: AVB_SHA512_DIGEST_SIZE_def)
  show "avb_sha512_init c = c\<lparr>sc_h := sha512_h0, sc_len := 0, sc_tot_len := 0\<rparr>" if "length (sc_h c) = 8" for c
    using that by (rule sha512_init_eq)
  show "SHA512_transform c m nb = Ok (c\<lparr>sc_h := md_iter AVB_SHA512_BLOCK_SIZE fips512_compress (sc_h c)
      (take (unat nb * AVB_SHA512_BLOCK_SIZE) m)\<rparr>)"
    if "unat nb * AVB_SHA512_BLOCK_SIZE \<le> length m" for c nb m
    using that by (rule sha512_transform_iter)
  show "SHA512_transform c m nb = Fault BadAccess" if "length m < unat nb * AVB_SHA512_BLOCK_SIZE" for c m nb
    using that by (simp add: SHA512_transform_def)
next
  fix c :: AvbSHA512Ctx
  assume c: "length (sc_buf c) = AVB_SHA512_DIGEST_SIZE" "length (sc_h c) = 8"
    "sc_len c < of_nat AVB_SHA512_BLOCK_SIZE" "length (sc_block c) = 2 * AVB_SHA512_BLOCK_SIZE"
  have l: "unat (sc_len c) < 2 * AVB_SHA512_BLOCK_SIZE"
    using c(3) by (simp add: word_less_nat_alt AVB_SHA512_BLOCK_SIZE_def)
  have st: "store_words UNPACK64 8 (sc_h c') (sc_buf c') = concat (map UNPACK64 (sc_h c'))"
    if "SHA512_transform (c\<lparr>sc_block := block\<rparr>) block nb = Ok c'" for block nb c'
  proof (rule store_words_eq)
    have "length (foldl (\<lambda>h i. sha512_block h (f i)) (sc_h c) is) = 8" for f :: "nat \<Rightarrow> bytes" and "is"
      using c(2) by (induction "is" rule: rev_induct) simp_all
    moreover have "foldl (\<lambda>ctx i. ctx\<lparr>sc_h := sha512_block (sc_h ctx) (f i)\<rparr>) c is =
        c\<lparr>sc_h := foldl (\<lambda>h i. sha512_block h (f i)) (sc_h c) is\<rparr>"
      for c :: AvbSHA512Ctx and f :: "nat \<Rightarrow> bytes" and "is"
      by (induction "is" arbitrary: c) simp_all
    ultimately show "length (sc_h c') = 8" "length (sc_buf c') = 8 * 8"
      using that c(1) by (auto simp: SHA512_transform_def AVB_SHA512_DIGEST_SIZE_def split: if_splits)
  qed simp
  show "avb_sha512_final c =
      (let block_nb = 1 + (if of_nat (AVB_SHA512_BLOCK_SIZE - (16 + 1)) < sc_len c mod of_nat AVB_SHA512_BLOCK_SIZE then 1 else 0);
           len_b = push_bit 3 (sc_tot_len c + sc_len c);
           pm_len = push_bit 7 block_nb
       in bnd (avb_memset (sc_block c) (unat (sc_len c)) 0 (unat (pm_len - sc_len c))) (\<lambda>blk.
          let blk = blk[unat (sc_len c) := 0x80]
          in bnd (avb_memcpy blk (unat (pm_len - 8)) (map (byte_at len_b) (rev [0..<8])) 8) (\<lambda>blk.
             bnd (SHA512_transform (c\<lparr>sc_block := blk\<rparr>) blk block_nb) (\<lambda>c.
               Ok (concat (map UNPACK64 (sc_h c)), c\<lparr>sc_buf := concat (map UNPACK64 (sc_h c))\<rparr>)))))"
    unfolding avb_sha512_final_def UNPACK64_byte_at [symmetric] Let_def
    using l c(4) st
    by (auto simp: avb_memset_def intro!: bnd_cong)
qed (simp_all add: AVB_SHA512_BLOCK_SIZE_def AVB_SHA512_DIGEST_SIZE_def sha512_h0_def
    fips512_compress_def avb_sha512_update_def)

text \<open>The constants are the leading fractional bits of the roots of the first primes.\<close>

lemma sha512_tables:
  "roots_table 2 64 (take 8 first_primes) (map unat sha512_h0)"
  "roots_table 3 64 first_primes (map unat sha512_k)"
  by (simp_all add: roots_table_simps first_primes_def sha512_h0_def sha512_k_def Let_def iroot_numeral)

end
