(* ===== verification/Avb_Crypto.thy ===== *)
theory Avb_Crypto
  imports Avb_Sha256 Avb_Sha512
begin

text \<open>
  \<open>avb_crypto.c\<close>: the algorithm types, the PKCS#1 v1.5 paddings and the header of a serialized public
  key. The tables are written with their run of \<open>0xff\<close> bytes as a \<open>replicate\<close>.
\<close>

section \<open>Definitions\<close>

definition AVB_RSA2048_NUM_BYTES :: nat where
  "AVB_RSA2048_NUM_BYTES = 256"

definition AVB_RSA4096_NUM_BYTES :: nat where
  "AVB_RSA4096_NUM_BYTES = 512"

definition AVB_RSA8192_NUM_BYTES :: nat where
  "AVB_RSA8192_NUM_BYTES = 1024"

datatype AvbAlgorithmType =
    AVB_ALGORITHM_TYPE_NONE
  | AVB_ALGORITHM_TYPE_SHA256_RSA2048
  | AVB_ALGORITHM_TYPE_SHA256_RSA4096
  | AVB_ALGORITHM_TYPE_SHA256_RSA8192
  | AVB_ALGORITHM_TYPE_SHA512_RSA2048
  | AVB_ALGORITHM_TYPE_SHA512_RSA4096
  | AVB_ALGORITHM_TYPE_SHA512_RSA8192

fun algorithm_value :: "AvbAlgorithmType \<Rightarrow> u32" where
  "algorithm_value AVB_ALGORITHM_TYPE_NONE = 0"
| "algorithm_value AVB_ALGORITHM_TYPE_SHA256_RSA2048 = 1"
| "algorithm_value AVB_ALGORITHM_TYPE_SHA256_RSA4096 = 2"
| "algorithm_value AVB_ALGORITHM_TYPE_SHA256_RSA8192 = 3"
| "algorithm_value AVB_ALGORITHM_TYPE_SHA512_RSA2048 = 4"
| "algorithm_value AVB_ALGORITHM_TYPE_SHA512_RSA4096 = 5"
| "algorithm_value AVB_ALGORITHM_TYPE_SHA512_RSA8192 = 6"

definition AVB_ALGORITHM_NUM_TYPES :: u32 where
  "AVB_ALGORITHM_NUM_TYPES = 7"

definition padding_RSA2048_SHA256 :: bytes where
  "padding_RSA2048_SHA256 = [0x00, 0x01] @ replicate 202 0xff @
    [0x00] @ [0x30, 0x31] @ [0x30, 0x0d] @ [0x06, 0x09, 0x60, 0x86, 0x48, 0x01, 0x65, 0x03, 0x04, 0x02, 0x01] @
    [0x05, 0x00] @ [0x04, 0x20]"

definition padding_RSA4096_SHA256 :: bytes where
  "padding_RSA4096_SHA256 = [0x00, 0x01] @ replicate 458 0xff @
    [0x00] @ [0x30, 0x31] @ [0x30, 0x0d] @ [0x06, 0x09, 0x60, 0x86, 0x48, 0x01, 0x65, 0x03, 0x04, 0x02, 0x01] @
    [0x05, 0x00] @ [0x04, 0x20]"

definition padding_RSA8192_SHA256 :: bytes where
  "padding_RSA8192_SHA256 = [0x00, 0x01] @ replicate 970 0xff @
    [0x00] @ [0x30, 0x31] @ [0x30, 0x0d] @ [0x06, 0x09, 0x60, 0x86, 0x48, 0x01, 0x65, 0x03, 0x04, 0x02, 0x01] @
    [0x05, 0x00] @ [0x04, 0x20]"

definition padding_RSA2048_SHA512 :: bytes where
  "padding_RSA2048_SHA512 = [0x00, 0x01] @ replicate 170 0xff @
    [0x00] @ [0x30, 0x51] @ [0x30, 0x0d] @ [0x06, 0x09, 0x60, 0x86, 0x48, 0x01, 0x65, 0x03, 0x04, 0x02, 0x03] @
    [0x05, 0x00] @ [0x04, 0x40]"

definition padding_RSA4096_SHA512 :: bytes where
  "padding_RSA4096_SHA512 = [0x00, 0x01] @ replicate 426 0xff @
    [0x00] @ [0x30, 0x51] @ [0x30, 0x0d] @ [0x06, 0x09, 0x60, 0x86, 0x48, 0x01, 0x65, 0x03, 0x04, 0x02, 0x03] @
    [0x05, 0x00] @ [0x04, 0x40]"

definition padding_RSA8192_SHA512 :: bytes where
  "padding_RSA8192_SHA512 = [0x00, 0x01] @ replicate 938 0xff @
    [0x00] @ [0x30, 0x51] @ [0x30, 0x0d] @ [0x06, 0x09, 0x60, 0x86, 0x48, 0x01, 0x65, 0x03, 0x04, 0x02, 0x03] @
    [0x05, 0x00] @ [0x04, 0x40]"

text \<open>\<open>padding\<close> is a null pointer for \<open>AVB_ALGORITHM_TYPE_NONE\<close>.\<close>

record AvbAlgorithmData =
  ad_padding :: "bytes option"
  ad_padding_len :: nat
  ad_hash_len :: nat

definition alg_entry :: "bytes \<Rightarrow> nat \<Rightarrow> AvbAlgorithmData" where
  "alg_entry p n = \<lparr>ad_padding = Some p, ad_padding_len = length p, ad_hash_len = n\<rparr>"

definition algorithm_data :: "AvbAlgorithmData list" where
  "algorithm_data =
    [\<lparr>ad_padding = None, ad_padding_len = 0, ad_hash_len = 0\<rparr>,
     alg_entry padding_RSA2048_SHA256 AVB_SHA256_DIGEST_SIZE,
     alg_entry padding_RSA4096_SHA256 AVB_SHA256_DIGEST_SIZE,
     alg_entry padding_RSA8192_SHA256 AVB_SHA256_DIGEST_SIZE,
     alg_entry padding_RSA2048_SHA512 AVB_SHA512_DIGEST_SIZE,
     alg_entry padding_RSA4096_SHA512 AVB_SHA512_DIGEST_SIZE,
     alg_entry padding_RSA8192_SHA512 AVB_SHA512_DIGEST_SIZE]"

definition avb_get_algorithm_data :: "u32 \<Rightarrow> AvbAlgorithmData option" where
  "avb_get_algorithm_data algorithm =
     (if algorithm < AVB_ALGORITHM_NUM_TYPES then Some (algorithm_data ! unat algorithm) else None)"

record AvbRSAPublicKeyHeader =
  rk_key_num_bits :: u32
  rk_n0inv :: u32

definition sizeof_AvbRSAPublicKeyHeader :: nat where
  "sizeof_AvbRSAPublicKeyHeader = 8"

definition load_AvbRSAPublicKeyHeader :: "bytes \<Rightarrow> AvbRSAPublicKeyHeader res" where
  "load_AvbRSAPublicKeyHeader m =
     (if length m < sizeof_AvbRSAPublicKeyHeader then Fault BadAccess
      else Ok \<lparr>rk_key_num_bits = load32 m 0, rk_n0inv = load32 m 4\<rparr>)"

definition avb_rsa_public_key_header_validate_and_byteswap ::
    "AvbRSAPublicKeyHeader \<Rightarrow> bool \<times> AvbRSAPublicKeyHeader" where
  "avb_rsa_public_key_header_validate_and_byteswap src =
     (True, \<lparr>rk_key_num_bits = avb_be32toh (rk_key_num_bits src), rk_n0inv = avb_be32toh (rk_n0inv src)\<rparr>)"

section \<open>The tables\<close>

text \<open>
  The size of the signature an algorithm produces, and the digest it is over.
\<close>

fun algorithm_rsa_bytes :: "AvbAlgorithmType \<Rightarrow> nat" where
  "algorithm_rsa_bytes AVB_ALGORITHM_TYPE_NONE = 0"
| "algorithm_rsa_bytes AVB_ALGORITHM_TYPE_SHA256_RSA2048 = AVB_RSA2048_NUM_BYTES"
| "algorithm_rsa_bytes AVB_ALGORITHM_TYPE_SHA256_RSA4096 = AVB_RSA4096_NUM_BYTES"
| "algorithm_rsa_bytes AVB_ALGORITHM_TYPE_SHA256_RSA8192 = AVB_RSA8192_NUM_BYTES"
| "algorithm_rsa_bytes AVB_ALGORITHM_TYPE_SHA512_RSA2048 = AVB_RSA2048_NUM_BYTES"
| "algorithm_rsa_bytes AVB_ALGORITHM_TYPE_SHA512_RSA4096 = AVB_RSA4096_NUM_BYTES"
| "algorithm_rsa_bytes AVB_ALGORITHM_TYPE_SHA512_RSA8192 = AVB_RSA8192_NUM_BYTES"

fun algorithm_hash_bytes :: "AvbAlgorithmType \<Rightarrow> nat" where
  "algorithm_hash_bytes AVB_ALGORITHM_TYPE_NONE = 0"
| "algorithm_hash_bytes AVB_ALGORITHM_TYPE_SHA256_RSA2048 = AVB_SHA256_DIGEST_SIZE"
| "algorithm_hash_bytes AVB_ALGORITHM_TYPE_SHA256_RSA4096 = AVB_SHA256_DIGEST_SIZE"
| "algorithm_hash_bytes AVB_ALGORITHM_TYPE_SHA256_RSA8192 = AVB_SHA256_DIGEST_SIZE"
| "algorithm_hash_bytes _ = AVB_SHA512_DIGEST_SIZE"

text \<open>The DER prefix of RFC 8017, section 9.2, for the two digests.\<close>

definition digest_info_prefix :: "nat \<Rightarrow> bytes" where
  "digest_info_prefix hlen =
     [0x30, of_nat (17 + hlen), 0x30, 0x0d, 0x06, 0x09, 0x60, 0x86, 0x48, 0x01, 0x65, 0x03, 0x04, 0x02,
      (if hlen = 32 then 0x01 else 0x03), 0x05, 0x00, 0x04, of_nat hlen]"

text \<open>EMSA-PKCS1-v1_5 without the digest itself: \<open>00 01 ff .. ff 00\<close> and the prefix.\<close>

definition emsa_prefix :: "nat \<Rightarrow> nat \<Rightarrow> bytes" where
  "emsa_prefix em_len hlen =
     [0x00, 0x01] @ replicate (em_len - hlen - 22) 0xff @ [0x00] @ digest_info_prefix hlen"

lemma algorithm_value_inject [simp]: "algorithm_value a = algorithm_value b \<longleftrightarrow> a = b"
  by (cases a; cases b) simp_all

lemmas padding_defs =
  padding_RSA2048_SHA256_def padding_RSA4096_SHA256_def padding_RSA8192_SHA256_def
  padding_RSA2048_SHA512_def padding_RSA4096_SHA512_def padding_RSA8192_SHA512_def

lemmas crypto_sizes =
  AVB_RSA2048_NUM_BYTES_def AVB_RSA4096_NUM_BYTES_def AVB_RSA8192_NUM_BYTES_def
  AVB_SHA256_DIGEST_SIZE_def AVB_SHA512_DIGEST_SIZE_def

lemma algorithm_data_lookup:
  assumes "a \<noteq> AVB_ALGORITHM_TYPE_NONE"
  shows "avb_get_algorithm_data (algorithm_value a) =
      Some (alg_entry (emsa_prefix (algorithm_rsa_bytes a) (algorithm_hash_bytes a)) (algorithm_hash_bytes a))"
    and "length (emsa_prefix (algorithm_rsa_bytes a) (algorithm_hash_bytes a)) + algorithm_hash_bytes a =
      algorithm_rsa_bytes a"
  using assms
  by (cases a; simp add: avb_get_algorithm_data_def AVB_ALGORITHM_NUM_TYPES_def algorithm_data_def
      emsa_prefix_def digest_info_prefix_def padding_defs crypto_sizes)+

lemma algorithm_value_cases:
  assumes "alg < AVB_ALGORITHM_NUM_TYPES"
  obtains a where "alg = algorithm_value a"
proof -
  have "unat alg < 7"
    using assms by (simp add: AVB_ALGORITHM_NUM_TYPES_def word_less_nat_alt)
  then have "unat alg = 0 \<or> unat alg = 1 \<or> unat alg = 2 \<or> unat alg = 3 \<or> unat alg = 4 \<or> unat alg = 5 \<or> unat alg = 6"
    by linarith
  then have "\<exists>a. unat alg = unat (algorithm_value a)"
  proof (elim disjE)
    show ?thesis if "unat alg = 0" using that by (intro exI [of _ AVB_ALGORITHM_TYPE_NONE]) simp
    show ?thesis if "unat alg = 1" using that by (intro exI [of _ AVB_ALGORITHM_TYPE_SHA256_RSA2048]) simp
    show ?thesis if "unat alg = 2" using that by (intro exI [of _ AVB_ALGORITHM_TYPE_SHA256_RSA4096]) simp
    show ?thesis if "unat alg = 3" using that by (intro exI [of _ AVB_ALGORITHM_TYPE_SHA256_RSA8192]) simp
    show ?thesis if "unat alg = 4" using that by (intro exI [of _ AVB_ALGORITHM_TYPE_SHA512_RSA2048]) simp
    show ?thesis if "unat alg = 5" using that by (intro exI [of _ AVB_ALGORITHM_TYPE_SHA512_RSA4096]) simp
    show ?thesis if "unat alg = 6" using that by (intro exI [of _ AVB_ALGORITHM_TYPE_SHA512_RSA8192]) simp
  qed
  then show ?thesis
    using that by (auto simp: word_unat_eq_iff)
qed

end
