(* ===== verification/Avb_Rsa.thy ===== *)
theory Avb_Rsa
  imports Avb_Crypto
begin

text \<open>
  \<open>avb_rsa.c\<close>: parsing of the preprocessed public key, Montgomery multiplication on arrays of 32-bit
  limbs, exponentiation by 65537 and the PKCS#1 v1.5 signature check. The arithmetic is shown to
  compute \<open>sig ^ 65537 mod n\<close> for every well-formed key, and the check to accept exactly the signatures
  whose power is the encoded digest.
\<close>

section \<open>Definitions\<close>

record IAvbKey =
  ik_len :: u32
  ik_n0inv :: u32
  ik_n :: "u32 list"
  ik_rr :: "u32 list"

definition sizeof_IAvbKey :: nat where
  "sizeof_IAvbKey = 24"

text \<open>\<open>data\<close> is the memory from the key's address on; \<open>None\<close> is the null pointer.\<close>

definition iavb_parse_key_data :: "bytes \<Rightarrow> u64 \<Rightarrow> heap \<Rightarrow> (IAvbKey option \<times> heap) res" where
  "iavb_parse_key_data data length' hp =
     bnd (load_AvbRSAPublicKeyHeader data) (\<lambda>src.
       case avb_rsa_public_key_header_validate_and_byteswap src of
         (False, _) \<Rightarrow> Ok (None, hp)
       | (True, h) \<Rightarrow>
           if \<not> (rk_key_num_bits h = 2048 \<or> rk_key_num_bits h = 4096 \<or> rk_key_num_bits h = 8192)
           then Ok (None, hp)
           else let expected_length = of_nat sizeof_AvbRSAPublicKeyHeader + ucast (2 * rk_key_num_bits h div 8)
           in if length' \<noteq> expected_length then Ok (None, hp)
           else let n = sizeof_AvbRSAPublicKeyHeader;
                    rr = sizeof_AvbRSAPublicKeyHeader + unat (rk_key_num_bits h div 8);
                    (p, hp) = avb_malloc (sizeof_IAvbKey + unat (2 * rk_key_num_bits h div 8)) hp
           in case p of
                None \<Rightarrow> Ok (None, hp)
              | Some _ \<Rightarrow>
                  if length data < unat length' then Fault BadAccess
                  else let len = rk_key_num_bits h div 32
                  in Ok (Some \<lparr>ik_len = len, ik_n0inv = rk_n0inv h,
                       ik_n = map (\<lambda>i. avb_be32toh (load32 data (n + 4 * (unat len - i - 1)))) [0..<unat len],
                       ik_rr = map (\<lambda>i. avb_be32toh (load32 data (rr + 4 * (unat len - i - 1)))) [0..<unat len]\<rparr>, hp))"

text \<open>
  The limb arrays all have \<open>key->len\<close> elements; the loops run along them. \<open>A\<close> of \<open>subM\<close> is a signed
  64-bit accumulator: its additions wrap and its right shift keeps the sign.
\<close>

fun subM_loop :: "u64 \<Rightarrow> u32 list \<Rightarrow> u32 list \<Rightarrow> u32 list" where
  "subM_loop A (x # a) (y # n) =
     (let A = A + (ucast x - ucast y) in ucast A # subM_loop (signed_drop_bit 32 A) a n)"
| "subM_loop A a _ = a"

definition subM :: "IAvbKey \<Rightarrow> u32 list \<Rightarrow> u32 list" where
  "subM key a = subM_loop 0 a (ik_n key)"

text \<open>The comparison loop runs from the most significant limb down.\<close>

fun geM_loop :: "u32 list \<Rightarrow> u32 list \<Rightarrow> bool" where
  "geM_loop (x # a) (y # n) = (if x < y then False else if x > y then True else geM_loop a n)"
| "geM_loop _ _ = True"

definition geM :: "IAvbKey \<Rightarrow> u32 list \<Rightarrow> bool" where
  "geM key a = geM_loop (rev a) (rev (ik_n key))"

text \<open>The loop of \<open>montMulAdd\<close> from \<open>i = 1\<close>: the stored limbs, and the accumulators at its end.\<close>

fun montMulAdd_loop ::
    "u32 \<Rightarrow> u32 \<Rightarrow> u64 \<Rightarrow> u64 \<Rightarrow> u32 list \<Rightarrow> u32 list \<Rightarrow> u32 list \<Rightarrow> u32 list \<times> u64 \<times> u64" where
  "montMulAdd_loop a d0 A B (bi # b) (ci # c) (ni # n) =
     (let A = drop_bit 32 A + ucast a * ucast bi + ucast ci;
          B = drop_bit 32 B + ucast d0 * ucast ni + ucast (ucast A :: u32);
          (rest, A', B') = montMulAdd_loop a d0 A B b c n
      in (ucast B # rest, A', B'))"
| "montMulAdd_loop a d0 A B _ _ _ = ([], A, B)"

definition montMulAdd :: "IAvbKey \<Rightarrow> u32 list \<Rightarrow> u32 \<Rightarrow> u32 list \<Rightarrow> u32 list" where
  "montMulAdd key c a b =
     (let A = ucast a * ucast (b ! 0) + ucast (c ! 0) :: u64;
          d0 = ucast A * ik_n0inv key :: u32;
          B = ucast d0 * ucast (ik_n key ! 0) + ucast (ucast A :: u32) :: u64;
          (lo, A, B) = montMulAdd_loop a d0 A B (tl b) (tl c) (tl (ik_n key));
          A = drop_bit 32 A + drop_bit 32 B;
          c = lo @ [ucast A]
      in if drop_bit 32 A \<noteq> 0 then subM key c else c)"

text \<open>\<open>c\<close> is overwritten: its old contents do not matter.\<close>

definition montMul :: "IAvbKey \<Rightarrow> u32 list \<Rightarrow> u32 list \<Rightarrow> u32 list" where
  "montMul key a b =
     foldl (\<lambda>c i. montMulAdd key c (a ! i) b) (replicate (unat (ik_len key)) 0) [0..<unat (ik_len key)]"

definition be_limbs :: "nat \<Rightarrow> bytes \<Rightarrow> u32 list" where
  "be_limbs len inout =
     map (\<lambda>i. push_bit 24 (ucast (inout ! ((len - 1 - i) * 4 + 0))) OR
              push_bit 16 (ucast (inout ! ((len - 1 - i) * 4 + 1))) OR
              push_bit 8 (ucast (inout ! ((len - 1 - i) * 4 + 2))) OR
              push_bit 0 (ucast (inout ! ((len - 1 - i) * 4 + 3)))) [0..<len]"

definition limbs_be :: "u32 list \<Rightarrow> bytes" where
  "limbs_be aaa =
     concat (map (\<lambda>tmp. [ucast (drop_bit 24 tmp), ucast (drop_bit 16 tmp), ucast (drop_bit 8 tmp),
                         ucast (drop_bit 0 tmp)]) (rev aaa))"

text \<open>The squaring loop, \<open>i = 0, 2, ..., 14\<close>.\<close>

definition modpow_squares :: "IAvbKey \<Rightarrow> u32 list \<Rightarrow> u32 list" where
  "modpow_squares key aR =
     foldl (\<lambda>aR i. let aaR = montMul key aR aR in montMul key aaR aaR) aR [0..<8]"

text \<open>The buffer afterwards; it is unchanged when an allocation fails.\<close>

definition modpowF4 :: "IAvbKey \<Rightarrow> bytes \<Rightarrow> heap \<Rightarrow> (bytes \<times> heap) res" where
  "modpowF4 key inout hp =
     (let len = unat (ik_len key);
          (a, hp) = avb_malloc (len * 4) hp;
          (aR, hp) = avb_malloc (len * 4) hp;
          (aaR, hp) = avb_malloc (len * 4) hp
      in if a = None \<or> aR = None \<or> aaR = None then Ok (inout, hp)
         else if length inout < len * 4 then Fault BadAccess
         else let a = be_limbs len inout;
                  aR = montMul key a (ik_rr key);
                  aR = modpow_squares key aR;
                  aaa = montMul key aR a;
                  aaa = (if geM key aaa then subM key aaa else aaa)
         in Ok (limbs_be aaa @ drop (len * 4) inout, hp))"

definition avb_rsa_verify ::
    "bytes option \<Rightarrow> u64 \<Rightarrow> bytes option \<Rightarrow> u64 \<Rightarrow> bytes option \<Rightarrow> u64 \<Rightarrow> bytes option \<Rightarrow> u64 \<Rightarrow> heap \<Rightarrow>
     (bool \<times> heap) res" where
  "avb_rsa_verify key key_num_bytes sig sig_num_bytes hash hash_num_bytes padding padding_num_bytes hp =
     (if key = None \<or> sig = None \<or> hash = None \<or> padding = None then Ok (False, hp)
      else bnd (iavb_parse_key_data (the key) key_num_bytes hp) (\<lambda>(parsed_key, hp).
        case parsed_key of None \<Rightarrow> Ok (False, hp) | Some parsed_key \<Rightarrow>
        if sig_num_bytes \<noteq> ucast (ik_len parsed_key) * 4 then Ok (False, hp)
        else if padding_num_bytes \<noteq> sig_num_bytes - hash_num_bytes then Ok (False, hp)
        else let (p, hp) = avb_malloc (unat sig_num_bytes) hp
        in case p of None \<Rightarrow> Ok (False, hp) | Some _ \<Rightarrow>
          if length (the sig) < unat sig_num_bytes then Fault BadAccess
          else bnd (modpowF4 parsed_key (take (unat sig_num_bytes) (the sig)) hp) (\<lambda>(buf, hp).
            bnd (avb_safe_memcmp buf (the padding) (unat padding_num_bytes)) (\<lambda>c.
              if c \<noteq> 0 then Ok (False, hp)
              else bnd (avb_safe_memcmp (drop (unat padding_num_bytes) buf) (the hash) (unat hash_num_bytes)) (\<lambda>c.
                if c \<noteq> 0 then Ok (False, hp) else Ok (True, hp))))))"

section \<open>Limb arrays as numbers\<close>

fun lval :: "u32 list \<Rightarrow> nat" where
  "lval [] = 0"
| "lval (x # xs) = unat x + 2 ^ 32 * lval xs"

lemma lval_append: "lval (xs @ ys) = lval xs + 2 ^ (32 * length xs) * lval ys"
  by (induction xs) (simp_all add: algebra_simps power_add)

lemma lval_less: "lval xs < 2 ^ (32 * length xs)"
proof (induction xs)
  case (Cons x xs)
  have "unat x + 2 ^ 32 * lval xs < 2 ^ 32 * (lval xs + 1)"
    using unat_u32_less [of x] by simp
  also have "\<dots> \<le> 2 ^ 32 * 2 ^ (32 * length xs)"
    using Cons by (intro mult_le_mono2) simp
  finally show ?case by (simp add: power_add)
qed simp

lemma unat_low32: "unat (ucast (A :: u64) :: u32) = unat A mod 2 ^ 32"
  by (simp add: unsigned_ucast_eq take_bit_eq_mod)

lemma unat_high32: "unat (drop_bit 32 (A :: u64)) = unat A div 2 ^ 32"
  using unat_u64_less [of A]
  by (simp add: unsigned_drop_bit_eq drop_bit_eq_div [where ?'a = nat] take_bit_nat_eq_self)

lemma limb_split: "unat (A :: u64) = unat (ucast A :: u32) + 2 ^ 32 * unat (drop_bit 32 A)"
  by (simp add: unat_low32 unat_high32)

text \<open>One limb of a multiply-accumulate with two carries does not overflow 64 bits.\<close>

lemma mac_exact:
  assumes "unat (p :: u64) < 2 ^ 32" "unat (q :: u64) < 2 ^ 32"
  shows "unat (p + ucast (x :: u32) * ucast (y :: u32) + q) = unat p + unat x * unat y + unat q"
proof -
  have "unat x * unat y \<le> 4294967295 * 4294967295"
    using unat_u32_less [of x] unat_u32_less [of y] by (intro mult_le_mono) simp_all
  then show ?thesis
    using assms by (simp add: unat_word_ariths unat_ucast_up)
qed

lemma high32_less: "unat (drop_bit 32 (A :: u64)) < 2 ^ 32"
  using unat_u64_less [of A] by (simp add: unat_high32)

lemma ucast32_less: "unat (ucast (x :: u32) :: u64) < 2 ^ 32"
  using unat_u32_less [of x] by (simp add: unat_ucast_up)

section \<open>Comparison and subtraction of the modulus\<close>

lemma mod_mult_add:
  fixes t r c w :: int
  assumes "0 \<le> r" "r < w" "0 \<le> c"
  shows "(w * t + r) mod (w * c) = r + w * (t mod c)"
  using assms by (subst zmod_zmult2_eq) simp_all

lemma borrow_step:
  fixes x y :: u32 and s :: int
  assumes s: "s = 0 \<or> s = -1"
  defines "v \<equiv> s + uint x - uint y"
  shows "word_of_int s + (ucast x - ucast y) = (word_of_int v :: u64)"
    and "int (unat (ucast (word_of_int v :: u64) :: u32)) = v mod 2 ^ 32"
    and "signed_drop_bit 32 (word_of_int v :: u64) = word_of_int (v div 2 ^ 32)"
    and "v div 2 ^ 32 = 0 \<or> v div 2 ^ 32 = -1"
proof -
  have x: "0 \<le> uint x" "uint x < 4294967296" and y: "0 \<le> uint y" "uint y < 4294967296"
    using unsigned_less [of x, where ?'a = int] unsigned_less [of y, where ?'a = int] by simp_all
  have rng: "- 4294967296 \<le> v" "v < 4294967296"
    using s x y unfolding v_def by linarith+
  have e: "(ucast z :: u64) = word_of_int (uint z)" for z :: u32
    by (rule ucast_eq)
  show "word_of_int s + (ucast x - ucast y) = (word_of_int v :: u64)"
    unfolding e v_def by (simp add: algebra_simps)
  have "int (unat (ucast (word_of_int v :: u64) :: u32)) = take_bit 32 (take_bit 64 v)"
    by (simp add: unsigned_ucast_eq uint_word_of_int_eq of_nat_take_bit)
  then have "int (unat (ucast (word_of_int v :: u64) :: u32)) = take_bit 32 v"
    by simp
  then show "int (unat (ucast (word_of_int v :: u64) :: u32)) = v mod 2 ^ 32"
    by (simp only: take_bit_eq_mod)
  have sv: "sint (word_of_int v :: u64) = v"
    using rng by (simp add: signed_of_int signed_take_bit_int_eq_self)
  show dv: "v div 2 ^ 32 = 0 \<or> v div 2 ^ 32 = -1"
  proof (cases "0 \<le> v")
    case True then show ?thesis using rng by simp
  next
    case False
    have "v div 4294967296 = -1"
      using rng False by linarith
    then show ?thesis by simp
  qed
  show "signed_drop_bit 32 (word_of_int v :: u64) = word_of_int (v div 2 ^ 32)"
  proof -
    have "sint (signed_drop_bit 32 (word_of_int v :: u64)) = v div 2 ^ 32"
      by (simp add: sint_signed_drop_bit_eq sv drop_bit_eq_div)
    then have "(word_of_int (sint (signed_drop_bit 32 (word_of_int v :: u64))) :: u64) = word_of_int (v div 2 ^ 32)"
      by simp
    then show ?thesis
      by (simp add: scast_id)
  qed
qed

lemma subM_loop_value:
  assumes "length a = length n" "s = 0 \<or> s = -1"
  shows "length (subM_loop (word_of_int s) a n) = length a"
    and "int (lval (subM_loop (word_of_int s) a n)) =
      (s + int (lval a) - int (lval n)) mod 2 ^ (32 * length a)"
  using assms
proof (induction a n arbitrary: s rule: list_induct2)
  case Nil
  { case 1 show ?case by simp next case 2 show ?case by simp }
next
  case (Cons x a y n)
  { case 1
    note B = borrow_step [OF 1, of x y]
    show ?case
      using Cons.IH(1) [OF B(4)] unfolding subM_loop.simps Let_def B(1,3) by simp
  next
    case 2
    let ?v = "s + uint x - uint y"
    note B = borrow_step [OF 2, of x y]
    have "int (lval (subM_loop (word_of_int s) (x # a) (y # n))) =
        ?v mod 2 ^ 32 + 2 ^ 32 * ((?v div 2 ^ 32 + int (lval a) - int (lval n)) mod 2 ^ (32 * length a))"
      using Cons.IH(2) [OF B(4)] B(2) unfolding subM_loop.simps Let_def B(1,3) lval.simps
      by simp
    also have "\<dots> = (2 ^ 32 * (?v div 2 ^ 32 + int (lval a) - int (lval n)) + ?v mod 2 ^ 32)
        mod (2 ^ 32 * 2 ^ (32 * length a))"
      by (subst mod_mult_add) simp_all
    finally show ?case
      by (simp add: algebra_simps power_add)
  }
qed

text \<open>A key whose arrays have the announced length.\<close>

definition key_shape :: "IAvbKey \<Rightarrow> bool" where
  "key_shape key \<longleftrightarrow> length (ik_n key) = unat (ik_len key) \<and> length (ik_rr key) = unat (ik_len key) \<and>
     0 < unat (ik_len key)"

lemma subM_value:
  assumes "key_shape key" "length a = unat (ik_len key)"
  shows "length (subM key a) = length a"
    and "int (lval (subM key a)) = (int (lval a) - int (lval (ik_n key))) mod 2 ^ (32 * length a)"
  using subM_loop_value [of a "ik_n key" 0] assms by (simp_all add: subM_def key_shape_def)

lemma lval_rev_compare:
  "length a = length n \<Longrightarrow> geM_loop (rev a) (rev n) = (lval n \<le> lval a)"
proof (induction a n rule: rev_induct2)
  case (4 x xs y ys)
  then have IH: "geM_loop (rev xs) (rev ys) = (lval ys \<le> lval xs)" "length xs = length ys" by simp_all
  let ?R = "2 ^ (32 * length ys) :: nat"
  have "lval xs < ?R" "lval ys < ?R" using lval_less [of xs] lval_less [of ys] IH(2) by simp_all
  moreover have "?R * unat x + ?R \<le> ?R * unat y" if "unat x < unat y"
    using mult_le_mono2 [of "Suc (unat x)" "unat y" ?R] that by simp
  moreover have "?R * unat y + ?R \<le> ?R * unat x" if "unat y < unat x"
    using mult_le_mono2 [of "Suc (unat y)" "unat x" ?R] that by simp
  ultimately show ?case
    using IH by (auto simp: lval_append word_less_nat_alt not_less dest!: antisym)
qed auto

lemma geM_value:
  assumes "key_shape key" "length a = unat (ik_len key)"
  shows "geM key a = (lval (ik_n key) \<le> lval a)"
  using assms by (simp add: geM_def key_shape_def lval_rev_compare)

section \<open>Montgomery multiplication\<close>

lemma montMulAdd_loop_value:
  assumes "length b = length c" "length c = length n" "montMulAdd_loop a d0 A B b c n = (lo, A', B')"
  shows "length lo = length b"
    and "lval lo + 2 ^ (32 * length b) * (unat (drop_bit 32 A') + unat (drop_bit 32 B')) =
      unat (drop_bit 32 A) + unat (drop_bit 32 B) + unat a * lval b + lval c + unat d0 * lval n"
  using assms
proof (induction b c n arbitrary: A B lo rule: list_induct3)
  case Nil
  { case 1 then show ?case by simp next case 2 then show ?case by simp }
next
  case (Cons bi b ci c ni n)
  { case 1
  let ?A = "drop_bit 32 A + ucast a * ucast bi + ucast ci :: u64"
  let ?B = "drop_bit 32 B + ucast d0 * ucast ni + ucast (ucast ?A :: u32) :: u64"
    from 1 obtain rest where "montMulAdd_loop a d0 ?A ?B b c n = (rest, A', B')" "lo = ucast ?B # rest"
      by (auto simp: Let_def split: prod.splits)
    then show ?case using Cons.IH(1) by simp
  next
    case 2
  let ?A = "drop_bit 32 A + ucast a * ucast bi + ucast ci :: u64"
  let ?B = "drop_bit 32 B + ucast d0 * ucast ni + ucast (ucast ?A :: u32) :: u64"
    from 2 obtain rest where rest: "montMulAdd_loop a d0 ?A ?B b c n = (rest, A', B')" "lo = ucast ?B # rest"
      by (auto simp: Let_def split: prod.splits)
    have A: "unat ?A = unat (drop_bit 32 A) + unat a * unat bi + unat ci"
      using mac_exact [OF high32_less ucast32_less] by (simp add: unat_ucast_up)
    have B: "unat ?B = unat (drop_bit 32 B) + unat d0 * unat ni + unat (ucast ?A :: u32)"
      using mac_exact [OF high32_less ucast32_less, of B d0 ni "ucast ?A"] by (simp add: unat_ucast_up)
    note IH = Cons.IH(2) [OF rest(1)]
    have "lval lo + 2 ^ (32 * length (bi # b)) * (unat (drop_bit 32 A') + unat (drop_bit 32 B')) =
        unat (ucast ?B :: u32) + 2 ^ 32 * (lval rest + 2 ^ (32 * length b) *
          (unat (drop_bit 32 A') + unat (drop_bit 32 B')))"
      by (simp add: rest(2) algebra_simps power_add)
    also have "\<dots> = unat (ucast ?B :: u32) + 2 ^ 32 * unat (drop_bit 32 ?B) + 2 ^ 32 * unat (drop_bit 32 ?A) +
        2 ^ 32 * (unat a * lval b + lval c + unat d0 * lval n)"
      unfolding IH by (simp only: algebra_simps)
    also have "\<dots> = unat ?B + 2 ^ 32 * unat (drop_bit 32 ?A) + 2 ^ 32 * (unat a * lval b + lval c + unat d0 * lval n)"
      using limb_split [of ?B] by simp
    also have "\<dots> = unat (drop_bit 32 B) + unat d0 * unat ni + unat ?A +
        2 ^ 32 * (unat a * lval b + lval c + unat d0 * lval n)"
      using B limb_split [of ?A] by simp
    also have "\<dots> = unat (drop_bit 32 A) + unat (drop_bit 32 B) + unat a * lval (bi # b) + lval (ci # c) +
        unat d0 * lval (ni # n)"
      unfolding A by (simp add: algebra_simps)
    finally show ?case .
  }
qed

text \<open>\<open>n0inv\<close> is \<open>-1 / n[0]\<close> modulo \<open>2 ^ 32\<close>.\<close>

definition n0inv_ok :: "IAvbKey \<Rightarrow> bool" where
  "n0inv_ok key \<longleftrightarrow> (unat (ik_n0inv key) * unat (ik_n key ! 0) + 1) mod 2 ^ 32 = 0"

lemma montMulAdd_d0:
  fixes A :: u64 and m :: u32
  assumes "(unat m * unat n0 + 1) mod 2 ^ 32 = 0"
  defines "B \<equiv> ucast (ucast A * m :: u32) * ucast (n0 :: u32) + ucast (ucast A :: u32) :: u64"
  shows "unat B = unat (ucast A * m :: u32) * unat n0 + unat (ucast A :: u32)"
    and "unat (ucast B :: u32) = 0"
proof -
  let ?l = "unat (ucast A :: u32)"
  show B: "unat B = unat (ucast A * m :: u32) * unat n0 + ?l"
    using mac_exact [of 0 "ucast (ucast A :: u32)" "ucast A * m" n0] ucast32_less [of "ucast A"]
    by (simp add: B_def unat_ucast_up)
  have "unat (ucast B :: u32) = (unat (ucast A * m :: u32) * unat n0 + ?l) mod 2 ^ 32"
    unfolding unat_low32 B ..
  also have "\<dots> = (?l * unat m * unat n0 + ?l) mod 2 ^ 32"
    by (rule mod_add_cong) (simp_all add: unat_word_ariths mod_mult_left_eq)
  also have "\<dots> = (?l * (unat m * unat n0 + 1)) mod 2 ^ 32"
    by (simp add: algebra_simps)
  also have "\<dots> = 0"
    using assms(1) by (metis mod_mult_right_eq mult_0_right mod_0)
  finally show "unat (ucast B :: u32) = 0" .
qed

text \<open>The intermediate result: exact, and at most one modulus above the range of the array.\<close>

lemma montMulAdd_raw:
  assumes K: "key_shape key" "n0inv_ok key"
    and L: "length b = unat (ik_len key)" "length c = unat (ik_len key)"
  obtains lo A d0 where
    "montMulAdd key c a b = (if drop_bit 32 (A :: u64) \<noteq> 0 then subM key (lo @ [ucast A]) else lo @ [ucast A])"
    "length lo + 1 = unat (ik_len key)"
    "2 ^ 32 * (lval lo + 2 ^ (32 * length lo) * unat A) =
       lval c + unat a * lval b + unat (d0 :: u32) * lval (ik_n key)"
proof -
  obtain b0 bs where b: "b = b0 # bs" using L(1) K(1) by (cases b) (auto simp: key_shape_def)
  obtain c0 cs where c: "c = c0 # cs" using L(2) K(1) by (cases c) (auto simp: key_shape_def)
  obtain n0 ns where n: "ik_n key = n0 # ns" using K(1) by (cases "ik_n key") (auto simp: key_shape_def)
  have l: "length bs = length cs" "length cs = length ns" "length bs + 1 = unat (ik_len key)"
    using L K(1) b c n by (auto simp: key_shape_def)
  define A0 :: u64 where "A0 = ucast a * ucast b0 + ucast c0"
  define d0 :: u32 where "d0 = ucast A0 * ik_n0inv key"
  define B0 :: u64 where "B0 = ucast d0 * ucast n0 + ucast (ucast A0 :: u32)"
  obtain lo A1 B1 where loop: "montMulAdd_loop a d0 A0 B0 bs cs ns = (lo, A1, B1)"
    by (metis prod_cases3)
  define A :: u64 where "A = drop_bit 32 A1 + drop_bit 32 B1"
  have "(unat (ik_n0inv key) * unat n0 + 1) mod 2 ^ 32 = 0"
    using K(2) by (simp add: n0inv_ok_def n)
  note B0 = montMulAdd_d0 [OF this, of A0, folded d0_def, folded B0_def]
  have A0: "unat A0 = unat a * unat b0 + unat c0"
    using mac_exact [of 0 "ucast c0" a b0] ucast32_less [of c0] by (simp add: A0_def unat_ucast_up)
  have A: "unat A = unat (drop_bit 32 A1) + unat (drop_bit 32 B1)"
    using high32_less [of A1] high32_less [of B1] by (simp add: A_def unat_word_ariths)
  note V = montMulAdd_loop_value [OF l(1,2) loop]
  have "2 ^ 32 * (lval lo + 2 ^ (32 * length lo) * unat A) =
      2 ^ 32 * unat (drop_bit 32 A0) + 2 ^ 32 * unat (drop_bit 32 B0) +
      2 ^ 32 * (unat a * lval bs + lval cs + unat d0 * lval ns)"
    unfolding A V(1) V(2) by (simp only: algebra_simps)
  also have "\<dots> = lval c + unat a * lval b + unat d0 * lval (ik_n key)"
    using limb_split [of A0] limb_split [of B0] A0 B0 by (simp add: b c n algebra_simps)
  finally have "2 ^ 32 * (lval lo + 2 ^ (32 * length lo) * unat A) =
      lval c + unat a * lval b + unat d0 * lval (ik_n key)" .
  moreover have "montMulAdd key c a b = (if drop_bit 32 A \<noteq> 0 then subM key (lo @ [ucast A]) else lo @ [ucast A])"
    using loop by (simp add: montMulAdd_def b c n A_def Let_def flip: A0_def d0_def B0_def)
  moreover have "length lo + 1 = unat (ik_len key)"
    using V(1) l(3) by simp
  ultimately show ?thesis by (rule that [rotated -1])
qed

lemma mont_bound:
  fixes x y c v r n :: nat
  assumes "x \<le> 4294967295 * (r - 1)" "y \<le> 4294967295 * n" "c \<le> r - 1" "0 < r"
    and "4294967296 * v = c + x + y"
  shows "v < r + n"
  using assms by linarith

lemma montMulAdd_value:
  assumes K: "key_shape key" "n0inv_ok key"
    and L: "length b = unat (ik_len key)" "length c = unat (ik_len key)"
  shows "length (montMulAdd key c a b) = unat (ik_len key)"
    and "(2 ^ 32 * lval (montMulAdd key c a b)) mod lval (ik_n key) =
      (lval c + unat a * lval b) mod lval (ik_n key)"
proof -
  let ?N = "lval (ik_n key)" and ?R = "2 ^ (32 * unat (ik_len key)) :: nat"
  obtain lo A d0 where
    r: "montMulAdd key c a b = (if drop_bit 32 (A :: u64) \<noteq> 0 then subM key (lo @ [ucast A]) else lo @ [ucast A])"
    and len: "length lo + 1 = unat (ik_len key)"
    and V: "2 ^ 32 * (lval lo + 2 ^ (32 * length lo) * unat A) = lval c + unat a * lval b + unat (d0 :: u32) * ?N"
    by (rule montMulAdd_raw [OF assms])
  define v where "v = lval lo + 2 ^ (32 * length lo) * unat A"
  let ?c = "lo @ [ucast A]"
  have R: "?R = 2 ^ (32 * length lo) * 2 ^ 32" by (simp flip: len add: power_add)
  have v: "v = lval ?c + ?R * unat (drop_bit 32 A)"
    using limb_split [of A] unfolding R v_def by (simp add: lval_append algebra_simps)
  have cl: "lval ?c < ?R" using lval_less [of ?c] by (simp flip: len)
  have bound: "v < ?R + ?N"
  proof (rule mont_bound)
    show "unat a * lval b \<le> 4294967295 * (?R - 1)"
      using unat_u32_less [of a] lval_less [of b] L(1) by (intro mult_le_mono) simp_all
    show "unat d0 * ?N \<le> 4294967295 * ?N"
      using unat_u32_less [of d0] by (intro mult_le_mono1) simp
    show "lval c \<le> ?R - 1" using lval_less [of c] L(2) by simp
    show "4294967296 * v = lval c + unat a * lval b + unat d0 * ?N"
      using V by (simp add: v_def)
  qed simp
  have N: "?N < ?R" using lval_less [of "ik_n key"] K(1) by (simp add: key_shape_def)
  show "length (montMulAdd key c a b) = unat (ik_len key)"
    using r len subM_value(1) [OF K(1), of ?c] by simp
  show "(2 ^ 32 * lval (montMulAdd key c a b)) mod ?N = (lval c + unat a * lval b) mod ?N"
  proof (cases "drop_bit 32 A = 0")
    case True
    then have "2 ^ 32 * lval (montMulAdd key c a b) = lval c + unat a * lval b + unat d0 * ?N"
      using r v V by (simp add: v_def)
    then show ?thesis by simp
  next
    case False
    then have "1 \<le> unat (drop_bit 32 A)" by (simp add: Suc_le_eq unat_gt_0)
    then have "?R * 1 \<le> ?R * unat (drop_bit 32 A)" by (rule mult_le_mono2)
    then have ge: "?R \<le> v" using v by linarith
    have one: "unat (drop_bit 32 A) = 1"
    proof (rule antisym)
      have "?R * unat (drop_bit 32 A) < ?R * 2" using v bound N by linarith
      then show "unat (drop_bit 32 A) \<le> 1" by simp
    qed fact
    have lc: "length ?c = unat (ik_len key)" using len by simp
    have "int (lval (montMulAdd key c a b)) = (int (lval ?c) - int ?N) mod int ?R"
      using r False subM_value(2) [OF K(1) lc] unfolding lc by simp
    also have "int (lval ?c) - int ?N = int (v - ?N) - int ?R"
      using v one ge N by (simp add: of_nat_diff)
    also have "(int (v - ?N) - int ?R) mod int ?R = int (v - ?N) mod int ?R" by (rule minus_mod_self2)
    also have "\<dots> = int ((v - ?N) mod ?R)" by (rule of_nat_mod [symmetric])
    also have "(v - ?N) mod ?R = v - ?N" using bound ge N by (intro mod_less) linarith
    finally have "lval (montMulAdd key c a b) = v - ?N" by simp
    then have "2 ^ 32 * lval (montMulAdd key c a b) + 2 ^ 32 * ?N = lval c + unat a * lval b + unat d0 * ?N"
      using V ge N by (simp add: v_def [symmetric] diff_mult_distrib2)
    then show ?thesis by (metis mod_mult_self1 mult.commute)
  qed
qed

lemma montMul_value:
  assumes K: "key_shape key" "n0inv_ok key"
    and L: "length a = unat (ik_len key)" "length b = unat (ik_len key)"
  shows "length (montMul key a b) = unat (ik_len key)"
    and "(2 ^ (32 * unat (ik_len key)) * lval (montMul key a b)) mod lval (ik_n key) =
      (lval a * lval b) mod lval (ik_n key)"
proof -
  let ?N = "lval (ik_n key)" and ?len = "unat (ik_len key)"
  define c where "c i = foldl (\<lambda>c i. montMulAdd key c (a ! i) b) (replicate ?len 0) [0..<i]" for i
  have "length (c i) = ?len \<and> (2 ^ (32 * i) * lval (c i)) mod ?N = (lval (take i a) * lval b) mod ?N"
    if "i \<le> ?len" for i
    using that
  proof (induction i)
    case 0
    have "lval (replicate k 0) = 0" for k by (induction k) simp_all
    then show ?case by (simp add: c_def)
  next
    case (Suc i)
    then have IH: "length (c i) = ?len"
      "(2 ^ (32 * i) * lval (c i)) mod ?N = (lval (take i a) * lval b) mod ?N" by simp_all
    have cs: "c (Suc i) = montMulAdd key (c i) (a ! i) b" by (simp add: c_def)
    note M = montMulAdd_value [OF K L(2) IH(1), of "a ! i", folded cs]
    have tk: "take (Suc i) a = take i a @ [a ! i]" "length (take i a) = i"
      using Suc.prems L(1) by (simp_all add: take_Suc_conv_app_nth)
    have "(2 ^ (32 * Suc i) * lval (c (Suc i))) mod ?N = (2 ^ (32 * i) * (2 ^ 32 * lval (c (Suc i)))) mod ?N"
      by (simp add: power_add algebra_simps)
    also have "\<dots> = (2 ^ (32 * i) * (lval (c i) + unat (a ! i) * lval b)) mod ?N"
      using M(2) by (metis mod_mult_right_eq)
    also have "\<dots> = (2 ^ (32 * i) * lval (c i) + 2 ^ (32 * i) * (unat (a ! i) * lval b)) mod ?N"
      by (simp only: distrib_left)
    also have "\<dots> = (lval (take i a) * lval b + 2 ^ (32 * i) * (unat (a ! i) * lval b)) mod ?N"
      using IH(2) by (metis mod_add_left_eq)
    also have "\<dots> = (lval (take (Suc i) a) * lval b) mod ?N"
      unfolding tk(1) lval_append tk(2) by (simp add: algebra_simps)
    finally show ?case using M(1) by simp
  qed
  from this [of ?len] show "length (montMul key a b) = ?len"
    "(2 ^ (32 * ?len) * lval (montMul key a b)) mod ?N = (lval a * lval b) mod ?N"
    using L(1) by (simp_all add: montMul_def c_def)
qed

lemma modulus_coprime:
  assumes "key_shape key" "n0inv_ok key"
  shows "coprime (2 ^ k) (lval (ik_n key))"
proof -
  obtain n0 ns where n: "ik_n key = n0 # ns"
    using assms(1) by (cases "ik_n key") (auto simp: key_shape_def)
  have "2 ^ 32 dvd unat (ik_n0inv key) * unat n0 + 1"
    using assms(2) unfolding n0inv_ok_def n nth_Cons_0 mod_eq_0_iff_dvd .
  then have "even (unat (ik_n0inv key) * unat n0 + 1)"
    by (rule dvd_trans [rotated]) simp
  then have "odd (unat n0)" by auto
  then show ?thesis by (simp add: n)
qed

lemma mod_cancel:
  fixes r x y n :: nat
  assumes "coprime r n" "(r * x) mod n = (r * y) mod n"
  shows "x mod n = y mod n"
proof -
  have "int n dvd int r * (int x - int y)"
    using arg_cong [OF assms(2), of int]
    by (simp add: of_nat_mod mod_eq_dvd_iff right_diff_distrib)
  moreover have "coprime (int n) (int r)"
    using assms(1) by (simp add: coprime_commute)
  ultimately have "int n dvd int x - int y"
    by (simp add: coprime_dvd_mult_right_iff)
  then have "int x mod int n = int y mod int n"
    by (simp add: mod_eq_dvd_iff)
  then show ?thesis by (metis of_nat_eq_iff of_nat_mod)
qed

text \<open>One Montgomery product, in terms of residues: a factor \<open>R\<close> is divided out.\<close>

lemma montMul_residue:
  assumes K: "key_shape key" "n0inv_ok key"
    and L: "length y = unat (ik_len key)" "length z = unat (ik_len key)"
    and M: "(lval y * lval z) mod lval (ik_n key) = (2 ^ (32 * unat (ik_len key)) * v) mod lval (ik_n key)"
  shows "lval (montMul key y z) mod lval (ik_n key) = v mod lval (ik_n key)"
  using mod_cancel [OF modulus_coprime [OF K]] montMul_value(2) [OF K L] M by metis

lemma modpow_squares_residue:
  assumes K: "key_shape key" "n0inv_ok key" and L: "length aR = unat (ik_len key)"
    and M: "lval aR mod lval (ik_n key) = (x * 2 ^ (32 * unat (ik_len key))) mod lval (ik_n key)"
  shows "length (modpow_squares key aR) = unat (ik_len key)"
    and "lval (modpow_squares key aR) mod lval (ik_n key) =
      (x ^ 65536 * 2 ^ (32 * unat (ik_len key))) mod lval (ik_n key)"
proof -
  let ?N = "lval (ik_n key)" and ?R = "2 ^ (32 * unat (ik_len key)) :: nat"
  have sq: "length (montMul key y y) = unat (ik_len key) \<and> lval (montMul key y y) mod ?N = (w ^ 2 * ?R) mod ?N"
    if "length y = unat (ik_len key)" "lval y mod ?N = (w * ?R) mod ?N" for y w
  proof -
    have "(lval y * lval y) mod ?N = ((w * ?R) * (w * ?R)) mod ?N"
      using that(2) by (metis mod_mult_eq)
    also have "(w * ?R) * (w * ?R) = ?R * (w ^ 2 * ?R)"
      by (simp add: power2_eq_square algebra_simps)
    finally show ?thesis
      using montMul_residue [OF K that(1) that(1)] montMul_value(1) [OF K that(1) that(1)] by simp
  qed
  have "length (foldl (\<lambda>aR i. let aaR = montMul key aR aR in montMul key aaR aaR) aR [0..<k]) = unat (ik_len key) \<and>
      lval (foldl (\<lambda>aR i. let aaR = montMul key aR aR in montMul key aaR aaR) aR [0..<k]) mod ?N =
      (x ^ (4 ^ k) * ?R) mod ?N" for k
  proof (induction k)
    case 0
    show ?case using L M by simp
  next
    case (Suc k)
    let ?y = "foldl (\<lambda>aR i. let aaR = montMul key aR aR in montMul key aaR aaR) aR [0..<k]"
    have s1: "length (montMul key ?y ?y) = unat (ik_len key)"
      "lval (montMul key ?y ?y) mod ?N = ((x ^ 4 ^ k) ^ 2 * ?R) mod ?N"
      using sq [of ?y "x ^ 4 ^ k"] Suc by blast+
    have "((x ^ 4 ^ k) ^ 2) ^ 2 = x ^ 4 ^ Suc k"
      by (simp flip: power_mult add: mult.commute)
    with sq [OF s1] show ?case by (simp add: Let_def)
  qed
  from this [of 8] show "length (modpow_squares key aR) = unat (ik_len key)"
    "lval (modpow_squares key aR) mod ?N = (x ^ 65536 * ?R) mod ?N"
    by (simp_all add: modpow_squares_def)
qed

section \<open>Byte strings and limbs\<close>

lemma lval_words:
  assumes "\<And>j. j < len \<Longrightarrow> unat (w j) = be_nat (take 4 (drop (4 * j) m))" "4 * len \<le> length m"
  shows "lval (map (\<lambda>i. w (len - 1 - i)) [0..<len]) = be_nat (take (4 * len) m)"
proof -
  have "map (\<lambda>i. w (len - 1 - i)) [0..<len] = rev (map w [0..<len])"
    by (rule nth_equalityI) (auto simp: rev_nth)
  moreover have "lval (rev (map w [0..<k])) = be_nat (take (4 * k) m)" if "k \<le> len" for k
    using that
  proof (induction k)
    case (Suc k)
    have "take (4 * Suc k) m = take (4 * k) m @ take 4 (drop (4 * k) m)"
      using take_add [of "4 * k" 4 m] by (simp add: add.commute)
    moreover have "length (take 4 (drop (4 * k) m)) = 4"
      using Suc.prems assms(2) by simp
    ultimately show ?case
      using Suc assms(1) [of k] by (simp add: be_nat_append)
  qed simp
  ultimately show ?thesis by simp
qed

lemma be_limbs_value:
  assumes "length m = 4 * len"
  shows "length (be_limbs len m) = len" "lval (be_limbs len m) = be_nat m"
proof -
  show "length (be_limbs len m) = len" by (simp add: be_limbs_def)
  let ?w = "\<lambda>j. push_bit 24 (ucast (m ! (j * 4 + 0))) OR push_bit 16 (ucast (m ! (j * 4 + 1))) OR
              push_bit 8 (ucast (m ! (j * 4 + 2))) OR push_bit 0 (ucast (m ! (j * 4 + 3))) :: u32"
  have "unat (?w j) = be_nat (take 4 (drop (4 * j) m))" if "j < len" for j
    using that assms unat_or_bytes4 [of "m ! (j * 4)" "m ! (j * 4 + 1)" "m ! (j * 4 + 2)" "m ! (j * 4 + 3)"]
    by (simp add: take_4_drop mult.commute)
  from lval_words [of len ?w, OF this] show "lval (be_limbs len m) = be_nat m"
    using assms by (simp add: be_limbs_def)
qed

lemma limbs_be_value: "length (limbs_be a) = 4 * length a" "be_nat (limbs_be a) = lval a"
proof -
  show "length (limbs_be a) = 4 * length a"
    by (induction a) (simp_all add: limbs_be_def)
  have word: "be_nat [ucast (drop_bit 24 x), ucast (drop_bit 16 x), ucast (drop_bit 8 x), ucast (drop_bit 0 x)] = unat x"
    for x :: u32
  proof -
    have "be_nat (map (byte_at x) (rev [0..<4])) = unat x"
      using be_nat_bytes_of [of x 4] unat_u32_less [of x] by simp
    then show ?thesis by (simp add: byte_at_def upt_rec)
  qed
  show "be_nat (limbs_be a) = lval a"
  proof (induction a)
    case (Cons x a)
    have "limbs_be (x # a) = limbs_be a @ [ucast (drop_bit 24 x), ucast (drop_bit 16 x), ucast (drop_bit 8 x), ucast (drop_bit 0 x)]"
      by (simp add: limbs_be_def)
    then show ?case
      using Cons word [of x] by (simp add: be_nat_append)
  qed (simp add: limbs_be_def)
qed

section \<open>Exponentiation\<close>

text \<open>A well-formed preprocessed key: \<open>rr\<close> is \<open>R ^ 2\<close> modulo \<open>n\<close> and the top bit of \<open>n\<close> is set.\<close>

definition key_ok :: "IAvbKey \<Rightarrow> bool" where
  "key_ok key \<longleftrightarrow> key_shape key \<and> n0inv_ok key \<and>
     lval (ik_rr key) mod lval (ik_n key) = (2 ^ (32 * unat (ik_len key))) ^ 2 mod lval (ik_n key) \<and>
     2 ^ (32 * unat (ik_len key)) \<le> 2 * lval (ik_n key)"

lemma final_reduce:
  assumes "key_shape key" "length a = unat (ik_len key)"
    and "2 ^ (32 * unat (ik_len key)) \<le> 2 * lval (ik_n key)"
  shows "length (if geM key a then subM key a else a) = unat (ik_len key)"
    and "lval (if geM key a then subM key a else a) = lval a mod lval (ik_n key)"
proof -
  let ?N = "lval (ik_n key)" and ?R = "2 ^ (32 * unat (ik_len key)) :: nat"
  note S = subM_value [OF assms(1,2)] and G = geM_value [OF assms(1,2)]
  show "length (if geM key a then subM key a else a) = unat (ik_len key)"
    using S(1) assms(2) by simp
  have a: "lval a < ?R" using lval_less [of a] assms(2) by simp
  show "lval (if geM key a then subM key a else a) = lval a mod ?N"
  proof (cases "?N \<le> lval a")
    case True
    have "int (lval (subM key a)) = int (lval a - ?N) mod int ?R"
      using S(2) True assms(2) by (simp add: of_nat_diff)
    also have "\<dots> = int ((lval a - ?N) mod ?R)" by (rule of_nat_mod [symmetric])
    also have "(lval a - ?N) mod ?R = lval a - ?N" using a by (intro mod_less) simp
    finally have "lval (subM key a) = lval a - ?N" by simp
    moreover have "lval a mod ?N = lval a - ?N"
      using True a assms(3) by (subst le_mod_geq) (simp_all add: mod_less)
    ultimately show ?thesis using True G by simp
  qed (simp add: G)
qed

lemma modpowF4_value:
  assumes K: "key_ok key" and I: "length inout = 4 * unat (ik_len key)" and H: "malloc_total h"
  shows "\<exists>out h'. modpowF4 key inout h = Ok (out, h') \<and> length out = length inout \<and>
    be_nat out = be_nat inout ^ 65537 mod lval (ik_n key) \<and> malloc_total h'"
proof -
  let ?N = "lval (ik_n key)" and ?len = "unat (ik_len key)"
  let ?R = "2 ^ (32 * ?len) :: nat" and ?x = "be_nat inout" and ?a = "be_limbs ?len inout"
  have k: "key_shape key" "n0inv_ok key" "lval (ik_rr key) mod ?N = ?R ^ 2 mod ?N" "?R \<le> 2 * ?N"
    "length (ik_rr key) = ?len"
    using K by (auto simp: key_ok_def key_shape_def)
  have a: "length ?a = ?len" "lval ?a = ?x"
    using be_limbs_value [of inout ?len] I by simp_all
  define aR where "aR = montMul key ?a (ik_rr key)"
  have "(lval ?a * lval (ik_rr key)) mod ?N = (?x * ?R ^ 2) mod ?N"
    unfolding a(2) by (metis k(3) mod_mult_right_eq)
  also have "?x * ?R ^ 2 = ?R * (?x * ?R)" by (simp add: power2_eq_square algebra_simps)
  finally have r1: "lval aR mod ?N = (?x * ?R) mod ?N"
    unfolding aR_def by (rule montMul_residue [OF k(1,2) a(1) k(5)])
  have l1: "length aR = ?len"
    unfolding aR_def by (rule montMul_value(1) [OF k(1,2) a(1) k(5)])
  define s where "s = modpow_squares key aR"
  note sq = modpow_squares_residue [OF k(1,2) l1 r1, folded s_def]
  define aaa where "aaa = montMul key s ?a"
  have "(lval s * lval ?a) mod ?N = ((?x ^ 65536 * ?R) * ?x) mod ?N"
    unfolding a(2) by (metis sq(2) mod_mult_left_eq)
  also have "(?x ^ 65536 * ?R) * ?x = ?R * ?x ^ Suc 65536" by (simp only: power_Suc algebra_simps)
  finally have r2: "lval aaa mod ?N = ?x ^ Suc 65536 mod ?N"
    unfolding aaa_def by (rule montMul_residue [OF k(1,2) sq(1) a(1)])
  have l2: "length aaa = ?len"
    unfolding aaa_def by (rule montMul_value(1) [OF k(1,2) sq(1) a(1)])
  define res where "res = (if geM key aaa then subM key aaa else aaa)"
  note fin = final_reduce [OF k(1) l2 k(4), folded res_def]
  obtain p1 h1 where h1: "avb_malloc (?len * 4) h = (Some p1, h1)" "malloc_total h1"
    using malloc_total_malloc [OF H] by blast
  obtain p2 h2 where h2: "avb_malloc (?len * 4) h1 = (Some p2, h2)" "malloc_total h2"
    using malloc_total_malloc [OF h1(2)] by blast
  obtain p3 h3 where h3: "avb_malloc (?len * 4) h2 = (Some p3, h3)" "malloc_total h3"
    using malloc_total_malloc [OF h2(2)] by blast
  have "modpowF4 key inout h = Ok (limbs_be res, h3)"
    using h1(1) h2(1) h3(1) I by (simp add: modpowF4_def Let_def aR_def s_def aaa_def res_def)
  then show ?thesis
    using limbs_be_value [of res] fin r2 I h3(2) by simp
qed

section \<open>Parsing a key\<close>

text \<open>The numbers a serialized key holds, as the documentation of \<open>AvbRSAPublicKeyHeader\<close> lays them out.\<close>

definition pk_bits :: "bytes \<Rightarrow> nat" where
  "pk_bits key = be_nat (take 4 key)"

definition pk_n0inv :: "bytes \<Rightarrow> nat" where
  "pk_n0inv key = be_nat (take 4 (drop 4 key))"

definition pk_modulus :: "bytes \<Rightarrow> nat" where
  "pk_modulus key = be_nat (take (pk_bits key div 8) (drop 8 key))"

definition pk_rr :: "bytes \<Rightarrow> nat" where
  "pk_rr key = be_nat (take (pk_bits key div 8) (drop (8 + pk_bits key div 8) key))"

text \<open>A serialized key whose precomputed values are what that documentation says they are.\<close>

definition pubkey_ok :: "bytes \<Rightarrow> bool" where
  "pubkey_ok key \<longleftrightarrow> pk_bits key \<in> {2048, 4096, 8192} \<and> length key = 8 + 2 * (pk_bits key div 8) \<and>
     (pk_n0inv key * pk_modulus key + 1) mod 2 ^ 32 = 0 \<and>
     pk_rr key mod pk_modulus key = (2 ^ pk_bits key) ^ 2 mod pk_modulus key \<and>
     2 ^ pk_bits key \<le> 2 * pk_modulus key"

lemma pubkey_bits:
  assumes "pubkey_ok key"
  shows "pk_bits key \<in> {2048, 4096, 8192}" "length key = 8 + 2 * (pk_bits key div 8)"
  using assms unfolding pubkey_ok_def by blast+

lemma parse_words:
  assumes "ofs + 4 * len \<le> length data"
  shows "lval (map (\<lambda>i. avb_be32toh (load32 data (ofs + 4 * (len - i - 1)))) [0..<len]) =
    be_nat (take (4 * len) (drop ofs data))"
proof -
  let ?w = "\<lambda>j. avb_be32toh (load32 data (ofs + 4 * j))"
  have "unat (?w j) = be_nat (take 4 (drop (4 * j) (drop ofs data)))" if "j < len" for j
    using that assms by (simp add: be32toh_load32 add.commute)
  from lval_words [of len ?w "drop ofs data", OF this] show ?thesis
    using assms by (simp add: diff_commute)
qed

lemma parse_key_ok:
  assumes K: "pubkey_ok key" "key = take n m" "n \<le> length m" and H: "\<And>sz. hp_alloc h (hp_calls h) sz \<noteq> None"
  shows "\<exists>k. iavb_parse_key_data m (of_nat n) h = Ok (Some k, h\<lparr>hp_calls := Suc (hp_calls h)\<rparr>) \<and>
    key_ok k \<and> lval (ik_n k) = pk_modulus key \<and> 4 * unat (ik_len k) = pk_bits key div 8"
proof -
  define bits where "bits = pk_bits key"
  define nb where "nb = avb_be32toh (load32 m 0)"
  have b: "bits \<in> {2048, 4096, 8192}" "length key = 8 + 2 * (bits div 8)"
    using pubkey_bits [OF K(1)] by (simp_all add: bits_def)
  have n_eq: "n = 8 + 2 * (bits div 8)" using b(2) K(2,3) by simp
  then have l8: "8 \<le> n" "8 \<le> length m" using K(3) by simp_all
  have unb: "unat nb = bits" "unat (avb_be32toh (load32 m 4)) = pk_n0inv key"
    using l8 by (simp_all add: nb_def be32toh_load32 bits_def pk_bits_def pk_n0inv_def
        K(2) drop_take)
  have nbw: "nb = of_nat bits" by (simp flip: unb(1))
  define len where "len = bits div 32"
  have nums: "nb = 2048 \<or> nb = 4096 \<or> nb = 8192" "unat (nb div 32) = len" "unat (nb div 8) = 4 * len"
    "unat (2 * nb div 8) = 8 * len" "(ucast (2 * nb div 8) :: u64) = of_nat (8 * len)" "bits = 32 * len"
    "bits div 8 = 4 * len" "0 < len" "(of_nat n :: u64) = 8 + of_nat (8 * len)"
    "unat (of_nat n :: u64) = n"
    using b by (auto simp: nbw len_def n_eq)
  define h1 where "h1 = h\<lparr>hp_calls := Suc (hp_calls h)\<rparr>"
  obtain p where h1: "avb_malloc (sizeof_IAvbKey + unat (2 * nb div 8)) h = (Some p, h1)"
    using H by (auto simp: avb_malloc_def h1_def)
  define k where "k = \<lparr>ik_len = nb div 32, ik_n0inv = avb_be32toh (load32 m 4),
      ik_n = map (\<lambda>i. avb_be32toh (load32 m (8 + 4 * (len - i - 1)))) [0..<len],
      ik_rr = map (\<lambda>i. avb_be32toh (load32 m (8 + 4 * len + 4 * (len - i - 1)))) [0..<len]\<rparr>"
  have parse: "iavb_parse_key_data m (of_nat n) h = Ok (Some k, h1)"
    using l8 nums h1 K(3)
    by (simp add: iavb_parse_key_data_def load_AvbRSAPublicKeyHeader_def sizeof_AvbRSAPublicKeyHeader_def
        avb_rsa_public_key_header_validate_and_byteswap_def Let_def k_def flip: nb_def)
  have lens: "8 + 4 * len \<le> length m" "8 + 4 * len + 4 * len \<le> length m"
    "n = 8 + 4 * len + 4 * len"
    using n_eq K(3) nums by simp_all
  have n: "lval (ik_n k) = pk_modulus key" "lval (ik_rr k) = pk_rr key"
    using parse_words [OF lens(1)] parse_words [OF lens(2)]
    unfolding pk_modulus_def pk_rr_def unfolding bits_def [symmetric] nums(7) unfolding K(2) lens(3)
    by (simp_all add: k_def drop_take)
  have n0: "unat (ik_n k ! 0) mod 2 ^ 32 = pk_modulus key mod 2 ^ 32"
  proof -
    have "length (ik_n k) = len" by (simp add: k_def)
    then obtain x xs where x: "ik_n k = x # xs" using nums(8) by (cases "ik_n k") auto
    then have "pk_modulus key = unat x + 2 ^ 32 * lval xs" using n(1) by (simp only: lval.simps)
    then show ?thesis unfolding x nth_Cons_0 by (simp only: mod_mult_self2)
  qed
  have "(pk_n0inv key * unat (ik_n k ! 0) + 1) mod 2 ^ 32 = (pk_n0inv key * pk_modulus key + 1) mod 2 ^ 32"
    by (rule mod_add_cong [OF mod_mult_cong [OF refl n0] refl])
  then have "n0inv_ok k"
    using K(1) unb(2) unfolding n0inv_ok_def pubkey_ok_def by (simp only: k_def IAvbKey.select_convs)
  moreover have "key_shape k" using nums by (simp add: key_shape_def k_def)
  moreover have "32 * unat (ik_len k) = pk_bits key" using nums(2,6) by (simp add: k_def bits_def)
  ultimately have "key_ok k"
    using K(1) n unfolding key_ok_def pubkey_ok_def by metis
  then show ?thesis
    using parse n(1) nums by (auto simp: k_def h1_def simp flip: bits_def)
qed

section \<open>The signature check\<close>

lemma malloc_total_Suc: "malloc_total h \<Longrightarrow> malloc_total (h\<lparr>hp_calls := Suc (hp_calls h)\<rparr>)"
  by (simp add: malloc_total_def)

lemma rsa_verify_value:
  assumes K: "pubkey_ok (take kn km)" "kn \<le> length km" and H: "malloc_total h"
    and S: "8 * sn = pk_bits (take kn km)" "sn \<le> length sm" "hn \<le> length hm" "pn \<le> length pm" "pn + hn = sn"
  shows "\<exists>h'. avb_rsa_verify (Some km) (of_nat kn) (Some sm) (of_nat sn) (Some hm) (of_nat hn) (Some pm) (of_nat pn) h =
      Ok (be_nat (take sn sm) ^ 65537 mod pk_modulus (take kn km) = be_nat (take pn pm @ take hn hm), h') \<and>
    malloc_total h'"
proof -
  let ?N = "pk_modulus (take kn km)"
  obtain k h1 where k: "iavb_parse_key_data km (of_nat kn) h = Ok (Some k, h1)" "malloc_total h1"
    "key_ok k" "lval (ik_n k) = ?N" "4 * unat (ik_len k) = sn"
  proof -
    have "hp_alloc h (hp_calls h) sz \<noteq> None" for sz using H by (simp add: malloc_total_def)
    moreover have "pk_bits (take kn km) div 8 = sn" by (simp flip: S(1))
    ultimately show ?thesis
      using parse_key_ok [OF K(1) refl K(2)] that [OF _ malloc_total_Suc [OF H]] by metis
  qed
  have sn: "sn \<le> 1024" using pubkey_bits(1) [OF K(1)] S(1) by auto
  have u: "unat (of_nat sn :: u64) = sn" "unat (of_nat hn :: u64) = hn" "unat (of_nat pn :: u64) = pn"
    using sn S(5) by (simp_all add: unat_of_nat take_bit_nat_eq_self)
  have len: "(of_nat sn :: u64) = ucast (ik_len k) * 4" "(of_nat pn :: u64) = of_nat sn - of_nat hn"
    by (simp flip: k(5), simp flip: S(5))
  obtain p h2 where h2: "avb_malloc sn h1 = (Some p, h2)" "malloc_total h2"
    using malloc_total_malloc [OF k(2)] by blast
  have "length (take sn sm) = 4 * unat (ik_len k)" using S(2) k(5) by simp
  from modpowF4_value [OF k(3) this h2(2)] obtain out h3 where
    out: "modpowF4 k (take sn sm) h2 = Ok (out, h3)" "length out = sn" "malloc_total h3"
      "be_nat out = be_nat (take sn sm) ^ 65537 mod ?N"
    using S(2) k(4) by auto
  have "be_nat out = be_nat (take pn pm @ take hn hm) \<longleftrightarrow> out = take pn pm @ take hn hm"
    using be_nat_inject [of out "take pn pm @ take hn hm"] out(2) S by auto
  also have "\<dots> \<longleftrightarrow> take pn out = take pn pm \<and> take hn (drop pn out) = take hn hm"
  proof -
    have "take hn (drop pn out) = drop pn out" using out(2) S(5) by simp
    then show ?thesis
      using out(2) S(4,5) by (metis append_take_drop_id length_take append_eq_conv_conj min_absorb2)
  qed
  finally have cmp: "(take pn out = take pn pm \<and> take hn (drop pn out) = take hn hm) =
      (be_nat (take sn sm) ^ 65537 mod ?N = be_nat (take pn pm @ take hn hm))"
    using out(4) by simp
  have "avb_rsa_verify (Some km) (of_nat kn) (Some sm) (of_nat sn) (Some hm) (of_nat hn) (Some pm) (of_nat pn) h =
      Ok (take pn out = take pn pm \<and> take hn (drop pn out) = take hn hm, h3)"
    using k(1) h2(1) out(1,2) S
    by (simp add: len(2) [symmetric] len(1) [symmetric] avb_rsa_verify_def u avb_safe_memcmp_eq Let_def)
  then show ?thesis using cmp out(3) by simp
qed

text \<open>
  Allocation failure inside \<open>modpowF4\<close> leaves the buffer as it was, and the caller does not notice:
  the raw signature bytes are then compared with the padding and the hash. A heap on which exactly the
  third allocation of the check (the first one in \<open>modpowF4\<close>) fails accepts the padded hash itself.
\<close>

lemma rsa_verify_oom:
  assumes K: "pubkey_ok (take kn km)" "kn \<le> length km" "8 * sn = pk_bits (take kn km)"
    and A: "\<And>sz. hp_alloc h (hp_calls h) sz \<noteq> None" "\<And>sz. hp_alloc h (Suc (hp_calls h)) sz \<noteq> None"
      "\<And>sz. hp_alloc h (Suc (Suc (hp_calls h))) sz = None"
    and S: "hn \<le> length hm" "sn \<le> length sm" "length padding + hn = sn" "take sn sm = padding @ take hn hm"
  shows "avb_rsa_verify (Some km) (of_nat kn) (Some sm) (of_nat sn) (Some hm)
      (of_nat hn) (Some padding) (of_nat (length padding)) h = Ok (True, h\<lparr>hp_calls := hp_calls h + 5\<rparr>)"
proof -
  obtain k where k: "iavb_parse_key_data km (of_nat kn) h = Ok (Some k, h\<lparr>hp_calls := Suc (hp_calls h)\<rparr>)"
    "4 * unat (ik_len k) = sn"
  proof -
    have "pk_bits (take kn km) div 8 = sn" by (simp flip: K(3))
    then show ?thesis using parse_key_ok [OF K(1) refl K(2) A(1)] that by metis
  qed
  have sn: "sn \<le> 1024" using pubkey_bits(1) [OF K(1)] K(3) by auto
  have u: "unat (of_nat sn :: u64) = sn" "unat (of_nat hn :: u64) = hn"
    "unat (of_nat (length padding) :: u64) = length padding"
    using sn S(3) by (simp_all add: unat_of_nat take_bit_nat_eq_self)
  have len: "(of_nat sn :: u64) = ucast (ik_len k) * 4" "(of_nat (length padding) :: u64) = of_nat sn - of_nat hn"
    by (simp flip: k(2), simp flip: S(3))
  obtain p where p: "hp_alloc h (Suc (hp_calls h)) sn = Some p"
    using A(2) [of sn] by blast
  show ?thesis
    using k(1) A(3) p S
    by (simp add: len(2) [symmetric] len(1) [symmetric] avb_rsa_verify_def u avb_safe_memcmp_eq Let_def
        avb_malloc_def modpowF4_def)
qed

end
