(* ===== verification/Avb_Vbmeta.thy ===== *)
theory Avb_Vbmeta
  imports Avb_Property Avb_Rsa
begin

text \<open>
  \<open>avb_vbmeta_image.c\<close>: verification of a vbmeta image. The whole function is modelled: the checks on
  the header, the bounds of every field, the digest over header and auxiliary block, and the signature.
  It is characterised on naturals: a structure predicate on the header, and for signed images the
  digest and the RSA equation.
\<close>

section \<open>Definitions\<close>

definition AVB_VERSION_MAJOR :: u32 where "AVB_VERSION_MAJOR = 1"
definition AVB_VERSION_MINOR :: u32 where "AVB_VERSION_MINOR = 1"
definition AVB_VERSION_SUB :: u32 where "AVB_VERSION_SUB = 0"

definition avb_version_string :: bytes where
  "avb_version_string = str ''1.1.0''"

datatype AvbVBMetaVerifyResult =
    AVB_VBMETA_VERIFY_RESULT_OK
  | AVB_VBMETA_VERIFY_RESULT_OK_NOT_SIGNED
  | AVB_VBMETA_VERIFY_RESULT_INVALID_VBMETA_HEADER
  | AVB_VBMETA_VERIFY_RESULT_UNSUPPORTED_VERSION
  | AVB_VBMETA_VERIFY_RESULT_HASH_MISMATCH
  | AVB_VBMETA_VERIFY_RESULT_SIGNATURE_MISMATCH

text \<open>
  Local hash contexts as they are on the stack: the arrays have their sizes, the contents are
  arbitrary. The streams' contract holds from any such context, so zeros stand for them.
\<close>

definition fresh_sha256 :: AvbSHA256Ctx where
  "fresh_sha256 = \<lparr>sc_h = replicate 8 0, sc_tot_len = 0, sc_len = 0,
     sc_block = replicate (2 * AVB_SHA256_BLOCK_SIZE) 0, sc_buf = replicate AVB_SHA256_DIGEST_SIZE 0\<rparr>"

definition fresh_sha512 :: AvbSHA512Ctx where
  "fresh_sha512 = \<lparr>sc_h = replicate 8 0, sc_tot_len = 0, sc_len = 0,
     sc_block = replicate (2 * AVB_SHA512_BLOCK_SIZE) 0, sc_buf = replicate AVB_SHA512_DIGEST_SIZE 0\<rparr>"

text \<open>The \<open>switch\<close> on the algorithm: the digest over header and auxiliary block, \<open>None\<close> for the default case.\<close>

definition vbmeta_hash :: "u32 \<Rightarrow> bytes \<Rightarrow> bytes \<Rightarrow> u64 \<Rightarrow> bytes option res" where
  "vbmeta_hash alg header_block auxiliary_block auxiliary_size =
     (if alg = algorithm_value AVB_ALGORITHM_TYPE_SHA256_RSA2048 \<or>
         alg = algorithm_value AVB_ALGORITHM_TYPE_SHA256_RSA4096 \<or>
         alg = algorithm_value AVB_ALGORITHM_TYPE_SHA256_RSA8192
      then bnd (avb_sha256_update (avb_sha256_init fresh_sha256) header_block
                  (of_nat AVB_VBMETA_IMAGE_HEADER_SIZE)) (\<lambda>ctx.
           bnd (bnd (avb_sha256_update ctx auxiliary_block auxiliary_size) avb_sha256_final) (\<lambda>(digest, _).
             Ok (Some digest)))
      else if alg = algorithm_value AVB_ALGORITHM_TYPE_SHA512_RSA2048 \<or>
         alg = algorithm_value AVB_ALGORITHM_TYPE_SHA512_RSA4096 \<or>
         alg = algorithm_value AVB_ALGORITHM_TYPE_SHA512_RSA8192
      then bnd (avb_sha512_update (avb_sha512_init fresh_sha512) header_block
                  (of_nat AVB_VBMETA_IMAGE_HEADER_SIZE)) (\<lambda>ctx.
           bnd (bnd (avb_sha512_update ctx auxiliary_block auxiliary_size) avb_sha512_final) (\<lambda>(digest, _).
             Ok (Some digest)))
      else Ok None)"

text \<open>
  The result with the public key found: its offset in the image and its size, or \<open>None\<close> for the null
  pointer and zero. \<open>data\<close> is the image's address and the memory from there on.
\<close>

type_synonym pubkey_out = "(nat \<times> u64) option"

text \<open>The checks that lead to \<open>INVALID_VBMETA_HEADER\<close> once the version is known to be supported, in order.\<close>

definition vbmeta_fields_ok :: "AvbVBMetaImageHeader \<Rightarrow> u64 \<Rightarrow> u64 \<Rightarrow> bool" where
  "vbmeta_fields_ok h data_ptr len =
     (if release_string h ! (AVB_RELEASE_STRING_SIZE - 1) \<noteq> 0 then False
      else if authentication_data_block_size h AND 0x3f \<noteq> 0 \<or> auxiliary_data_block_size h AND 0x3f \<noteq> 0
      then False
      else case safe_add_all (of_nat AVB_VBMETA_IMAGE_HEADER_SIZE)
                  [authentication_data_block_size h, auxiliary_data_block_size h] of
        None \<Rightarrow> False
      | Some block_total \<Rightarrow>
      if block_total > len then False
      else if \<not> fst (avb_safe_add data_ptr len) then False
      else case avb_safe_add (hash_offset h) (hash_size h) of (hash_ok, hash_end) \<Rightarrow>
      if \<not> hash_ok \<or> hash_end > authentication_data_block_size h then False
      else case avb_safe_add (signature_offset h) (signature_size h) of (sig_ok, signature_end) \<Rightarrow>
      if \<not> sig_ok \<or> signature_end > authentication_data_block_size h then False
      else case avb_safe_add (public_key_offset h) (public_key_size h) of (pk_ok, pubkey_end) \<Rightarrow>
      if \<not> pk_ok \<or> pubkey_end > auxiliary_data_block_size h then False
      else if public_key_metadata_size h > 0
      then (case avb_safe_add (public_key_metadata_offset h) (public_key_metadata_size h) of
              (md_ok, pubkey_md_end) \<Rightarrow> \<not> (\<not> md_ok \<or> pubkey_md_end > auxiliary_data_block_size h))
      else True)"

text \<open>The rest of the function, for an image that claims to be signed.\<close>

definition vbmeta_check_signed ::
    "AvbVBMetaImageHeader \<Rightarrow> bytes \<Rightarrow> heap \<Rightarrow> ((AvbVBMetaVerifyResult \<times> pubkey_out) \<times> heap) res" where
  "vbmeta_check_signed h data hp =
     (let invalid = Ok ((AVB_VBMETA_VERIFY_RESULT_INVALID_VBMETA_HEADER, None), hp)
      in case avb_get_algorithm_data (algorithm_type h) of
        None \<Rightarrow> invalid
      | Some algorithm \<Rightarrow>
      if hash_size h \<noteq> of_nat (ad_hash_len algorithm) then invalid
      else let header_block = data;
               authentication_block = drop AVB_VBMETA_IMAGE_HEADER_SIZE header_block;
               auxiliary_block = drop (unat (authentication_data_block_size h)) authentication_block
      in bnd (vbmeta_hash (algorithm_type h) header_block auxiliary_block (auxiliary_data_block_size h))
        (\<lambda>hash. case hash of
          None \<Rightarrow> invalid
        | Some computed_hash \<Rightarrow>
            bnd (avb_safe_memcmp (drop (unat (hash_offset h)) authentication_block) computed_hash
                  (unat (hash_size h))) (\<lambda>c.
            if c \<noteq> 0 then Ok ((AVB_VBMETA_VERIFY_RESULT_HASH_MISMATCH, None), hp)
            else bnd (avb_rsa_verify
                   (Some (drop (unat (public_key_offset h)) auxiliary_block)) (public_key_size h)
                   (Some (drop (unat (signature_offset h)) authentication_block)) (signature_size h)
                   (Some (drop (unat (hash_offset h)) authentication_block)) (hash_size h)
                   (ad_padding algorithm) (of_nat (ad_padding_len algorithm)) hp)
              (\<lambda>(verification_result, hp).
              if \<not> verification_result then Ok ((AVB_VBMETA_VERIFY_RESULT_SIGNATURE_MISMATCH, None), hp)
              else Ok ((AVB_VBMETA_VERIFY_RESULT_OK,
                if public_key_size h > 0
                then Some (AVB_VBMETA_IMAGE_HEADER_SIZE + unat (authentication_data_block_size h) +
                           unat (public_key_offset h), public_key_size h)
                else None), hp)))))"

definition avb_vbmeta_image_verify ::
    "u64 \<times> bytes \<Rightarrow> u64 \<Rightarrow> heap \<Rightarrow> ((AvbVBMetaVerifyResult \<times> pubkey_out) \<times> heap) res" where
  "avb_vbmeta_image_verify img len hp =
     (let invalid = Ok ((AVB_VBMETA_VERIFY_RESULT_INVALID_VBMETA_HEADER, None), hp);
          (data_ptr, data) = img
      in if len < of_nat AVB_VBMETA_IMAGE_HEADER_SIZE then invalid
      else bnd (avb_safe_memcmp data AVB_MAGIC AVB_MAGIC_LEN) (\<lambda>c. if c \<noteq> 0 then invalid
      else bnd (load_AvbVBMetaImageHeader data) (\<lambda>src.
        let h = avb_vbmeta_image_header_to_host_byte_order src
        in if required_libavb_version_major h \<noteq> AVB_VERSION_MAJOR \<or>
              required_libavb_version_minor h > AVB_VERSION_MINOR
        then Ok ((AVB_VBMETA_VERIFY_RESULT_UNSUPPORTED_VERSION, None), hp)
        else if \<not> vbmeta_fields_ok h data_ptr len then invalid
        else if algorithm_type h = algorithm_value AVB_ALGORITHM_TYPE_NONE
        then Ok ((AVB_VBMETA_VERIFY_RESULT_OK_NOT_SIGNED, None), hp)
        else vbmeta_check_signed h data hp)))"

fun avb_vbmeta_verify_result_to_string :: "AvbVBMetaVerifyResult \<Rightarrow> bytes" where
  "avb_vbmeta_verify_result_to_string AVB_VBMETA_VERIFY_RESULT_OK = str ''OK''"
| "avb_vbmeta_verify_result_to_string AVB_VBMETA_VERIFY_RESULT_OK_NOT_SIGNED = str ''OK_NOT_SIGNED''"
| "avb_vbmeta_verify_result_to_string AVB_VBMETA_VERIFY_RESULT_INVALID_VBMETA_HEADER =
     str ''INVALID_VBMETA_HEADER''"
| "avb_vbmeta_verify_result_to_string AVB_VBMETA_VERIFY_RESULT_UNSUPPORTED_VERSION =
     str ''UNSUPPORTED_VERSION''"
| "avb_vbmeta_verify_result_to_string AVB_VBMETA_VERIFY_RESULT_HASH_MISMATCH = str ''HASH_MISMATCH''"
| "avb_vbmeta_verify_result_to_string AVB_VBMETA_VERIFY_RESULT_SIGNATURE_MISMATCH =
     str ''SIGNATURE_MISMATCH''"

section \<open>The header on natural numbers\<close>

definition f32 :: "bytes \<Rightarrow> nat \<Rightarrow> nat" where
  "f32 d i = be_nat (take 4 (drop i d))"

definition f64 :: "bytes \<Rightarrow> nat \<Rightarrow> nat" where
  "f64 d i = be_nat (take 8 (drop i d))"

text \<open>The fields of a header, at their offsets.\<close>

abbreviation vb_auth_size :: "bytes \<Rightarrow> nat" where "vb_auth_size d \<equiv> f64 d 12"
abbreviation vb_aux_size :: "bytes \<Rightarrow> nat" where "vb_aux_size d \<equiv> f64 d 20"
abbreviation vb_algorithm :: "bytes \<Rightarrow> nat" where "vb_algorithm d \<equiv> f32 d 28"
abbreviation vb_hash_ofs :: "bytes \<Rightarrow> nat" where "vb_hash_ofs d \<equiv> f64 d 32"
abbreviation vb_hash_size :: "bytes \<Rightarrow> nat" where "vb_hash_size d \<equiv> f64 d 40"
abbreviation vb_sig_ofs :: "bytes \<Rightarrow> nat" where "vb_sig_ofs d \<equiv> f64 d 48"
abbreviation vb_sig_size :: "bytes \<Rightarrow> nat" where "vb_sig_size d \<equiv> f64 d 56"
abbreviation vb_key_ofs :: "bytes \<Rightarrow> nat" where "vb_key_ofs d \<equiv> f64 d 64"
abbreviation vb_key_size :: "bytes \<Rightarrow> nat" where "vb_key_size d \<equiv> f64 d 72"
abbreviation vb_md_ofs :: "bytes \<Rightarrow> nat" where "vb_md_ofs d \<equiv> f64 d 80"
abbreviation vb_md_size :: "bytes \<Rightarrow> nat" where "vb_md_size d \<equiv> f64 d 88"

definition vb_version_ok :: "bytes \<Rightarrow> bool" where
  "vb_version_ok d \<longleftrightarrow> f32 d 4 = 1 \<and> f32 d 8 \<le> 1"

text \<open>Every block and field where it belongs, in an image of \<open>n\<close> bytes.\<close>

definition vb_structure :: "bytes \<Rightarrow> nat \<Rightarrow> bool" where
  "vb_structure d n \<longleftrightarrow> d ! 175 = 0 \<and> vb_auth_size d mod 64 = 0 \<and> vb_aux_size d mod 64 = 0 \<and>
     256 + vb_auth_size d + vb_aux_size d \<le> n \<and>
     vb_hash_ofs d + vb_hash_size d \<le> vb_auth_size d \<and>
     vb_sig_ofs d + vb_sig_size d \<le> vb_auth_size d \<and>
     vb_key_ofs d + vb_key_size d \<le> vb_aux_size d \<and>
     (vb_md_size d = 0 \<or> vb_md_ofs d + vb_md_size d \<le> vb_aux_size d)"

lemma and_3f_eq_0: "(x :: u64) AND 0x3f = 0 \<longleftrightarrow> unat x mod 64 = 0"
proof -
  have "x AND 0x3f = take_bit 6 x"
    by (simp add: take_bit_eq_mask mask_eq_exp_minus_1)
  then have "unat (x AND 0x3f) = unat x mod 64"
    by (simp add: unsigned_take_bit_eq take_bit_eq_mod [where ?'a = nat])
  then show ?thesis by (simp add: word_unat_eq_iff)
qed

text \<open>The overflow-checked interval test, on numbers.\<close>

lemma safe_add_within:
  "(case avb_safe_add x y of (ok, e) \<Rightarrow> \<not> ok \<or> e > lim) = (\<not> unat x + unat y \<le> unat lim)"
proof -
  have "unat x + unat y < 2 ^ 64" if "unat x + unat y \<le> unat lim"
    using that unat_u64_less [of lim] by simp
  moreover have "unat (x + y) = unat x + unat y" if "unat x + unat y < 2 ^ 64"
    using that by (simp add: unat_word_ariths)
  ultimately show ?thesis
    using unat_u64_less [of lim]
    by (auto simp: avb_safe_add_def avb_safe_add_to_spec word_less_nat_alt not_le not_less)
qed

lemma safe_add_all_le:
  "(case safe_add_all v xs of None \<Rightarrow> False | Some e \<Rightarrow> \<not> e > lim) =
     (unat v + sum_list (map unat xs) \<le> unat lim)"
proof (cases "safe_add_all v xs")
  case None
  then have "\<not> unat v + sum_list (map unat xs) < 2 ^ 64"
    using safe_add_all_eq [of v xs] by auto
  then show ?thesis using None unat_u64_less [of lim] by simp
next
  case (Some e)
  then show ?thesis using safe_add_all_Some [OF Some] by (simp add: word_less_nat_alt not_less)
qed

lemma vbmeta_fields_ok_iff:
  assumes "unat data_ptr + unat len < 2 ^ 64"
  shows "vbmeta_fields_ok h data_ptr len \<longleftrightarrow>
    release_string h ! 47 = 0 \<and> unat (authentication_data_block_size h) mod 64 = 0 \<and>
    unat (auxiliary_data_block_size h) mod 64 = 0 \<and>
    256 + unat (authentication_data_block_size h) + unat (auxiliary_data_block_size h) \<le> unat len \<and>
    unat (hash_offset h) + unat (hash_size h) \<le> unat (authentication_data_block_size h) \<and>
    unat (signature_offset h) + unat (signature_size h) \<le> unat (authentication_data_block_size h) \<and>
    unat (public_key_offset h) + unat (public_key_size h) \<le> unat (auxiliary_data_block_size h) \<and>
    (unat (public_key_metadata_size h) = 0 \<or>
     unat (public_key_metadata_offset h) + unat (public_key_metadata_size h) \<le> unat (auxiliary_data_block_size h))"
proof -
  let ?sum = "case safe_add_all 256 [authentication_data_block_size h, auxiliary_data_block_size h] of
      None \<Rightarrow> False | Some e \<Rightarrow> \<not> e > len"
  have "vbmeta_fields_ok h data_ptr len \<longleftrightarrow> release_string h ! 47 = 0 \<and>
      authentication_data_block_size h AND 0x3f = 0 \<and> auxiliary_data_block_size h AND 0x3f = 0 \<and> ?sum \<and>
      \<not> (case avb_safe_add (hash_offset h) (hash_size h) of (ok, e) \<Rightarrow> \<not> ok \<or> e > authentication_data_block_size h) \<and>
      \<not> (case avb_safe_add (signature_offset h) (signature_size h) of (ok, e) \<Rightarrow> \<not> ok \<or> e > authentication_data_block_size h) \<and>
      \<not> (case avb_safe_add (public_key_offset h) (public_key_size h) of (ok, e) \<Rightarrow> \<not> ok \<or> e > auxiliary_data_block_size h) \<and>
      (public_key_metadata_size h > 0 \<longrightarrow> \<not> (case avb_safe_add (public_key_metadata_offset h) (public_key_metadata_size h) of
        (ok, e) \<Rightarrow> \<not> ok \<or> e > auxiliary_data_block_size h))"
    using assms
    by (auto simp: vbmeta_fields_ok_def AVB_RELEASE_STRING_SIZE_def AVB_VBMETA_IMAGE_HEADER_SIZE_def
        avb_safe_add_def [of data_ptr] avb_safe_add_to_spec [of data_ptr]
        simp del: safe_add_all.simps split: prod.splits option.splits if_splits)
  then show ?thesis
    unfolding safe_add_within safe_add_all_le and_3f_eq_0
    by (auto simp: unat_gt_0 word_gt_0 unat_eq_0)
qed

section \<open>The header checks\<close>

definition host_header :: "bytes \<Rightarrow> AvbVBMetaImageHeader" where
  "host_header d = (case load_AvbVBMetaImageHeader d of Ok src \<Rightarrow> avb_vbmeta_image_header_to_host_byte_order src)"

lemma host_header_load:
  assumes "256 \<le> length d"
  obtains src where "load_AvbVBMetaImageHeader d = Ok src"
    "avb_vbmeta_image_header_to_host_byte_order src = host_header d"
  using assms by (simp add: host_header_def load_AvbVBMetaImageHeader_def AVB_VBMETA_IMAGE_HEADER_SIZE_def)

lemma host_header_values:
  assumes "256 \<le> length d"
  shows "unat (required_libavb_version_major (host_header d)) = f32 d 4"
    and "unat (required_libavb_version_minor (host_header d)) = f32 d 8"
    and "unat (authentication_data_block_size (host_header d)) = vb_auth_size d"
    and "unat (auxiliary_data_block_size (host_header d)) = vb_aux_size d"
    and "unat (algorithm_type (host_header d)) = vb_algorithm d"
    and "unat (hash_offset (host_header d)) = vb_hash_ofs d"
    and "unat (hash_size (host_header d)) = vb_hash_size d"
    and "unat (signature_offset (host_header d)) = vb_sig_ofs d"
    and "unat (signature_size (host_header d)) = vb_sig_size d"
    and "unat (public_key_offset (host_header d)) = vb_key_ofs d"
    and "unat (public_key_size (host_header d)) = vb_key_size d"
    and "unat (public_key_metadata_offset (host_header d)) = vb_md_ofs d"
    and "unat (public_key_metadata_size (host_header d)) = vb_md_size d"
    and "release_string (host_header d) ! 47 = d ! 175"
  using assms
  by (simp_all add: host_header_def load_AvbVBMetaImageHeader_def AVB_VBMETA_IMAGE_HEADER_SIZE_def
      avb_vbmeta_image_header_to_host_byte_order_def be32toh_load32 be64toh_load64 f32_def f64_def
      AVB_RELEASE_STRING_SIZE_def Let_def)

lemma verify_cases:
  assumes n: "n \<le> length d" "unat ptr + n < 2 ^ 64"
  shows "avb_vbmeta_image_verify (ptr, d) (of_nat n) hp =
    (if n < 256 \<or> take 4 d \<noteq> AVB_MAGIC then Ok ((AVB_VBMETA_VERIFY_RESULT_INVALID_VBMETA_HEADER, None), hp)
     else if \<not> vb_version_ok d then Ok ((AVB_VBMETA_VERIFY_RESULT_UNSUPPORTED_VERSION, None), hp)
     else if \<not> vb_structure d n then Ok ((AVB_VBMETA_VERIFY_RESULT_INVALID_VBMETA_HEADER, None), hp)
     else if vb_algorithm d = 0 then Ok ((AVB_VBMETA_VERIFY_RESULT_OK_NOT_SIGNED, None), hp)
     else vbmeta_check_signed (host_header d) d hp)"
proof (cases "n < 256")
  case True
  have "unat (of_nat n :: u64) = n" using n by (simp add: unat_of_nat take_bit_nat_eq_self)
  then have "(of_nat n :: u64) < 256" using True by (simp add: word_less_nat_alt)
  then show ?thesis
    using True by (simp add: avb_vbmeta_image_verify_def AVB_VBMETA_IMAGE_HEADER_SIZE_def)
next
  case False
  have un: "unat (of_nat n :: u64) = n" using n by (simp add: unat_of_nat take_bit_nat_eq_self)
  have l: "256 \<le> length d" using n False by simp
  note V = host_header_values [OF l]
  have ver: "(required_libavb_version_major (host_header d) \<noteq> AVB_VERSION_MAJOR \<or>
      required_libavb_version_minor (host_header d) > AVB_VERSION_MINOR) = (\<not> vb_version_ok d)"
    using V(1,2) by (auto simp: vb_version_ok_def AVB_VERSION_MAJOR_def AVB_VERSION_MINOR_def word_less_nat_alt
        word_unat_eq_iff)
  have str: "vbmeta_fields_ok (host_header d) ptr (of_nat n) = vb_structure d n"
    using n un by (simp add: vbmeta_fields_ok_iff V vb_structure_def)
  have alg: "(algorithm_type (host_header d) = algorithm_value AVB_ALGORITHM_TYPE_NONE) = (vb_algorithm d = 0)"
    using V(5) by (simp add: word_unat_eq_iff)
  have mag: "take 4 AVB_MAGIC = AVB_MAGIC" "length AVB_MAGIC = 4"
    by (simp_all add: AVB_MAGIC_def str_def)
  obtain src where src: "load_AvbVBMetaImageHeader d = Ok src"
    "avb_vbmeta_image_header_to_host_byte_order src = host_header d"
    using host_header_load [OF l] .
  have "\<not> (of_nat n :: u64) < 256" using False un by (simp add: word_less_nat_alt)
  then show ?thesis
    using False l mag ver
    by (auto simp: avb_vbmeta_image_verify_def AVB_VBMETA_IMAGE_HEADER_SIZE_def avb_safe_memcmp_eq
        AVB_MAGIC_LEN_def src Let_def str alg simp del: algorithm_value.simps)
qed

section \<open>Digest and signature\<close>

text \<open>The digest an algorithm uses.\<close>

definition algorithm_digest :: "AvbAlgorithmType \<Rightarrow> bytes \<Rightarrow> bytes" where
  "algorithm_digest a = (if algorithm_hash_bytes a = AVB_SHA256_DIGEST_SIZE then sha256 else sha512)"

lemma fresh_shapes:
  "stream_shape AVB_SHA256_BLOCK_SIZE AVB_SHA256_DIGEST_SIZE fresh_sha256"
  "stream_shape AVB_SHA512_BLOCK_SIZE AVB_SHA512_DIGEST_SIZE fresh_sha512"
  by (simp_all add: stream_shape_def fresh_sha256_def fresh_sha512_def)

lemma digests:
  "md_digest AVB_SHA256_BLOCK_SIZE 8 fips256_compress sha256_h0 (\<lambda>h. concat (map UNPACK32 h)) = sha256"
  "md_digest AVB_SHA512_BLOCK_SIZE 16 fips512_compress sha512_h0 (\<lambda>h. concat (map UNPACK64 h)) = sha512"
  by (simp_all add: fun_eq_iff md_digest_def sha256_def sha512_def AVB_SHA256_BLOCK_SIZE_def AVB_SHA512_BLOCK_SIZE_def)

lemmas sha256_two = sha256_stream.stream.stream2 [OF fresh_shapes(1), unfolded digests]
lemmas sha512_two = sha512_stream.stream.stream2 [OF fresh_shapes(2), unfolded digests]
lemmas sha256_size = sha256_stream.stream.digest_size [unfolded digests]
lemmas sha512_size = sha512_stream.stream.digest_size [unfolded digests]

lemma algorithm_digest_size: "a \<noteq> AVB_ALGORITHM_TYPE_NONE \<Longrightarrow> length (algorithm_digest a m) = algorithm_hash_bytes a"
  by (cases a) (simp_all add: algorithm_digest_def sha256_size sha512_size crypto_sizes)

lemma vbmeta_hash_value:
  assumes "a \<noteq> AVB_ALGORITHM_TYPE_NONE" "256 \<le> length hb" "n \<le> length ab" "256 + n < 2 ^ 61"
  shows "vbmeta_hash (algorithm_value a) hb ab (of_nat n) = Ok (Some (algorithm_digest a (take 256 hb @ take n ab)))"
proof -
  obtain c1 where c1: "bnd (avb_sha256_update (avb_sha256_init fresh_sha256) hb (of_nat 256))
      (\<lambda>c. bnd (avb_sha256_update c ab (of_nat n)) avb_sha256_final) = Ok (sha256 (take 256 hb @ take n ab), c1)"
    using sha256_two [of 256 hb n ab] assms by blast
  obtain c2 where c2: "bnd (avb_sha512_update (avb_sha512_init fresh_sha512) hb (of_nat 256))
      (\<lambda>c. bnd (avb_sha512_update c ab (of_nat n)) avb_sha512_final) = Ok (sha512 (take 256 hb @ take n ab), c2)"
    using sha512_two [of 256 hb n ab] assms by blast
  show ?thesis
    using assms(1) c1 c2 unfolding vbmeta_hash_def algorithm_value_inject AVB_VBMETA_IMAGE_HEADER_SIZE_def
    by (cases a) (auto simp: bnd_eq_Ok algorithm_digest_def crypto_sizes)
qed

text \<open>The parts of a signed image.\<close>

definition vb_hash :: "bytes \<Rightarrow> bytes" where
  "vb_hash d = take (vb_hash_size d) (drop (256 + vb_hash_ofs d) d)"

definition vb_signature :: "bytes \<Rightarrow> bytes" where
  "vb_signature d = take (vb_sig_size d) (drop (256 + vb_sig_ofs d) d)"

definition vb_public_key :: "bytes \<Rightarrow> bytes" where
  "vb_public_key d = take (vb_key_size d) (drop (256 + vb_auth_size d + vb_key_ofs d) d)"

definition vb_signed_data :: "bytes \<Rightarrow> bytes" where
  "vb_signed_data d = take 256 d @ take (vb_aux_size d) (drop (256 + vb_auth_size d) d)"

text \<open>A signature over the digest: its power is the PKCS#1 v1.5 encoding of the hash.\<close>

definition vb_signature_ok :: "AvbAlgorithmType \<Rightarrow> bytes \<Rightarrow> bool" where
  "vb_signature_ok a d \<longleftrightarrow>
     8 * vb_sig_size d = pk_bits (vb_public_key d) \<and> vb_sig_size d = algorithm_rsa_bytes a \<and>
     be_nat (vb_signature d) ^ 65537 mod pk_modulus (vb_public_key d) =
       be_nat (emsa_prefix (algorithm_rsa_bytes a) (algorithm_hash_bytes a) @ vb_hash d)"

lemma of_nat_eq_u64: "m < 2 ^ 64 \<Longrightarrow> n < 2 ^ 64 \<Longrightarrow> (of_nat m :: u64) = of_nat n \<longleftrightarrow> m = n"
  by (auto simp: word_unat_eq_iff unat_of_nat take_bit_nat_eq_self)

text \<open>The signature check with any sizes: wrong sizes are rejected.\<close>

lemma rsa_verify_all:
  assumes K: "pubkey_ok (take kn km)" "kn \<le> length km" and H: "malloc_total h"
    and S: "sn \<le> length sm" "hn \<le> length hm" "sn < 2 ^ 63" "hn < 2 ^ 62" "length padding < 2 ^ 62"
  shows "\<exists>h'. avb_rsa_verify (Some km) (of_nat kn) (Some sm) (of_nat sn) (Some hm) (of_nat hn)
      (Some padding) (of_nat (length padding)) h =
    Ok (8 * sn = pk_bits (take kn km) \<and> length padding + hn = sn \<and>
        be_nat (take sn sm) ^ 65537 mod pk_modulus (take kn km) = be_nat (padding @ take hn hm), h') \<and>
    malloc_total h'"
proof (cases "8 * sn = pk_bits (take kn km) \<and> length padding + hn = sn")
  case True
  then show ?thesis
    using rsa_verify_value [OF K H _ S(1,2), of "length padding" padding] by simp
next
  case False
  have A: "hp_alloc h (hp_calls h) sz \<noteq> None" for sz using H by (simp add: malloc_total_def)
  obtain k where k: "iavb_parse_key_data km (of_nat kn) h = Ok (Some k, h\<lparr>hp_calls := Suc (hp_calls h)\<rparr>)"
    "4 * unat (ik_len k) = pk_bits (take kn km) div 8"
    using parse_key_ok [OF K(1) refl K(2) A] by blast
  have bits: "pk_bits (take kn km) = 32 * unat (ik_len k)" "unat (ik_len k) \<le> 256"
    using k(2) pubkey_bits(1) [OF K(1)] by auto
  have "(ucast (ik_len k) * 4 :: u64) = of_nat (4 * unat (ik_len k))" by simp
  then have s: "((of_nat sn :: u64) = ucast (ik_len k) * 4) = (8 * sn = pk_bits (take kn km))"
    using bits S(3) of_nat_eq_u64 [of sn "4 * unat (ik_len k)"] by (simp del: of_nat_mult)
  have "((of_nat (length padding) :: u64) = of_nat sn - of_nat hn) = ((of_nat (length padding + hn) :: u64) = of_nat sn)"
    by (auto simp: algebra_simps)
  then have p: "((of_nat (length padding) :: u64) = of_nat sn - of_nat hn) = (length padding + hn = sn)"
    using S of_nat_eq_u64 [of "length padding + hn" sn] by simp
  have "avb_rsa_verify (Some km) (of_nat kn) (Some sm) (of_nat sn) (Some hm) (of_nat hn)
      (Some padding) (of_nat (length padding)) h = Ok (False, h\<lparr>hp_calls := Suc (hp_calls h)\<rparr>)"
    using False k(1) by (auto simp: avb_rsa_verify_def s p)
  then show ?thesis using False malloc_total_Suc [OF H] by auto
qed

text \<open>The call of the signature check on the parts of the image.\<close>

definition vb_rsa_call :: "AvbAlgorithmType \<Rightarrow> bytes \<Rightarrow> heap \<Rightarrow> (bool \<times> heap) res" where
  "vb_rsa_call a d h =
     avb_rsa_verify (Some (drop (256 + vb_auth_size d + vb_key_ofs d) d)) (of_nat (vb_key_size d))
       (Some (drop (256 + vb_sig_ofs d) d)) (of_nat (vb_sig_size d))
       (Some (drop (256 + vb_hash_ofs d) d)) (of_nat (vb_hash_size d))
       (Some (emsa_prefix (algorithm_rsa_bytes a) (algorithm_hash_bytes a)))
       (of_nat (length (emsa_prefix (algorithm_rsa_bytes a) (algorithm_hash_bytes a)))) h"

lemma small_algorithm: "algorithm_rsa_bytes a \<le> 1024" "algorithm_hash_bytes a \<le> 64"
  by (cases a; simp add: crypto_sizes)+

text \<open>The part for signed images, step by step.\<close>

lemma check_signed_run:
  assumes L: "n \<le> length d" "256 \<le> n" "n < 2 ^ 61" and S: "vb_structure d n"
    and A: "a \<noteq> AVB_ALGORITHM_TYPE_NONE" "vb_algorithm d = unat (algorithm_value a)"
  shows "vbmeta_check_signed (host_header d) d h =
    (if vb_hash_size d \<noteq> algorithm_hash_bytes a then Ok ((AVB_VBMETA_VERIFY_RESULT_INVALID_VBMETA_HEADER, None), h)
     else if vb_hash d \<noteq> algorithm_digest a (vb_signed_data d) then Ok ((AVB_VBMETA_VERIFY_RESULT_HASH_MISMATCH, None), h)
     else bnd (vb_rsa_call a d h) (\<lambda>(verified, h).
       if \<not> verified then Ok ((AVB_VBMETA_VERIFY_RESULT_SIGNATURE_MISMATCH, None), h)
       else Ok ((AVB_VBMETA_VERIFY_RESULT_OK,
         if 0 < vb_key_size d then Some (256 + vb_auth_size d + vb_key_ofs d, of_nat (vb_key_size d)) else None), h)))"
proof -
  let ?h = "host_header d"
  have l: "256 \<le> length d" using L by simp
  note V = host_header_values [OF l]
  have words: "hash_size ?h = of_nat (vb_hash_size d)" "auxiliary_data_block_size ?h = of_nat (vb_aux_size d)"
    "public_key_size ?h = of_nat (vb_key_size d)" "signature_size ?h = of_nat (vb_sig_size d)"
    by (simp_all flip: V)
  have alg: "algorithm_type ?h = algorithm_value a"
    using V(5) A(2) by (simp add: word_unat_eq_iff)
  define hlen where "hlen = algorithm_hash_bytes a"
  define pad where "pad = emsa_prefix (algorithm_rsa_bytes a) hlen"
  have tab: "avb_get_algorithm_data (algorithm_value a) = Some (alg_entry pad hlen)"
    using algorithm_data_lookup [OF A(1)] by (simp add: pad_def hlen_def)
  have st: "256 + vb_auth_size d + vb_aux_size d \<le> n" "vb_hash_ofs d + vb_hash_size d \<le> vb_auth_size d"
    "vb_key_ofs d + vb_key_size d \<le> vb_aux_size d"
    using S by (auto simp: vb_structure_def)
  have hs: "(of_nat (vb_hash_size d) :: u64) = of_nat hlen \<longleftrightarrow> vb_hash_size d = hlen"
    using st L small_algorithm(2) [of a] by (intro of_nat_eq_u64) (simp_all add: hlen_def)
  have kw: "(0 :: u64) < of_nat (vb_key_size d) \<longleftrightarrow> 0 < vb_key_size d"
    using st L by (simp add: word_less_nat_alt unat_of_nat take_bit_nat_eq_self)
  show ?thesis
  proof (cases "vb_hash_size d = hlen")
    case False
    then show ?thesis
      using hs by (auto simp: vbmeta_check_signed_def alg tab alg_entry_def words hlen_def)
  next
    case hsz: True
    let ?auth = "drop 256 d" and ?aux = "drop (vb_auth_size d) (drop 256 d)"
    have hash: "vbmeta_hash (algorithm_value a) d ?aux (of_nat (vb_aux_size d)) =
        Ok (Some (algorithm_digest a (vb_signed_data d)))"
      using vbmeta_hash_value [OF A(1) l, of "vb_aux_size d" ?aux] st L
      by (simp add: vb_signed_data_def add.commute)
    have cmp: "avb_safe_memcmp (drop (vb_hash_ofs d) ?auth) (algorithm_digest a (vb_signed_data d)) hlen =
        Ok (if vb_hash d = algorithm_digest a (vb_signed_data d) then 0 else 1)"
      using avb_safe_memcmp_eq [of hlen "drop (vb_hash_ofs d) ?auth" "algorithm_digest a (vb_signed_data d)"]
        st L hsz algorithm_digest_size [OF A(1), of "vb_signed_data d"]
      by (simp add: vb_hash_def hlen_def add.commute)
    have call: "vb_rsa_call a d h = avb_rsa_verify (Some (drop (vb_key_ofs d) ?aux)) (of_nat (vb_key_size d))
        (Some (drop (vb_sig_ofs d) ?auth)) (of_nat (vb_sig_size d)) (Some (drop (vb_hash_ofs d) ?auth)) (of_nat hlen)
        (Some pad) (of_nat (length pad)) h"
      unfolding vb_rsa_call_def hsz pad_def hlen_def by (simp add: ac_simps)
    have "vbmeta_check_signed ?h d h =
       (if vb_hash d \<noteq> algorithm_digest a (vb_signed_data d) then Ok ((AVB_VBMETA_VERIFY_RESULT_HASH_MISMATCH, None), h)
        else bnd (vb_rsa_call a d h) (\<lambda>(verified, h).
          if \<not> verified then Ok ((AVB_VBMETA_VERIFY_RESULT_SIGNATURE_MISMATCH, None), h)
          else Ok ((AVB_VBMETA_VERIFY_RESULT_OK,
            if 0 < vb_key_size d then Some (256 + vb_auth_size d + vb_key_ofs d, of_nat (vb_key_size d)) else None), h)))"
      unfolding vbmeta_check_signed_def alg tab words V(3,6,8,10) alg_entry_def AVB_VBMETA_IMAGE_HEADER_SIZE_def Let_def
        option.case AvbAlgorithmData.select_convs hash call
      using hsz cmp V(7) kw by (simp del: drop_drop add: words)
    then show ?thesis using hsz by (simp add: hlen_def)
  qed
qed

lemma rsa_call_value:
  assumes L: "n \<le> length d" "256 \<le> n" "n < 2 ^ 61" and S: "vb_structure d n"
    and A: "a \<noteq> AVB_ALGORITHM_TYPE_NONE" and hsz: "vb_hash_size d = algorithm_hash_bytes a"
    and K: "pubkey_ok (vb_public_key d)" and H: "malloc_total h"
  shows "\<exists>h'. vb_rsa_call a d h = Ok (vb_signature_ok a d, h') \<and> malloc_total h'"
proof -
  define pad where "pad = emsa_prefix (algorithm_rsa_bytes a) (algorithm_hash_bytes a)"
  have pad: "length pad + vb_hash_size d = algorithm_rsa_bytes a"
    using algorithm_data_lookup(2) [OF A] by (simp add: pad_def hsz)
  have st: "256 + vb_auth_size d + vb_aux_size d \<le> n" "vb_hash_ofs d + vb_hash_size d \<le> vb_auth_size d"
    "vb_sig_ofs d + vb_sig_size d \<le> vb_auth_size d" "vb_key_ofs d + vb_key_size d \<le> vb_aux_size d"
    using S by (auto simp: vb_structure_def)
  have "\<exists>h'. vb_rsa_call a d h =
      Ok (8 * vb_sig_size d = pk_bits (vb_public_key d) \<and> length pad + vb_hash_size d = vb_sig_size d \<and>
        be_nat (vb_signature d) ^ 65537 mod pk_modulus (vb_public_key d) = be_nat (pad @ vb_hash d), h') \<and>
      malloc_total h'"
    unfolding vb_rsa_call_def pad_def [symmetric] vb_public_key_def vb_signature_def vb_hash_def
    by (rule rsa_verify_all [OF K [unfolded vb_public_key_def]])
      (use H st L pad small_algorithm(1) [of a] in auto)
  moreover have "vb_signature_ok a d = (8 * vb_sig_size d = pk_bits (vb_public_key d) \<and>
      length pad + vb_hash_size d = vb_sig_size d \<and>
      be_nat (vb_signature d) ^ 65537 mod pk_modulus (vb_public_key d) = be_nat (pad @ vb_hash d))"
    unfolding vb_signature_ok_def pad by (auto simp: pad_def)
  ultimately show ?thesis by auto
qed

lemma check_signed_value:
  assumes L: "n \<le> length d" "256 \<le> n" "n < 2 ^ 61" and S: "vb_structure d n"
    and A: "a \<noteq> AVB_ALGORITHM_TYPE_NONE" "vb_algorithm d = unat (algorithm_value a)"
    and K: "pubkey_ok (vb_public_key d)" and H: "malloc_total h"
  shows "\<exists>h'. vbmeta_check_signed (host_header d) d h =
    Ok (if vb_hash_size d \<noteq> algorithm_hash_bytes a then (AVB_VBMETA_VERIFY_RESULT_INVALID_VBMETA_HEADER, None)
        else if vb_hash d \<noteq> algorithm_digest a (vb_signed_data d) then (AVB_VBMETA_VERIFY_RESULT_HASH_MISMATCH, None)
        else if \<not> vb_signature_ok a d then (AVB_VBMETA_VERIFY_RESULT_SIGNATURE_MISMATCH, None)
        else (AVB_VBMETA_VERIFY_RESULT_OK,
              Some (256 + vb_auth_size d + vb_key_ofs d, of_nat (vb_key_size d))), h') \<and> malloc_total h'"
proof (cases "vb_hash_size d = algorithm_hash_bytes a")
  case True
  have kpos: "0 < vb_key_size d" using pubkey_bits(2) [OF K] by (auto simp: vb_public_key_def)
  obtain h' where "vb_rsa_call a d h = Ok (vb_signature_ok a d, h')" "malloc_total h'"
    using rsa_call_value [OF L S A(1) True K H] by blast
  then show ?thesis
    using check_signed_run [OF L S A] True H kpos by auto
next
  case False
  then show ?thesis using check_signed_run [OF L S A] H by auto
qed

text \<open>What an accepting run has seen, for any key.\<close>

lemma check_signed_OK:
  assumes L: "n \<le> length d" "n < 2 ^ 61" "256 \<le> n" and S: "vb_structure d n" and A0: "vb_algorithm d \<noteq> 0"
    and R: "vbmeta_check_signed (host_header d) d h = Ok ((AVB_VBMETA_VERIFY_RESULT_OK, key), h')"
  shows "\<exists>a. a \<noteq> AVB_ALGORITHM_TYPE_NONE \<and> vb_algorithm d = unat (algorithm_value a) \<and>
      vb_hash d = algorithm_digest a (vb_signed_data d) \<and> vb_rsa_call a d h = Ok (True, h')"
proof -
  have l: "256 \<le> length d" using L by simp
  note V = host_header_values [OF l]
  have "algorithm_type (host_header d) < AVB_ALGORITHM_NUM_TYPES"
    using R by (auto simp: vbmeta_check_signed_def avb_get_algorithm_data_def split: if_splits)
  then obtain a where alg: "algorithm_type (host_header d) = algorithm_value a" by (rule algorithm_value_cases)
  have a: "a \<noteq> AVB_ALGORITHM_TYPE_NONE" "vb_algorithm d = unat (algorithm_value a)" using V(5) A0 alg by auto
  then show ?thesis
    using R check_signed_run [OF L(1,3,2) S a] by (auto simp: bnd_eq_Ok split: if_splits)
qed

end
