(* ===== verification/Avb_Slot_Data.thy ===== *)
theory Avb_Slot_Data
  imports Avb_Ops Avb_Vbmeta
begin

text \<open>
  The result of slot verification (\<open>avb_slot_verify.h\<close>): result codes, error modes and flags, the data
  collected for a slot, and the digest over its vbmeta images.
\<close>

section \<open>Definitions\<close>

datatype AvbSlotVerifyResult =
    AVB_SLOT_VERIFY_RESULT_OK
  | AVB_SLOT_VERIFY_RESULT_ERROR_OOM
  | AVB_SLOT_VERIFY_RESULT_ERROR_IO
  | AVB_SLOT_VERIFY_RESULT_ERROR_VERIFICATION
  | AVB_SLOT_VERIFY_RESULT_ERROR_ROLLBACK_INDEX
  | AVB_SLOT_VERIFY_RESULT_ERROR_PUBLIC_KEY_REJECTED
  | AVB_SLOT_VERIFY_RESULT_ERROR_INVALID_METADATA
  | AVB_SLOT_VERIFY_RESULT_ERROR_UNSUPPORTED_VERSION
  | AVB_SLOT_VERIFY_RESULT_ERROR_INVALID_ARGUMENT

datatype AvbHashtreeErrorMode =
    AVB_HASHTREE_ERROR_MODE_RESTART_AND_INVALIDATE
  | AVB_HASHTREE_ERROR_MODE_RESTART
  | AVB_HASHTREE_ERROR_MODE_EIO
  | AVB_HASHTREE_ERROR_MODE_LOGGING
  | AVB_HASHTREE_ERROR_MODE_MANAGED_RESTART_AND_EIO

definition AVB_SLOT_VERIFY_FLAGS_ALLOW_VERIFICATION_ERROR :: u32 where
  "AVB_SLOT_VERIFY_FLAGS_ALLOW_VERIFICATION_ERROR = push_bit 0 1"

definition AVB_SLOT_VERIFY_FLAGS_RESTART_CAUSED_BY_HASHTREE_CORRUPTION :: u32 where
  "AVB_SLOT_VERIFY_FLAGS_RESTART_CAUSED_BY_HASHTREE_CORRUPTION = push_bit 1 1"

definition AVB_SLOT_VERIFY_FLAGS_NO_VBMETA_PARTITION :: u32 where
  "AVB_SLOT_VERIFY_FLAGS_NO_VBMETA_PARTITION = push_bit 2 1"

definition AVB_MAX_NUMBER_OF_ROLLBACK_INDEX_LOCATIONS :: nat where
  "AVB_MAX_NUMBER_OF_ROLLBACK_INDEX_LOCATIONS = 32"

text \<open>
  A name is the contents of a string, an object its address and its bytes, \<open>None\<close> a null pointer. The
  arrays \<open>vbmeta_images\<close> and \<open>loaded_partitions\<close> are given by the entries below \<open>num_vbmeta_images\<close> and
  \<open>num_loaded_partitions\<close>. \<open>cmdline\<close> is the whole object, its terminator included.
\<close>

record AvbPartitionData =
  pd_partition_name :: "bytes option"
  pd_data :: "(u64 \<times> bytes) option"
  pd_data_size :: u64
  pd_preloaded :: bool

record AvbVBMetaData =
  vd_partition_name :: "bytes option"
  vd_vbmeta_data :: "u64 \<times> bytes"
  vd_vbmeta_size :: u64
  vd_verify_result :: AvbVBMetaVerifyResult

record AvbSlotVerifyData =
  sd_ab_suffix :: "bytes option"
  sd_vbmeta_images :: "AvbVBMetaData list"
  sd_loaded_partitions :: "AvbPartitionData list"
  sd_cmdline :: "bytes option"
  sd_rollback_indexes :: "u64 list"
  sd_resolved_hashtree_error_mode :: AvbHashtreeErrorMode

datatype AvbDigestType = AVB_DIGEST_TYPE_SHA256 | AVB_DIGEST_TYPE_SHA512

fun avb_slot_verify_result_to_string :: "AvbSlotVerifyResult \<Rightarrow> bytes" where
  "avb_slot_verify_result_to_string AVB_SLOT_VERIFY_RESULT_OK = str ''OK''"
| "avb_slot_verify_result_to_string AVB_SLOT_VERIFY_RESULT_ERROR_OOM = str ''ERROR_OOM''"
| "avb_slot_verify_result_to_string AVB_SLOT_VERIFY_RESULT_ERROR_IO = str ''ERROR_IO''"
| "avb_slot_verify_result_to_string AVB_SLOT_VERIFY_RESULT_ERROR_VERIFICATION = str ''ERROR_VERIFICATION''"
| "avb_slot_verify_result_to_string AVB_SLOT_VERIFY_RESULT_ERROR_ROLLBACK_INDEX = str ''ERROR_ROLLBACK_INDEX''"
| "avb_slot_verify_result_to_string AVB_SLOT_VERIFY_RESULT_ERROR_PUBLIC_KEY_REJECTED =
     str ''ERROR_PUBLIC_KEY_REJECTED''"
| "avb_slot_verify_result_to_string AVB_SLOT_VERIFY_RESULT_ERROR_INVALID_METADATA = str ''ERROR_INVALID_METADATA''"
| "avb_slot_verify_result_to_string AVB_SLOT_VERIFY_RESULT_ERROR_UNSUPPORTED_VERSION =
     str ''ERROR_UNSUPPORTED_VERSION''"
| "avb_slot_verify_result_to_string AVB_SLOT_VERIFY_RESULT_ERROR_INVALID_ARGUMENT = str ''ERROR_INVALID_ARGUMENT''"

text \<open>The loop over the images, for the update function of either context.\<close>

fun update_images :: "('c \<Rightarrow> bytes \<Rightarrow> u64 \<Rightarrow> 'c res) \<Rightarrow> 'c \<Rightarrow> AvbVBMetaData list \<Rightarrow> 'c res" where
  "update_images update ctx [] = Ok ctx"
| "update_images update ctx (img # imgs) =
     bnd (update ctx (snd (vd_vbmeta_data img)) (vd_vbmeta_size img)) (\<lambda>ctx. update_images update ctx imgs)"

definition avb_slot_verify_data_calculate_vbmeta_digest :: "AvbSlotVerifyData \<Rightarrow> AvbDigestType \<Rightarrow> bytes res" where
  "avb_slot_verify_data_calculate_vbmeta_digest data digest_type =
     (case digest_type of
        AVB_DIGEST_TYPE_SHA256 \<Rightarrow>
          bnd (bnd (update_images avb_sha256_update (avb_sha256_init fresh_sha256) (sd_vbmeta_images data))
                 avb_sha256_final) (\<lambda>(digest, _). Ok (take AVB_SHA256_DIGEST_SIZE digest))
      | AVB_DIGEST_TYPE_SHA512 \<Rightarrow>
          bnd (bnd (update_images avb_sha512_update (avb_sha512_init fresh_sha512) (sd_vbmeta_images data))
                 avb_sha512_final) (\<lambda>(digest, _). Ok (take AVB_SHA512_DIGEST_SIZE digest)))"

section \<open>The digest is that of the concatenated images\<close>

text \<open>The part of an image that is signed and hashed: \<open>vbmeta_size\<close> bytes from its start.\<close>

definition image_bytes :: "AvbVBMetaData \<Rightarrow> bytes" where
  "image_bytes img = take (unat (vd_vbmeta_size img)) (snd (vd_vbmeta_data img))"

definition image_whole :: "AvbVBMetaData \<Rightarrow> bool" where
  "image_whole img \<longleftrightarrow> unat (vd_vbmeta_size img) \<le> length (snd (vd_vbmeta_data img))"

context avb_hash
begin

lemma update_images_absorbed:
  assumes "absorbed c m" "list_all image_whole imgs" "length (concat (map image_bytes imgs)) < 2 ^ 61"
  shows "\<exists>c'. update_images update c imgs = Ok c' \<and> absorbed c' (m @ concat (map image_bytes imgs))"
  using assms
proof (induction imgs arbitrary: c m)
  case (Cons img imgs)
  let ?n = "unat (vd_vbmeta_size img)"
  have "?n \<le> length (snd (vd_vbmeta_data img))" "?n + 128 < 2 ^ 64"
    using Cons.prems(2,3) by (auto simp: image_whole_def image_bytes_def)
  then obtain c1 where c1: "update c (snd (vd_vbmeta_data img)) (vd_vbmeta_size img) = Ok c1"
      "absorbed c1 (m @ image_bytes img)"
    using update [OF Cons.prems(1), of ?n "snd (vd_vbmeta_data img)"] by (auto simp: image_bytes_def)
  with Cons.IH [OF c1(2)] Cons.prems(2,3) show ?case by simp
qed simp

lemma images_digest:
  assumes "shape c" "list_all image_whole imgs" "length (concat (map image_bytes imgs)) < 2 ^ 61"
  shows "\<exists>c'. bnd (update_images update (init c) imgs) final = Ok (digest (concat (map image_bytes imgs)), c')"
  using update_images_absorbed [OF init [OF assms(1)] assms(2,3)] final assms(3) by fastforce

end

lemmas sha256_images = sha256_stream.stream.images_digest [OF fresh_shapes(1), unfolded digests]
lemmas sha512_images = sha512_stream.stream.images_digest [OF fresh_shapes(2), unfolded digests]

fun digest_of :: "AvbDigestType \<Rightarrow> bytes \<Rightarrow> bytes" where
  "digest_of AVB_DIGEST_TYPE_SHA256 = sha256"
| "digest_of AVB_DIGEST_TYPE_SHA512 = sha512"

lemma calculate_vbmeta_digest_value:
  assumes "list_all image_whole (sd_vbmeta_images data)" "length (concat (map image_bytes (sd_vbmeta_images data))) < 2 ^ 61"
  shows "avb_slot_verify_data_calculate_vbmeta_digest data t =
    Ok (digest_of t (concat (map image_bytes (sd_vbmeta_images data))))"
  using sha256_images [OF assms] sha512_images [OF assms]
  by (cases t) (auto simp: avb_slot_verify_data_calculate_vbmeta_digest_def sha256_size sha512_size)

end
