(* ===== verification/Avb_Cmdline.thy ===== *)
theory Avb_Cmdline
  imports Avb_Slot_Data Avb_Property
begin

text \<open>
  The kernel command line (\<open>avb_cmdline.c\<close>): appending options to it, printing numbers and digests,
  substituting the partition GUIDs and root digests, and the options every verified slot gets.
\<close>

section \<open>Definitions\<close>

definition AVB_PART_NAME_MAX_SIZE :: nat where
  "AVB_PART_NAME_MAX_SIZE = 32"

definition AVB_MAX_NUM_CMDLINE_SUBST :: nat where
  "AVB_MAX_NUM_CMDLINE_SUBST = 10"

text \<open>
  \<open>AvbCmdlineSubstList\<close>: the tokens and values below \<open>size\<close>.
\<close>

type_synonym AvbCmdlineSubstList = "(bytes \<times> bytes) list"

definition avb_new_cmdline_subst_list :: "heap \<Rightarrow> AvbCmdlineSubstList option \<times> heap" where
  "avb_new_cmdline_subst_list h =
     (let (p, h) = avb_calloc (8 + 2 * 8 * AVB_MAX_NUM_CMDLINE_SUBST) h
      in (case p of None \<Rightarrow> None | Some _ \<Rightarrow> Some [], h))"

text \<open>
  A partition name followed by the suffix in a local buffer: \<open>None\<close> when it does not fit, otherwise the
  string the buffer then holds.
\<close>

definition part_name_concat :: "bytes \<Rightarrow> u64 \<Rightarrow> bytes \<Rightarrow> bytes option res" where
  "part_name_concat name name_len ab_suffix =
     bnd (avb_str_concat (replicate AVB_PART_NAME_MAX_SIZE 0) (of_nat AVB_PART_NAME_MAX_SIZE)
            name name_len ab_suffix (of_nat (length ab_suffix)))
       (\<lambda>(ok, buf). if ok then bnd (cstr buf) (\<lambda>s. Ok (Some s)) else Ok None)"

subsection \<open>Substitution\<close>

text \<open>
  The loop over the three GUIDs: \<open>ret\<close> is the string built so far (\<open>None\<close> before the first
  replacement). The result is \<open>None\<close> for \<open>goto fail\<close>.
\<close>

fun sub_guids ::
    "'w AvbOps \<Rightarrow> bytes \<Rightarrow> bytes \<Rightarrow> (bytes \<times> bytes) list \<Rightarrow> bytes option \<Rightarrow> (bytes option option, 'w) act" where
  "sub_guids ops cmdline ab_suffix [] ret = retn (Some ret)"
| "sub_guids ops cmdline ab_suffix ((part_name_str, replace_str) # guids) ret =
     andthen (pure (avb_strstr cmdline replace_str)) (\<lambda>found.
     if found = None then sub_guids ops cmdline ab_suffix guids ret
     else andthen (pure (part_name_concat part_name_str (of_nat (length part_name_str)) ab_suffix)) (\<lambda>part_name.
     case part_name of None \<Rightarrow> retn None | Some part_name \<Rightarrow>
     andthen (call (get_unique_guid_for_partition ops) (\<lambda>f. f part_name 37)) (\<lambda>(io_ret, guid_buf).
     if io_ret = AVB_IO_RESULT_ERROR_OOM then retn None
     else if io_ret \<noteq> AVB_IO_RESULT_OK then retn None
     else andthen (pure (cstr guid_buf)) (\<lambda>guid.
     andthen (heap_act (avb_replace (case ret of None \<Rightarrow> cmdline | Some r \<Rightarrow> r) replace_str guid)) (\<lambda>new_ret.
     if new_ret = None then retn None
     else sub_guids ops cmdline ab_suffix guids new_ret)))))"

fun sub_tokens :: "AvbCmdlineSubstList \<Rightarrow> bytes \<Rightarrow> (bytes option, 'w) act" where
  "sub_tokens [] ret = retn (Some ret)"
| "sub_tokens ((token, value) # subst) ret =
     andthen (heap_act (avb_replace ret token value)) (\<lambda>new_ret.
     case new_ret of None \<Rightarrow> retn None | Some ret \<Rightarrow> sub_tokens subst ret)"

definition sub_cmdline_guids :: "bool \<Rightarrow> (bytes \<times> bytes) list" where
  "sub_cmdline_guids using_boot_for_vbmeta =
     [(str ''system'', str ''$(ANDROID_SYSTEM_PARTUUID)''),
      (str ''boot'', str ''$(ANDROID_BOOT_PARTUUID)''),
      (if using_boot_for_vbmeta then str ''boot'' else str ''vbmeta'', str ''$(ANDROID_VBMETA_PARTUUID)'')]"

definition avb_sub_cmdline ::
    "'w AvbOps \<Rightarrow> bytes \<Rightarrow> bytes \<Rightarrow> bool \<Rightarrow> AvbCmdlineSubstList option \<Rightarrow> (bytes option, 'w) act" where
  "avb_sub_cmdline ops cmdline ab_suffix using_boot_for_vbmeta additional_substitutions =
     andthen (sub_guids ops cmdline ab_suffix (sub_cmdline_guids using_boot_for_vbmeta) None) (\<lambda>r.
     case r of None \<Rightarrow> retn None | Some ret \<Rightarrow>
     andthen (case ret of None \<Rightarrow> alloc (avb_strdup cmdline) | Some r \<Rightarrow> retn (Some r)) (\<lambda>ret.
     case ret of None \<Rightarrow> retn None | Some ret \<Rightarrow>
     case additional_substitutions of None \<Rightarrow> retn (Some ret) | Some subst \<Rightarrow> sub_tokens subst ret))"

subsection \<open>Options\<close>

definition cmdline_append_option ::
    "AvbSlotVerifyData \<Rightarrow> bytes \<Rightarrow> bytes \<Rightarrow> (bool \<times> AvbSlotVerifyData, 'w) act" where
  "cmdline_append_option slot_data key value =
     (let key_len = length key; value_len = length value in
      andthen (pure (case sd_cmdline slot_data of
          None \<Rightarrow> Ok 0
        | Some c \<Rightarrow> bnd (avb_strlen c) (\<lambda>offset. Ok (if offset > 0 then offset + 1 else offset)))) (\<lambda>offset.
      andthen (alloc (avb_calloc (offset + key_len + value_len + 2))) (\<lambda>p.
      case p of None \<Rightarrow> retn (False, slot_data) | Some (_, new_cmdline) \<Rightarrow>
      andthen (pure (bnd
          (if offset > 0
           then deref (sd_cmdline slot_data) (\<lambda>c.
             bnd (avb_memcpy new_cmdline 0 c (offset - 1)) (\<lambda>m. Ok (m[offset - 1 := 0x20])))
           else Ok new_cmdline) (\<lambda>m.
        bnd (avb_memcpy m offset key key_len) (\<lambda>m.
        avb_memcpy (m[offset + key_len := 0x3D]) (offset + key_len + 1) value value_len)))) (\<lambda>new_cmdline.
      retn (True, slot_data\<lparr>sd_cmdline := Some new_cmdline\<rparr>)))))"

definition AVB_MAX_DIGITS_UINT64 :: nat where
  "AVB_MAX_DIGITS_UINT64 = 32"

text \<open>The first loop of \<open>uint64_to_base10\<close>: \<open>n\<close> more digits fit in \<open>rev_digits\<close>.\<close>

fun base10_loop :: "nat \<Rightarrow> u64 \<Rightarrow> bytes \<Rightarrow> bytes" where
  "base10_loop 0 value rev_digits = rev_digits"
| "base10_loop (Suc n) value rev_digits =
     (let (rem, value) = avb_div_by_10 value;
          rev_digits = rev_digits @ [ucast (rem + 0x30)]
      in if value = 0 then rev_digits else base10_loop n value rev_digits)"

text \<open>The digits before the terminator.\<close>

definition uint64_to_base10 :: "u64 \<Rightarrow> bytes" where
  "uint64_to_base10 value =
     (let rev_digits = base10_loop (AVB_MAX_DIGITS_UINT64 - 1) value []; num_digits = length rev_digits
      in map (\<lambda>n. rev_digits ! (num_digits - 1 - n)) [0..<num_digits])"

definition cmdline_append_version ::
    "AvbSlotVerifyData \<Rightarrow> bytes \<Rightarrow> u64 \<Rightarrow> u64 \<Rightarrow> (bool \<times> AvbSlotVerifyData, 'w) act" where
  "cmdline_append_version slot_data key major_version minor_version =
     (let major_digits = uint64_to_base10 major_version; minor_digits = uint64_to_base10 minor_version
      in cmdline_append_option slot_data key (major_digits @ [0x2E] @ minor_digits))"

definition cmdline_append_uint64_base10 ::
    "AvbSlotVerifyData \<Rightarrow> bytes \<Rightarrow> u64 \<Rightarrow> (bool \<times> AvbSlotVerifyData, 'w) act" where
  "cmdline_append_uint64_base10 slot_data key value =
     cmdline_append_option slot_data key (uint64_to_base10 value)"

definition cmdline_append_hex ::
    "AvbSlotVerifyData \<Rightarrow> bytes \<Rightarrow> bytes \<Rightarrow> nat \<Rightarrow> (bool \<times> AvbSlotVerifyData, 'w) act" where
  "cmdline_append_hex slot_data key data data_len =
     andthen (heap_act (avb_bin2hex data data_len)) (\<lambda>hex_data.
     case hex_data of None \<Rightarrow> retn (False, slot_data)
     | Some hex_data \<Rightarrow> cmdline_append_option slot_data key hex_data)"

text \<open>\<open>if (!append(...)) { ret = ERROR_OOM; goto out; }\<close>\<close>

definition or_oom ::
    "(bool \<times> AvbSlotVerifyData, 'w) act \<Rightarrow>
     (AvbSlotVerifyData \<Rightarrow> (AvbSlotVerifyResult \<times> AvbSlotVerifyData, 'w) act) \<Rightarrow>
     (AvbSlotVerifyResult \<times> AvbSlotVerifyData, 'w) act" where
  "or_oom m rest =
     andthen m (\<lambda>(ok, slot_data).
       if \<not> ok then retn (AVB_SLOT_VERIFY_RESULT_ERROR_OOM, slot_data) else rest slot_data)"

text \<open>A case of the first \<open>switch\<close>: hash algorithm, total size and digest of the vbmeta images.\<close>

definition append_vbmeta_digest ::
    "AvbDigestType \<Rightarrow> bytes \<Rightarrow> nat \<Rightarrow> AvbSlotVerifyData \<Rightarrow>
     (AvbSlotVerifyData \<Rightarrow> (AvbSlotVerifyResult \<times> AvbSlotVerifyData, 'w) act) \<Rightarrow>
     (AvbSlotVerifyResult \<times> AvbSlotVerifyData, 'w) act" where
  "append_vbmeta_digest digest_type name digest_size slot_data rest =
     andthen (pure (avb_slot_verify_data_calculate_vbmeta_digest slot_data digest_type)) (\<lambda>vbmeta_digest.
     let total_size = foldl (\<lambda>t img. t + vd_vbmeta_size img) 0 (sd_vbmeta_images slot_data) in
     or_oom (cmdline_append_option slot_data (str ''androidboot.vbmeta.hash_alg'') name) (\<lambda>slot_data.
     or_oom (cmdline_append_uint64_base10 slot_data (str ''androidboot.vbmeta.size'') total_size) (\<lambda>slot_data.
     or_oom (cmdline_append_hex slot_data (str ''androidboot.vbmeta.digest'') vbmeta_digest digest_size) rest)))"

text \<open>
  The second part: \<open>androidboot.veritymode\<close> for the top-level flags and the resolved error mode, after
  the mode of dm-verity has been put into the command line.
\<close>

definition append_veritymode ::
    "AvbHashtreeErrorMode \<Rightarrow> bytes \<Rightarrow> AvbSlotVerifyData \<Rightarrow> (AvbSlotVerifyResult \<times> AvbSlotVerifyData, 'w) act" where
  "append_veritymode hashtree_error_mode verity_mode slot_data =
     or_oom (cmdline_append_option slot_data (str ''androidboot.veritymode'') verity_mode) (\<lambda>slot_data.
     if hashtree_error_mode = AVB_HASHTREE_ERROR_MODE_MANAGED_RESTART_AND_EIO
     then or_oom (cmdline_append_option slot_data (str ''androidboot.veritymode.managed'') (str ''yes''))
            (\<lambda>slot_data. retn (AVB_SLOT_VERIFY_RESULT_OK, slot_data))
     else retn (AVB_SLOT_VERIFY_RESULT_OK, slot_data))"

definition replace_verity_mode ::
    "AvbHashtreeErrorMode \<Rightarrow> bytes \<Rightarrow> bytes \<Rightarrow> AvbSlotVerifyData \<Rightarrow> (AvbSlotVerifyResult \<times> AvbSlotVerifyData, 'w) act" where
  "replace_verity_mode hashtree_error_mode verity_mode dm_verity_mode slot_data =
     andthen (pure (deref (sd_cmdline slot_data) cstr)) (\<lambda>cmdline.
     andthen (heap_act (avb_replace cmdline (str ''$(ANDROID_VERITY_MODE)'') dm_verity_mode)) (\<lambda>new_ret.
     let slot_data = slot_data\<lparr>sd_cmdline := map_option (\<lambda>s. s @ [0]) new_ret\<rparr> in
     if new_ret = None then retn (AVB_SLOT_VERIFY_RESULT_ERROR_OOM, slot_data)
     else append_veritymode hashtree_error_mode verity_mode slot_data))"

definition append_verity_mode ::
    "AvbSlotVerifyData \<Rightarrow> AvbHashtreeErrorMode \<Rightarrow> AvbHashtreeErrorMode \<Rightarrow> u32 \<Rightarrow>
     (AvbSlotVerifyResult \<times> AvbSlotVerifyData, 'w) act" where
  "append_verity_mode slot_data hashtree_error_mode resolved_hashtree_error_mode toplevel_flags =
     (let replacing = replace_verity_mode hashtree_error_mode
      in if toplevel_flags AND AVB_VBMETA_IMAGE_FLAGS_HASHTREE_DISABLED \<noteq> 0
         then append_veritymode hashtree_error_mode (str ''disabled'') slot_data
         else case resolved_hashtree_error_mode of
           AVB_HASHTREE_ERROR_MODE_RESTART_AND_INVALIDATE \<Rightarrow>
             or_oom (cmdline_append_option slot_data (str ''androidboot.vbmeta.invalidate_on_error'') (str ''yes''))
               (replacing (str ''enforcing'') (str ''restart_on_corruption''))
         | AVB_HASHTREE_ERROR_MODE_RESTART \<Rightarrow>
             replacing (str ''enforcing'') (str ''restart_on_corruption'') slot_data
         | AVB_HASHTREE_ERROR_MODE_EIO \<Rightarrow> replacing (str ''eio'') (str ''ignore_zero_blocks'') slot_data
         | AVB_HASHTREE_ERROR_MODE_LOGGING \<Rightarrow> replacing (str ''logging'') (str ''ignore_corruption'') slot_data
         | AVB_HASHTREE_ERROR_MODE_MANAGED_RESTART_AND_EIO \<Rightarrow> pure (Fault Abort))"

text \<open>From the version to the digest.\<close>

definition append_version_to_digest ::
    "'w AvbOps \<Rightarrow> u32 \<Rightarrow> AvbSlotVerifyData \<Rightarrow>
     (AvbSlotVerifyData \<Rightarrow> (AvbSlotVerifyResult \<times> AvbSlotVerifyData, 'w) act) \<Rightarrow>
     (AvbSlotVerifyResult \<times> AvbSlotVerifyData, 'w) act" where
  "append_version_to_digest ops alg_type slot_data rest =
     or_oom (cmdline_append_version slot_data (str ''androidboot.vbmeta.avb_version'')
               (ucast AVB_VERSION_MAJOR) (ucast AVB_VERSION_MINOR)) (\<lambda>slot_data.
     andthen (call (read_is_device_unlocked ops) (\<lambda>f. f)) (\<lambda>(io_ret, is_device_unlocked).
     if io_ret = AVB_IO_RESULT_ERROR_OOM then retn (AVB_SLOT_VERIFY_RESULT_ERROR_OOM, slot_data)
     else if io_ret \<noteq> AVB_IO_RESULT_OK then retn (AVB_SLOT_VERIFY_RESULT_ERROR_IO, slot_data)
     else or_oom (cmdline_append_option slot_data (str ''androidboot.vbmeta.device_state'')
                    (if is_device_unlocked then str ''unlocked'' else str ''locked'')) (\<lambda>slot_data.
     if alg_type = algorithm_value AVB_ALGORITHM_TYPE_NONE \<or>
        alg_type = algorithm_value AVB_ALGORITHM_TYPE_SHA256_RSA2048 \<or>
        alg_type = algorithm_value AVB_ALGORITHM_TYPE_SHA256_RSA4096 \<or>
        alg_type = algorithm_value AVB_ALGORITHM_TYPE_SHA256_RSA8192
     then append_vbmeta_digest AVB_DIGEST_TYPE_SHA256 (str ''sha256'') AVB_SHA256_DIGEST_SIZE slot_data rest
     else if alg_type = algorithm_value AVB_ALGORITHM_TYPE_SHA512_RSA2048 \<or>
        alg_type = algorithm_value AVB_ALGORITHM_TYPE_SHA512_RSA4096 \<or>
        alg_type = algorithm_value AVB_ALGORITHM_TYPE_SHA512_RSA8192
     then append_vbmeta_digest AVB_DIGEST_TYPE_SHA512 (str ''sha512'') AVB_SHA512_DIGEST_SIZE slot_data rest
     else if alg_type = AVB_ALGORITHM_NUM_TYPES then pure (Fault Abort)
     else rest slot_data)))"

definition avb_append_options ::
    "'w AvbOps \<Rightarrow> u32 \<Rightarrow> AvbSlotVerifyData \<Rightarrow> AvbVBMetaImageHeader \<Rightarrow> u32 \<Rightarrow> AvbHashtreeErrorMode \<Rightarrow>
     AvbHashtreeErrorMode \<Rightarrow> (AvbSlotVerifyResult \<times> AvbSlotVerifyData, 'w) act" where
  "avb_append_options ops vflags slot_data toplevel_vbmeta alg_type hashtree_error_mode
     resolved_hashtree_error_mode =
     (let verity = (\<lambda>slot_data.
            append_verity_mode slot_data hashtree_error_mode resolved_hashtree_error_mode (flags toplevel_vbmeta))
      in if vflags AND AVB_SLOT_VERIFY_FLAGS_NO_VBMETA_PARTITION = 0
         then or_oom (cmdline_append_option slot_data (str ''androidboot.vbmeta.device'')
                        (str ''PARTUUID=$(ANDROID_VBMETA_PARTUUID)''))
                (\<lambda>slot_data. append_version_to_digest ops alg_type slot_data verity)
         else append_version_to_digest ops alg_type slot_data verity)"

subsection \<open>Root digests\<close>

text \<open>The result and the list afterwards.\<close>

definition avb_add_root_digest_substitution ::
    "bytes \<Rightarrow> bytes \<Rightarrow> nat \<Rightarrow> AvbCmdlineSubstList \<Rightarrow> (AvbSlotVerifyResult \<times> AvbCmdlineSubstList, 'w) act" where
  "avb_add_root_digest_substitution part_name digest digest_size out_cmdline_subst =
     asserting (length part_name < AVB_PART_NAME_MAX_SIZE)
     (asserting (digest_size \<le> AVB_SHA512_DIGEST_SIZE)
     (if length part_name \<ge> AVB_PART_NAME_MAX_SIZE \<or> digest_size > AVB_SHA512_DIGEST_SIZE
      then retn (AVB_SLOT_VERIFY_RESULT_ERROR_INVALID_METADATA, out_cmdline_subst)
      else if length out_cmdline_subst \<ge> AVB_MAX_NUM_CMDLINE_SUBST
      then retn (AVB_SLOT_VERIFY_RESULT_ERROR_INVALID_METADATA, out_cmdline_subst)
      else andthen (heap_act (avb_strdupv [str ''$(AVB_'', part_name, str ''_ROOT_DIGEST)''])) (\<lambda>token.
      case token of None \<Rightarrow> retn (AVB_SLOT_VERIFY_RESULT_ERROR_OOM, out_cmdline_subst) | Some token \<Rightarrow>
      let token = avb_uppercase token in
      andthen (heap_act (avb_bin2hex digest digest_size)) (\<lambda>value.
      case value of None \<Rightarrow> retn (AVB_SLOT_VERIFY_RESULT_ERROR_OOM, out_cmdline_subst) | Some value \<Rightarrow>
      retn (AVB_SLOT_VERIFY_RESULT_OK, out_cmdline_subst @ [(token, value)])))))"

section \<open>Decimal numbers\<close>

text \<open>The decimal digits of a number, most significant first, and the byte of a digit.\<close>

fun decimal :: "nat \<Rightarrow> nat list" where
  "decimal n = (if n < 10 then [n] else decimal (n div 10) @ [n mod 10])"

declare decimal.simps [simp del]

definition digit_byte :: "nat \<Rightarrow> u8" where
  "digit_byte d = of_nat (0x30 + d)"

lemma unat_digit_byte: "d < 10 \<Longrightarrow> unat (digit_byte d) = 0x30 + d"
  unfolding digit_byte_def by (simp add: unsigned_of_nat take_bit_nat_eq_self del: of_nat_add)

lemma decimal_nonempty: "decimal n \<noteq> []"
  by (subst decimal.simps) simp

lemma decimal_digits: "\<forall>d\<in>set (decimal n). d < 10"
proof (induction n rule: decimal.induct)
  case (1 n)
  then show ?case by (subst decimal.simps) auto
qed

lemma decimal_value: "foldl (\<lambda>a d. a * 10 + d) 0 (decimal n) = n"
proof (induction n rule: decimal.induct)
  case (1 n)
  then show ?case by (subst decimal.simps) auto
qed

lemma decimal_length: "n < 10 ^ k \<Longrightarrow> 0 < k \<Longrightarrow> length (decimal n) \<le> k"
proof (induction k arbitrary: n)
  case (Suc k)
  show ?case
  proof (cases "n < 10")
    case False
    then have "0 < k" "n div 10 < 10 ^ k"
      using Suc.prems by (cases k; simp)+
    with Suc.IH False show ?thesis by (subst decimal.simps) auto
  qed (subst decimal.simps, simp)
qed simp

lemma div_by_10_digit: "ucast (fst (avb_div_by_10 v) + 0x30) = digit_byte (unat v mod 10)"
proof -
  have "unat (ucast (v mod 10) :: u32) = unat v mod 10"
    by (simp add: unsigned_ucast_eq unat_mod_distrib take_bit_nat_eq_self)
  then have "unat (ucast (v mod 10) + 0x30 :: u32) = unat v mod 10 + 0x30"
    by (simp add: unat_word_ariths)
  then show ?thesis
    by (simp add: word_unat_eq_iff avb_div_by_10_def unsigned_ucast_eq take_bit_nat_eq_self unat_digit_byte)
qed

lemma base10_loop_decimal:
  "unat v < 10 ^ k \<Longrightarrow> 0 < k \<Longrightarrow> base10_loop k v acc = acc @ rev (map digit_byte (decimal (unat v)))"
proof (induction k arbitrary: v acc)
  case (Suc k)
  have d: "unat (v div 10) = unat v div 10" by (simp add: unat_div_distrib)
  have r: "ucast (ucast (v mod 10) + 0x30 :: u32) = digit_byte (unat v mod 10)"
    using div_by_10_digit [of v] by (simp add: avb_div_by_10_def)
  show ?case
  proof (cases "unat v < 10")
    case True
    then have "v div 10 = 0" by (simp add: word_unat_eq_iff d)
    with True r show ?thesis
      by (subst decimal.simps) (simp add: avb_div_by_10_def Let_def)
  next
    case False
    then have "v div 10 \<noteq> 0" "0 < k" "unat (v div 10) < 10 ^ k"
      using Suc.prems by (cases k; auto simp: word_unat_eq_iff d)+
    with Suc.IH [of "v div 10"] False r show ?thesis
      by (subst decimal.simps) (simp add: avb_div_by_10_def Let_def d)
  qed
qed simp

lemma base10_decimal: "uint64_to_base10 v = map digit_byte (decimal (unat v))"
proof -
  have n: "unat v < 10 ^ 20" using unat_u64_less [of v] by simp
  have "(10 :: nat) ^ 20 \<le> 10 ^ 31" by (rule power_increasing) simp_all
  with n have "base10_loop 31 v [] = rev (map digit_byte (decimal (unat v)))"
    using base10_loop_decimal [of v 31 "[]"] by simp
  moreover have "map (\<lambda>i. xs ! (length xs - 1 - i)) [0..<length xs] = rev xs" for xs :: bytes
    by (rule nth_equalityI) (simp_all add: rev_nth)
  ultimately show ?thesis
    by (simp add: uint64_to_base10_def AVB_MAX_DIGITS_UINT64_def Let_def)
qed

lemma base10_length: "length (uint64_to_base10 v) \<le> 20"
  using decimal_length [of "unat v" 20] unat_u64_less [of v] by (simp add: base10_decimal)

lemma digit_byte_parse:
  assumes "d < 10" shows "digit_byte d \<noteq> 0" "digit_byte d \<noteq> 0x78" "prop_digit 10 (digit_byte d) = Some (of_nat d)"
proof -
  note u = unat_digit_byte [OF assms]
  then show "digit_byte d \<noteq> 0" "digit_byte d \<noteq> 0x78" using assms by (auto simp: word_unat_eq_iff)
  have "unat (digit_byte d - 0x30) = d"
    using u by (simp add: unat_sub word_le_nat_alt)
  then have "(ucast (digit_byte d - 0x30) :: u64) = of_nat d"
    using assms by (simp add: word_unat_eq_iff unat_ucast_up unsigned_of_nat take_bit_nat_eq_self)
  with u assms show "prop_digit 10 (digit_byte d) = Some (of_nat d)"
    by (simp add: prop_digit_def word_le_nat_alt)
qed

text \<open>What \<open>uint64_to_base10\<close> prints, the integer parser of the property descriptors reads back.\<close>

lemma parse_base10: "parse_uint64 (uint64_to_base10 v @ 0 # rest) = Ok (Some v)"
proof -
  define ds where "ds = decimal (unat v)"
  have ds: "\<forall>d\<in>set ds. d < 10" "ds \<noteq> []"
    using decimal_digits [of "unat v"] decimal_nonempty [of "unat v"] unfolding ds_def by auto
  let ?t = "map digit_byte ds @ 0 # rest"
  have "parse_loop 10 ?t (of_nat 0) = Ok (Some (of_nat (foldl (\<lambda>a c. a * 10 + unat (the (prop_digit 10 c))) 0 (map digit_byte ds))))"
    using ds digit_byte_parse by (subst parse_loop_digits) auto
  also have "foldl (\<lambda>a c. a * 10 + unat (the (prop_digit 10 c))) a (map digit_byte es) = foldl (\<lambda>a d. a * 10 + d) a es"
    if "\<forall>d\<in>set es. d < 10" for a es
    using that by (induction es arbitrary: a) (simp_all add: digit_byte_parse unsigned_of_nat take_bit_nat_eq_self)
  note this [OF ds(1), of 0]
  also have "foldl (\<lambda>a d. a * 10 + d) 0 ds = unat v"
    unfolding ds_def by (rule decimal_value)
  finally have loop: "parse_loop 10 ?t 0 = Ok (Some v)" by simp
  have "?t ! 1 \<noteq> 0x78"
    using ds digit_byte_parse by (cases ds; cases "tl ds") auto
  then have "take 2 ?t ! 1 \<noteq> str ''0x'' ! 1"
    using nth_take [of 1 2 ?t] by (simp add: str_def of_char_def del: take_append)
  then have "take 2 ?t \<noteq> str ''0x''" by metis
  moreover have "2 \<le> length ?t" using ds(2) by (cases ds) auto
  ultimately have "\<exists>c. avb_memcmp ?t (str ''0x'') 2 = Ok c \<and> c \<noteq> 0"
    by (simp add: avb_memcmp_def str_def memcmp_sign_zero)
  with loop show ?thesis
    by (auto simp: parse_uint64_def base10_decimal ds_def)
qed

section \<open>Appending options\<close>

text \<open>The text of a command line and the text with one more option.\<close>

definition cmdline_text :: "bytes option \<Rightarrow> bytes" where
  "cmdline_text c = (case c of None \<Rightarrow> [] | Some m \<Rightarrow> takeWhile (\<lambda>b. b \<noteq> 0) m)"

definition cmdline_ended :: "bytes option \<Rightarrow> bool" where
  "cmdline_ended c \<longleftrightarrow> (case c of None \<Rightarrow> True | Some m \<Rightarrow> 0 \<in> set m)"

definition with_option :: "bytes \<Rightarrow> bytes \<Rightarrow> bytes \<Rightarrow> bytes" where
  "with_option t key value = (if t = [] then [] else t @ [0x20]) @ key @ [0x3D] @ value"

lemma memcpy_within:
  "n \<le> length src \<Longrightarrow> length b = n \<Longrightarrow> ofs = length a \<Longrightarrow> avb_memcpy (a @ b @ c) ofs src n = Ok (a @ take n src @ c)"
  by (simp add: avb_memcpy_def)

lemma store_within: "ofs = length a \<Longrightarrow> (a @ x # c)[ofs := y] = a @ y # c"
  by simp

text \<open>The new object, byte for byte.\<close>

lemma append_option_object:
  assumes "length t \<le> length m" "take (length t) m = t"
  defines "o' \<equiv> (if t = [] then 0 else length t + 1)"
  shows "bnd (if o' > 0
           then bnd (avb_memcpy (replicate (o' + length key + length value + 2) 0) 0 m (o' - 1)) (\<lambda>m. Ok (m[o' - 1 := 0x20]))
           else Ok (replicate (o' + length key + length value + 2) 0)) (\<lambda>m.
        bnd (avb_memcpy m o' key (length key)) (\<lambda>m.
        avb_memcpy (m[o' + length key := 0x3D]) (o' + length key + 1) value (length value))) =
    Ok (with_option t key value @ [0])"
proof -
  let ?z = "\<lambda>n. replicate n (0 :: u8)"
  define a where "a = (if t = [] then [] else t @ [0x20 :: u8])"
  have o': "o' = length a" by (simp add: a_def o'_def)
  have first: "(if o' > 0
      then bnd (avb_memcpy (?z (o' + length key + length value + 2)) 0 m (o' - 1)) (\<lambda>m. Ok (m[o' - 1 := 0x20]))
      else Ok (?z (o' + length key + length value + 2))) = Ok (a @ ?z (length key) @ 0 # ?z (length value) @ [0])"
  proof (cases "t = []")
    case True
    then show ?thesis by (simp add: o'_def a_def flip: replicate_add replicate_append_same)
  next
    case False
    have "?z (o' + length key + length value + 2) = [] @ ?z (length t) @ 0 # ?z (length key) @ 0 # ?z (length value) @ [0]"
      using False by (simp add: o'_def flip: replicate_add replicate_append_same)
    then have "avb_memcpy (?z (o' + length key + length value + 2)) 0 m (o' - 1) =
        Ok (t @ 0 # ?z (length key) @ 0 # ?z (length value) @ [0])"
      using memcpy_within [of "length t" m "?z (length t)" 0 "[]"] assms(1,2) False by (simp add: o'_def)
    with False show ?thesis by (simp add: o'_def a_def)
  qed
  show ?thesis
    unfolding first using memcpy_within [of "length key" key "?z (length key)" o' a]
      store_within [of "o' + length key" "a @ key"]
      memcpy_within [of "length value" "value" "?z (length value)" "o' + length key + 1" "a @ key @ [0x3D]"]
    by (simp add: o' with_option_def a_def)
qed

lemma append_option_run:
  assumes "cmdline_ended (sd_cmdline slot)" "malloc_total (sy_heap s)"
  shows "\<exists>h'. cmdline_append_option slot key value s =
      Ok ((True, slot\<lparr>sd_cmdline := Some (with_option (cmdline_text (sd_cmdline slot)) key value @ [0])\<rparr>), s\<lparr>sy_heap := h'\<rparr>) \<and>
    malloc_total h'"
proof -
  define t where "t = cmdline_text (sd_cmdline slot)"
  define o' where "o' = (if t = [] then 0 else length t + 1)"
  let ?n = "o' + length key + length value + 2"
  have off: "(case sd_cmdline slot of None \<Rightarrow> Ok 0
      | Some c \<Rightarrow> bnd (avb_strlen c) (\<lambda>k. Ok (if k > 0 then k + 1 else k))) = Ok o'"
    using assms(1)
    by (cases "sd_cmdline slot") (auto simp: cmdline_ended_def cmdline_text_def avb_strlen_def cstr_def o'_def t_def)
  obtain a h' where h: "avb_malloc ?n (sy_heap s) = (Some a, h')" "malloc_total h'"
    using malloc_total_malloc [OF assms(2)] by blast
  have al: "alloc (avb_calloc ?n) s = Ok (Some (a, replicate ?n 0), s\<lparr>sy_heap := h'\<rparr>)"
    using h by (simp add: alloc_def heap_act_def avb_calloc_def)
  obtain m where m: "length t \<le> length m" "take (length t) m = t" "o' > 0 \<Longrightarrow> sd_cmdline slot = Some m"
  proof (cases "sd_cmdline slot")
    case (Some c)
    then show ?thesis
      by (intro that [of c]) (auto simp: t_def cmdline_text_def length_takeWhile_le simp flip: takeWhile_eq_take)
  qed (use that [of "[]"] in \<open>simp add: t_def cmdline_text_def o'_def\<close>)
  have body: "bnd (if o' > 0 then deref (sd_cmdline slot) (\<lambda>c.
             bnd (avb_memcpy (replicate ?n 0) 0 c (o' - 1)) (\<lambda>m. Ok (m[o' - 1 := 0x20])))
           else Ok (replicate ?n 0)) (\<lambda>m.
        bnd (avb_memcpy m o' key (length key)) (\<lambda>m.
        avb_memcpy (m[o' + length key := 0x3D]) (o' + length key + 1) value (length value))) =
      Ok (with_option t key value @ [0])"
    using append_option_object [OF m(1,2), of key "value"] m(3) unfolding o'_def [symmetric] by (auto split: if_splits)
  show ?thesis
    using h(2) unfolding cmdline_append_option_def andthen_def off Let_def pure_def bnd_simps split_conv al
      option.case body retn_def t_def [symmetric]
    by blast
qed

section \<open>Substitution\<close>

lemma cstr_terminated: "cstring t \<Longrightarrow> cstr (t @ 0 # r) = Ok t"
  unfolding cstr_def cstring_def by (subst takeWhile_append2) auto

lemma part_name_concat_value:
  assumes "cstring name" "cstring suffix" "length name < 2 ^ 62" "length suffix < 2 ^ 62"
  shows "part_name_concat name (of_nat (length name)) suffix =
    Ok (if length name + length suffix < AVB_PART_NAME_MAX_SIZE then Some (name @ suffix) else None)"
proof -
  let ?a = "of_nat (length name) :: u64" and ?b = "of_nat (length suffix) :: u64"
  have u: "unat ?a = length name" "unat ?b = length suffix" "unat (?a + ?b) = length name + length suffix"
    using assms(3,4) by (simp_all add: unat_of_nat take_bit_nat_eq_self unat_word_ariths)
  have c: "avb_safe_add ?a ?b = (True, ?a + ?b)"
    using u assms(3,4) by (simp add: avb_safe_add_spec)
  have gt: "(?a + ?b > of_nat AVB_PART_NAME_MAX_SIZE - 1) = (\<not> length name + length suffix < AVB_PART_NAME_MAX_SIZE)"
    unfolding word_less_nat_alt u by (simp add: AVB_PART_NAME_MAX_SIZE_def) linarith
  have "cstr ((name @ suffix) @ 0 # r) = Ok (name @ suffix)" for r
    using assms(1,2) by (intro cstr_terminated) simp
  then show ?thesis
    using gt u by (auto simp: part_name_concat_def avb_str_concat_def c)
qed


lemma cstring_replace_ref: "cstring s \<Longrightarrow> cstring rep \<Longrightarrow> cstring (replace_ref search rep s)"
proof (induction search rep s rule: replace_ref.induct)
  case (1 search rep s)
  have "cstring (tl s)" "s \<noteq> [] \<Longrightarrow> hd s \<noteq> 0"
    using "1.prems"(1) by (cases s; auto simp: cstring_def)+
  with 1 show ?case
    by (subst replace_ref.simps) (auto simp: cstring_def dest: in_set_dropD)
qed

lemma replace_act:
  assumes "cstring t" "cstring tok" "malloc_total (sy_heap s)"
  shows "\<exists>h'. heap_act (avb_replace t tok v) s = Ok (Some (replace_ref tok v t), s\<lparr>sy_heap := h'\<rparr>) \<and> malloc_total h'"
  using avb_replace_total [OF assms, of v] by (auto simp: heap_act_def)

text \<open>A host that knows the GUID of every partition.\<close>

definition guids_known :: "'w AvbOps \<Rightarrow> (bytes \<Rightarrow> bytes) \<Rightarrow> bool" where
  "guids_known ops g \<longleftrightarrow> (\<exists>f. get_unique_guid_for_partition ops = Some f \<and>
     (\<forall>name w. cstring (g name) \<and> (\<exists>data w'. f name 37 w = Ok ((AVB_IO_RESULT_OK, data), w') \<and> cstr data = Ok (g name))))"

text \<open>
  The text after the GUIDs: a token is replaced when the original command line has it.
\<close>

definition guid_text :: "(bytes \<Rightarrow> bytes) \<Rightarrow> bytes \<Rightarrow> bytes \<Rightarrow> bytes \<Rightarrow> (bytes \<times> bytes) list \<Rightarrow> bytes" where
  "guid_text g cmdline ab_suffix = foldl (\<lambda>t (part, token).
     if first_occ token cmdline = None then t else replace_ref token (g (part @ ab_suffix)) t)"

definition token_text :: "bytes \<Rightarrow> (bytes \<times> bytes) list \<Rightarrow> bytes" where
  "token_text = foldl (\<lambda>t (token, value). replace_ref token value t)"

lemma sub_tokens_text:
  assumes "malloc_total (sy_heap s)" "cstring t" "\<forall>(tok, v)\<in>set subst. cstring tok \<and> cstring v"
  shows "\<exists>s'. sub_tokens subst t s = Ok (Some (token_text t subst), s')"
  using assms
proof (induction subst arbitrary: t s)
  case (Cons p subst)
  obtain tok v where p: "p = (tok, v)" "cstring tok" "cstring v" using Cons.prems(3) by (cases p) auto
  obtain h' where h: "heap_act (avb_replace t tok v) s = Ok (Some (replace_ref tok v t), s\<lparr>sy_heap := h'\<rparr>)" "malloc_total h'"
    using replace_act [OF Cons.prems(2) p(2) Cons.prems(1)] by blast
  have "\<exists>s'. sub_tokens subst (replace_ref tok v t) (s\<lparr>sy_heap := h'\<rparr>) = Ok (Some (token_text (replace_ref tok v t) subst), s')"
    using Cons h(2) p cstring_replace_ref by (intro Cons.IH) auto
  with h(1) p(1) show ?case by (simp add: andthen_def token_text_def)
qed (simp add: token_text_def retn_def)

lemma sub_guids_text:
  assumes "guids_known ops g" "malloc_total (sy_heap s)" "cstring cmdline" "cstring suffix"
    and "\<forall>(part, tok)\<in>set guids. cstring part \<and> cstring tok \<and> tok \<noteq> [] \<and> length part + length suffix < AVB_PART_NAME_MAX_SIZE"
    and "cstring (case ret of None \<Rightarrow> cmdline | Some r \<Rightarrow> r)"
  shows "\<exists>ret' s'. sub_guids ops cmdline suffix guids ret s = Ok (Some ret', s') \<and> malloc_total (sy_heap s') \<and>
    (case ret' of None \<Rightarrow> cmdline | Some r \<Rightarrow> r) =
      guid_text g cmdline suffix (case ret of None \<Rightarrow> cmdline | Some r \<Rightarrow> r) guids \<and>
    cstring (case ret' of None \<Rightarrow> cmdline | Some r \<Rightarrow> r)"
  using assms
proof (induction guids arbitrary: ret s)
  case Nil
  then show ?case by (simp add: retn_def guid_text_def)
next
  case (Cons p guids)
  obtain part tok where p: "p = (part, tok)" "cstring part" "cstring tok" "tok \<noteq> []"
      "length part + length suffix < AVB_PART_NAME_MAX_SIZE"
    using Cons.prems(5) by (cases p) auto
  have st: "avb_strstr cmdline tok = Ok (first_occ tok cmdline)"
    using Cons.prems(3) p by (simp add: avb_strstr_spec)
  let ?t = "case ret of None \<Rightarrow> cmdline | Some r \<Rightarrow> r"
  show ?case
  proof (cases "first_occ tok cmdline")
    case None
    then have "sub_guids ops cmdline suffix (p # guids) ret s = sub_guids ops cmdline suffix guids ret s"
      by (simp add: p(1) st andthen_def pure_def)
    moreover have "guid_text g cmdline suffix ?t (p # guids) = guid_text g cmdline suffix ?t guids"
      using None by (simp add: guid_text_def p(1))
    ultimately show ?thesis using Cons by simp
  next
    case (Some k)
    have nm: "part_name_concat part (of_nat (length part)) suffix = Ok (Some (part @ suffix))"
      using part_name_concat_value [OF p(2) Cons.prems(4)] p(5) by (simp add: AVB_PART_NAME_MAX_SIZE_def)
    obtain f data w' where f: "get_unique_guid_for_partition ops = Some f" "cstring (g (part @ suffix))"
        "f (part @ suffix) 37 (sy_world s) = Ok ((AVB_IO_RESULT_OK, data), w')" "cstr data = Ok (g (part @ suffix))"
      using Cons.prems(1) unfolding guids_known_def by metis
    let ?s = "s\<lparr>sy_world := w'\<rparr>" and ?r = "replace_ref tok (g (part @ suffix)) ?t"
    obtain h' where h: "heap_act (avb_replace ?t tok (g (part @ suffix))) ?s = Ok (Some ?r, ?s\<lparr>sy_heap := h'\<rparr>)" "malloc_total h'"
      using replace_act [OF Cons.prems(6) p(3), of ?s] Cons.prems(2) by auto
    have "sub_guids ops cmdline suffix (p # guids) ret s = sub_guids ops cmdline suffix guids (Some ?r) (?s\<lparr>sy_heap := h'\<rparr>)"
      using f h(1) by (simp add: p(1) st Some andthen_def pure_def nm call_def)
    moreover have "guid_text g cmdline suffix ?t (p # guids) = guid_text g cmdline suffix ?r guids"
      using Some by (simp add: guid_text_def p(1))
    ultimately show ?thesis
      using Cons.IH [of "?s\<lparr>sy_heap := h'\<rparr>" "Some ?r"] Cons.prems h(2) f(2) cstring_replace_ref by simp
  qed
qed

lemma cmdline_guids_ok:
  "length suffix \<le> 25 \<Longrightarrow> \<forall>(part, tok)\<in>set (sub_cmdline_guids b).
     cstring part \<and> cstring tok \<and> tok \<noteq> [] \<and> length part + length suffix < AVB_PART_NAME_MAX_SIZE"
  by (auto simp: sub_cmdline_guids_def str_def cstring_def AVB_PART_NAME_MAX_SIZE_def of_char_def)

lemma sub_cmdline_text:
  assumes "guids_known ops g" "malloc_total (sy_heap s)" "cstring cmdline" "cstring suffix" "length suffix \<le> 25"
    and "\<forall>(tok, v)\<in>set subst. cstring tok \<and> cstring v"
  shows "\<exists>s'. avb_sub_cmdline ops cmdline suffix b (Some subst) s =
    Ok (Some (token_text (guid_text g cmdline suffix cmdline (sub_cmdline_guids b)) subst), s')"
proof -
  obtain ret s1 where r: "sub_guids ops cmdline suffix (sub_cmdline_guids b) None s = Ok (Some ret, s1)"
      "malloc_total (sy_heap s1)"
      "(case ret of None \<Rightarrow> cmdline | Some r \<Rightarrow> r) = guid_text g cmdline suffix cmdline (sub_cmdline_guids b)"
      "cstring (case ret of None \<Rightarrow> cmdline | Some r \<Rightarrow> r)"
    using sub_guids_text [OF assms(1-4) cmdline_guids_ok [OF assms(5)], of None b] assms(3) by auto
  obtain h2 where h2: "avb_strdup cmdline (sy_heap s1) = (Some cmdline, h2)" "malloc_total h2"
    using avb_strdup_total [OF r(2)] by blast
  let ?t = "case ret of None \<Rightarrow> cmdline | Some r \<Rightarrow> r"
  obtain s2 where s2: "(case ret of None \<Rightarrow> alloc (avb_strdup cmdline) | Some r \<Rightarrow> retn (Some r)) s1 = Ok (Some ?t, s2)"
      "malloc_total (sy_heap s2)"
    using h2 r(2) by (cases ret) (auto simp: alloc_def heap_act_def retn_def)
  obtain s3 where "sub_tokens subst ?t s2 = Ok (Some (token_text ?t subst), s3)"
    using sub_tokens_text [OF s2(2) r(4) assms(6)] by blast
  with r s2 show ?thesis
    by (simp add: avb_sub_cmdline_def andthen_def)
qed

section \<open>Root digests\<close>

lemma strdupv_total:
  assumes "length strs < 32" "length (concat strs) < 2 ^ 64" "malloc_total h"
  shows "\<exists>h'. avb_strdupv strs h = Ok (Some (concat strs), h') \<and> malloc_total h'"
proof -
  let ?n = "of_nat (length (concat strs)) :: u64"
  have "unat ?n = length (concat strs)"
    using assms(2) by (simp add: unat_of_nat take_bit_nat_eq_self del: length_concat)
  moreover have "strdupv_collect strs 0 0 = Ok ?n"
    using strdupv_collect_Ok [of 0 strs 0] assms(1,2) by simp
  moreover obtain a h' where "avb_malloc (unat (?n + 1)) h = (Some a, h')" "malloc_total h'"
    using malloc_total_malloc [OF assms(3)] by blast
  ultimately show ?thesis by (simp add: avb_strdupv_def del: length_concat)
qed

lemma add_root_digest_run:
  assumes "malloc_total (sy_heap s)" "length name < AVB_PART_NAME_MAX_SIZE" "n \<le> AVB_SHA512_DIGEST_SIZE" "n \<le> length digest"
    and "length subst < AVB_MAX_NUM_CMDLINE_SUBST"
  shows "\<exists>s'. avb_add_root_digest_substitution name digest n subst s =
    Ok ((AVB_SLOT_VERIFY_RESULT_OK,
         subst @ [(avb_uppercase (str ''$(AVB_'' @ name @ str ''_ROOT_DIGEST)''), bin2hex_bytes (take n digest))]), s')"
proof -
  let ?t = "[str ''$(AVB_'', name, str ''_ROOT_DIGEST)'']"
  have "length (concat ?t) < 2 ^ 64" using assms(2) by (simp add: str_def AVB_PART_NAME_MAX_SIZE_def)
  then obtain h' where h: "avb_strdupv ?t (sy_heap s) = Ok (Some (concat ?t), h')" "malloc_total h'"
    using strdupv_total [of ?t "sy_heap s"] assms(1) by auto
  obtain a h2 where "avb_malloc (n * 2 + 1) h' = (Some a, h2)"
    using malloc_total_malloc [OF h(2)] by blast
  with h(1) assms(2-5) show ?thesis
    by (simp add: avb_add_root_digest_substitution_def asserting_def andthen_def heap_act_def avb_bin2hex_def retn_def)
qed

end
