(* ===== verification/Avb_Partitions.thy ===== *)
theory Avb_Partitions
  imports Avb_Cmdline
begin

text \<open>
  The partition part of \<open>avb_slot_verify.c\<close>: loading a partition whole, persistent digests, and loading and
  hashing the partition a hash descriptor is about. Every function returns the result code and what the
  caller sees of its output variables afterwards.
\<close>

section \<open>Definitions\<close>

definition MAX_NUMBER_OF_LOADED_PARTITIONS :: nat where
  "MAX_NUMBER_OF_LOADED_PARTITIONS = 32"

definition MAX_NUMBER_OF_VBMETA_IMAGES :: nat where
  "MAX_NUMBER_OF_VBMETA_IMAGES = 32"

definition VBMETA_MAX_SIZE :: nat where
  "VBMETA_MAX_SIZE = 64 * 1024"

fun result_should_continue :: "AvbSlotVerifyResult \<Rightarrow> bool" where
  "result_should_continue AVB_SLOT_VERIFY_RESULT_ERROR_OOM = False"
| "result_should_continue AVB_SLOT_VERIFY_RESULT_ERROR_IO = False"
| "result_should_continue AVB_SLOT_VERIFY_RESULT_ERROR_INVALID_METADATA = False"
| "result_should_continue AVB_SLOT_VERIFY_RESULT_ERROR_UNSUPPORTED_VERSION = False"
| "result_should_continue AVB_SLOT_VERIFY_RESULT_ERROR_INVALID_ARGUMENT = False"
| "result_should_continue AVB_SLOT_VERIFY_RESULT_OK = True"
| "result_should_continue AVB_SLOT_VERIFY_RESULT_ERROR_VERIFICATION = True"
| "result_should_continue AVB_SLOT_VERIFY_RESULT_ERROR_ROLLBACK_INDEX = True"
| "result_should_continue AVB_SLOT_VERIFY_RESULT_ERROR_PUBLIC_KEY_REJECTED = True"

text \<open>The answer to a failed operation: \<open>None\<close> when it succeeded.\<close>

definition io_error :: "AvbIOResult \<Rightarrow> AvbSlotVerifyResult option" where
  "io_error io_ret =
     (if io_ret = AVB_IO_RESULT_ERROR_OOM then Some AVB_SLOT_VERIFY_RESULT_ERROR_OOM
      else if io_ret \<noteq> AVB_IO_RESULT_OK then Some AVB_SLOT_VERIFY_RESULT_ERROR_IO
      else None)"

lemma io_error_OK [simp]: "io_error AVB_IO_RESULT_OK = None"
  by (simp add: io_error_def)

subsection \<open>Loading partitions\<close>

text \<open>The two output variables are arguments and results.\<close>

definition load_full_partition ::
    "'w AvbOps \<Rightarrow> bytes \<Rightarrow> u64 \<Rightarrow> (u64 \<times> bytes) option \<Rightarrow> bool \<Rightarrow>
     (AvbSlotVerifyResult \<times> (u64 \<times> bytes) option \<times> bool, 'w) act" where
  "load_full_partition ops part_name image_size out_image_buf out_image_preloaded =
     asserting (out_image_buf = None) (asserting (\<not> out_image_preloaded)
     (if image_size \<noteq> (ucast image_size :: u64)
      then retn (AVB_SLOT_VERIFY_RESULT_ERROR_INVALID_METADATA, out_image_buf, out_image_preloaded)
      else
      let copy = (
        andthen (alloc (avb_malloc_obj (unat image_size))) (\<lambda>buf. case buf of
          None \<Rightarrow> retn (AVB_SLOT_VERIFY_RESULT_ERROR_OOM, None, False)
        | Some (a, buf) \<Rightarrow>
        andthen (call (read_from_partition ops) (\<lambda>f. f part_name 0 image_size)) (\<lambda>(io_ret, data, part_num_read).
        andthen (pure (filled buf data)) (\<lambda>buf.
        case io_error io_ret of Some e \<Rightarrow> retn (e, Some (a, buf), False) | None \<Rightarrow>
        if part_num_read \<noteq> image_size then retn (AVB_SLOT_VERIFY_RESULT_ERROR_IO, Some (a, buf), False)
        else retn (AVB_SLOT_VERIFY_RESULT_OK, Some (a, buf), False)))))
      in if get_preloaded_partition ops = None then copy
      else andthen (call (get_preloaded_partition ops) (\<lambda>f. f part_name image_size)) (\<lambda>(io_ret, ptr, part_num_read).
        case io_error io_ret of Some e \<Rightarrow> retn (e, ptr, False) | None \<Rightarrow>
        if ptr \<noteq> None
        then if part_num_read \<noteq> image_size then retn (AVB_SLOT_VERIFY_RESULT_ERROR_IO, ptr, False)
             else retn (AVB_SLOT_VERIFY_RESULT_OK, ptr, True)
        else copy)))"

text \<open>
  Persistent digests. \<open>read_persistent_digest\<close> and \<open>initialize_persistent_digest\<close> call each other, the
  latter with a null initial digest, for which the former does not call back: \<open>initialize\<close> is the
  function called for a missing value.
\<close>

definition read_persistent_digest_by ::
    "(bytes \<Rightarrow> bytes \<Rightarrow> nat \<Rightarrow> bytes \<Rightarrow> (AvbSlotVerifyResult \<times> bytes, 'w) act) \<Rightarrow>
     'w AvbOps \<Rightarrow> bytes \<Rightarrow> nat \<Rightarrow> bytes option \<Rightarrow> (AvbSlotVerifyResult \<times> bytes, 'w) act" where
  "read_persistent_digest_by initialize ops part_name expected_digest_size initial_digest =
     (if read_persistent_value ops = None then retn (AVB_SLOT_VERIFY_RESULT_ERROR_INVALID_METADATA, [])
      else andthen (heap_act (avb_strdupv [AVB_NPV_PERSISTENT_DIGEST_PREFIX, part_name])) (\<lambda>name.
      case name of None \<Rightarrow> retn (AVB_SLOT_VERIFY_RESULT_ERROR_OOM, []) | Some persistent_value_name \<Rightarrow>
      andthen (call (read_persistent_value ops) (\<lambda>f. f persistent_value_name (of_nat expected_digest_size)))
        (\<lambda>(io_ret, out_digest, stored_digest_size).
      if io_ret = AVB_IO_RESULT_ERROR_NO_SUCH_VALUE \<and> initial_digest \<noteq> None
      then initialize part_name persistent_value_name expected_digest_size (the initial_digest)
      else retn (
        if io_ret = AVB_IO_RESULT_ERROR_OOM then AVB_SLOT_VERIFY_RESULT_ERROR_OOM
        else if io_ret = AVB_IO_RESULT_ERROR_NO_SUCH_VALUE then AVB_SLOT_VERIFY_RESULT_ERROR_VERIFICATION
        else if io_ret = AVB_IO_RESULT_ERROR_INVALID_VALUE_SIZE \<or> io_ret = AVB_IO_RESULT_ERROR_INSUFFICIENT_SPACE
        then AVB_SLOT_VERIFY_RESULT_ERROR_INVALID_METADATA
        else if io_ret \<noteq> AVB_IO_RESULT_OK then AVB_SLOT_VERIFY_RESULT_ERROR_IO
        else if of_nat expected_digest_size \<noteq> stored_digest_size then AVB_SLOT_VERIFY_RESULT_ERROR_INVALID_METADATA
        else AVB_SLOT_VERIFY_RESULT_OK, out_digest))))"

definition initialize_persistent_digest ::
    "'w AvbOps \<Rightarrow> bytes \<Rightarrow> bytes \<Rightarrow> nat \<Rightarrow> bytes \<Rightarrow> (AvbSlotVerifyResult \<times> bytes, 'w) act" where
  "initialize_persistent_digest ops part_name persistent_value_name digest_size initial_digest =
     andthen (call (read_is_device_unlocked ops) (\<lambda>f. f)) (\<lambda>(io_ret, is_device_unlocked).
     case io_error io_ret of Some e \<Rightarrow> retn (e, []) | None \<Rightarrow>
     if is_device_unlocked then retn (AVB_SLOT_VERIFY_RESULT_ERROR_VERIFICATION, [])
     else andthen (call (write_persistent_value ops)
            (\<lambda>f. f persistent_value_name (of_nat digest_size) initial_digest)) (\<lambda>io_ret.
     case io_error io_ret of Some e \<Rightarrow> retn (e, []) | None \<Rightarrow>
     read_persistent_digest_by (\<lambda>_ _ _ _. pure (Fault OutOfFuel)) ops part_name digest_size None))"

definition read_persistent_digest ::
    "'w AvbOps \<Rightarrow> bytes \<Rightarrow> nat \<Rightarrow> bytes option \<Rightarrow> (AvbSlotVerifyResult \<times> bytes, 'w) act" where
  "read_persistent_digest ops = read_persistent_digest_by (initialize_persistent_digest ops) ops"

text \<open>
  The digest of salt and image by the algorithm a hash descriptor names, with its length; \<open>None\<close> for an
  unsupported algorithm.
\<close>

definition hash_partition_digest :: "bytes \<Rightarrow> bytes \<Rightarrow> u64 \<Rightarrow> bytes \<Rightarrow> u64 \<Rightarrow> (bytes \<times> nat) option res" where
  "hash_partition_digest hash_algorithm desc_salt salt_len image_buf image_size_to_hash =
     bnd (avb_strcmp hash_algorithm (lit ''sha256'')) (\<lambda>c.
     if c = 0
     then bnd (avb_sha256_update (avb_sha256_init fresh_sha256) desc_salt salt_len) (\<lambda>ctx.
          bnd (bnd (avb_sha256_update ctx image_buf image_size_to_hash) avb_sha256_final) (\<lambda>(digest, _).
          Ok (Some (digest, AVB_SHA256_DIGEST_SIZE))))
     else bnd (avb_strcmp hash_algorithm (lit ''sha512'')) (\<lambda>c.
     if c = 0
     then bnd (avb_sha512_update (avb_sha512_init fresh_sha512) desc_salt salt_len) (\<lambda>ctx.
          bnd (bnd (avb_sha512_update ctx image_buf image_size_to_hash) avb_sha512_final) (\<lambda>(digest, _).
          Ok (Some (digest, AVB_SHA512_DIGEST_SIZE))))
     else Ok None))"

text \<open>The label \<open>out\<close>: a loaded image becomes an entry of the slot data.\<close>

definition keep_partition ::
    "bytes \<Rightarrow> u64 \<Rightarrow> (u64 \<times> bytes) option \<Rightarrow> bool \<Rightarrow> AvbSlotVerifyData \<Rightarrow> AvbSlotVerifyResult \<Rightarrow>
     (AvbSlotVerifyResult \<times> AvbSlotVerifyData, 'w) act" where
  "keep_partition found image_size image_buf image_preloaded slot_data ret =
     (if (ret = AVB_SLOT_VERIFY_RESULT_OK \<or> result_should_continue ret) \<and> image_buf \<noteq> None
      then if length (sd_loaded_partitions slot_data) = MAX_NUMBER_OF_LOADED_PARTITIONS
           then retn (AVB_SLOT_VERIFY_RESULT_ERROR_OOM, slot_data)
           else andthen (alloc (avb_strdup found)) (\<lambda>name.
             retn (ret, slot_data\<lparr>sd_loaded_partitions := sd_loaded_partitions slot_data @
               [\<lparr>pd_partition_name = name, pd_data = image_buf, pd_data_size = image_size,
                 pd_preloaded = image_preloaded\<rparr>]\<rparr>))
      else retn (ret, slot_data))"

text \<open>
  From the name of the partition on: size, load, digest, comparison. \<open>desc_salt\<close> and \<open>desc_digest\<close> are the
  memory from the descriptor's salt and digest on.
\<close>

definition verify_hash_partition ::
    "'w AvbOps \<Rightarrow> bool \<Rightarrow> AvbHashDescriptor \<Rightarrow> bytes \<Rightarrow> bytes \<Rightarrow> bytes \<Rightarrow> bytes \<Rightarrow> AvbSlotVerifyData \<Rightarrow>
     (AvbSlotVerifyResult \<times> AvbSlotVerifyData, 'w) act" where
  "verify_hash_partition ops allow_verification_error hash_desc desc_salt desc_digest found part_name slot_data =
     andthen (if allow_verification_error
              then call (get_size_of_partition ops) (\<lambda>f. f part_name)
              else retn (AVB_IO_RESULT_OK, hd_image_size hash_desc)) (\<lambda>(io_ret, image_size).
     case io_error io_ret of Some e \<Rightarrow> retn (e, slot_data) | None \<Rightarrow>
     andthen (load_full_partition ops part_name image_size None False) (\<lambda>(ret, image_buf, image_preloaded).
     let out = keep_partition found image_size image_buf image_preloaded slot_data in
     if ret \<noteq> AVB_SLOT_VERIFY_RESULT_OK then out ret
     else let image_size_to_hash = (if hd_image_size hash_desc > image_size then image_size else hd_image_size hash_desc) in
     andthen (pure (deref image_buf (\<lambda>(_, buf).
        hash_partition_digest (hd_hash_algorithm hash_desc) desc_salt (ucast (hd_salt_len hash_desc)) buf image_size_to_hash)))
       (\<lambda>computed. case computed of None \<Rightarrow> out AVB_SLOT_VERIFY_RESULT_ERROR_INVALID_METADATA
     | Some (digest, digest_len) \<Rightarrow>
     andthen (if hd_digest_len hash_desc = 0
              then asserting (digest_len \<le> AVB_SHA512_DIGEST_SIZE)
                (andthen (read_persistent_digest ops part_name digest_len (Some digest)) (\<lambda>(ret, expected_digest).
                  retn (ret, digest_len, expected_digest)))
              else retn (AVB_SLOT_VERIFY_RESULT_OK, unat (hd_digest_len hash_desc), desc_digest))
       (\<lambda>(ret, expected_digest_len, expected_digest).
     if ret \<noteq> AVB_SLOT_VERIFY_RESULT_OK then out ret
     else if digest_len \<noteq> expected_digest_len then out AVB_SLOT_VERIFY_RESULT_ERROR_INVALID_METADATA
     else andthen (pure (avb_safe_memcmp digest expected_digest digest_len)) (\<lambda>c.
     if c \<noteq> 0 then out AVB_SLOT_VERIFY_RESULT_ERROR_VERIFICATION
     else out AVB_SLOT_VERIFY_RESULT_OK)))))"

text \<open>The name of the partition a hash descriptor is about: \<open>None\<close> when it is refused.\<close>

definition hash_part_name :: "AvbHashDescriptor \<Rightarrow> bytes \<Rightarrow> bytes \<Rightarrow> bytes option res" where
  "hash_part_name hash_desc desc_partition_name ab_suffix =
     (if hd_flags hash_desc AND AVB_HASH_DESCRIPTOR_FLAGS_DO_NOT_USE_AB \<noteq> 0
      then if unat (hd_partition_name_len hash_desc) \<ge> AVB_PART_NAME_MAX_SIZE then Ok None
           else bnd (avb_memcpy (replicate AVB_PART_NAME_MAX_SIZE 0) 0 desc_partition_name
                       (unat (hd_partition_name_len hash_desc))) (\<lambda>buf.
                bnd (cstr (buf[unat (hd_partition_name_len hash_desc) := 0])) (\<lambda>s. Ok (Some s)))
      else if hd_digest_len hash_desc = 0 \<and> length ab_suffix \<noteq> 0 then Ok None
      else part_name_concat desc_partition_name (ucast (hd_partition_name_len hash_desc)) ab_suffix)"

text \<open>\<open>descriptor\<close> is the memory from the descriptor on.\<close>

definition load_and_verify_hash_partition ::
    "'w AvbOps \<Rightarrow> bytes list option \<Rightarrow> bytes \<Rightarrow> bool \<Rightarrow> bytes \<Rightarrow> AvbSlotVerifyData \<Rightarrow>
     (AvbSlotVerifyResult \<times> AvbSlotVerifyData, 'w) act" where
  "load_and_verify_hash_partition ops requested_partitions ab_suffix allow_verification_error descriptor slot_data =
     (let invalid = retn (AVB_SLOT_VERIFY_RESULT_ERROR_INVALID_METADATA, slot_data) in
      andthen (pure (load_AvbHashDescriptor descriptor)) (\<lambda>src.
      case avb_hash_descriptor_validate_and_byteswap src of (ok, hash_desc) \<Rightarrow>
      if \<not> ok then invalid
      else let desc_partition_name = drop sizeof_AvbHashDescriptor descriptor;
               desc_salt = drop (unat (hd_partition_name_len hash_desc)) desc_partition_name;
               desc_digest = drop (unat (hd_salt_len hash_desc)) desc_salt
      in andthen (pure (avb_validate_utf8 desc_partition_name (unat (hd_partition_name_len hash_desc)))) (\<lambda>utf8.
      if \<not> utf8 then invalid
      else andthen (pure (deref requested_partitions (\<lambda>r.
             avb_strv_find_str r desc_partition_name (unat (hd_partition_name_len hash_desc))))) (\<lambda>found.
      case found of None \<Rightarrow> retn (AVB_SLOT_VERIFY_RESULT_OK, slot_data) | Some found \<Rightarrow>
      andthen (pure (hash_part_name hash_desc desc_partition_name ab_suffix)) (\<lambda>part_name.
      case part_name of None \<Rightarrow> invalid | Some part_name \<Rightarrow>
      verify_hash_partition ops allow_verification_error hash_desc desc_salt desc_digest found part_name slot_data)))))"

fun load_requested_loop ::
    "'w AvbOps \<Rightarrow> bytes \<Rightarrow> bytes list \<Rightarrow> AvbSlotVerifyData \<Rightarrow> (AvbSlotVerifyResult \<times> AvbSlotVerifyData, 'w) act" where
  "load_requested_loop ops ab_suffix [] slot_data = retn (AVB_SLOT_VERIFY_RESULT_OK, slot_data)"
| "load_requested_loop ops ab_suffix (requested # requested_rest) slot_data =
     andthen (pure (part_name_concat requested (of_nat (length requested)) ab_suffix)) (\<lambda>part_name.
     case part_name of None \<Rightarrow> retn (AVB_SLOT_VERIFY_RESULT_ERROR_INVALID_METADATA, slot_data) | Some part_name \<Rightarrow>
     andthen (call (get_size_of_partition ops) (\<lambda>f. f part_name)) (\<lambda>(io_ret, image_size).
     case io_error io_ret of Some e \<Rightarrow> retn (e, slot_data) | None \<Rightarrow>
     andthen (load_full_partition ops part_name image_size None False) (\<lambda>(ret, image_buf, image_preloaded).
     if ret \<noteq> AVB_SLOT_VERIFY_RESULT_OK then retn (ret, slot_data)
     else if length (sd_loaded_partitions slot_data) = MAX_NUMBER_OF_LOADED_PARTITIONS
     then retn (AVB_SLOT_VERIFY_RESULT_ERROR_OOM, slot_data)
     else andthen (alloc (avb_strdup requested)) (\<lambda>name.
     if name = None
     then retn (AVB_SLOT_VERIFY_RESULT_ERROR_OOM,
       slot_data\<lparr>sd_loaded_partitions := sd_loaded_partitions slot_data @
         [\<lparr>pd_partition_name = None, pd_data = None, pd_data_size = 0, pd_preloaded = False\<rparr>]\<rparr>)
     else load_requested_loop ops ab_suffix requested_rest
       (slot_data\<lparr>sd_loaded_partitions := sd_loaded_partitions slot_data @
         [\<lparr>pd_partition_name = name, pd_data = image_buf, pd_data_size = image_size,
           pd_preloaded = image_preloaded\<rparr>]\<rparr>)))))"

definition load_requested_partitions ::
    "'w AvbOps \<Rightarrow> bytes list option \<Rightarrow> bytes \<Rightarrow> AvbSlotVerifyData \<Rightarrow>
     (AvbSlotVerifyResult \<times> AvbSlotVerifyData, 'w) act" where
  "load_requested_partitions ops requested_partitions ab_suffix slot_data =
     (case requested_partitions of None \<Rightarrow> pure (Fault BadAccess)
      | Some r \<Rightarrow> load_requested_loop ops ab_suffix r slot_data)"

section \<open>What a verified partition satisfies\<close>

text \<open>The hash function a descriptor names.\<close>

definition hash_named :: "bytes \<Rightarrow> (bytes \<Rightarrow> bytes) option" where
  "hash_named alg =
     (if avb_strcmp alg (lit ''sha256'') = Ok 0 then Some sha256
      else if avb_strcmp alg (lit ''sha512'') = Ok 0 then Some sha512 else None)"

lemmas sha256_two_Ok = sha256_stream.stream.stream2_Ok [OF fresh_shapes(1), unfolded digests]
lemmas sha512_two_Ok = sha512_stream.stream.stream2_Ok [OF fresh_shapes(2), unfolded digests]

lemma hash_partition_digest_Ok:
  assumes R: "hash_partition_digest alg salt sl img n = Ok (Some (d, dl))" and B: "unat sl + unat n < 2 ^ 61"
  shows "\<exists>H. hash_named alg = Some H \<and> unat sl \<le> length salt \<and> unat n \<le> length img \<and>
    d = H (take (unat sl) salt @ take (unat n) img) \<and> dl = length d"
proof -
  obtain c where c: "avb_strcmp alg (lit ''sha256'') = Ok c"
    using R by (auto simp: hash_partition_digest_def bnd_eq_Ok)
  show ?thesis
  proof (cases "c = 0")
    case True
    then obtain c' where "bnd (avb_sha256_update (avb_sha256_init fresh_sha256) salt (of_nat (unat sl)))
        (\<lambda>c. bnd (avb_sha256_update c img (of_nat (unat n))) avb_sha256_final) = Ok (d, c')" "dl = AVB_SHA256_DIGEST_SIZE"
      using R c by (auto simp: hash_partition_digest_def bnd_eq_Ok)
    with sha256_two_Ok [OF B this(1)] show ?thesis
      using True c by (auto simp: hash_named_def sha256_size)
  next
    case False
    then obtain c' where "bnd (avb_sha512_update (avb_sha512_init fresh_sha512) salt (of_nat (unat sl)))
        (\<lambda>c. bnd (avb_sha512_update c img (of_nat (unat n))) avb_sha512_final) = Ok (d, c')" "dl = AVB_SHA512_DIGEST_SIZE"
        "avb_strcmp alg (lit ''sha512'') = Ok 0"
      using R c by (auto simp: hash_partition_digest_def bnd_eq_Ok split: if_splits)
    with sha512_two_Ok [OF B this(1)] show ?thesis
      using False c by (auto simp: hash_named_def sha512_size)
  qed
qed

text \<open>The variable-length fields of the hash descriptor at the start of \<open>desc\<close>.\<close>

definition hd_name :: "bytes \<Rightarrow> AvbHashDescriptor \<Rightarrow> bytes" where
  "hd_name desc d = take (unat (hd_partition_name_len d)) (drop sizeof_AvbHashDescriptor desc)"

definition hd_salt :: "bytes \<Rightarrow> AvbHashDescriptor \<Rightarrow> bytes" where
  "hd_salt desc d = take (unat (hd_salt_len d))
     (drop (unat (hd_partition_name_len d)) (drop sizeof_AvbHashDescriptor desc))"

definition hd_digest :: "bytes \<Rightarrow> AvbHashDescriptor \<Rightarrow> bytes" where
  "hd_digest desc d = take (unat (hd_digest_len d)) (drop (unat (hd_salt_len d))
     (drop (unat (hd_partition_name_len d)) (drop sizeof_AvbHashDescriptor desc)))"

text \<open>The digest is the one in the descriptor or, when that is empty, one the host keeps.\<close>

definition digest_expected :: "'w AvbOps \<Rightarrow> ('w \<Rightarrow> bool) \<Rightarrow> bytes \<Rightarrow> AvbHashDescriptor \<Rightarrow> bytes \<Rightarrow> bool" where
  "digest_expected ops I desc d dig \<longleftrightarrow>
     (if hd_digest_len d = 0
      then \<exists>f name w stored num w'. read_persistent_value ops = Some f \<and> I w \<and>
        f name (of_nat (length dig)) w = Ok ((AVB_IO_RESULT_OK, stored, num), w') \<and> take (length dig) stored = dig
      else hd_digest desc d = dig)"

definition partition_matches :: "'w AvbOps \<Rightarrow> ('w \<Rightarrow> bool) \<Rightarrow> bytes \<Rightarrow> AvbPartitionData \<Rightarrow> bool" where
  "partition_matches ops I desc p \<longleftrightarrow> (\<exists>src d H a data.
     load_AvbHashDescriptor desc = Ok src \<and> avb_hash_descriptor_validate_and_byteswap src = (True, d) \<and>
     hash_named (hd_hash_algorithm d) = Some H \<and> pd_data p = Some (a, data) \<and> pd_data_size p = hd_image_size d \<and>
     (pd_partition_name p = None \<or> pd_partition_name p = Some (hd_name desc d)) \<and>
     (unat (hd_image_size d) < 2 ^ 60 \<longrightarrow> unat (hd_image_size d) \<le> length data \<and>
        digest_expected ops I desc d (H (hd_salt desc d @ take (unat (hd_image_size d)) data))))"

lemma strv_find_str_Some:
  "avb_strv_find_str strs s n = Ok (Some x) \<Longrightarrow> x = take n s"
proof (induction strs s n rule: avb_strv_find_str.induct)
  case (2 y strs s n)
  then show ?case
    by (auto simp: bnd_eq_Ok avb_memcmp_def memcmp_sign_zero split: if_splits)
qed simp

lemma safe_memcmp_loop_Ok: "safe_memcmp_loop n xs ys r = Ok c \<Longrightarrow> n \<le> length xs \<and> n \<le> length ys"
  by (induction n xs ys r rule: safe_memcmp_loop.induct) auto

lemma safe_memcmp_Ok:
  assumes "avb_safe_memcmp xs ys n = Ok 0"
  shows "n \<le> length xs" "n \<le> length ys" "take n xs = take n ys"
proof -
  show l: "n \<le> length xs" "n \<le> length ys"
    using assms safe_memcmp_loop_Ok by (auto simp: avb_safe_memcmp_def bnd_eq_Ok split: if_splits)
  show "take n xs = take n ys"
    using assms avb_safe_memcmp_eq [OF l] by (simp split: if_splits)
qed

text \<open>The slot data with one more partition.\<close>

definition add_partition :: "AvbSlotVerifyData \<Rightarrow> AvbPartitionData \<Rightarrow> AvbSlotVerifyData \<Rightarrow> bool" where
  "add_partition slot p slot' \<longleftrightarrow> length (sd_loaded_partitions slot) \<noteq> MAX_NUMBER_OF_LOADED_PARTITIONS \<and>
     slot' = slot\<lparr>sd_loaded_partitions := sd_loaded_partitions slot @ [p]\<rparr>"

text \<open>
  Whatever the verdict, partitions are only added, at most 32 are kept, and those added satisfy \<open>P\<close>.
\<close>

definition grows :: "(AvbPartitionData \<Rightarrow> bool) \<Rightarrow> AvbSlotVerifyData \<Rightarrow> AvbSlotVerifyData \<Rightarrow> bool" where
  "grows P slot slot' \<longleftrightarrow>
     (\<exists>ps. slot' = slot\<lparr>sd_loaded_partitions := sd_loaded_partitions slot @ ps\<rparr> \<and> (\<forall>p\<in>set ps. P p)) \<and>
     (length (sd_loaded_partitions slot) \<le> MAX_NUMBER_OF_LOADED_PARTITIONS \<longrightarrow>
      length (sd_loaded_partitions slot') \<le> MAX_NUMBER_OF_LOADED_PARTITIONS)"

lemma grows_refl [simp]: "grows P slot slot"
  by (auto simp: grows_def intro: exI [of _ "[]"])

lemma grows_add: "add_partition slot p slot' \<Longrightarrow> P p \<Longrightarrow> grows P slot slot'"
  by (auto simp: grows_def add_partition_def intro: exI [of _ "[p]"])

lemma grows_trans:
  assumes "grows P a b" "grows P b c" shows "grows P a c"
proof -
  obtain ps qs where "b = a\<lparr>sd_loaded_partitions := sd_loaded_partitions a @ ps\<rparr>" "\<forall>p\<in>set ps. P p"
      "c = b\<lparr>sd_loaded_partitions := sd_loaded_partitions b @ qs\<rparr>" "\<forall>p\<in>set qs. P p"
    using assms unfolding grows_def by blast
  then have "c = a\<lparr>sd_loaded_partitions := sd_loaded_partitions a @ (ps @ qs)\<rparr>" "\<forall>p\<in>set (ps @ qs). P p"
    by auto
  with assms show ?thesis unfolding grows_def by blast
qed

text \<open>
  The partition \<open>full\<close> that is read for the partition \<open>name\<close> of a descriptor: with or without the suffix,
  when both are proper strings.
\<close>

definition named :: "bytes \<Rightarrow> bytes \<Rightarrow> bytes \<Rightarrow> bool" where
  "named suffix name full \<longleftrightarrow>
     (cstring name \<and> length name < 2 ^ 64 \<and> cstring suffix \<and> length suffix < 2 ^ 64 \<longrightarrow>
       full = name \<or> full = name @ suffix)"

lemma part_name_concat_named:
  assumes "part_name_concat nm n suffix = Ok (Some full)"
  shows "named suffix (take (unat n) nm) full"
proof -
  let ?m = "unat (of_nat (length suffix) :: u64)"
  obtain buf where b: "avb_str_concat (replicate AVB_PART_NAME_MAX_SIZE 0) (of_nat AVB_PART_NAME_MAX_SIZE) nm n suffix
      (of_nat (length suffix)) = Ok (True, buf)" "cstr buf = Ok full"
    using assms by (auto simp: part_name_concat_def bnd_eq_Ok split: if_splits)
  then obtain r where r: "buf = take (unat n) nm @ take ?m suffix @ 0 # r"
    by (auto simp: avb_str_concat_def split: prod.splits if_splits bool.splits)
  show ?thesis
    unfolding named_def
  proof
    assume s: "cstring (take (unat n) nm) \<and> length (take (unat n) nm) < 2 ^ 64 \<and> cstring suffix \<and> length suffix < 2 ^ 64"
    then have "?m = length suffix" by (simp add: unsigned_of_nat take_bit_nat_eq_self)
    with s r b(2) show "full = take (unat n) nm \<or> full = take (unat n) nm @ suffix"
      using cstr_terminated [of "take (unat n) nm @ suffix" r] by simp
  qed
qed

lemma hash_part_name_named:
  assumes "hash_part_name d nm suffix = Ok (Some full)"
  shows "named suffix (take (unat (hd_partition_name_len d)) nm) full"
proof (cases "hd_flags d AND AVB_HASH_DESCRIPTOR_FLAGS_DO_NOT_USE_AB \<noteq> 0")
  case True
  let ?n = "unat (hd_partition_name_len d)"
  obtain buf where b: "avb_memcpy (replicate AVB_PART_NAME_MAX_SIZE 0) 0 nm ?n = Ok buf" "cstr (buf[?n := 0]) = Ok full"
      "?n < AVB_PART_NAME_MAX_SIZE"
    using assms True by (auto simp: hash_part_name_def bnd_eq_Ok split: if_splits)
  then have l: "?n \<le> length nm" "buf = take ?n nm @ replicate (AVB_PART_NAME_MAX_SIZE - ?n) 0"
    by (auto simp: avb_memcpy_def split: if_splits)
  obtain r where "buf[?n := 0] = take ?n nm @ 0 # r"
    using b(3) l by (cases "AVB_PART_NAME_MAX_SIZE - ?n") (auto simp: list_update_append)
  with b(2) show ?thesis
    unfolding named_def using cstr_terminated by auto
next
  case False
  then show ?thesis
    using assms part_name_concat_named [of nm "ucast (hd_partition_name_len d)" suffix full]
    by (auto simp: hash_part_name_def unat_ucast_up split: if_splits)
qed

section \<open>Verified partitions\<close>

context host
begin

lemma load_full_calm [avb_calm]: "post I (load_full_partition ops part n buf pre) (\<lambda>_. True)"
  unfolding load_full_partition_def Let_def by (rule avb_post | simp)+

lemma persistent_by_post:
  assumes "\<And>a b c d. post I (init a b c d) (\<lambda>(ret, out). ret = AVB_SLOT_VERIFY_RESULT_OK \<longrightarrow>
      (\<exists>f name w num w'. read_persistent_value ops = Some f \<and> I w \<and>
        f name (of_nat c) w = Ok ((AVB_IO_RESULT_OK, out, num), w')))"
  shows "post I (read_persistent_digest_by init ops part n initial) (\<lambda>(ret, out). ret = AVB_SLOT_VERIFY_RESULT_OK \<longrightarrow>
      (\<exists>f name w num w'. read_persistent_value ops = Some f \<and> I w \<and>
        f name (of_nat n) w = Ok ((AVB_IO_RESULT_OK, out, num), w')))"
  unfolding read_persistent_digest_by_def
  by (intro avb_post assms) auto

lemma persistent_post:
  "post I (read_persistent_digest ops part n initial) (\<lambda>(ret, out). ret = AVB_SLOT_VERIFY_RESULT_OK \<longrightarrow>
      (\<exists>f name w num w'. read_persistent_value ops = Some f \<and> I w \<and>
        f name (of_nat n) w = Ok ((AVB_IO_RESULT_OK, out, num), w')))"
  unfolding read_persistent_digest_def
proof (rule persistent_by_post)
  have none: "post I (pure (Fault OutOfFuel)) Q" for Q :: "AvbSlotVerifyResult \<times> bytes \<Rightarrow> bool"
    by (simp add: post_def pure_def)
  show "post I (initialize_persistent_digest ops a b c d) (\<lambda>(ret, out). ret = AVB_SLOT_VERIFY_RESULT_OK \<longrightarrow>
      (\<exists>f name w num w'. read_persistent_value ops = Some f \<and> I w \<and>
        f name (of_nat c) w = Ok ((AVB_IO_RESULT_OK, out, num), w')))" for a b c d
    unfolding initialize_persistent_digest_def
    by (intro avb_post persistent_by_post none) (auto simp: io_error_def split: if_splits)
qed

lemma persistent_calm [avb_calm]: "post I (read_persistent_digest ops part n initial) (\<lambda>_. True)"
  by (rule post_weaken [OF persistent_post]) simp

lemma keep_partition_post:
  "post I (keep_partition found size' buf pre slot ret) (\<lambda>(ret', slot'). slot' = slot \<or>
     (ret' = ret \<and> (\<exists>name. (name = None \<or> name = Some found) \<and>
        add_partition slot \<lparr>pd_partition_name = name, pd_data = buf, pd_data_size = size', pd_preloaded = pre\<rparr> slot')))"
  unfolding keep_partition_def
  by (intro avb_post) (auto simp: add_partition_def avb_strdup_def split: prod.splits option.splits)

lemma verify_hash_partition_post:
  assumes D: "load_AvbHashDescriptor desc = Ok src" "avb_hash_descriptor_validate_and_byteswap src = (True, d)"
    and S: "salt = drop (unat (hd_partition_name_len d)) (drop sizeof_AvbHashDescriptor desc)"
      "dig = drop (unat (hd_salt_len d)) salt"
  shows "post I (verify_hash_partition ops False d salt dig (hd_name desc d) part slot) (\<lambda>(ret', slot').
    slot' = slot \<or> (\<exists>p. add_partition slot p slot' \<and> (ret' = AVB_SLOT_VERIFY_RESULT_OK \<longrightarrow> partition_matches ops I desc p)))"
    (is "post I _ ?Q")
proof -
  have keep: "post I (keep_partition (hd_name desc d) (hd_image_size d) buf pre slot ret) ?Q"
    if "ret = AVB_SLOT_VERIFY_RESULT_OK \<Longrightarrow> (\<And>name. name = None \<or> name = Some (hd_name desc d) \<Longrightarrow>
        partition_matches ops I desc \<lparr>pd_partition_name = name, pd_data = buf, pd_data_size = hd_image_size d, pd_preloaded = pre\<rparr>)"
    for buf pre ret
    by (rule post_weaken [OF keep_partition_post]) (use that in blast)
  have sl: "unat (ucast (hd_salt_len d) :: u64) = unat (hd_salt_len d)" by simp
  have match: "partition_matches ops I desc \<lparr>pd_partition_name = name, pd_data = Some (a, data), pd_data_size = hd_image_size d, pd_preloaded = pre\<rparr>"
    if n: "name = None \<or> name = Some (hd_name desc d)"
      and h: "hash_partition_digest (hd_hash_algorithm d) salt (ucast (hd_salt_len d)) data (hd_image_size d) = Ok (Some (digest, digest_len))"
      and e: "unat (hd_image_size d) < 2 ^ 60 \<Longrightarrow> digest_len = length digest \<Longrightarrow> digest_expected ops I desc d digest"
    for name a data pre digest digest_len
  proof -
    have "\<exists>H. hash_named (hd_hash_algorithm d) = Some H"
      using h by (auto simp: hash_partition_digest_def hash_named_def bnd_eq_Ok split: if_splits)
    moreover have "\<exists>H. hash_named (hd_hash_algorithm d) = Some H \<and> unat (hd_image_size d) \<le> length data \<and>
        digest_expected ops I desc d (H (hd_salt desc d @ take (unat (hd_image_size d)) data))" if "unat (hd_image_size d) < 2 ^ 60"
      using hash_partition_digest_Ok [OF h] that unat_u32_less [of "hd_salt_len d"] e [OF that] S(1) by (auto simp: hd_salt_def)
    ultimately show ?thesis
      using D n unfolding partition_matches_def by fastforce
  qed
  let ?P = "\<lambda>digest_len (ret, len, expected). ret = AVB_SLOT_VERIFY_RESULT_OK \<longrightarrow> (if hd_digest_len d = 0
      then len = digest_len \<and> (\<exists>f name w num w'. read_persistent_value ops = Some f \<and> I w \<and>
        f name (of_nat digest_len) w = Ok ((AVB_IO_RESULT_OK, expected, num), w'))
      else len = unat (hd_digest_len d) \<and> expected = dig)"
  have expect: "post I (if hd_digest_len d = 0
      then asserting (digest_len \<le> AVB_SHA512_DIGEST_SIZE)
        (andthen (read_persistent_digest ops part digest_len (Some digest)) (\<lambda>(ret, expected). retn (ret, digest_len, expected)))
      else retn (AVB_SLOT_VERIFY_RESULT_OK, unat (hd_digest_len d), dig)) (?P digest_len)" for digest digest_len
    by (intro post_if post_asserting post_andthen [OF persistent_post] post_prod post_retn) auto
  have ok: "digest_expected ops I desc d digest"
    if "avb_safe_memcmp digest expected (length digest) = Ok 0" "if hd_digest_len d = 0
      then length digest = length digest \<and> (\<exists>f name w num w'. read_persistent_value ops = Some f \<and> I w \<and>
        f name (of_nat (length digest)) w = Ok ((AVB_IO_RESULT_OK, expected, num), w'))
      else length digest = unat (hd_digest_len d) \<and> expected = dig"
    for digest expected
  proof (cases "hd_digest_len d = 0")
    case True
    then show ?thesis
      using that(2) safe_memcmp_Ok(3) [OF that(1)] by (simp add: digest_expected_def) metis
  next
    case False
    then show ?thesis
      using that(2) safe_memcmp_Ok(3) [OF that(1)] S by (simp add: digest_expected_def hd_digest_def)
  qed
  show ?thesis
    unfolding verify_hash_partition_def if_False andthen_retn split_conv io_error_OK option.case Let_def less_irrefl
    apply (rule post_seq [OF load_full_calm], rule post_prod, rule post_prod, rule post_if, rule keep, simp)
    apply (rule post_pure, rule post_option, rule keep, simp)
    apply (rule post_prod, rule post_andthen [OF expect])
    apply (rule post_prod, rule post_prod)
    apply (rule post_if, rule keep, simp)
    apply (rule post_if, rule keep, simp)
    apply (rule post_pure, rule post_if, rule keep, simp)
    apply (rule keep)
    apply (auto simp only: deref_eq_Ok if_cancel not_not intro!: match intro: ok)
    done
qed

lemma hash_partition_post:
  "post I (load_and_verify_hash_partition ops requested ab_suffix False desc slot) (\<lambda>(ret', slot').
    slot' = slot \<or> (\<exists>p. add_partition slot p slot' \<and> (ret' = AVB_SLOT_VERIFY_RESULT_OK \<longrightarrow> partition_matches ops I desc p)))"
proof -
  have found: "x = hd_name desc d"
    if "deref requested (\<lambda>r. avb_strv_find_str r (drop sizeof_AvbHashDescriptor desc) (unat (hd_partition_name_len d))) = Ok (Some x)"
    for x d
    using that strv_find_str_Some unfolding deref_eq_Ok hd_name_def by blast
  show ?thesis
    unfolding load_and_verify_hash_partition_def Let_def
    by (intro avb_post) (auto dest!: found intro: verify_hash_partition_post)
qed

lemma load_full_fails:
  "post I (load_full_partition ops part n None False) (\<lambda>(ret, buf, pre).
    ret \<noteq> AVB_SLOT_VERIFY_RESULT_OK \<longrightarrow> \<not> result_should_continue ret)"
proof -
  have e: "io_error r = Some e \<Longrightarrow> \<not> result_should_continue e" for r e
    by (auto simp: io_error_def split: if_splits)
  show ?thesis
    unfolding load_full_partition_def Let_def
    by (rule avb_post | simp | (drule e, simp))+
qed

end

text \<open>
  A partition entry of the slot data: the bytes read for the partition of that name (any name when
  memory was short for it), where \<open>L\<close> is what the host guarantees of the bytes it loads; or the empty
  entry that is left when memory is short for the name of a partition loaded without verification.
\<close>

definition loaded :: "(bytes \<Rightarrow> u64 \<Rightarrow> (u64 \<times> bytes) option \<Rightarrow> bool) \<Rightarrow> bytes \<Rightarrow> AvbPartitionData \<Rightarrow> bool" where
  "loaded L suffix p \<longleftrightarrow> pd_data p = None \<or> (\<exists>name full. (pd_partition_name p = None \<or> pd_partition_name p = Some name) \<and>
     named suffix name full \<and> L full (pd_data_size p) (pd_data p))"

locale loader = host ops I for ops :: "'w AvbOps" and I +
  fixes L :: "bytes \<Rightarrow> u64 \<Rightarrow> (u64 \<times> bytes) option \<Rightarrow> bool"
  assumes loads: "post I (load_full_partition ops part n None False)
    (\<lambda>(ret, buf, pre). ret = AVB_SLOT_VERIFY_RESULT_OK \<longrightarrow> L part n buf)"
begin

lemma load_full: "post I (load_full_partition ops part n None False)
    (\<lambda>(ret, buf, pre). result_should_continue ret \<longrightarrow> L part n buf)"
  using loads [of part n] load_full_fails [of part n] unfolding post_def by fast

lemma keep_partition_grows:
  assumes "result_should_continue ret \<Longrightarrow> L part n buf" "named suffix found part"
  shows "post I (keep_partition found n buf pre slot ret) (\<lambda>(ret', slot'). grows (loaded L suffix) slot slot')"
proof (cases "result_should_continue ret")
  case True
  then have "loaded L suffix \<lparr>pd_partition_name = name, pd_data = buf, pd_data_size = n, pd_preloaded = pre\<rparr>"
    if "name = None \<or> name = Some found" for name
    using assms that by (auto simp: loaded_def)
  then show ?thesis
    by (intro post_weaken [OF keep_partition_post]) (auto intro: grows_add)
next
  case False
  then show ?thesis
    unfolding keep_partition_def by (intro post_if post_retn) auto
qed

lemma verify_hash_partition_grows:
  assumes "named suffix found part"
  shows "post I (verify_hash_partition ops allow d salt dig found part slot)
    (\<lambda>(ret', slot'). grows (loaded L suffix) slot slot')"
  unfolding verify_hash_partition_def Let_def
  by (rule keep_partition_grows [OF _ assms] post_andthen [OF load_full] post_seq [OF persistent_calm] avb_post | simp)+

lemma hash_partition_grows:
  "post I (load_and_verify_hash_partition ops requested suffix allow desc slot)
    (\<lambda>(ret', slot'). grows (loaded L suffix) slot slot')"
proof -
  have "named suffix x s"
    if "deref requested (\<lambda>r. avb_strv_find_str r (drop sizeof_AvbHashDescriptor desc) (unat (hd_partition_name_len d))) = Ok (Some x)"
      "hash_part_name d (drop sizeof_AvbHashDescriptor desc) suffix = Ok (Some s)" for x s d
    using that(1) hash_part_name_named [OF that(2)] strv_find_str_Some unfolding deref_eq_Ok by blast
  then show ?thesis
    unfolding load_and_verify_hash_partition_def Let_def
    by (intro avb_post) (simp_all add: verify_hash_partition_grows)
qed

lemma load_requested_grows:
  "post I (load_requested_loop ops suffix rs slot) (\<lambda>(ret', slot'). grows (loaded L suffix) slot slot')"
proof (induction rs arbitrary: slot)
  case (Cons r rs)
  have rest: "post I (load_requested_loop ops suffix rs
      (slot\<lparr>sd_loaded_partitions := sd_loaded_partitions slot @ [p]\<rparr>)) (\<lambda>(ret', slot'). grows (loaded L suffix) slot slot')"
    if "length (sd_loaded_partitions slot) \<noteq> MAX_NUMBER_OF_LOADED_PARTITIONS" "loaded L suffix p" for p
    by (rule post_weaken [OF Cons.IH])
      (use that in \<open>auto intro: grows_trans [OF grows_add [of slot p]] simp: add_partition_def\<close>)
  have empty: "post I (retn (e, slot\<lparr>sd_loaded_partitions := sd_loaded_partitions slot @
      [\<lparr>pd_partition_name = None, pd_data = None, pd_data_size = 0, pd_preloaded = False\<rparr>]\<rparr>))
      (\<lambda>(ret', slot'). grows (loaded L suffix) slot slot')"
    if "length (sd_loaded_partitions slot) \<noteq> MAX_NUMBER_OF_LOADED_PARTITIONS" for e
    using that by (intro post_retn) (auto intro!: grows_add simp: add_partition_def loaded_def)
  have entry: "loaded L suffix \<lparr>pd_partition_name = name, pd_data = buf, pd_data_size = n, pd_preloaded = pre\<rparr>"
    if "part_name_concat r (of_nat (length r)) suffix = Ok (Some s)" "L s n buf" "avb_strdup r h = (name, h')"
    for name buf n pre s h h'
  proof -
    have "named suffix r s"
      using part_name_concat_named [OF that(1)] unfolding named_def by (auto simp: unsigned_of_nat take_bit_nat_eq_self)
    then show ?thesis using that(2,3) by (auto simp: loaded_def avb_strdup_def split: prod.splits option.splits)
  qed
  show ?case
    unfolding load_requested_loop.simps
    apply (rule post_pure, rule post_option, rule post_retn, simp)
    apply (rule post_size, rule post_prod, rule post_option)
     apply (rule post_andthen [OF load_full], rule post_prod, rule post_prod)
     apply (rule post_if, rule post_retn, simp)
     apply (rule post_if, rule post_retn, simp)
     apply (rule post_alloc, rule post_if, rule empty, simp)
     apply (hypsubst, rule rest, simp, rule entry, assumption, simp, assumption)
    apply (rule post_retn, simp)
    done
qed (simp add: post_retn)

end

sublocale host \<subseteq> any: loader ops I "\<lambda>_ _ _. True"
  by unfold_locales (rule post_weaken [OF load_full_calm], simp split: prod.splits)

section \<open>Hosts with partitions\<close>

text \<open>
  A host whose partitions have fixed contents as long as \<open>I\<close> holds: a read of the first \<open>n\<close> bytes that
  says it delivered them all did, and a preloaded partition is what reading would give.
\<close>

definition holds :: "(bytes \<Rightarrow> bytes option) \<Rightarrow> bytes \<Rightarrow> u64 \<Rightarrow> (u64 \<times> bytes) option \<Rightarrow> bool" where
  "holds contents part n buf \<longleftrightarrow> (\<exists>a b c. buf = Some (a, b) \<and> contents part = Some c \<and>
     unat n \<le> length c \<and> unat n \<le> length b \<and> take (unat n) b = take (unat n) c)"

locale store = host ops I for ops :: "'w AvbOps" and I +
  fixes contents :: "bytes \<Rightarrow> bytes option"
  assumes read_contents: "read_from_partition ops = Some fread \<Longrightarrow> I w \<Longrightarrow>
      fread part 0 n w = Ok ((AVB_IO_RESULT_OK, data, n), w') \<Longrightarrow>
      \<exists>c. contents part = Some c \<and> unat n \<le> length c \<and> data = take (unat n) c"
    and preloaded_contents: "get_preloaded_partition ops = Some fpre \<Longrightarrow> I w \<Longrightarrow>
      fpre part n w = Ok ((AVB_IO_RESULT_OK, Some (a, b), n), w') \<Longrightarrow> holds contents part n (Some (a, b))"

sublocale store \<subseteq> stored: loader ops I "holds contents"
proof unfold_locales
  fix part n
  have copied: "holds contents part n (Some (a, buf))"
    if "read_from_partition ops = Some g" "I w" "g part 0 n w = Ok ((io, data, n), w')" "io_error io = None"
      "filled buf0 data = Ok buf" for g w w' io data a buf buf0
  proof -
    note call = that
    from call(4) have "io = AVB_IO_RESULT_OK" by (simp add: io_error_def split: if_splits)
    with call(3) have "g part 0 n w = Ok ((AVB_IO_RESULT_OK, data, n), w')" by simp
    from read_contents [OF call(1,2) this] obtain c where
      "contents part = Some c" "unat n \<le> length c" "data = take (unat n) c" by blast
    with call(5) show ?thesis by (auto simp: holds_def filled_def split: if_splits)
  qed
  have ready: "holds contents part n ptr"
    if "get_preloaded_partition ops = Some g" "I w" "g part n w = Ok ((io, ptr, n), w')" "io_error io = None" "ptr \<noteq> None"
    for g w w' io ptr
  proof -
    from that(4) have "io = AVB_IO_RESULT_OK" by (simp add: io_error_def split: if_splits)
    with that show ?thesis using preloaded_contents by (cases ptr) auto
  qed
  have failed: "io_error io = Some e \<Longrightarrow> e \<noteq> AVB_SLOT_VERIFY_RESULT_OK" for io e
    by (auto simp: io_error_def split: if_splits)
  show "post I (load_full_partition ops part n None False)
      (\<lambda>(ret, buf, pre). ret = AVB_SLOT_VERIFY_RESULT_OK \<longrightarrow> holds contents part n buf)"
    unfolding load_full_partition_def Let_def
    by (rule avb_post | (rule copied, assumption+) | (rule ready, assumption+) | (clarsimp simp: failed; fail) | clarsimp)+
qed

end
