(* ===== verification/Avb_Slot_Verify.thy ===== *)
theory Avb_Slot_Verify
  imports Avb_Partitions
begin

text \<open>
  Slot verification, the rest of \<open>avb_slot_verify.c\<close>: \<open>load_and_verify_vbmeta\<close> loads a vbmeta image, checks
  it and processes its descriptors, calling itself for the \<open>boot\<close> fallback and for chained partitions;
  \<open>avb_slot_verify\<close> runs it for a slot and completes the kernel command line. \<open>load_and_verify_vbmeta\<close>
  is written as a functional \<open>load_and_verify_vbmeta_with\<close> of the recursive call, iterated by fuel; three
  levels are enough.
\<close>

section \<open>Definitions\<close>

text \<open>
  The arguments every level receives unchanged, those that differ per call, and what a call changes: the
  slot data, \<open>*out_algorithm_type\<close> and \<open>*out_additional_cmdline_subst\<close> (\<open>None\<close> for null). Names and keys
  are the memory from the pointer on.
\<close>

record slot_request =
  rq_requested_partitions :: "bytes list option"
  rq_ab_suffix :: bytes
  rq_flags :: u32
  rq_allow_verification_error :: bool

record vbmeta_args =
  va_toplevel_vbmeta_flags :: u32
  va_rollback_index_location :: int
  va_partition_name :: bytes
  va_partition_name_len :: u64
  va_expected_public_key :: "bytes option"
  va_expected_public_key_length :: u64

record vbmeta_out =
  vo_slot_data :: AvbSlotVerifyData
  vo_algorithm_type :: "u32 option"
  vo_cmdline_subst :: "AvbCmdlineSubstList option"

type_synonym 'w vbmeta_call = "vbmeta_args \<Rightarrow> vbmeta_out \<Rightarrow> (AvbSlotVerifyResult \<times> vbmeta_out, 'w) act"

definition no_vbmeta_partition :: "slot_request \<Rightarrow> bool" where
  "no_vbmeta_partition rq \<longleftrightarrow> rq_flags rq AND AVB_SLOT_VERIFY_FLAGS_NO_VBMETA_PARTITION \<noteq> 0"

definition is_main_vbmeta :: "slot_request \<Rightarrow> vbmeta_args \<Rightarrow> bool" where
  "is_main_vbmeta rq args \<longleftrightarrow> va_rollback_index_location args = 0 \<and> \<not> no_vbmeta_partition rq"

definition look_for_vbmeta_footer :: "vbmeta_args \<Rightarrow> bool res" where
  "look_for_vbmeta_footer args =
     bnd (avb_strncmp (va_partition_name args) (lit ''vbmeta'') (length (str ''vbmeta''))) (\<lambda>c. Ok (c \<noteq> 0))"

definition AVB_SHA1_DIGEST_SIZE :: nat where
  "AVB_SHA1_DIGEST_SIZE = 20"

subsection \<open>Checks of one image\<close>

text \<open>
  Where the image is: offset and size from the footer, or the defaults. A local buffer is the bytes
  written to it: reading further is a fault, as is writing more than it holds.
\<close>

definition find_vbmeta :: "'w AvbOps \<Rightarrow> bytes \<Rightarrow> (AvbSlotVerifyResult + u64 \<times> u64, 'w) act" where
  "find_vbmeta ops full_partition_name =
     andthen (call (read_from_partition ops) (\<lambda>f. f full_partition_name (- int AVB_FOOTER_SIZE) (of_nat AVB_FOOTER_SIZE)))
       (\<lambda>(io_ret, footer_buf, footer_num_read).
     andthen (pure (if length footer_buf \<le> AVB_FOOTER_SIZE then Ok () else Fault BadAccess)) (\<lambda>_.
     case io_error io_ret of Some e \<Rightarrow> retn (Inl e) | None \<Rightarrow>
     asserting (footer_num_read = of_nat AVB_FOOTER_SIZE)
     (andthen (pure (bnd (load_AvbFooter footer_buf) avb_footer_validate_and_byteswap)) (\<lambda>(ok, footer).
      retn (Inr (
        if \<not> ok then (0, of_nat VBMETA_MAX_SIZE)
        else if vbmeta_size footer > of_nat VBMETA_MAX_SIZE then (0, of_nat VBMETA_MAX_SIZE)
        else (vbmeta_offset footer, vbmeta_size footer)))))))"

text \<open>
  The \<open>switch\<close> on the verdict: the result to go on with, or the one to return.
\<close>

definition vbmeta_verdict :: "bool \<Rightarrow> AvbVBMetaVerifyResult \<Rightarrow> AvbSlotVerifyResult + AvbSlotVerifyResult" where
  "vbmeta_verdict allow_verification_error vbmeta_ret =
     (case vbmeta_ret of
        AVB_VBMETA_VERIFY_RESULT_OK \<Rightarrow> Inr AVB_SLOT_VERIFY_RESULT_OK
      | AVB_VBMETA_VERIFY_RESULT_INVALID_VBMETA_HEADER \<Rightarrow> Inl AVB_SLOT_VERIFY_RESULT_ERROR_INVALID_METADATA
      | AVB_VBMETA_VERIFY_RESULT_UNSUPPORTED_VERSION \<Rightarrow> Inl AVB_SLOT_VERIFY_RESULT_ERROR_UNSUPPORTED_VERSION
      | _ \<Rightarrow> if \<not> allow_verification_error then Inl AVB_SLOT_VERIFY_RESULT_ERROR_VERIFICATION
            else Inr AVB_SLOT_VERIFY_RESULT_ERROR_VERIFICATION)"

text \<open>
  A check that failed with \<open>e\<close>: the end, unless verification errors are allowed.
\<close>

definition soft_error :: "bool \<Rightarrow> AvbSlotVerifyResult \<Rightarrow> 'a \<Rightarrow> AvbSlotVerifyResult + AvbSlotVerifyResult \<times> 'a" where
  "soft_error allow_verification_error e x = (if \<not> allow_verification_error then Inl e else Inr (e, x))"

text \<open>
  The public key: \<open>pk\<close> is its offset in the image and its length. Returns the result to go on with and
  the rollback index location to use.
\<close>

definition check_public_key ::
    "'w AvbOps \<Rightarrow> slot_request \<Rightarrow> vbmeta_args \<Rightarrow> bytes \<Rightarrow> bytes \<Rightarrow> AvbVBMetaImageHeader \<Rightarrow> pubkey_out \<Rightarrow>
     AvbSlotVerifyResult \<Rightarrow> (AvbSlotVerifyResult + AvbSlotVerifyResult \<times> u32, 'w) act" where
  "check_public_key ops rq args full_partition_name vbmeta_buf vbmeta_header pk ret =
     (let location = word_of_int (va_rollback_index_location args);
          rejected = soft_error (rq_allow_verification_error rq) AVB_SLOT_VERIFY_RESULT_ERROR_PUBLIC_KEY_REJECTED
      in case pk of None \<Rightarrow> retn (Inr (ret, location)) | Some (pk_ofs, pk_len) \<Rightarrow>
      let pk_data = drop pk_ofs vbmeta_buf
      in case va_expected_public_key args of
        Some expected_public_key \<Rightarrow>
          asserting (\<not> is_main_vbmeta rq args)
          (if va_expected_public_key_length args \<noteq> pk_len then retn (rejected location)
           else andthen (pure (avb_safe_memcmp expected_public_key pk_data (unat pk_len))) (\<lambda>c.
             retn (if c \<noteq> 0 then rejected location else Inr (ret, location))))
      | None \<Rightarrow>
          let (pk_metadata, pk_metadata_len) =
                (if public_key_metadata_size vbmeta_header > 0
                 then (Some (drop (AVB_VBMETA_IMAGE_HEADER_SIZE + unat (authentication_data_block_size vbmeta_header) +
                                   unat (public_key_metadata_offset vbmeta_header)) vbmeta_buf),
                       public_key_metadata_size vbmeta_header)
                 else (None, 0))
          in andthen (if no_vbmeta_partition rq
               then call (validate_public_key_for_partition ops)
                      (\<lambda>f. f full_partition_name pk_data pk_len pk_metadata pk_metadata_len location)
               else asserting (is_main_vbmeta rq args)
                 (andthen (call (validate_vbmeta_public_key ops) (\<lambda>f. f pk_data pk_len pk_metadata pk_metadata_len))
                   (\<lambda>(io_ret, key_is_trusted). retn (io_ret, key_is_trusted, location))))
             (\<lambda>(io_ret, key_is_trusted, location).
           case io_error io_ret of Some e \<Rightarrow> retn (Inl e) | None \<Rightarrow>
           retn (if \<not> key_is_trusted then rejected location else Inr (ret, location))))"

definition check_rollback_index ::
    "'w AvbOps \<Rightarrow> slot_request \<Rightarrow> AvbVBMetaImageHeader \<Rightarrow> u32 \<Rightarrow> AvbSlotVerifyResult \<Rightarrow>
     (AvbSlotVerifyResult + AvbSlotVerifyResult \<times> unit, 'w) act" where
  "check_rollback_index ops rq vbmeta_header location ret =
     andthen (call (read_rollback_index ops) (\<lambda>f. f (ucast location))) (\<lambda>(io_ret, stored_rollback_index).
     case io_error io_ret of Some e \<Rightarrow> retn (Inl e) | None \<Rightarrow>
     retn (if rollback_index vbmeta_header < stored_rollback_index
           then soft_error (rq_allow_verification_error rq) AVB_SLOT_VERIFY_RESULT_ERROR_ROLLBACK_INDEX ()
           else Inr (ret, ())))"

text \<open>A new entry of \<open>vbmeta_images\<close>.\<close>

definition record_image ::
    "bytes option \<Rightarrow> u64 \<times> bytes \<Rightarrow> AvbVBMetaImageHeader \<Rightarrow> AvbVBMetaVerifyResult \<Rightarrow> vbmeta_out \<Rightarrow> vbmeta_out" where
  "record_image name vbmeta_buf vbmeta_header vbmeta_ret out =
     out\<lparr>vo_slot_data := (vo_slot_data out)\<lparr>sd_vbmeta_images := sd_vbmeta_images (vo_slot_data out) @
       [\<lparr>vd_partition_name = name, vd_vbmeta_data = vbmeta_buf,
         vd_vbmeta_size = of_nat AVB_VBMETA_IMAGE_HEADER_SIZE + authentication_data_block_size vbmeta_header +
           auxiliary_data_block_size vbmeta_header,
         vd_verify_result = vbmeta_ret\<rparr>]\<rparr>\<rparr>"

subsection \<open>Descriptors\<close>

text \<open>
  Each case of the loop's \<open>switch\<close> gives whether the loop is left (\<open>goto out\<close>), the result so far, and the
  outputs. \<open>desc\<close> is the memory from the descriptor on.
\<close>

definition hash_descriptor_step ::
    "'w AvbOps \<Rightarrow> slot_request \<Rightarrow> bytes \<Rightarrow> AvbSlotVerifyResult \<Rightarrow> vbmeta_out \<Rightarrow>
     (bool \<times> AvbSlotVerifyResult \<times> vbmeta_out, 'w) act" where
  "hash_descriptor_step ops rq desc ret out =
     andthen (load_and_verify_hash_partition ops (rq_requested_partitions rq) (rq_ab_suffix rq)
                (rq_allow_verification_error rq) desc (vo_slot_data out)) (\<lambda>(sub_ret, slot_data).
     let out = out\<lparr>vo_slot_data := slot_data\<rparr> in
     if sub_ret \<noteq> AVB_SLOT_VERIFY_RESULT_OK
     then retn (\<not> rq_allow_verification_error rq \<or> \<not> result_should_continue sub_ret, sub_ret, out)
     else retn (False, ret, out))"

definition chain_args :: "u32 \<Rightarrow> bytes \<Rightarrow> AvbChainPartitionDescriptor \<Rightarrow> vbmeta_args" where
  "chain_args toplevel_vbmeta_flags desc chain_desc =
     (let chain_partition_name = drop sizeof_AvbChainPartitionDescriptor desc;
          chain_public_key = drop (unat (cp_partition_name_len chain_desc)) chain_partition_name
      in \<lparr>va_toplevel_vbmeta_flags = toplevel_vbmeta_flags,
          va_rollback_index_location = sint (cp_rollback_index_location chain_desc),
          va_partition_name = chain_partition_name,
          va_partition_name_len = ucast (cp_partition_name_len chain_desc),
          va_expected_public_key = Some chain_public_key,
          va_expected_public_key_length = ucast (cp_public_key_len chain_desc)\<rparr>)"

definition chain_descriptor_step ::
    "'w vbmeta_call \<Rightarrow> bool \<Rightarrow> u32 \<Rightarrow> bytes \<Rightarrow> AvbSlotVerifyResult \<Rightarrow> vbmeta_out \<Rightarrow>
     (bool \<times> AvbSlotVerifyResult \<times> vbmeta_out, 'w) act" where
  "chain_descriptor_step rec is_main toplevel_vbmeta_flags desc ret out =
     (let invalid = retn (True, AVB_SLOT_VERIFY_RESULT_ERROR_INVALID_METADATA, out) in
      if \<not> is_main then invalid
      else andthen (pure (load_AvbChainPartitionDescriptor desc)) (\<lambda>src.
      case avb_chain_partition_descriptor_validate_and_byteswap src of (ok, chain_desc) \<Rightarrow>
      if \<not> ok then invalid
      else if cp_rollback_index_location chain_desc = 0 then invalid
      else andthen (rec (chain_args toplevel_vbmeta_flags desc chain_desc)
             (out\<lparr>vo_algorithm_type := None, vo_cmdline_subst := None\<rparr>)) (\<lambda>(sub_ret, sub_out).
      let out = out\<lparr>vo_slot_data := vo_slot_data sub_out\<rparr> in
      if sub_ret \<noteq> AVB_SLOT_VERIFY_RESULT_OK then retn (\<not> result_should_continue sub_ret, sub_ret, out)
      else retn (False, ret, out))))"

definition apply_cmdline :: "u32 \<Rightarrow> u32 \<Rightarrow> bool" where
  "apply_cmdline toplevel_vbmeta_flags cmdline_flags =
     (if toplevel_vbmeta_flags AND AVB_VBMETA_IMAGE_FLAGS_HASHTREE_DISABLED \<noteq> 0
      then cmdline_flags AND AVB_KERNEL_CMDLINE_FLAGS_USE_ONLY_IF_HASHTREE_NOT_DISABLED = 0
      else cmdline_flags AND AVB_KERNEL_CMDLINE_FLAGS_USE_ONLY_IF_HASHTREE_DISABLED = 0)"

text \<open>The new command line, \<open>None\<close> when memory is short. The first size is computed in 32 bits.\<close>

definition append_kernel_cmdline :: "bytes option \<Rightarrow> bytes \<Rightarrow> u32 \<Rightarrow> (bytes option, 'w) act" where
  "append_kernel_cmdline cmdline kernel_cmdline kernel_cmdline_length =
     (case cmdline of
        None \<Rightarrow>
          andthen (alloc (avb_calloc (unat (kernel_cmdline_length + 1)))) (\<lambda>p.
          case p of None \<Rightarrow> retn None | Some (_, new_cmdline) \<Rightarrow>
          andthen (pure (avb_memcpy new_cmdline 0 kernel_cmdline (unat kernel_cmdline_length))) (\<lambda>m. retn (Some m)))
      | Some c \<Rightarrow>
          andthen (pure (avb_strlen c)) (\<lambda>orig_size.
          andthen (alloc (avb_calloc (orig_size + 1 + unat kernel_cmdline_length + 1))) (\<lambda>p.
          case p of None \<Rightarrow> retn None | Some (_, new_cmdline) \<Rightarrow>
          andthen (pure (bnd (avb_memcpy new_cmdline 0 c orig_size) (\<lambda>m.
             avb_memcpy (m[orig_size := 0x20]) (orig_size + 1) kernel_cmdline (unat kernel_cmdline_length)))) (\<lambda>m.
          retn (Some m)))))"

definition kernel_cmdline_step ::
    "u32 \<Rightarrow> bytes \<Rightarrow> AvbSlotVerifyResult \<Rightarrow> vbmeta_out \<Rightarrow> (bool \<times> AvbSlotVerifyResult \<times> vbmeta_out, 'w) act" where
  "kernel_cmdline_step toplevel_vbmeta_flags desc ret out =
     (let invalid = retn (True, AVB_SLOT_VERIFY_RESULT_ERROR_INVALID_METADATA, out) in
      andthen (pure (load_AvbKernelCmdlineDescriptor desc)) (\<lambda>src.
      case avb_kernel_cmdline_descriptor_validate_and_byteswap src of (ok, kernel_cmdline_desc) \<Rightarrow>
      if \<not> ok then invalid
      else let kernel_cmdline = drop sizeof_AvbKernelCmdlineDescriptor desc in
      andthen (pure (avb_validate_utf8 kernel_cmdline (unat (kc_kernel_cmdline_length kernel_cmdline_desc)))) (\<lambda>utf8.
      if \<not> utf8 then invalid
      else if \<not> apply_cmdline toplevel_vbmeta_flags (kc_flags kernel_cmdline_desc) then retn (False, ret, out)
      else andthen (append_kernel_cmdline (sd_cmdline (vo_slot_data out)) kernel_cmdline
                      (kc_kernel_cmdline_length kernel_cmdline_desc)) (\<lambda>new_cmdline.
      if new_cmdline = None then retn (True, AVB_SLOT_VERIFY_RESULT_ERROR_OOM, out)
      else retn (False, ret, out\<lparr>vo_slot_data := (vo_slot_data out)\<lparr>sd_cmdline := new_cmdline\<rparr>\<rparr>)))))"

text \<open>The digest size a hash tree's algorithm names.\<close>

definition hashtree_digest_len :: "bytes \<Rightarrow> nat option res" where
  "hashtree_digest_len hash_algorithm =
     bnd (avb_strcmp hash_algorithm (lit ''sha1'')) (\<lambda>c. if c = 0 then Ok (Some AVB_SHA1_DIGEST_SIZE)
     else bnd (avb_strcmp hash_algorithm (lit ''sha256'')) (\<lambda>c. if c = 0 then Ok (Some AVB_SHA256_DIGEST_SIZE)
     else bnd (avb_strcmp hash_algorithm (lit ''sha512'')) (\<lambda>c. if c = 0 then Ok (Some AVB_SHA512_DIGEST_SIZE)
     else Ok None)))"

definition hashtree_descriptor_step ::
    "'w AvbOps \<Rightarrow> slot_request \<Rightarrow> bytes \<Rightarrow> AvbSlotVerifyResult \<Rightarrow> vbmeta_out \<Rightarrow>
     (bool \<times> AvbSlotVerifyResult \<times> vbmeta_out, 'w) act" where
  "hashtree_descriptor_step ops rq desc ret out =
     (let invalid = retn (True, AVB_SLOT_VERIFY_RESULT_ERROR_INVALID_METADATA, out) in
      andthen (pure (load_AvbHashtreeDescriptor desc)) (\<lambda>src.
      case avb_hashtree_descriptor_validate_and_byteswap src of (ok, hashtree_desc) \<Rightarrow>
      if \<not> ok then invalid
      else if ht_root_digest_len hashtree_desc \<noteq> 0 then retn (False, ret, out)
      else let desc_partition_name = drop sizeof_AvbHashtreeDescriptor desc;
               partition_name_len = unat (ht_partition_name_len hashtree_desc) in
      andthen (pure (avb_validate_utf8 desc_partition_name partition_name_len)) (\<lambda>utf8.
      if \<not> utf8 then invalid
      else if ht_flags hashtree_desc AND AVB_HASHTREE_DESCRIPTOR_FLAGS_DO_NOT_USE_AB = 0 \<and>
              length (rq_ab_suffix rq) \<noteq> 0 then invalid
      else if partition_name_len \<ge> AVB_PART_NAME_MAX_SIZE then invalid
      else andthen (pure (bnd (avb_memcpy (replicate AVB_PART_NAME_MAX_SIZE 0) 0 desc_partition_name partition_name_len)
             (\<lambda>part_name. cstr (part_name[partition_name_len := 0])))) (\<lambda>part_name.
      andthen (pure (hashtree_digest_len (ht_hash_algorithm hashtree_desc))) (\<lambda>digest_len.
      case digest_len of None \<Rightarrow> invalid | Some digest_len \<Rightarrow>
      andthen (read_persistent_digest ops part_name digest_len None) (\<lambda>(ret, digest_buf).
      if ret \<noteq> AVB_SLOT_VERIFY_RESULT_OK then retn (True, ret, out)
      else case vo_cmdline_subst out of None \<Rightarrow> retn (False, ret, out) | Some subst \<Rightarrow>
        andthen (avb_add_root_digest_substitution part_name digest_buf digest_len subst) (\<lambda>(ret, subst).
        retn (ret \<noteq> AVB_SLOT_VERIFY_RESULT_OK, ret, out\<lparr>vo_cmdline_subst := Some subst\<rparr>))))))))"

definition descriptor_step ::
    "'w vbmeta_call \<Rightarrow> 'w AvbOps \<Rightarrow> slot_request \<Rightarrow> bool \<Rightarrow> u32 \<Rightarrow> bytes \<Rightarrow> AvbSlotVerifyResult \<Rightarrow> vbmeta_out \<Rightarrow>
     (bool \<times> AvbSlotVerifyResult \<times> vbmeta_out, 'w) act" where
  "descriptor_step rec ops rq is_main toplevel_vbmeta_flags descriptor ret out =
     andthen (pure (load_AvbDescriptor descriptor)) (\<lambda>src.
     case avb_descriptor_validate_and_byteswap src of (ok, desc) \<Rightarrow>
     if \<not> ok then retn (True, AVB_SLOT_VERIFY_RESULT_ERROR_INVALID_METADATA, out)
     else if tag desc = tag_value AVB_DESCRIPTOR_TAG_HASH then hash_descriptor_step ops rq descriptor ret out
     else if tag desc = tag_value AVB_DESCRIPTOR_TAG_CHAIN_PARTITION
     then chain_descriptor_step rec is_main toplevel_vbmeta_flags descriptor ret out
     else if tag desc = tag_value AVB_DESCRIPTOR_TAG_KERNEL_CMDLINE
     then kernel_cmdline_step toplevel_vbmeta_flags descriptor ret out
     else if tag desc = tag_value AVB_DESCRIPTOR_TAG_HASHTREE then hashtree_descriptor_step ops rq descriptor ret out
     else retn (False, ret, out))"

text \<open>\<open>step\<close> is the body of the loop, for the descriptor at an offset of the image.\<close>

fun descriptor_loop ::
    "(nat \<Rightarrow> AvbSlotVerifyResult \<Rightarrow> vbmeta_out \<Rightarrow> (bool \<times> AvbSlotVerifyResult \<times> vbmeta_out, 'w) act) \<Rightarrow>
     nat list \<Rightarrow> AvbSlotVerifyResult \<Rightarrow> vbmeta_out \<Rightarrow> (bool \<times> AvbSlotVerifyResult \<times> vbmeta_out, 'w) act" where
  "descriptor_loop step [] ret out = retn (False, ret, out)"
| "descriptor_loop step (d # descriptors) ret out =
     andthen (step d ret out) (\<lambda>(goto_out, ret, out).
     if goto_out then retn (True, ret, out) else descriptor_loop step descriptors ret out)"

subsection \<open>\<open>load_and_verify_vbmeta\<close>\<close>

text \<open>From the recorded image on: requested partitions or descriptors, then the rollback index.\<close>

definition process_image ::
    "'w vbmeta_call \<Rightarrow> 'w AvbOps \<Rightarrow> slot_request \<Rightarrow> vbmeta_args \<Rightarrow> u64 \<times> bytes \<Rightarrow> u64 \<Rightarrow> AvbVBMetaImageHeader \<Rightarrow>
     AvbSlotVerifyResult \<Rightarrow> vbmeta_out \<Rightarrow> (AvbSlotVerifyResult \<times> vbmeta_out, 'w) act" where
  "process_image rec ops rq args vbmeta_buf vbmeta_num_read vbmeta_header ret out =
     (if flags vbmeta_header AND AVB_VBMETA_IMAGE_FLAGS_VERIFICATION_DISABLED \<noteq> 0
      then andthen (load_requested_partitions ops (rq_requested_partitions rq) (rq_ab_suffix rq) (vo_slot_data out))
        (\<lambda>(sub_ret, slot_data).
        retn (if sub_ret \<noteq> AVB_SLOT_VERIFY_RESULT_OK then sub_ret else ret, out\<lparr>vo_slot_data := slot_data\<rparr>))
      else andthen (heap_act (avb_descriptor_get_all (Some vbmeta_buf) vbmeta_num_read)) (\<lambda>all.
      case all of None \<Rightarrow> pure (Fault BadAccess) | Some (descriptors, num_descriptors) \<Rightarrow>
      andthen (descriptor_loop
          (\<lambda>n. descriptor_step rec ops rq (is_main_vbmeta rq args)
             (if is_main_vbmeta rq args then flags vbmeta_header else va_toplevel_vbmeta_flags args)
             (drop n (snd vbmeta_buf)))
          (take num_descriptors descriptors) ret out) (\<lambda>(goto_out, ret, out).
      if goto_out then retn (ret, out)
      else if va_rollback_index_location args < 0 \<or>
              va_rollback_index_location args \<ge> int AVB_MAX_NUMBER_OF_ROLLBACK_INDEX_LOCATIONS
      then retn (AVB_SLOT_VERIFY_RESULT_ERROR_INVALID_METADATA, out)
      else retn (ret, out\<lparr>
        vo_slot_data := (vo_slot_data out)\<lparr>sd_rollback_indexes :=
          (sd_rollback_indexes (vo_slot_data out))[nat (va_rollback_index_location args) := rollback_index vbmeta_header]\<rparr>,
        vo_algorithm_type := map_option (\<lambda>_. algorithm_type vbmeta_header) (vo_algorithm_type out)\<rparr>))))"

text \<open>From the bytes read on: verdict, flags, key, rollback index; then the image is recorded.\<close>

definition verify_image ::
    "'w vbmeta_call \<Rightarrow> 'w AvbOps \<Rightarrow> slot_request \<Rightarrow> vbmeta_args \<Rightarrow> bytes \<Rightarrow> u64 \<times> bytes \<Rightarrow> u64 \<Rightarrow> vbmeta_out \<Rightarrow>
     (AvbSlotVerifyResult \<times> vbmeta_out, 'w) act" where
  "verify_image rec ops rq args full_partition_name vbmeta_buf vbmeta_num_read out =
     andthen (heap_act (avb_vbmeta_image_verify vbmeta_buf vbmeta_num_read)) (\<lambda>(vbmeta_ret, pk).
     asserting (vbmeta_ret = AVB_VBMETA_VERIFY_RESULT_OK \<longrightarrow> (case pk of None \<Rightarrow> False | Some (_, pk_len) \<Rightarrow> pk_len > 0))
     (case vbmeta_verdict (rq_allow_verification_error rq) vbmeta_ret of Inl e \<Rightarrow> retn (e, out) | Inr ret \<Rightarrow>
     andthen (pure (load_AvbVBMetaImageHeader (snd vbmeta_buf))) (\<lambda>src.
     let vbmeta_header = avb_vbmeta_image_header_to_host_byte_order src in
     if \<not> is_main_vbmeta rq args \<and> flags vbmeta_header \<noteq> 0
     then retn (AVB_SLOT_VERIFY_RESULT_ERROR_INVALID_METADATA, out)
     else andthen (check_public_key ops rq args full_partition_name (snd vbmeta_buf) vbmeta_header pk ret) (\<lambda>key.
     case key of Inl e \<Rightarrow> retn (e, out) | Inr (ret, location) \<Rightarrow>
     andthen (check_rollback_index ops rq vbmeta_header location ret) (\<lambda>rollback.
     case rollback of Inl e \<Rightarrow> retn (e, out) | Inr (ret, _) \<Rightarrow>
     asserting (if is_main_vbmeta rq args then sd_vbmeta_images (vo_slot_data out) = []
                else no_vbmeta_partition rq \<or> sd_vbmeta_images (vo_slot_data out) \<noteq> [])
     (if length (sd_vbmeta_images (vo_slot_data out)) = MAX_NUMBER_OF_VBMETA_IMAGES
      then retn (AVB_SLOT_VERIFY_RESULT_ERROR_OOM, out)
      else andthen (pure (cstr (va_partition_name args))) (\<lambda>partition_name.
      andthen (alloc (avb_strdup partition_name)) (\<lambda>name.
      process_image rec ops rq args vbmeta_buf vbmeta_num_read vbmeta_header ret
        (record_image name vbmeta_buf vbmeta_header vbmeta_ret out)))))))))"

definition boot_args :: vbmeta_args where
  "boot_args =
     \<lparr>va_toplevel_vbmeta_flags = 0, va_rollback_index_location = 0, va_partition_name = lit ''boot'',
      va_partition_name_len = of_nat (length (str ''boot'')), va_expected_public_key = None,
      va_expected_public_key_length = 0\<rparr>"

definition load_and_verify_vbmeta_with ::
    "'w vbmeta_call \<Rightarrow> 'w AvbOps \<Rightarrow> slot_request \<Rightarrow> 'w vbmeta_call" where
  "load_and_verify_vbmeta_with rec ops rq args out =
     andthen (pure (look_for_vbmeta_footer args)) (\<lambda>look_for_vbmeta_footer.
     andthen (pure (avb_validate_utf8 (va_partition_name args) (unat (va_partition_name_len args)))) (\<lambda>utf8.
     if \<not> utf8 then retn (AVB_SLOT_VERIFY_RESULT_ERROR_INVALID_METADATA, out)
     else andthen (pure (part_name_concat (va_partition_name args) (va_partition_name_len args) (rq_ab_suffix rq)))
       (\<lambda>full. case full of None \<Rightarrow> retn (AVB_SLOT_VERIFY_RESULT_ERROR_INVALID_METADATA, out)
     | Some full_partition_name \<Rightarrow>
     andthen (if look_for_vbmeta_footer then find_vbmeta ops full_partition_name
              else retn (Inr (0, of_nat VBMETA_MAX_SIZE))) (\<lambda>place.
     case place of Inl e \<Rightarrow> retn (e, out) | Inr (offset, buf_size) \<Rightarrow>
     andthen (alloc (avb_malloc_obj (unat buf_size))) (\<lambda>buf.
     case buf of None \<Rightarrow> retn (AVB_SLOT_VERIFY_RESULT_ERROR_OOM, out) | Some (ptr, buf) \<Rightarrow>
     andthen (call (read_from_partition ops) (\<lambda>f. f full_partition_name (sint offset) buf_size))
       (\<lambda>(io_ret, data, vbmeta_num_read).
     andthen (pure (filled buf data)) (\<lambda>buf.
     if io_ret = AVB_IO_RESULT_ERROR_OOM then retn (AVB_SLOT_VERIFY_RESULT_ERROR_OOM, out)
     else if io_ret \<noteq> AVB_IO_RESULT_OK
     then if is_main_vbmeta rq args \<and> io_ret = AVB_IO_RESULT_ERROR_NO_SUCH_PARTITION \<and> \<not> look_for_vbmeta_footer
          then rec boot_args out
          else retn (AVB_SLOT_VERIFY_RESULT_ERROR_IO, out)
     else asserting (vbmeta_num_read \<le> buf_size)
       (verify_image rec ops rq args full_partition_name (ptr, buf) vbmeta_num_read out))))))))"

fun load_and_verify_vbmeta :: "nat \<Rightarrow> 'w AvbOps \<Rightarrow> slot_request \<Rightarrow> 'w vbmeta_call" where
  "load_and_verify_vbmeta 0 ops rq args out = pure (Fault OutOfFuel)"
| "load_and_verify_vbmeta (Suc depth) ops rq args out =
     load_and_verify_vbmeta_with (load_and_verify_vbmeta depth ops rq) ops rq args out"

text \<open>\<open>vbmeta\<close>, its fallback \<open>boot\<close>, and a chained partition of either.\<close>

definition VBMETA_DEPTH :: nat where
  "VBMETA_DEPTH = 3"

subsection \<open>\<open>avb_slot_verify\<close>\<close>

definition avb_manage_hashtree_error_mode ::
    "'w AvbOps \<Rightarrow> u32 \<Rightarrow> AvbSlotVerifyData \<Rightarrow> (AvbIOResult \<times> AvbHashtreeErrorMode, 'w) act" where
  "avb_manage_hashtree_error_mode ops vflags data =
     (let restart = AVB_HASHTREE_ERROR_MODE_RESTART;
          digest = pure (avb_slot_verify_data_calculate_vbmeta_digest data AVB_DIGEST_TYPE_SHA256)
      in asserting (read_persistent_value ops \<noteq> None) (asserting (write_persistent_value ops \<noteq> None)
      (if vflags AND AVB_SLOT_VERIFY_FLAGS_RESTART_CAUSED_BY_HASHTREE_CORRUPTION \<noteq> 0
       then andthen digest (\<lambda>vbmeta_digest_sha256.
         andthen (call (write_persistent_value ops)
           (\<lambda>f. f AVB_NPV_MANAGED_VERITY_MODE (of_nat AVB_SHA256_DIGEST_SIZE) vbmeta_digest_sha256)) (\<lambda>io_ret.
         if io_ret \<noteq> AVB_IO_RESULT_OK then retn (io_ret, restart)
         else retn (AVB_IO_RESULT_OK, AVB_HASHTREE_ERROR_MODE_EIO)))
       else andthen (call (read_persistent_value ops)
              (\<lambda>f. f AVB_NPV_MANAGED_VERITY_MODE (of_nat AVB_SHA256_DIGEST_SIZE)))
         (\<lambda>(io_ret, stored_vbmeta_digest_sha256, num_bytes_read).
       if io_ret = AVB_IO_RESULT_ERROR_NO_SUCH_VALUE \<or> io_ret = AVB_IO_RESULT_OK \<and> num_bytes_read = 0
       then retn (AVB_IO_RESULT_OK, restart)
       else if io_ret \<noteq> AVB_IO_RESULT_OK then retn (io_ret, restart)
       else if num_bytes_read \<noteq> of_nat AVB_SHA256_DIGEST_SIZE then retn (AVB_IO_RESULT_ERROR_IO, restart)
       else andthen digest (\<lambda>vbmeta_digest_sha256.
       andthen (pure (avb_memcmp vbmeta_digest_sha256 stored_vbmeta_digest_sha256 AVB_SHA256_DIGEST_SIZE)) (\<lambda>c.
       if c = 0 then retn (AVB_IO_RESULT_OK, AVB_HASHTREE_ERROR_MODE_EIO)
       else andthen (call (write_persistent_value ops) (\<lambda>f. f AVB_NPV_MANAGED_VERITY_MODE 0 vbmeta_digest_sha256))
         (\<lambda>io_ret. retn (io_ret, restart))))))))"

definition has_system_partition :: "'w AvbOps \<Rightarrow> bytes \<Rightarrow> (bool, 'w) act" where
  "has_system_partition ops ab_suffix =
     andthen (pure (part_name_concat (str ''system'') (of_nat (length (str ''system''))) ab_suffix)) (\<lambda>part_name.
     case part_name of None \<Rightarrow> retn False | Some part_name \<Rightarrow>
     andthen (call (get_unique_guid_for_partition ops) (\<lambda>f. f part_name 37)) (\<lambda>(io_ret, guid_buf).
     if io_ret = AVB_IO_RESULT_ERROR_NO_SUCH_PARTITION then retn False
     else if io_ret \<noteq> AVB_IO_RESULT_OK then retn False
     else retn True))"

definition top_args :: "bytes \<Rightarrow> vbmeta_args" where
  "top_args partition_name =
     \<lparr>va_toplevel_vbmeta_flags = 0, va_rollback_index_location = 0, va_partition_name = partition_name @ [0],
      va_partition_name_len = of_nat (length partition_name), va_expected_public_key = None,
      va_expected_public_key_length = 0\<rparr>"

text \<open>
  The loop over the requested partitions when there is no vbmeta partition; \<open>ret\<close> is what the variable
  holds on entry.
\<close>

fun verify_requested ::
    "'w AvbOps \<Rightarrow> slot_request \<Rightarrow> bytes list \<Rightarrow> AvbSlotVerifyResult \<Rightarrow> vbmeta_out \<Rightarrow>
     (AvbSlotVerifyResult \<times> vbmeta_out, 'w) act" where
  "verify_requested ops rq [] ret out = retn (ret, out)"
| "verify_requested ops rq (requested # requested_rest) ret out =
     andthen (load_and_verify_vbmeta VBMETA_DEPTH ops rq (top_args requested) out) (\<lambda>(ret, out).
     if \<not> rq_allow_verification_error rq \<and> ret \<noteq> AVB_SLOT_VERIFY_RESULT_OK then retn (ret, out)
     else verify_requested ops rq requested_rest ret out)"

definition verify_images ::
    "'w AvbOps \<Rightarrow> slot_request \<Rightarrow> vbmeta_out \<Rightarrow> (AvbSlotVerifyResult \<times> vbmeta_out, 'w) act" where
  "verify_images ops rq out =
     (if no_vbmeta_partition rq
      then case rq_requested_partitions rq of None \<Rightarrow> pure (Fault Abort) | Some [] \<Rightarrow> pure (Fault Abort)
           | Some requested_partitions \<Rightarrow> verify_requested ops rq requested_partitions AVB_SLOT_VERIFY_RESULT_OK out
      else load_and_verify_vbmeta VBMETA_DEPTH ops rq (top_args (str ''vbmeta'')) out)"

text \<open>
  The command line of a slot: the root device when verification is disabled, the options otherwise. A
  failure is \<open>Inl\<close>.
\<close>

definition complete_cmdline ::
    "'w AvbOps \<Rightarrow> slot_request \<Rightarrow> AvbHashtreeErrorMode \<Rightarrow> AvbVBMetaImageHeader \<Rightarrow> u32 \<Rightarrow> AvbSlotVerifyData \<Rightarrow>
     (AvbSlotVerifyResult + AvbSlotVerifyData, 'w) act" where
  "complete_cmdline ops rq hashtree_error_mode toplevel_vbmeta alg_type slot_data =
     (if flags toplevel_vbmeta AND AVB_VBMETA_IMAGE_FLAGS_VERIFICATION_DISABLED \<noteq> 0
      then asserting (sd_cmdline slot_data = None)
        (andthen (has_system_partition ops (rq_ab_suffix rq)) (\<lambda>has_system.
         andthen (alloc (avb_strdup (if has_system then str ''root=PARTUUID=$(ANDROID_SYSTEM_PARTUUID)'' else [])))
           (\<lambda>cmdline. case cmdline of None \<Rightarrow> retn (Inl AVB_SLOT_VERIFY_RESULT_ERROR_OOM)
           | Some c \<Rightarrow> retn (Inr (slot_data\<lparr>sd_cmdline := Some (c @ [0])\<rparr>)))))
      else andthen (if hashtree_error_mode = AVB_HASHTREE_ERROR_MODE_MANAGED_RESTART_AND_EIO
                    then avb_manage_hashtree_error_mode ops (rq_flags rq) slot_data
                    else retn (AVB_IO_RESULT_OK, hashtree_error_mode)) (\<lambda>(io_ret, resolved).
        case io_error io_ret of Some e \<Rightarrow> retn (Inl e) | None \<Rightarrow>
        andthen (avb_append_options ops (rq_flags rq) (slot_data\<lparr>sd_resolved_hashtree_error_mode := resolved\<rparr>)
                   toplevel_vbmeta alg_type hashtree_error_mode resolved) (\<lambda>(sub_ret, slot_data).
        retn (if sub_ret \<noteq> AVB_SLOT_VERIFY_RESULT_OK then Inl sub_ret else Inr slot_data))))"

definition substitute_cmdline ::
    "'w AvbOps \<Rightarrow> slot_request \<Rightarrow> bool \<Rightarrow> AvbCmdlineSubstList option \<Rightarrow> AvbSlotVerifyData \<Rightarrow>
     (AvbSlotVerifyResult + AvbSlotVerifyData, 'w) act" where
  "substitute_cmdline ops rq using_boot_for_vbmeta additional_cmdline_subst slot_data =
     andthen (pure (case sd_cmdline slot_data of None \<Rightarrow> Ok [] | Some c \<Rightarrow> cstr c)) (\<lambda>cmdline.
     if cmdline = [] then retn (Inr slot_data)
     else andthen (avb_sub_cmdline ops cmdline (rq_ab_suffix rq) using_boot_for_vbmeta additional_cmdline_subst)
       (\<lambda>new_cmdline. case new_cmdline of None \<Rightarrow> retn (Inl AVB_SLOT_VERIFY_RESULT_ERROR_OOM)
       | Some c \<Rightarrow> retn (Inr (slot_data\<lparr>sd_cmdline := Some (c @ [0])\<rparr>))))"

text \<open>From the verified images on.\<close>

definition finish_slot ::
    "'w AvbOps \<Rightarrow> slot_request \<Rightarrow> AvbHashtreeErrorMode \<Rightarrow> AvbSlotVerifyResult \<Rightarrow> vbmeta_out \<Rightarrow>
     (AvbSlotVerifyResult \<times> AvbSlotVerifyData option, 'w) act" where
  "finish_slot ops rq hashtree_error_mode ret out =
     (let slot_data = vo_slot_data out in
      andthen (pure (case sd_vbmeta_images slot_data of [] \<Rightarrow> Fault BadAccess
        | img # _ \<Rightarrow> if no_vbmeta_partition rq then Ok False
            else deref (vd_partition_name img) (\<lambda>name.
              bnd (avb_strcmp (name @ [0]) (lit ''vbmeta'')) (\<lambda>c. if c = 0 then Ok False
              else bnd (avb_strcmp (name @ [0]) (lit ''boot'')) (\<lambda>c. avb_assert (c = 0) (Ok True))))))
        (\<lambda>using_boot_for_vbmeta.
      andthen (pure (load_AvbVBMetaImageHeader (snd (vd_vbmeta_data (hd (sd_vbmeta_images slot_data)))))) (\<lambda>src.
      let toplevel_vbmeta = avb_vbmeta_image_header_to_host_byte_order src in
      andthen (alloc (avb_strdup (rq_ab_suffix rq))) (\<lambda>suffix.
      if suffix = None then retn (AVB_SLOT_VERIFY_RESULT_ERROR_OOM, None)
      else andthen (complete_cmdline ops rq hashtree_error_mode toplevel_vbmeta
             (case vo_algorithm_type out of None \<Rightarrow> 0 | Some t \<Rightarrow> t)
             (slot_data\<lparr>sd_ab_suffix := suffix\<rparr>)) (\<lambda>r.
      case r of Inl e \<Rightarrow> retn (e, None) | Inr slot_data \<Rightarrow>
      andthen (substitute_cmdline ops rq using_boot_for_vbmeta (vo_cmdline_subst out) slot_data) (\<lambda>r.
      case r of Inl e \<Rightarrow> retn (e, None) | Inr slot_data \<Rightarrow>
      asserting (rq_allow_verification_error rq \<or> ret = AVB_SLOT_VERIFY_RESULT_OK)
      (retn (ret, Some slot_data))))))))"

text \<open>
  The result and \<open>*out_data\<close> for a caller that asks for it. The sizes allocated are those of the structs
  on a 64-bit host.
\<close>

definition avb_slot_verify ::
    "'w AvbOps \<Rightarrow> bytes list option \<Rightarrow> bytes \<Rightarrow> u32 \<Rightarrow> AvbHashtreeErrorMode \<Rightarrow>
     (AvbSlotVerifyResult \<times> AvbSlotVerifyData option, 'w) act" where
  "avb_slot_verify ops requested_partitions ab_suffix vflags hashtree_error_mode =
     (let allow_verification_error = (vflags AND AVB_SLOT_VERIFY_FLAGS_ALLOW_VERIFICATION_ERROR \<noteq> 0);
          rq = \<lparr>rq_requested_partitions = requested_partitions, rq_ab_suffix = ab_suffix, rq_flags = vflags,
                rq_allow_verification_error = allow_verification_error\<rparr>;
          fail = (\<lambda>e. retn (e, None))
      in asserting (read_is_device_unlocked ops \<noteq> None) (asserting (read_from_partition ops \<noteq> None)
      (asserting (get_size_of_partition ops \<noteq> None) (asserting (read_rollback_index ops \<noteq> None)
      (asserting (get_unique_guid_for_partition ops \<noteq> None)
      (if hashtree_error_mode = AVB_HASHTREE_ERROR_MODE_LOGGING \<and> \<not> allow_verification_error
       then fail AVB_SLOT_VERIFY_RESULT_ERROR_INVALID_ARGUMENT
       else if hashtree_error_mode = AVB_HASHTREE_ERROR_MODE_MANAGED_RESTART_AND_EIO \<and>
               (read_persistent_value ops = None \<or> write_persistent_value ops = None)
       then fail AVB_SLOT_VERIFY_RESULT_ERROR_INVALID_ARGUMENT
       else if no_vbmeta_partition rq \<and> validate_public_key_for_partition ops = None
       then fail AVB_SLOT_VERIFY_RESULT_ERROR_INVALID_ARGUMENT
       else asserting (no_vbmeta_partition rq \<or> validate_vbmeta_public_key ops \<noteq> None)
      (andthen (alloc (avb_calloc 312)) (\<lambda>p. if p = None then fail AVB_SLOT_VERIFY_RESULT_ERROR_OOM
       else andthen (alloc (avb_calloc (32 * MAX_NUMBER_OF_VBMETA_IMAGES))) (\<lambda>p.
       if p = None then fail AVB_SLOT_VERIFY_RESULT_ERROR_OOM
       else andthen (alloc (avb_calloc (32 * MAX_NUMBER_OF_LOADED_PARTITIONS))) (\<lambda>p.
       if p = None then fail AVB_SLOT_VERIFY_RESULT_ERROR_OOM
       else andthen (alloc avb_new_cmdline_subst_list) (\<lambda>additional_cmdline_subst.
       if additional_cmdline_subst = None then fail AVB_SLOT_VERIFY_RESULT_ERROR_OOM
       else andthen (verify_images ops rq
         \<lparr>vo_slot_data = \<lparr>sd_ab_suffix = None, sd_vbmeta_images = [], sd_loaded_partitions = [], sd_cmdline = None,
             sd_rollback_indexes = replicate AVB_MAX_NUMBER_OF_ROLLBACK_INDEX_LOCATIONS 0,
             sd_resolved_hashtree_error_mode = AVB_HASHTREE_ERROR_MODE_RESTART_AND_INVALIDATE\<rparr>,
           vo_algorithm_type = Some (algorithm_value AVB_ALGORITHM_TYPE_NONE),
           vo_cmdline_subst = additional_cmdline_subst\<rparr>) (\<lambda>(ret, out).
       if \<not> allow_verification_error \<and> ret \<noteq> AVB_SLOT_VERIFY_RESULT_OK then fail ret
       else if \<not> result_should_continue ret then fail ret
       else finish_slot ops rq hashtree_error_mode ret out))))))))))))"

end
