(* ===== verification/Avb_Slot_Sound.thy ===== *)
theory Avb_Slot_Sound
  imports Avb_Slot_Verify
begin

text \<open>
  What slot verification guarantees: three levels of recursion are enough, the bounds of the slot data, the
  chain of trust from the host's key to every recorded image, and that every loaded partition matches a
  descriptor of a recorded image.
\<close>

section \<open>Depth of the recursion\<close>

lemma chain_args_not_main: "cp_rollback_index_location d \<noteq> 0 \<Longrightarrow> \<not> is_main_vbmeta rq (chain_args fl desc d)"
  by (simp add: is_main_vbmeta_def chain_args_def Let_def signed_eq_0_iff)

lemma chain_step_cong:
  assumes "\<And>a out. \<not> is_main_vbmeta rq a \<Longrightarrow> rec a out = rec' a out"
  shows "chain_descriptor_step rec m fl desc ret out = chain_descriptor_step rec' m fl desc ret out"
  unfolding chain_descriptor_step_def Let_def
  by (simp add: assms chain_args_not_main cong: if_cong)

lemma chain_step_not_main [simp]:
  "chain_descriptor_step rec False fl desc ret out = retn (True, AVB_SLOT_VERIFY_RESULT_ERROR_INVALID_METADATA, out)"
  by (simp add: chain_descriptor_step_def)

text \<open>How a call depends on its recursive calls.\<close>

lemma process_image_cong:
  assumes "\<And>a out. is_main_vbmeta rq args \<Longrightarrow> \<not> is_main_vbmeta rq a \<Longrightarrow> rec a out = rec' a out"
  shows "process_image rec ops rq args buf n h ret out = process_image rec' ops rq args buf n h ret out"
proof -
  have "chain_descriptor_step rec (is_main_vbmeta rq args) = chain_descriptor_step rec' (is_main_vbmeta rq args)"
  proof (cases "is_main_vbmeta rq args")
    case True
    with assms show ?thesis by (intro ext chain_step_cong [of rq]) simp
  qed (intro ext, simp)
  then have "descriptor_step rec ops rq (is_main_vbmeta rq args) = descriptor_step rec' ops rq (is_main_vbmeta rq args)"
    by (intro ext) (simp only: descriptor_step_def)
  then show ?thesis unfolding process_image_def by (simp only:)
qed

lemma with_cong:
  assumes "\<And>a out. is_main_vbmeta rq args \<Longrightarrow> \<not> is_main_vbmeta rq a \<Longrightarrow> rec a out = rec' a out"
    and "\<And>out. is_main_vbmeta rq args \<Longrightarrow> look_for_vbmeta_footer args = Ok False \<Longrightarrow> rec boot_args out = rec' boot_args out"
  shows "load_and_verify_vbmeta_with rec ops rq args out = load_and_verify_vbmeta_with rec' ops rq args out"
proof -
  have v: "verify_image rec ops rq args = verify_image rec' ops rq args"
  proof -
    have "process_image rec ops rq args = process_image rec' ops rq args"
      by (intro ext process_image_cong assms(1))
    then show ?thesis by (intro ext) (simp only: verify_image_def)
  qed
  consider "\<not> is_main_vbmeta rq args" | "is_main_vbmeta rq args" "look_for_vbmeta_footer args = Ok False"
    | "look_for_vbmeta_footer args = Ok True" | e where "look_for_vbmeta_footer args = Fault e"
    by (metis res.exhaust)
  then show ?thesis
  proof cases
    case 1
    then have m: "is_main_vbmeta rq args = False" by simp
    show ?thesis unfolding load_and_verify_vbmeta_with_def v m simp_thms if_False ..
  next
    case 2
    with assms(2) have b: "rec boot_args out = rec' boot_args out" by simp
    show ?thesis unfolding load_and_verify_vbmeta_with_def v b ..
  next
    case 3
    show ?thesis unfolding load_and_verify_vbmeta_with_def v 3 andthen_pure simp_thms if_False ..
  next
    case 4
    show ?thesis unfolding load_and_verify_vbmeta_with_def 4 andthen_pure ..
  qed
qed

lemma boot_looks: "look_for_vbmeta_footer boot_args = Ok True"
  by (simp add: look_for_vbmeta_footer_def boot_args_def lit_def str_def)

lemma depth_any:
  "\<not> is_main_vbmeta rq a \<Longrightarrow>
     load_and_verify_vbmeta_with rec ops rq a out = load_and_verify_vbmeta_with rec' ops rq a out"
  "look_for_vbmeta_footer a \<noteq> Ok False \<Longrightarrow>
     load_and_verify_vbmeta_with (load_and_verify_vbmeta_with rec ops rq) ops rq a out =
     load_and_verify_vbmeta_with (load_and_verify_vbmeta_with rec' ops rq) ops rq a out"
  "load_and_verify_vbmeta_with (load_and_verify_vbmeta_with (load_and_verify_vbmeta_with rec ops rq) ops rq) ops rq a out =
   load_and_verify_vbmeta_with (load_and_verify_vbmeta_with (load_and_verify_vbmeta_with rec' ops rq) ops rq) ops rq a out"
proof -
  show one: "load_and_verify_vbmeta_with rec ops rq a out = load_and_verify_vbmeta_with rec' ops rq a out"
    if "\<not> is_main_vbmeta rq a" for rec rec' a out
    by (rule with_cong) (use that in simp_all)
  show two: "load_and_verify_vbmeta_with (load_and_verify_vbmeta_with rec ops rq) ops rq a out =
     load_and_verify_vbmeta_with (load_and_verify_vbmeta_with rec' ops rq) ops rq a out"
    if "look_for_vbmeta_footer a \<noteq> Ok False" for rec rec' a out
    by (rule with_cong) (use that one in simp_all)
  show "load_and_verify_vbmeta_with (load_and_verify_vbmeta_with (load_and_verify_vbmeta_with rec ops rq) ops rq) ops rq a out =
   load_and_verify_vbmeta_with (load_and_verify_vbmeta_with (load_and_verify_vbmeta_with rec' ops rq) ops rq) ops rq a out"
    by (rule with_cong) (use one two boot_looks in simp_all)
qed

text \<open>The call with three levels satisfies the recursive equation of the source.\<close>

lemma vbmeta_depth_fixpoint:
  "load_and_verify_vbmeta VBMETA_DEPTH ops rq args out =
     load_and_verify_vbmeta_with (load_and_verify_vbmeta VBMETA_DEPTH ops rq) ops rq args out"
proof -
  have f: "load_and_verify_vbmeta (Suc d) ops rq = load_and_verify_vbmeta_with (load_and_verify_vbmeta d ops rq) ops rq" for d
    by (intro ext) simp
  show ?thesis
    unfolding VBMETA_DEPTH_def numeral_3_eq_3 f by (rule depth_any(3))
qed

lemma vbmeta_depth_any:
  "((\<lambda>rec. load_and_verify_vbmeta_with rec ops rq) ^^ (VBMETA_DEPTH + k)) rec args out =
     load_and_verify_vbmeta VBMETA_DEPTH ops rq args out"
proof -
  have f: "load_and_verify_vbmeta (Suc d) ops rq = load_and_verify_vbmeta_with (load_and_verify_vbmeta d ops rq) ops rq" for d
    by (intro ext) simp
  show ?thesis
    unfolding VBMETA_DEPTH_def numeral_3_eq_3 f funpow_add by (simp add: depth_any(3))
qed

section \<open>Shape of the slot data\<close>

definition slot_shape :: "AvbSlotVerifyData \<Rightarrow> bool" where
  "slot_shape slot \<longleftrightarrow> length (sd_vbmeta_images slot) \<le> MAX_NUMBER_OF_VBMETA_IMAGES \<and>
     length (sd_loaded_partitions slot) \<le> MAX_NUMBER_OF_LOADED_PARTITIONS \<and>
     length (sd_rollback_indexes slot) = AVB_MAX_NUMBER_OF_ROLLBACK_INDEX_LOCATIONS"

text \<open>Images and partitions are only added, and the arrays never overflow.\<close>

definition grew :: "(bytes \<Rightarrow> u64 \<Rightarrow> (u64 \<times> bytes) option \<Rightarrow> bool) \<Rightarrow> slot_request \<Rightarrow> vbmeta_out \<Rightarrow> vbmeta_out \<Rightarrow> bool" where
  "grew L rq out out' \<longleftrightarrow>
     (\<exists>imgs. sd_vbmeta_images (vo_slot_data out') = sd_vbmeta_images (vo_slot_data out) @ imgs) \<and>
     (\<exists>ps. sd_loaded_partitions (vo_slot_data out') = sd_loaded_partitions (vo_slot_data out) @ ps \<and>
        (\<forall>p\<in>set ps. loaded L (rq_ab_suffix rq) p)) \<and>
     (slot_shape (vo_slot_data out) \<longrightarrow> slot_shape (vo_slot_data out'))"

lemma grew_refl [simp]: "grew L rq out out"
  by (simp add: grew_def)

lemma grew_trans [trans]: "grew L rq a b \<Longrightarrow> grew L rq b c \<Longrightarrow> grew L rq a c"
  by (fastforce simp: grew_def)

lemma grew_fields [simp]:
  "grew L rq a (out\<lparr>vo_cmdline_subst := x\<rparr>) = grew L rq a out" "grew L rq a (out\<lparr>vo_algorithm_type := t\<rparr>) = grew L rq a out"
  by (simp_all add: grew_def)

lemma grew_grows: "grows (loaded L (rq_ab_suffix rq)) (vo_slot_data out) slot \<Longrightarrow> grew L rq out (out\<lparr>vo_slot_data := slot\<rparr>)"
  by (auto simp: grew_def grows_def slot_shape_def)

lemma grew_cmdline: "grew L rq out (out\<lparr>vo_slot_data := (vo_slot_data out)\<lparr>sd_cmdline := c\<rparr>\<rparr>)"
  by (simp add: grew_def slot_shape_def)

text \<open>
  A call that does not fail for good, and was not stopped by a verification error, has recorded an image.
\<close>

definition goes_on :: "slot_request \<Rightarrow> AvbSlotVerifyResult \<Rightarrow> bool" where
  "goes_on rq ret \<longleftrightarrow> result_should_continue ret \<and> (rq_allow_verification_error rq \<or> ret = AVB_SLOT_VERIFY_RESULT_OK)"

definition recorded :: "(bytes \<Rightarrow> u64 \<Rightarrow> (u64 \<times> bytes) option \<Rightarrow> bool) \<Rightarrow> slot_request \<Rightarrow> vbmeta_out \<Rightarrow> AvbSlotVerifyResult \<times> vbmeta_out \<Rightarrow> bool" where
  "recorded L rq out r \<longleftrightarrow> (case r of (ret, out') \<Rightarrow>
     grew L rq out out' \<and> (goes_on rq ret \<longrightarrow> sd_vbmeta_images (vo_slot_data out') \<noteq> []))"

lemma io_error_fails: "io_error io_ret = Some e \<Longrightarrow> \<not> result_should_continue e \<and> e \<noteq> AVB_SLOT_VERIFY_RESULT_OK"
  by (auto simp: io_error_def split: if_splits)

lemma io_error_None: "io_error io_ret = None \<longleftrightarrow> io_ret = AVB_IO_RESULT_OK"
  by (auto simp: io_error_def)

lemma verdict_fails: "vbmeta_verdict (rq_allow_verification_error rq) v = Inl e \<Longrightarrow> \<not> goes_on rq e"
  by (auto simp: vbmeta_verdict_def goes_on_def split: AvbVBMetaVerifyResult.splits if_splits)

lemma record_image_grew:
  assumes "length (sd_vbmeta_images (vo_slot_data out)) \<noteq> MAX_NUMBER_OF_VBMETA_IMAGES"
  shows "grew L rq out (record_image name buf h v out)"
  using assms by (auto simp: grew_def record_image_def slot_shape_def)

lemma recorded_fail: "\<not> goes_on rq e \<Longrightarrow> recorded L rq out (e, out)"
  by (simp add: recorded_def)

lemma hard_errors [simp]:
  "\<not> goes_on rq AVB_SLOT_VERIFY_RESULT_ERROR_INVALID_METADATA" "\<not> goes_on rq AVB_SLOT_VERIFY_RESULT_ERROR_OOM"
  "\<not> goes_on rq AVB_SLOT_VERIFY_RESULT_ERROR_IO" "\<not> goes_on rq AVB_SLOT_VERIFY_RESULT_ERROR_UNSUPPORTED_VERSION"
  by (simp_all add: goes_on_def)

context host
begin

text \<open>The rule for the descriptor loop: an invariant of the iterations that go on.\<close>

lemma descriptor_loop_post:
  assumes "\<And>d ret out. d \<in> set ds \<Longrightarrow> J ret out \<Longrightarrow>
      post I (step d ret out) (\<lambda>(goto_out, ret, out). if goto_out then Q ret out else J ret out)"
  shows "J ret out \<Longrightarrow> post I (descriptor_loop step ds ret out) (\<lambda>(goto_out, ret, out). if goto_out then Q ret out else J ret out)"
  using assms
proof (induction ds arbitrary: ret out)
  case (Cons d ds)
  have rest: "post I (descriptor_loop step ds ret out) (\<lambda>(goto_out, ret, out). if goto_out then Q ret out else J ret out)"
    if "J ret out" for ret out
    by (rule Cons.IH [OF that Cons.prems(2)]) simp_all
  show ?case
    unfolding descriptor_loop.simps
    apply (rule post_andthen [OF Cons.prems(2) [OF _ Cons.prems(1)]], simp)
    apply (rule post_prod, rule post_prod, rule post_if)
     apply (rule post_retn, simp)
    apply (rule rest, simp)
    done
qed (simp add: post_retn)

lemma append_kernel_cmdline_calm [avb_calm]: "post I (append_kernel_cmdline c k n) (\<lambda>_. True)"
  unfolding append_kernel_cmdline_def by (rule avb_post | simp)+

lemma add_root_digest_calm [avb_calm]:
  "post I (avb_add_root_digest_substitution name digest n subst) (\<lambda>_. True)"
  unfolding avb_add_root_digest_substitution_def by (rule avb_post | simp)+

end

context loader
begin

lemma hash_step_grew: "post I (hash_descriptor_step ops rq desc ret out) (\<lambda>(_, _, out'). grew L rq out out')"
  unfolding hash_descriptor_step_def Let_def
  by (rule post_andthen [OF hash_partition_grows]) (auto intro!: avb_post grew_grows)

lemma chain_step_grew:
  assumes "\<And>a out. post I (rec a out) (\<lambda>(_, out'). grew L rq out out')"
  shows "post I (chain_descriptor_step rec m fl desc ret out) (\<lambda>(_, _, out'). grew L rq out out')"
proof -
  have sub: "post I (rec a (out\<lparr>vo_algorithm_type := None, vo_cmdline_subst := None\<rparr>))
      (\<lambda>(_, out'). grew L rq out (out\<lparr>vo_slot_data := vo_slot_data out'\<rparr>))" for a
    by (rule post_weaken [OF assms]) (auto simp: grew_def)
  show ?thesis
    unfolding chain_descriptor_step_def Let_def
    by (rule post_andthen [OF sub] avb_post | simp)+
qed

lemma cmdline_step_grew: "post I (kernel_cmdline_step fl desc ret out) (\<lambda>(_, _, out'). grew L rq out out')"
  unfolding kernel_cmdline_step_def Let_def
  by (rule avb_post post_seq avb_calm | simp add: grew_cmdline)+

lemma hashtree_step_grew: "post I (hashtree_descriptor_step ops rq desc ret out) (\<lambda>(_, _, out'). grew L rq out out')"
  unfolding hashtree_descriptor_step_def Let_def
  by (rule avb_post post_seq avb_calm | simp)+

lemma descriptor_step_grew:
  assumes "\<And>a out. post I (rec a out) (\<lambda>(_, out'). grew L rq out out')"
  shows "post I (descriptor_step rec ops rq m fl desc ret out) (\<lambda>(_, _, out'). grew L rq out out')"
  unfolding descriptor_step_def
  by (rule hash_step_grew chain_step_grew [OF assms] cmdline_step_grew hashtree_step_grew avb_post | simp)+

lemma process_image_grew:
  assumes "\<And>a out. post I (rec a out) (\<lambda>(_, out'). grew L rq out out')"
  shows "post I (process_image rec ops rq args buf n h ret out) (\<lambda>(_, out'). grew L rq out out')"
proof -
  have req: "post I (load_requested_partitions ops rp suffix slot) (\<lambda>(_, slot'). grows (loaded L suffix) slot slot')" for rp suffix slot
    unfolding load_requested_partitions_def by (intro post_option post_Fault load_requested_grows)
  have loop: "post I (descriptor_loop (\<lambda>n. descriptor_step rec ops rq m fl (drop n b)) ds ret out)
      (\<lambda>(_, _, out'). grew L rq out out')" for m fl b ds
    by (rule post_weaken [OF descriptor_loop_post [where J = "\<lambda>_. grew L rq out" and Q = "\<lambda>_. grew L rq out"]])
      (auto intro!: post_weaken [OF descriptor_step_grew [OF assms]] intro: grew_trans)
  have "grew L rq out (out\<lparr>vo_slot_data := (vo_slot_data out)\<lparr>sd_rollback_indexes := (sd_rollback_indexes (vo_slot_data out))[i := v]\<rparr>,
      vo_algorithm_type := t\<rparr>)" for out i v t
    by (simp add: grew_def slot_shape_def)
  then show ?thesis
    unfolding process_image_def
    by - (rule post_if post_andthen [OF req] post_andthen [OF loop] post_heap_act avb_post
      | force intro: grew_grows grew_trans)+
qed

lemma public_key_fails:
  "post I (check_public_key ops rq args full buf h pk ret) (\<lambda>r. \<forall>e. r = Inl e \<longrightarrow> \<not> goes_on rq e)"
  unfolding check_public_key_def Let_def
  by (rule avb_post post_seq avb_calm
    | auto dest: io_error_fails simp: goes_on_def soft_error_def split: if_splits)+

lemma rollback_fails:
  "post I (check_rollback_index ops rq h loc ret) (\<lambda>r. \<forall>e. r = Inl e \<longrightarrow> \<not> goes_on rq e)"
  unfolding check_rollback_index_def
  by (rule avb_post | auto dest: io_error_fails simp: goes_on_def soft_error_def split: if_splits)+

lemma find_vbmeta_fails: "post I (find_vbmeta ops full) (\<lambda>r. \<forall>e. r = Inl e \<longrightarrow> \<not> goes_on rq e)"
  unfolding find_vbmeta_def
  by (rule avb_post | auto dest: io_error_fails simp: goes_on_def)+

lemma verify_image_recorded:
  assumes "\<And>a out. post I (rec a out) (recorded L rq out)"
  shows "post I (verify_image rec ops rq args full buf n out) (recorded L rq out)"
proof -
  have rec: "post I (rec a out) (\<lambda>(_, out'). grew L rq out out')" for a out
    by (rule post_weaken [OF assms]) (simp add: recorded_def split: prod.splits)
  have proc: "post I (process_image rec ops rq args buf n h ret (record_image name buf h v out)) (recorded L rq out)"
    if "length (sd_vbmeta_images (vo_slot_data out)) \<noteq> MAX_NUMBER_OF_VBMETA_IMAGES" for h ret name v
    by (rule post_weaken [OF process_image_grew [OF rec]])
      (auto simp: recorded_def intro: grew_trans [OF record_image_grew [OF that]], auto simp: grew_def record_image_def)
  show ?thesis
    unfolding verify_image_def Let_def
    apply (rule post_heap_act, rule post_prod, rule post_asserting, rule post_sum)
     apply (rule post_retn, rule recorded_fail, erule verdict_fails)
    apply (rule post_pure, rule post_if, rule post_retn, rule recorded_fail, simp)
    apply (rule post_andthen [OF public_key_fails], rule post_sum, rule post_retn, rule recorded_fail, simp)
    apply (rule post_prod)
    apply (rule post_andthen [OF rollback_fails], rule post_sum, rule post_retn, rule recorded_fail, simp)
    apply (rule post_prod, rule post_asserting, rule post_if, rule post_retn, rule recorded_fail, simp)
    apply (rule post_pure, rule post_alloc, rule proc, assumption)
    done
qed

lemma with_recorded:
  assumes "\<And>a out. post I (rec a out) (recorded L rq out)"
  shows "post I (load_and_verify_vbmeta_with rec ops rq args out) (recorded L rq out)"
proof -
  have find: "post I (if b then find_vbmeta ops full else retn (Inr (0, of_nat VBMETA_MAX_SIZE)))
      (\<lambda>r. \<forall>e. r = Inl e \<longrightarrow> \<not> goes_on rq e)" for b full
    by (intro post_if find_vbmeta_fails post_retn) simp
  show ?thesis
    unfolding load_and_verify_vbmeta_with_def
    by (rule assms verify_image_recorded [OF assms] post_andthen [OF find] avb_post | simp add: recorded_fail)+
qed

lemma load_and_verify_recorded: "post I (load_and_verify_vbmeta d ops rq args out) (recorded L rq out)"
  by (induction d arbitrary: args out) (auto intro: with_recorded post_Fault)

end

section \<open>The chain of trust\<close>

text \<open>
  The image was verified with \<open>key\<close> as its public key, and its rollback index is not below the one the
  host stores at \<open>loc\<close>.
\<close>

definition image_verified :: "'w AvbOps \<Rightarrow> ('w \<Rightarrow> bool) \<Rightarrow> bytes \<Rightarrow> u32 \<Rightarrow> AvbVBMetaData \<Rightarrow> bool" where
  "image_verified ops I key loc img \<longleftrightarrow> vd_verify_result img = AVB_VBMETA_VERIFY_RESULT_OK \<and>
     (\<exists>n h h' ofs len. avb_vbmeta_image_verify (vd_vbmeta_data img) n h =
          Ok ((AVB_VBMETA_VERIFY_RESULT_OK, Some (ofs, len)), h') \<and>
        unat n \<le> length (snd (vd_vbmeta_data img)) \<and> key = take (unat len) (drop ofs (snd (vd_vbmeta_data img)))) \<and>
     (\<exists>f w stored w'. read_rollback_index ops = Some f \<and> I w \<and> f (ucast loc) w = Ok ((AVB_IO_RESULT_OK, stored), w') \<and>
        stored \<le> rollback_index (host_header (snd (vd_vbmeta_data img))))"

text \<open>The host was asked about a key, and trusts it.\<close>

definition host_trusts :: "'w AvbOps \<Rightarrow> ('w \<Rightarrow> bool) \<Rightarrow> slot_request \<Rightarrow> bytes \<Rightarrow> u32 \<Rightarrow> bool" where
  "host_trusts ops I rq key loc \<longleftrightarrow> (\<exists>pk len md md_len w w'. key = take (unat len) pk \<and> I w \<and>
     (if no_vbmeta_partition rq
      then \<exists>f name. validate_public_key_for_partition ops = Some f \<and>
        f name pk len md md_len 0 w = Ok ((AVB_IO_RESULT_OK, True, loc), w')
      else loc = 0 \<and> (\<exists>f. validate_vbmeta_public_key ops = Some f \<and>
        f pk len md md_len w = Ok ((AVB_IO_RESULT_OK, True), w'))))"

text \<open>Descriptors of an image, and the keys and locations its chain partition descriptors name.\<close>

definition descriptor_of :: "AvbVBMetaData \<Rightarrow> bytes \<Rightarrow> bool" where
  "descriptor_of img desc \<longleftrightarrow> (\<exists>n h ds k h' ofs.
     avb_descriptor_get_all (Some (vd_vbmeta_data img)) n h = Ok (Some (ds, k), h') \<and>
     unat n \<le> length (snd (vd_vbmeta_data img)) \<and> ofs \<in> set ds \<and> desc = drop ofs (snd (vd_vbmeta_data img)))"

definition chained_key :: "AvbVBMetaData \<Rightarrow> bytes \<Rightarrow> u32 \<Rightarrow> bool" where
  "chained_key img key loc \<longleftrightarrow> (\<exists>desc src d. descriptor_of img desc \<and>
     load_AvbChainPartitionDescriptor desc = Ok src \<and>
     avb_chain_partition_descriptor_validate_and_byteswap src = (True, d) \<and> loc = cp_rollback_index_location d \<and>
     key = take (unat (cp_public_key_len d))
       (drop (unat (cp_partition_name_len d)) (drop sizeof_AvbChainPartitionDescriptor desc)))"

definition verification_disabled :: "AvbVBMetaData \<Rightarrow> bool" where
  "verification_disabled img \<longleftrightarrow>
     flags (host_header (snd (vd_vbmeta_data img))) AND AVB_VBMETA_IMAGE_FLAGS_VERIFICATION_DISABLED \<noteq> 0"

text \<open>A partition the image vouches for.\<close>

definition vouched :: "'w AvbOps \<Rightarrow> ('w \<Rightarrow> bool) \<Rightarrow> AvbVBMetaData \<Rightarrow> AvbPartitionData \<Rightarrow> bool" where
  "vouched ops I img p \<longleftrightarrow> verification_disabled img \<or> (\<exists>desc. descriptor_of img desc \<and> partition_matches ops I desc p)"

text \<open>The host never returns a persistent value.\<close>

definition no_persistent_values :: "'w AvbOps \<Rightarrow> ('w \<Rightarrow> bool) \<Rightarrow> bool" where
  "no_persistent_values ops I \<longleftrightarrow> (\<forall>f name n w d num w'. read_persistent_value ops = Some f \<longrightarrow> I w \<longrightarrow>
     f name n w \<noteq> Ok ((AVB_IO_RESULT_OK, d, num), w'))"

text \<open>
  What processing the descriptors of \<open>img\<close> adds to the slot: images signed with chained keys and
  partitions. When the host returns no persistent values, an error is never forgotten, and success means
  that all partitions added are vouched for.
\<close>

definition chain_run ::
    "'w AvbOps \<Rightarrow> ('w \<Rightarrow> bool) \<Rightarrow> AvbVBMetaData \<Rightarrow> bool \<Rightarrow> AvbSlotVerifyResult \<Rightarrow> vbmeta_out \<Rightarrow> AvbSlotVerifyResult \<Rightarrow> vbmeta_out \<Rightarrow> bool" where
  "chain_run ops I img m ret out ret' out' \<longleftrightarrow> (\<exists>imgs ps.
     sd_vbmeta_images (vo_slot_data out') = sd_vbmeta_images (vo_slot_data out) @ imgs \<and>
     sd_loaded_partitions (vo_slot_data out') = sd_loaded_partitions (vo_slot_data out) @ ps \<and>
     (\<not> m \<longrightarrow> imgs = []) \<and>
     (\<forall>j\<in>set imgs. \<exists>key loc. image_verified ops I key loc j \<and> chained_key img key loc) \<and>
     (ret' = AVB_SLOT_VERIFY_RESULT_OK \<and> no_persistent_values ops I \<longrightarrow>
       ret = AVB_SLOT_VERIFY_RESULT_OK \<and> (\<forall>p\<in>set ps. \<exists>j\<in>set (img # imgs). vouched ops I j p)))"

lemma chain_run_same:
  "sd_vbmeta_images (vo_slot_data out') = sd_vbmeta_images (vo_slot_data out) \<Longrightarrow>
   sd_loaded_partitions (vo_slot_data out') = sd_loaded_partitions (vo_slot_data out) \<Longrightarrow>
   (ret' = AVB_SLOT_VERIFY_RESULT_OK \<Longrightarrow> no_persistent_values ops I \<Longrightarrow> ret = AVB_SLOT_VERIFY_RESULT_OK) \<Longrightarrow>
   chain_run ops I img m ret out ret' out'"
  by (auto simp: chain_run_def)

lemma chain_run_simps [simp]:
  "chain_run ops I img m ret out ret out"
  "e \<noteq> AVB_SLOT_VERIFY_RESULT_OK \<Longrightarrow> chain_run ops I img m ret out e out"
  "chain_run ops I img m ret out ret (out\<lparr>vo_slot_data := (vo_slot_data out)\<lparr>sd_cmdline := c\<rparr>\<rparr>)"
  "\<not> no_persistent_values ops I \<Longrightarrow> chain_run ops I img m ret out e out"
  "\<not> no_persistent_values ops I \<Longrightarrow> chain_run ops I img m ret out e (out\<lparr>vo_cmdline_subst := s\<rparr>)"
  by (rule chain_run_same; simp)+

lemma chain_run_alone:
  "chain_run ops I img False ret out ret' out' \<Longrightarrow> \<exists>ps.
    sd_vbmeta_images (vo_slot_data out') = sd_vbmeta_images (vo_slot_data out) \<and>
    sd_loaded_partitions (vo_slot_data out') = sd_loaded_partitions (vo_slot_data out) @ ps \<and>
    (ret' = AVB_SLOT_VERIFY_RESULT_OK \<and> no_persistent_values ops I \<longrightarrow> (\<forall>p\<in>set ps. vouched ops I img p))"
  unfolding chain_run_def by auto

lemma chain_run_trans:
  "chain_run ops I img m r1 o1 r2 o2 \<Longrightarrow> chain_run ops I img m r2 o2 r3 o3 \<Longrightarrow> chain_run ops I img m r1 o1 r3 o3"
  unfolding chain_run_def by (elim exE conjE) (intro exI [of _ "_ @ _"] conjI; (simp; fail)?; fastforce)

text \<open>The same for a whole call, whose own image comes first.\<close>

definition trusted_by :: "'w AvbOps \<Rightarrow> ('w \<Rightarrow> bool) \<Rightarrow> slot_request \<Rightarrow> vbmeta_args \<Rightarrow> bytes \<Rightarrow> u32 \<Rightarrow> bool" where
  "trusted_by ops I rq args key loc \<longleftrightarrow>
     (case va_expected_public_key args of
        Some k \<Rightarrow> loc = word_of_int (va_rollback_index_location args) \<and>
          key = take (unat (va_expected_public_key_length args)) k
      | None \<Rightarrow> host_trusts ops I rq key loc)"

definition trust_run ::
    "'w AvbOps \<Rightarrow> ('w \<Rightarrow> bool) \<Rightarrow> slot_request \<Rightarrow> vbmeta_args \<Rightarrow> vbmeta_out \<Rightarrow> AvbSlotVerifyResult \<times> vbmeta_out \<Rightarrow> bool" where
  "trust_run ops I rq args out r \<longleftrightarrow> (case r of (ret', out') \<Rightarrow>
     sd_vbmeta_images (vo_slot_data out') = sd_vbmeta_images (vo_slot_data out) \<and>
     sd_loaded_partitions (vo_slot_data out') = sd_loaded_partitions (vo_slot_data out) \<and>
     ret' \<noteq> AVB_SLOT_VERIFY_RESULT_OK \<or>
     (\<exists>img key loc ret0 out0.
        sd_vbmeta_images (vo_slot_data out0) = sd_vbmeta_images (vo_slot_data out) @ [img] \<and>
        sd_loaded_partitions (vo_slot_data out0) = sd_loaded_partitions (vo_slot_data out) \<and>
        image_verified ops I key loc img \<and> trusted_by ops I rq args key loc \<and>
        chain_run ops I img (is_main_vbmeta rq args) ret0 out0 ret' out'))"

definition args_ok :: "slot_request \<Rightarrow> vbmeta_args \<Rightarrow> bool" where
  "args_ok rq args \<longleftrightarrow> (va_expected_public_key args = None \<longrightarrow> va_rollback_index_location args = 0) \<and>
     (is_main_vbmeta rq args \<longrightarrow> va_expected_public_key args = None)"

lemma host_trustsI:
  "no_vbmeta_partition rq \<Longrightarrow> validate_public_key_for_partition ops = Some f \<Longrightarrow> I w \<Longrightarrow>
    f name pk len md md_len 0 w = Ok ((AVB_IO_RESULT_OK, True, loc), w') \<Longrightarrow> host_trusts ops I rq (take (unat len) pk) loc"
  "\<not> no_vbmeta_partition rq \<Longrightarrow> validate_vbmeta_public_key ops = Some g \<Longrightarrow> I w \<Longrightarrow>
    g pk len md md_len w = Ok ((AVB_IO_RESULT_OK, True), w') \<Longrightarrow> host_trusts ops I rq (take (unat len) pk) 0"
  unfolding host_trusts_def by metis+

lemma verdict_strict:
  "\<not> allow \<Longrightarrow> vbmeta_verdict allow v = Inl e \<Longrightarrow> e \<noteq> AVB_SLOT_VERIFY_RESULT_OK"
  "\<not> allow \<Longrightarrow> vbmeta_verdict allow v = Inr r \<Longrightarrow> v = AVB_VBMETA_VERIFY_RESULT_OK \<and> r = AVB_SLOT_VERIFY_RESULT_OK"
  by (auto simp: vbmeta_verdict_def split: AvbVBMetaVerifyResult.splits if_splits)

lemma verdict_key:
  assumes "\<not> allow" "v = AVB_VBMETA_VERIFY_RESULT_OK \<longrightarrow> (case pk of None \<Rightarrow> False | Some (_, len) \<Rightarrow> len > (0 :: u64))"
    and "vbmeta_verdict allow v = Inr r"
  shows "\<exists>ofs len. v = AVB_VBMETA_VERIFY_RESULT_OK \<and> r = AVB_SLOT_VERIFY_RESULT_OK \<and> pk = Some (ofs, len)"
  using verdict_strict(2) [OF assms(1,3)] assms(2) by (auto split: option.splits)

lemma malloc_obj_length: "avb_malloc_obj sz h = (Some (a, buf), h') \<Longrightarrow> length buf = sz"
  by (auto simp: avb_malloc_obj_def Let_def split: prod.splits option.splits)

lemma filled_length: "filled buf data = Ok buf' \<Longrightarrow> length buf' = length buf"
  by (auto simp: filled_def split: if_splits)

context host
begin

lemma persistent_digest_none:
  "post I (read_persistent_digest ops part n initial) (\<lambda>(ret, out). ret = AVB_SLOT_VERIFY_RESULT_OK \<longrightarrow> \<not> no_persistent_values ops I)"
  by (rule post_weaken [OF persistent_post]) (clarsimp simp: no_persistent_values_def, blast)

lemma hash_step_chain:
  assumes "\<not> rq_allow_verification_error rq" "descriptor_of img desc"
  shows "post I (hash_descriptor_step ops rq desc ret out) (\<lambda>(_, ret', out'). chain_run ops I img m ret out ret' out')"
proof -
  have "chain_run ops I img m ret out ret' (out\<lparr>vo_slot_data := slot\<rparr>)"
    if "slot = vo_slot_data out \<or> (\<exists>p. add_partition (vo_slot_data out) p slot \<and>
        (ret' = AVB_SLOT_VERIFY_RESULT_OK \<longrightarrow> partition_matches ops I desc p))"
      and "ret' = AVB_SLOT_VERIFY_RESULT_OK \<Longrightarrow> ret = AVB_SLOT_VERIFY_RESULT_OK" for ret' slot
    using that assms(2) unfolding chain_run_def add_partition_def vouched_def by fastforce
  then show ?thesis
    unfolding hash_descriptor_step_def Let_def using assms(1)
    apply simp
    apply (rule post_andthen [OF hash_partition_post])
    apply (rule post_prod, rule post_if; rule post_retn)
    apply auto
    done
qed

lemma chain_step_chain:
  assumes rec: "\<And>a out. args_ok rq a \<Longrightarrow> post I (rec a out) (trust_run ops I rq a out)" and D: "descriptor_of img desc"
  shows "post I (chain_descriptor_step rec m fl desc ret out) (\<lambda>(_, ret', out'). chain_run ops I img m ret out ret' out')"
proof -
  have inv: "chain_run ops I img m ret out AVB_SLOT_VERIFY_RESULT_ERROR_INVALID_METADATA out" for m
    by (rule chain_run_same) simp_all
  have sub: "chain_run ops I img True ret out (if r = AVB_SLOT_VERIFY_RESULT_OK then ret else r) (out\<lparr>vo_slot_data := vo_slot_data o'\<rparr>)"
    if "trust_run ops I rq (chain_args fl desc d) (out\<lparr>vo_algorithm_type := None, vo_cmdline_subst := None\<rparr>) (r, o')"
      and "load_AvbChainPartitionDescriptor desc = Ok src"
      and "avb_chain_partition_descriptor_validate_and_byteswap src = (True, d)" "cp_rollback_index_location d \<noteq> 0" for r o' src d
  proof -
    have k: "chained_key img key loc" if "trusted_by ops I rq (chain_args fl desc d) key loc" for key loc
      using that D \<open>load_AvbChainPartitionDescriptor desc = Ok src\<close> \<open>avb_chain_partition_descriptor_validate_and_byteswap src = (True, d)\<close>
      unfolding chained_key_def by (fastforce simp: trusted_by_def chain_args_def Let_def)
    note T = that(1) and nm = chain_args_not_main [OF that(4), of rq fl desc]
    show ?thesis
    proof (cases "r \<noteq> AVB_SLOT_VERIFY_RESULT_OK \<and> sd_vbmeta_images (vo_slot_data o') = sd_vbmeta_images (vo_slot_data out) \<and>
        sd_loaded_partitions (vo_slot_data o') = sd_loaded_partitions (vo_slot_data out)")
      case True
      then show ?thesis by (intro chain_run_same) simp_all
    next
      case False
      then obtain img' key loc ret0 out0 where
        i: "sd_vbmeta_images (vo_slot_data out0) = sd_vbmeta_images (vo_slot_data out) @ [img']"
           "sd_loaded_partitions (vo_slot_data out0) = sd_loaded_partitions (vo_slot_data out)"
           "image_verified ops I key loc img'" "chained_key img key loc" "chain_run ops I img' False ret0 out0 r o'"
        using T k nm unfolding trust_run_def by auto
      from i(5) obtain ps where
        "sd_vbmeta_images (vo_slot_data o') = sd_vbmeta_images (vo_slot_data out0)"
        "sd_loaded_partitions (vo_slot_data o') = sd_loaded_partitions (vo_slot_data out0) @ ps"
        "r = AVB_SLOT_VERIFY_RESULT_OK \<and> no_persistent_values ops I \<longrightarrow> (\<forall>p\<in>set ps. vouched ops I img' p)"
        by (rule chain_run_alone [elim_format]) blast
      with i show ?thesis
        unfolding chain_run_def by (intro exI [of _ "[img']"] exI [of _ ps]) auto
    qed
  qed
  have ok: "args_ok rq (chain_args fl desc d)" if "cp_rollback_index_location d \<noteq> 0" for d
    using chain_args_not_main [OF that] by (simp add: args_ok_def chain_args_def Let_def)
  show ?thesis
    unfolding chain_descriptor_step_def Let_def
    apply (rule post_if, rule post_retn, simp add: inv)
    apply (rule post_pure, rule post_prod)
    apply (rule post_if, rule post_retn, simp add: inv)
    apply (rule post_if, rule post_retn, simp add: inv)
    apply (rule post_andthen [OF rec [OF ok]], assumption)
    apply (rule post_prod, rule post_if; rule post_retn)
    apply (auto dest: sub)
    done
qed

lemma cmdline_step_chain:
  "post I (kernel_cmdline_step fl desc ret out) (\<lambda>(_, ret', out'). chain_run ops I img m ret out ret' out')"
  unfolding kernel_cmdline_step_def Let_def
  by (rule avb_post post_seq avb_calm | simp)+

lemma hashtree_step_chain:
  "post I (hashtree_descriptor_step ops rq desc ret out) (\<lambda>(_, ret', out'). chain_run ops I img m ret out ret' out')"
  unfolding hashtree_descriptor_step_def Let_def
  by (rule post_andthen [OF persistent_digest_none] avb_post post_seq avb_calm | simp)+

lemma descriptor_step_chain:
  assumes "\<And>a out. args_ok rq a \<Longrightarrow> post I (rec a out) (trust_run ops I rq a out)" "descriptor_of img desc"
    "\<not> rq_allow_verification_error rq"
  shows "post I (descriptor_step rec ops rq m fl desc ret out) (\<lambda>(_, ret', out'). chain_run ops I img m ret out ret' out')"
  unfolding descriptor_step_def
  by (rule hash_step_chain [OF assms(3,2)] chain_step_chain [OF assms(1,2)] cmdline_step_chain hashtree_step_chain avb_post | simp)+

lemma process_image_chain:
  assumes rec: "\<And>a out. args_ok rq a \<Longrightarrow> post I (rec a out) (trust_run ops I rq a out)"
    and allow: "\<not> rq_allow_verification_error rq"
    and img: "vd_vbmeta_data img = buf" "h = host_header (snd buf)" "unat n \<le> length (snd buf)"
  shows "post I (process_image rec ops rq args buf n h ret out)
    (\<lambda>(ret', out'). chain_run ops I img (is_main_vbmeta rq args) ret out ret' out')"
proof -
  let ?m = "is_main_vbmeta rq args"
  have disabled: "chain_run ops I img ?m ret out (if sub \<noteq> AVB_SLOT_VERIFY_RESULT_OK then sub else ret) (out\<lparr>vo_slot_data := slot\<rparr>)"
    if "grows P (vo_slot_data out) slot" "flags h AND AVB_VBMETA_IMAGE_FLAGS_VERIFICATION_DISABLED \<noteq> 0" for sub slot P
  proof -
    have "vouched ops I img p" for p
      using that(2) img by (simp add: vouched_def verification_disabled_def)
    then show ?thesis using that(1) by (auto simp: chain_run_def grows_def)
  qed
  have req: "post I (load_requested_partitions ops rp suffix slot) (\<lambda>(_, slot'). grows (loaded (\<lambda>_ _ _. True) suffix) slot slot')" for rp suffix slot
    unfolding load_requested_partitions_def by (intro post_option post_Fault any.load_requested_grows)
  have loop: "post I (descriptor_loop (\<lambda>n. descriptor_step rec ops rq ?m fl (drop n (snd buf))) ds ret out)
      (\<lambda>(_, ret', out'). chain_run ops I img ?m ret out ret' out')"
    if "\<And>d. d \<in> set ds \<Longrightarrow> descriptor_of img (drop d (snd buf))" for fl ds
    by (rule post_weaken [OF descriptor_loop_post [where J = "chain_run ops I img ?m ret out" and Q = "chain_run ops I img ?m ret out"]])
      (auto intro!: post_weaken [OF descriptor_step_chain [OF rec that allow]] intro: chain_run_trans)
  have last: "chain_run ops I img ?m ret out r (o'\<lparr>vo_slot_data := (vo_slot_data o')\<lparr>sd_rollback_indexes := xs\<rparr>, vo_algorithm_type := t\<rparr>)"
    "e \<noteq> AVB_SLOT_VERIFY_RESULT_OK \<Longrightarrow> chain_run ops I img ?m ret out e o'"
    if "chain_run ops I img ?m ret out r o'" for r o' xs t e
    using that by (simp add: chain_run_def, auto intro: chain_run_trans [OF that])
  have desc: "descriptor_of img (drop d (snd buf))"
    if "avb_descriptor_get_all (Some buf) n hp = Ok (Some (ds, k), hp')" "d \<in> set (take k ds)" for hp ds k hp' d
    using that img set_take_subset [of k ds] unfolding descriptor_of_def by blast
  show ?thesis
    unfolding process_image_def
    apply (rule post_if)
     apply (rule post_andthen [OF req], rule post_prod, rule post_retn)
     apply (hypsubst, simp only: split_conv, rule disabled, assumption+)
    apply (rule post_heap_act, rule post_option, rule post_Fault, rule post_prod)
    apply (rule post_andthen [OF loop], rule desc, force, assumption)
    apply (rule post_prod, rule post_prod, rule post_if, rule post_retn, simp)
    apply (rule post_if; rule post_retn; simp add: last)
    done
qed

lemma public_key_trusted:
  assumes "\<not> rq_allow_verification_error rq" "args_ok rq args"
  shows "post I (check_public_key ops rq args full buf h (Some (ofs, len)) ret)
    (\<lambda>r. case r of Inl e \<Rightarrow> e \<noteq> AVB_SLOT_VERIFY_RESULT_OK
      | Inr (ret', loc) \<Rightarrow> ret' = ret \<and> trusted_by ops I rq args (take (unat len) (drop ofs buf)) loc)"
proof (cases "va_expected_public_key args")
  case None
  then have z: "va_rollback_index_location args = 0" using assms(2) by (simp add: args_ok_def)
  let ?T = "\<lambda>(io_ret, trusted, loc). io_ret = AVB_IO_RESULT_OK \<and> trusted \<longrightarrow> host_trusts ops I rq (take (unat len) (drop ofs buf)) loc"
  have ask: "post I (if no_vbmeta_partition rq
       then call (validate_public_key_for_partition ops) (\<lambda>f. f full (drop ofs buf) len md ml 0)
       else asserting (is_main_vbmeta rq args) (andthen (call (validate_vbmeta_public_key ops) (\<lambda>f. f (drop ofs buf) len md ml))
              (\<lambda>(io_ret, trusted). retn (io_ret, trusted, 0)))) ?T" for md ml
  proof (rule post_if)
    assume n: "no_vbmeta_partition rq"
    show "post I (call (validate_public_key_for_partition ops) (\<lambda>f. f full (drop ofs buf) len md ml 0)) ?T"
      by (rule post_last) (use n in \<open>auto intro!: avb_post post_retn intro: host_trustsI\<close>)
  next
    assume "\<not> no_vbmeta_partition rq"
    then show "post I (asserting (is_main_vbmeta rq args) (andthen (call (validate_vbmeta_public_key ops) (\<lambda>f. f (drop ofs buf) len md ml))
        (\<lambda>(io_ret, trusted). retn (io_ret, trusted, 0)))) ?T"
      by (intro avb_post) (auto intro: host_trustsI)
  qed
  show ?thesis
    unfolding check_public_key_def Let_def None option.case split_conv z of_int_0
    apply (rule post_prod, rule post_andthen [OF ask])
    apply (rule post_prod, rule post_prod, rule post_option)
     apply (rule post_retn, simp)
     apply (auto simp: soft_error_def trusted_by_def None assms io_error_None dest: io_error_fails intro!: post_retn)
    done
next
  case (Some k)
  then show ?thesis
    unfolding check_public_key_def Let_def Some option.case split_conv
    by (intro post_asserting post_if post_pure post_retn)
      (auto simp: soft_error_def assms trusted_by_def Some dest: safe_memcmp_Ok(3))
qed

lemma rollback_checked:
  assumes "\<not> rq_allow_verification_error rq"
  shows "post I (check_rollback_index ops rq h loc ret)
    (\<lambda>r. case r of Inl e \<Rightarrow> e \<noteq> AVB_SLOT_VERIFY_RESULT_OK
      | Inr (ret', _) \<Rightarrow> ret' = ret \<and> (\<exists>f w stored w'. read_rollback_index ops = Some f \<and> I w \<and>
          f (ucast loc) w = Ok ((AVB_IO_RESULT_OK, stored), w') \<and> stored \<le> rollback_index h))"
  unfolding check_rollback_index_def
  by (rule avb_post | auto dest: io_error_fails simp: io_error_None soft_error_def assms not_less split: if_splits)+

lemma trust_run_fail: "e \<noteq> AVB_SLOT_VERIFY_RESULT_OK \<Longrightarrow> post I (retn (e, out)) (trust_run ops I rq args out)"
  by (rule post_retn) (simp add: trust_run_def)

lemma verify_image_trust:
  assumes rec: "\<And>a out. args_ok rq a \<Longrightarrow> post I (rec a out) (trust_run ops I rq a out)"
    and allow: "\<not> rq_allow_verification_error rq" and args: "args_ok rq args" and n: "unat n \<le> length (snd buf)"
  shows "post I (verify_image rec ops rq args full buf n out) (trust_run ops I rq args out)"
proof -
  have proc: "post I (process_image rec ops rq args buf n h ret (record_image name buf h v out)) (trust_run ops I rq args out)"
    if "image_verified ops I key loc img" "trusted_by ops I rq args key loc" "h = host_header (snd buf)"
      "img = \<lparr>vd_partition_name = name, vd_vbmeta_data = buf, vd_vbmeta_size = sz, vd_verify_result = v\<rparr>"
      "sz = of_nat AVB_VBMETA_IMAGE_HEADER_SIZE + authentication_data_block_size h + auxiliary_data_block_size h"
    for h ret name v key loc img sz
    by (rule post_weaken [OF process_image_chain [OF rec allow, of img]])
      (use that n in \<open>auto simp: trust_run_def record_image_def
        intro!: exI [of _ img] exI [of _ "record_image name buf h v out"]\<close>)
  have verified: "image_verified ops I (take (unat len) (drop ofs (snd buf))) loc
      \<lparr>vd_partition_name = name, vd_vbmeta_data = buf, vd_vbmeta_size = sz, vd_verify_result = AVB_VBMETA_VERIFY_RESULT_OK\<rparr>"
    if "avb_vbmeta_image_verify buf n hp = Ok ((AVB_VBMETA_VERIFY_RESULT_OK, Some (ofs, len)), hp')"
      "\<exists>f w stored w'. read_rollback_index ops = Some f \<and> I w \<and> f (ucast loc) w = Ok ((AVB_IO_RESULT_OK, stored), w') \<and>
         stored \<le> rollback_index (host_header (snd buf))" for hp ofs len hp' loc name sz
    using that n unfolding image_verified_def by simp blast
  show ?thesis
    unfolding verify_image_def Let_def
    apply (rule post_heap_act, rule post_prod, rule post_asserting, rule post_sum)
     apply (rule trust_run_fail, rule verdict_strict(1) [OF allow], assumption)
    apply (drule (1) verdict_key [OF allow], elim exE conjE, hypsubst)
    apply (rule post_pure, rule post_if, rule trust_run_fail, simp)
    apply (rule post_andthen [OF public_key_trusted [OF allow args]], rule post_sum, rule trust_run_fail, simp)
    apply (rule post_prod)
    apply (rule post_andthen [OF rollback_checked [OF allow]], rule post_sum, rule trust_run_fail, simp)
    apply (rule post_prod, rule post_asserting, rule post_if, rule trust_run_fail, simp)
    apply (rule post_pure, rule post_alloc)
    apply (rule proc [OF verified], assumption)
    apply (auto simp: host_header_def)
    done
qed

lemma find_vbmeta_strict: "post I (find_vbmeta ops full) (\<lambda>r. \<forall>e. r = Inl e \<longrightarrow> e \<noteq> AVB_SLOT_VERIFY_RESULT_OK)"
  unfolding find_vbmeta_def by (rule avb_post | auto dest: io_error_fails)+

lemma with_trust:
  assumes rec: "\<And>a out. args_ok rq a \<Longrightarrow> post I (rec a out) (trust_run ops I rq a out)"
    and allow: "\<not> rq_allow_verification_error rq" and args: "args_ok rq args"
  shows "post I (load_and_verify_vbmeta_with rec ops rq args out) (trust_run ops I rq args out)"
proof -
  have find: "post I (if b then find_vbmeta ops full else retn (Inr (0, of_nat VBMETA_MAX_SIZE)))
      (\<lambda>r. \<forall>e. r = Inl e \<longrightarrow> e \<noteq> AVB_SLOT_VERIFY_RESULT_OK)" for b full
    by (intro post_if find_vbmeta_strict post_retn) simp
  have boot: "post I (rec boot_args out) (trust_run ops I rq args out)" if "is_main_vbmeta rq args" for out
  proof -
    have "args_ok rq boot_args" "is_main_vbmeta rq boot_args" "va_expected_public_key args = None"
      using that args by (simp_all add: args_ok_def boot_args_def is_main_vbmeta_def)
    then show ?thesis
      using that by (intro post_weaken [OF rec [of boot_args out]]) (simp_all add: trust_run_def trusted_by_def boot_args_def)
  qed
  show ?thesis
    unfolding load_and_verify_vbmeta_with_def
    by (rule trust_run_fail boot verify_image_trust [OF rec allow args] post_andthen [OF find] avb_post
      | simp | (drule malloc_obj_length filled_length, simp add: word_le_nat_alt))+
qed

lemma load_and_verify_trust:
  assumes "\<not> rq_allow_verification_error rq"
  shows "args_ok rq args \<Longrightarrow> post I (load_and_verify_vbmeta d ops rq args out) (trust_run ops I rq args out)"
  by (induction d arbitrary: args out) (simp add: post_Fault, simp, rule with_trust [OF _ assms])

end

section \<open>The command line leaves the rest alone\<close>

definition cmdline_only :: "AvbSlotVerifyData \<Rightarrow> AvbSlotVerifyData \<Rightarrow> bool" where
  "cmdline_only slot slot' \<longleftrightarrow> (\<exists>c. slot' = slot\<lparr>sd_cmdline := c\<rparr>)"

lemma cmdline_only_simps [simp]: "cmdline_only slot slot" "cmdline_only slot (slot\<lparr>sd_cmdline := c\<rparr>)"
  unfolding cmdline_only_def by (auto intro: exI [of _ "sd_cmdline slot"])

lemma cmdline_only_trans: "cmdline_only a b \<Longrightarrow> cmdline_only b c \<Longrightarrow> cmdline_only a c"
  by (auto simp: cmdline_only_def)

text \<open>What the options do: the command line changes, and failures are not verification errors.\<close>

definition options_post :: "AvbSlotVerifyData \<Rightarrow> AvbSlotVerifyResult \<times> AvbSlotVerifyData \<Rightarrow> bool" where
  "options_post slot r \<longleftrightarrow> (case r of (ret, slot') \<Rightarrow>
     cmdline_only slot slot' \<and> (ret = AVB_SLOT_VERIFY_RESULT_OK \<or> \<not> result_should_continue ret))"

text \<open>The end of the function, for the slot data it is given.\<close>

definition slot_kept :: "AvbSlotVerifyData \<Rightarrow> AvbSlotVerifyData \<Rightarrow> bool" where
  "slot_kept slot slot' \<longleftrightarrow> sd_vbmeta_images slot' = sd_vbmeta_images slot \<and>
     sd_loaded_partitions slot' = sd_loaded_partitions slot \<and> sd_rollback_indexes slot' = sd_rollback_indexes slot"

definition kept_or_failed :: "AvbSlotVerifyData \<Rightarrow> AvbSlotVerifyResult + AvbSlotVerifyData \<Rightarrow> bool" where
  "kept_or_failed slot r \<longleftrightarrow> (case r of Inl e \<Rightarrow> \<not> result_should_continue e | Inr slot' \<Rightarrow> slot_kept slot slot')"

lemma kept_simps [simp]:
  "kept_or_failed slot (Inr slot)" "kept_or_failed slot (Inr (slot\<lparr>sd_cmdline := c\<rparr>))"
  "kept_or_failed slot (Inl e) \<longleftrightarrow> \<not> result_should_continue e"
  by (simp_all add: kept_or_failed_def slot_kept_def)

context host
begin

lemma options_post_retn:
  "cmdline_only slot slot' \<Longrightarrow> ret = AVB_SLOT_VERIFY_RESULT_OK \<or> \<not> result_should_continue ret \<Longrightarrow>
    post I (retn (ret, slot')) (options_post slot)"
  by (rule post_retn) (simp add: options_post_def)

lemma append_option_only: "post I (cmdline_append_option slot key v) (\<lambda>(ok, slot'). cmdline_only slot slot')"
  unfolding cmdline_append_option_def Let_def by (rule avb_post | simp)+

lemma append_number_only:
  "post I (cmdline_append_version slot key a b) (\<lambda>(ok, slot'). cmdline_only slot slot')"
  "post I (cmdline_append_uint64_base10 slot key v) (\<lambda>(ok, slot'). cmdline_only slot slot')"
  unfolding cmdline_append_version_def cmdline_append_uint64_base10_def Let_def by (rule append_option_only)+

lemma append_hex_only: "post I (cmdline_append_hex slot key d n) (\<lambda>(ok, slot'). cmdline_only slot slot')"
  unfolding cmdline_append_hex_def by (rule append_option_only avb_post | simp)+

lemmas append_only = append_option_only append_number_only append_hex_only

text \<open>The rule for a step that may run out of memory, from a slot already changed.\<close>

lemma or_oom_post:
  assumes "post I m (\<lambda>(ok, s1). cmdline_only s1' s1)" "cmdline_only slot s1'"
    and "\<And>s1. cmdline_only slot s1 \<Longrightarrow> post I (rest s1) (options_post slot)"
  shows "post I (or_oom m rest) (options_post slot)"
  unfolding or_oom_def
  by (rule post_andthen [OF assms(1)], rule post_prod, rule post_if)
    (use assms(2,3) in \<open>auto intro: options_post_retn cmdline_only_trans\<close>)

lemma veritymode_post:
  "cmdline_only slot s \<Longrightarrow> post I (append_veritymode mode vm s) (options_post slot)"
  unfolding append_veritymode_def
  by (rule or_oom_post [OF append_option_only] post_if options_post_retn | assumption | simp)+

lemma replace_mode_post:
  assumes "cmdline_only slot s"
  shows "post I (replace_verity_mode mode vm dm s) (options_post slot)"
proof -
  have "cmdline_only slot (s\<lparr>sd_cmdline := c\<rparr>)" for c
    by (rule cmdline_only_trans [OF assms]) simp
  then show ?thesis
    unfolding replace_verity_mode_def Let_def
    by (intro post_pure post_heap_act post_if options_post_retn veritymode_post; simp)
qed

lemma verity_mode_post:
  assumes "cmdline_only slot s1"
  shows "post I (append_verity_mode s1 mode resolved fl) (options_post slot)"
  unfolding append_verity_mode_def Let_def
  by (rule post_if, rule veritymode_post [OF assms], cases resolved)
    (simp_all only: AvbHashtreeErrorMode.case replace_mode_post assms post_Fault
      or_oom_post [OF append_option_only assms replace_mode_post])

lemma vbmeta_digest_post:
  assumes "cmdline_only slot s1" "\<And>s2. cmdline_only slot s2 \<Longrightarrow> post I (rest s2) (options_post slot)"
  shows "post I (append_vbmeta_digest t name n s1 rest) (options_post slot)"
  unfolding append_vbmeta_digest_def Let_def
  by (rule post_pure, (rule or_oom_post [OF append_option_only] or_oom_post [OF append_number_only(2)]
      or_oom_post [OF append_hex_only] | rule assms | assumption)+)

lemma append_options_post:
  "post I (avb_append_options ops vf slot h t mode resolved) (options_post slot)"
proof -
  note steps = or_oom_post [OF append_option_only] or_oom_post [OF append_number_only(1)] vbmeta_digest_post
    verity_mode_post options_post_retn post_Fault post_unlocked post_prod post_if
  show ?thesis
    unfolding avb_append_options_def append_version_to_digest_def Let_def
    by (rule steps | assumption | simp)+
qed

lemma sub_cmdline_calm [avb_calm]:
  "post I (sub_guids ops c suffix gs r) (\<lambda>_. True)" "post I (sub_tokens subst t) (\<lambda>_. True)"
  "post I (avb_sub_cmdline ops c suffix b l) (\<lambda>_. True)"
proof -
  show g: "post I (sub_guids ops c suffix gs r) (\<lambda>_. True)" for c suffix gs r
  proof (induction gs arbitrary: r)
    case (Cons x gs)
    show ?case by (cases x) (simp, (rule Cons.IH avb_post | simp)+)
  qed (simp add: post_retn)
  show t: "post I (sub_tokens subst t) (\<lambda>_. True)" for subst t
  proof (induction subst arbitrary: t)
    case (Cons x subst)
    show ?case by (cases x) (simp, (rule Cons.IH avb_post | simp)+)
  qed (simp add: post_retn)
  show "post I (avb_sub_cmdline ops c suffix b l) (\<lambda>_. True)"
    unfolding avb_sub_cmdline_def by (rule g t post_seq [OF g] avb_post | simp)+
qed

lemma system_partition_calm [avb_calm]: "post I (has_system_partition ops suffix) (\<lambda>_. True)"
  unfolding has_system_partition_def by (rule avb_post | simp)+

lemma manage_error_mode_calm [avb_calm]: "post I (avb_manage_hashtree_error_mode ops vf d) (\<lambda>_. True)"
  unfolding avb_manage_hashtree_error_mode_def Let_def by (rule avb_post | simp)+

lemma complete_cmdline_post: "post I (complete_cmdline ops rq mode h t slot) (kept_or_failed slot)"
proof -
  have opts: "post I (avb_append_options ops vf (slot\<lparr>sd_resolved_hashtree_error_mode := m\<rparr>) h t mode m)
      (\<lambda>(ret, slot'). kept_or_failed slot (if ret \<noteq> AVB_SLOT_VERIFY_RESULT_OK then Inl ret else Inr slot'))" for vf m
    by (rule post_weaken [OF append_options_post])
      (auto simp: options_post_def cmdline_only_def kept_or_failed_def slot_kept_def)
  show ?thesis
    unfolding complete_cmdline_def
    by (rule post_andthen [OF opts] avb_post post_seq avb_calm | simp | (drule io_error_fails, simp))+
qed

lemma substitute_cmdline_post: "post I (substitute_cmdline ops rq b subst slot) (kept_or_failed slot)"
  unfolding substitute_cmdline_def by (rule avb_post post_seq avb_calm | simp)+

lemma finish_slot_post:
  "post I (finish_slot ops rq mode ret out) (\<lambda>(ret', data).
     (case data of
        None \<Rightarrow> \<not> result_should_continue ret'
      | Some slot \<Rightarrow> ret' = ret \<and> (rq_allow_verification_error rq \<or> ret = AVB_SLOT_VERIFY_RESULT_OK) \<and>
          slot_kept (vo_slot_data out) slot \<and> sd_vbmeta_images slot \<noteq> []))"
proof -
  have c: "post I (complete_cmdline ops rq mode h t (slot\<lparr>sd_ab_suffix := s\<rparr>)) (kept_or_failed slot)" for h t slot s
    by (rule post_weaken [OF complete_cmdline_post]) (simp add: kept_or_failed_def slot_kept_def split: sum.splits)
  show ?thesis
    unfolding finish_slot_def Let_def
    apply (rule post_pure)
    apply (rule post_pure, rule post_alloc, rule post_if, rule post_retn, simp)
    apply (rule post_andthen [OF c], rule post_sum, rule post_retn, simp)
    apply (rule post_andthen [OF substitute_cmdline_post], rule post_sum, rule post_retn, simp)
    apply (rule post_asserting, rule post_retn)
    apply (auto simp: kept_or_failed_def slot_kept_def split: list.splits)
    done
qed

end

section \<open>A verified slot\<close>

text \<open>The request the function builds from its arguments, and the empty slot it starts from.\<close>

definition request :: "bytes list option \<Rightarrow> bytes \<Rightarrow> u32 \<Rightarrow> slot_request" where
  "request parts suffix vflags =
     \<lparr>rq_requested_partitions = parts, rq_ab_suffix = suffix, rq_flags = vflags,
      rq_allow_verification_error = (vflags AND AVB_SLOT_VERIFY_FLAGS_ALLOW_VERIFICATION_ERROR \<noteq> 0)\<rparr>"

lemma request_fields [simp]:
  "rq_requested_partitions (request p sf v) = p" "rq_ab_suffix (request p sf v) = sf" "rq_flags (request p sf v) = v"
  "rq_allow_verification_error (request p sf v) = (v AND AVB_SLOT_VERIFY_FLAGS_ALLOW_VERIFICATION_ERROR \<noteq> 0)"
  by (simp_all add: request_def)

definition empty_out :: "AvbCmdlineSubstList option \<Rightarrow> vbmeta_out" where
  "empty_out subst = \<lparr>vo_slot_data = \<lparr>sd_ab_suffix = None, sd_vbmeta_images = [], sd_loaded_partitions = [], sd_cmdline = None,
      sd_rollback_indexes = replicate AVB_MAX_NUMBER_OF_ROLLBACK_INDEX_LOCATIONS 0,
      sd_resolved_hashtree_error_mode = AVB_HASHTREE_ERROR_MODE_RESTART_AND_INVALIDATE\<rparr>,
    vo_algorithm_type = Some (algorithm_value AVB_ALGORITHM_TYPE_NONE), vo_cmdline_subst = subst\<rparr>"

lemma empty_out_fields [simp]:
  "sd_vbmeta_images (vo_slot_data (empty_out subst)) = []" "sd_loaded_partitions (vo_slot_data (empty_out subst)) = []"
  "slot_shape (vo_slot_data (empty_out subst))"
  by (simp_all add: empty_out_def slot_shape_def)

lemma slot_kept_shape:
  "slot_kept slot slot' \<Longrightarrow> slot_shape slot' = slot_shape slot \<and> sd_loaded_partitions slot' = sd_loaded_partitions slot"
  by (simp add: slot_kept_def slot_shape_def)

text \<open>The chain of trust of a slot that verified without allowance for errors.\<close>

definition trusted_image :: "'w AvbOps \<Rightarrow> ('w \<Rightarrow> bool) \<Rightarrow> slot_request \<Rightarrow> AvbVBMetaData \<Rightarrow> bool" where
  "trusted_image ops I rq img \<longleftrightarrow> (\<exists>key loc. image_verified ops I key loc img \<and> host_trusts ops I rq key loc)"

definition chained_image :: "'w AvbOps \<Rightarrow> ('w \<Rightarrow> bool) \<Rightarrow> AvbVBMetaData \<Rightarrow> AvbVBMetaData \<Rightarrow> bool" where
  "chained_image ops I img j \<longleftrightarrow> (\<exists>key loc. image_verified ops I key loc j \<and> chained_key img key loc)"

definition slot_trusted :: "'w AvbOps \<Rightarrow> ('w \<Rightarrow> bool) \<Rightarrow> slot_request \<Rightarrow> AvbSlotVerifyData \<Rightarrow> bool" where
  "slot_trusted ops I rq slot \<longleftrightarrow>
     (if no_vbmeta_partition rq then \<forall>j\<in>set (sd_vbmeta_images slot). trusted_image ops I rq j
      else \<exists>img imgs. sd_vbmeta_images slot = img # imgs \<and> trusted_image ops I rq img \<and>
        (\<forall>j\<in>set imgs. chained_image ops I img j)) \<and>
     (no_persistent_values ops I \<longrightarrow>
        (\<forall>p\<in>set (sd_loaded_partitions slot). \<exists>j\<in>set (sd_vbmeta_images slot). vouched ops I j p))"

lemma top_args_ok: "args_ok rq (top_args name)"
  by (simp add: args_ok_def top_args_def)

lemma top_run:
  assumes "trust_run ops I rq (top_args name) out (AVB_SLOT_VERIFY_RESULT_OK, out')"
  shows "\<exists>img ret0 out0. sd_vbmeta_images (vo_slot_data out0) = sd_vbmeta_images (vo_slot_data out) @ [img] \<and>
    sd_loaded_partitions (vo_slot_data out0) = sd_loaded_partitions (vo_slot_data out) \<and>
    trusted_image ops I rq img \<and> chain_run ops I img (\<not> no_vbmeta_partition rq) ret0 out0 AVB_SLOT_VERIFY_RESULT_OK out'"
  using assms by (simp add: trust_run_def trusted_by_def top_args_def is_main_vbmeta_def trusted_image_def) blast

text \<open>One more requested partition verified, without a vbmeta partition.\<close>

definition requested_run :: "'w AvbOps \<Rightarrow> ('w \<Rightarrow> bool) \<Rightarrow> slot_request \<Rightarrow> vbmeta_out \<Rightarrow> bool" where
  "requested_run ops I rq out \<longleftrightarrow> (\<forall>j\<in>set (sd_vbmeta_images (vo_slot_data out)). trusted_image ops I rq j) \<and>
     (no_persistent_values ops I \<longrightarrow> (\<forall>p\<in>set (sd_loaded_partitions (vo_slot_data out)).
        \<exists>j\<in>set (sd_vbmeta_images (vo_slot_data out)). vouched ops I j p))"

lemma requested_run_step:
  assumes "no_vbmeta_partition rq" "requested_run ops I rq out" "trust_run ops I rq (top_args name) out (AVB_SLOT_VERIFY_RESULT_OK, out')"
  shows "requested_run ops I rq out'"
proof -
  obtain img ret0 out0 where i:
    "sd_vbmeta_images (vo_slot_data out0) = sd_vbmeta_images (vo_slot_data out) @ [img]"
    "sd_loaded_partitions (vo_slot_data out0) = sd_loaded_partitions (vo_slot_data out)"
    "trusted_image ops I rq img" "chain_run ops I img False ret0 out0 AVB_SLOT_VERIFY_RESULT_OK out'"
    using top_run [OF assms(3)] assms(1) by auto
  from chain_run_alone [OF i(4)] show ?thesis
    using i assms(2) unfolding requested_run_def by fastforce
qed

lemma slot_kept_trusted: "slot_kept slot slot' \<Longrightarrow> slot_trusted ops I rq slot' = slot_trusted ops I rq slot"
  by (simp add: slot_kept_def slot_trusted_def)

context host
begin

text \<open>The whole function, given what its call of the images guarantees.\<close>

lemma slot_verify_post:
  assumes V: "\<And>subst. post I (verify_images ops (request parts suffix vf) (empty_out subst)) (P subst)"
    and fail: "\<And>subst ret out. P subst (ret, out) \<Longrightarrow> \<not> goes_on (request parts suffix vf) ret \<Longrightarrow> Q (ret, None)"
    and early: "\<And>e. \<not> result_should_continue e \<Longrightarrow> Q (e, None)"
    and "finish": "\<And>subst ret out slot. P subst (ret, out) \<Longrightarrow> goes_on (request parts suffix vf) ret \<Longrightarrow>
      slot_kept (vo_slot_data out) slot \<Longrightarrow> sd_vbmeta_images slot \<noteq> [] \<Longrightarrow> Q (ret, Some slot)"
  shows "post I (avb_slot_verify ops parts suffix vf mode) Q"
proof -
  have e: "Q (AVB_SLOT_VERIFY_RESULT_ERROR_INVALID_ARGUMENT, None)" "Q (AVB_SLOT_VERIFY_RESULT_ERROR_OOM, None)"
    by (rule early; simp)+
  have f: "post I (finish_slot ops (request parts suffix vf) mode ret out) Q"
    if "P subst (ret, out)" "goes_on (request parts suffix vf) ret" for subst ret out
  proof (rule post_weaken [OF finish_slot_post], clarify)
    fix ret' data
    assume a: "case data of None \<Rightarrow> \<not> result_should_continue ret'
      | Some slot \<Rightarrow> ret' = ret \<and> (rq_allow_verification_error (request parts suffix vf) \<or> ret = AVB_SLOT_VERIFY_RESULT_OK) \<and>
          slot_kept (vo_slot_data out) slot \<and> sd_vbmeta_images slot \<noteq> []"
    then show "Q (ret', data)"
      using "finish" [OF that] early by (cases data) simp_all
  qed
  show ?thesis
    unfolding avb_slot_verify_def Let_def request_def [symmetric] empty_out_def [symmetric]
    apply (rule post_asserting)+
    apply (rule post_if, rule post_retn, rule e)
    apply (rule post_if, rule post_retn, rule e)
    apply (rule post_if, rule post_retn, rule e)
    apply (rule post_asserting)
    apply (rule post_alloc, rule post_if, rule post_retn, rule e)
    apply (rule post_alloc, rule post_if, rule post_retn, rule e)
    apply (rule post_alloc, rule post_if, rule post_retn, rule e)
    apply (rule post_alloc, rule post_if, rule post_retn, rule e)
    apply (rule post_andthen [OF V], rule post_prod)
    apply (rule post_if, rule post_retn, rule fail, force, simp add: goes_on_def)
    apply (rule post_if, rule post_retn, rule fail, force, simp add: goes_on_def)
    apply (rule f, force)
    apply (auto simp: goes_on_def)
    done
qed

lemma verify_requested_trust:
  assumes allow: "\<not> rq_allow_verification_error rq" and no: "no_vbmeta_partition rq"
  shows "requested_run ops I rq out \<Longrightarrow> post I (verify_requested ops rq rs ret out)
    (\<lambda>(ret', out'). ret' = AVB_SLOT_VERIFY_RESULT_OK \<longrightarrow> requested_run ops I rq out')"
proof (induction rs arbitrary: ret out)
  case (Cons r rs)
  show ?case
    unfolding verify_requested.simps
    apply (rule post_andthen [OF load_and_verify_trust [OF allow top_args_ok]], rule post_prod, rule post_if, rule post_retn)
     apply simp
    apply (rule Cons.IH, rule requested_run_step [OF no Cons.prems])
    apply (use allow in auto)
    done
qed (simp add: post_retn)

lemma verify_images_trust:
  assumes "\<not> rq_allow_verification_error rq"
  shows "post I (verify_images ops rq (empty_out subst))
    (\<lambda>(ret, out). ret = AVB_SLOT_VERIFY_RESULT_OK \<longrightarrow> slot_trusted ops I rq (vo_slot_data out))"
proof -
  have req: "post I (verify_requested ops rq rs ret (empty_out subst))
      (\<lambda>(ret, out). ret = AVB_SLOT_VERIFY_RESULT_OK \<longrightarrow> slot_trusted ops I rq (vo_slot_data out))"
    if "no_vbmeta_partition rq" for rs ret
    by (rule post_weaken [OF verify_requested_trust [OF assms that]])
      (auto simp: requested_run_def slot_trusted_def that)
  have main: "slot_trusted ops I rq (vo_slot_data out)"
    if run: "trust_run ops I rq (top_args name) (empty_out subst) (AVB_SLOT_VERIFY_RESULT_OK, out)"
      and no: "\<not> no_vbmeta_partition rq" for out name
  proof -
    obtain img ret0 out0 where i:
      "sd_vbmeta_images (vo_slot_data out0) = [img]" "sd_loaded_partitions (vo_slot_data out0) = []"
      "trusted_image ops I rq img" "chain_run ops I img True ret0 out0 AVB_SLOT_VERIFY_RESULT_OK out"
      using top_run [OF run] no by auto
    then show ?thesis
      using no by (auto simp: chain_run_def slot_trusted_def chained_image_def)
  qed
  show ?thesis
    unfolding verify_images_def
    apply (rule post_if, rule post_option, rule post_Fault)
     apply (simp del: verify_requested.simps add: req post_Fault split: list.split)
    apply (rule post_weaken [OF load_and_verify_trust [OF assms top_args_ok]])
    apply (auto intro: main)
    done
qed

lemma slot_verify_trust:
  assumes "vf AND AVB_SLOT_VERIFY_FLAGS_ALLOW_VERIFICATION_ERROR = 0"
  shows "post I (avb_slot_verify ops parts suffix vf mode) (\<lambda>(ret, data).
    \<forall>slot. data = Some slot \<longrightarrow> ret = AVB_SLOT_VERIFY_RESULT_OK \<and> slot_trusted ops I (request parts suffix vf) slot)"
  by (rule slot_verify_post [OF verify_images_trust])
    (use assms in \<open>auto simp: goes_on_def slot_kept_trusted\<close>)


end

context loader
begin

lemma verify_requested_grew:
  "rs \<noteq> [] \<Longrightarrow> post I (verify_requested ops rq rs ret out) (recorded L rq out)"
proof (induction rs arbitrary: ret out)
  case (Cons r rs)
  have "post I (verify_requested ops rq rs ret' out') (recorded L rq out)"
    if "recorded L rq out (ret', out')" "\<not> (\<not> rq_allow_verification_error rq \<and> ret' \<noteq> AVB_SLOT_VERIFY_RESULT_OK)" for ret' out'
  proof (cases "rs = []")
    case True
    then show ?thesis using that by (simp add: post_retn)
  next
    case False
    show ?thesis
      by (rule post_weaken [OF Cons.IH [OF False]]) (use that in \<open>auto simp: recorded_def intro: grew_trans\<close>)
  qed
  then show ?case
    unfolding verify_requested.simps
    by (intro post_andthen [OF load_and_verify_recorded] post_prod post_if post_retn) auto
qed simp

lemma verify_images_grew: "post I (verify_images ops rq out) (recorded L rq out)"
  unfolding verify_images_def
  by (intro post_if post_option load_and_verify_recorded)
    (auto simp del: verify_requested.simps intro!: post_Fault verify_requested_grew split: list.split)

text \<open>Data is handed out exactly when verification goes on, and within its bounds.\<close>

lemma slot_verify_shape:
  "post I (avb_slot_verify ops parts suffix vf mode) (\<lambda>(ret, data). case data of
     None \<Rightarrow> \<not> goes_on (request parts suffix vf) ret
   | Some slot \<Rightarrow> goes_on (request parts suffix vf) ret \<and> slot_shape slot \<and> sd_vbmeta_images slot \<noteq> [] \<and>
       (\<forall>p\<in>set (sd_loaded_partitions slot). loaded L suffix p))"
  by (rule slot_verify_post [OF verify_images_grew])
    (auto simp: recorded_def grew_def goes_on_def dest: slot_kept_shape)

end

section \<open>Errors that are forgotten\<close>

text \<open>A recursive call that hides the errors after which verification could go on.\<close>

definition forgiving :: "'w vbmeta_call \<Rightarrow> 'w vbmeta_call" where
  "forgiving rec args out = andthen (rec args out) (\<lambda>(ret, out).
     retn (if result_should_continue ret then AVB_SLOT_VERIFY_RESULT_OK else ret, out))"

text \<open>A step of the loop up to the result it carries on with.\<close>

definition forget :: "(bool \<times> AvbSlotVerifyResult \<times> vbmeta_out, 'w) act \<Rightarrow> (bool \<times> AvbSlotVerifyResult \<times> vbmeta_out, 'w) act" where
  "forget m = andthen m (\<lambda>(goto_out, ret, out). retn (goto_out, if goto_out then ret else AVB_SLOT_VERIFY_RESULT_OK, out))"

lemma forget_simps:
  "forget (andthen m0 f) = andthen m0 (\<lambda>x. forget (f x))"
  "forget (retn (g, r, out)) = retn (g, if g then r else AVB_SLOT_VERIFY_RESULT_OK, out)"
  "forget (case p of (x, y) \<Rightarrow> k x y) = (case p of (x, y) \<Rightarrow> forget (k x y))"
  "forget (if b then m else m') = (if b then forget m else forget m')"
  "forget (case v of None \<Rightarrow> m | Some z \<Rightarrow> n z) = (case v of None \<Rightarrow> forget m | Some z \<Rightarrow> forget (n z))"
  by (simp_all add: forget_def andthen_assoc split: prod.split option.split)

lemma forget_hash:
  "forget (hash_descriptor_step ops rq desc ret out) = forget (hash_descriptor_step ops rq desc ret' out)"
  unfolding hash_descriptor_step_def Let_def forget_simps by simp

lemma forget_cmdline:
  "forget (kernel_cmdline_step fl desc ret out) = forget (kernel_cmdline_step fl desc ret' out)"
  unfolding kernel_cmdline_step_def Let_def forget_simps by simp

lemma forget_hashtree:
  "forget (hashtree_descriptor_step ops rq desc ret out) = forget (hashtree_descriptor_step ops rq desc ret' out)"
  unfolding hashtree_descriptor_step_def Let_def forget_simps by simp

lemma forget_chain:
  "forget (chain_descriptor_step rec m fl desc ret out) = forget (chain_descriptor_step (forgiving rec) m fl desc ret' out)"
  unfolding chain_descriptor_step_def Let_def forget_simps forgiving_def andthen_assoc
  by (rule refl | rule if_cong [OF refl] arg_cong2 [where f = andthen] prod.case_cong [OF refl] ext
    | (simp split: prod.split; fail))+

lemma forget_step:
  "forget (descriptor_step rec ops rq m fl desc ret out) = forget (descriptor_step (forgiving rec) ops rq m fl desc ret' out)"
  unfolding descriptor_step_def forget_simps
  by (simp only: forget_hash [of _ _ _ ret _ ret'] forget_cmdline [of _ _ ret _ ret'] forget_hashtree [of _ _ _ ret _ ret']
      forget_chain [of rec _ _ _ ret _ ret'] if_False simp_thms)

text \<open>A hash tree descriptor without digest, and what its step does with the result so far: nothing.\<close>

definition persistent_hashtree :: "bytes \<Rightarrow> bool" where
  "persistent_hashtree desc \<longleftrightarrow> (\<exists>src d. load_AvbHashtreeDescriptor desc = Ok src \<and>
     avb_hashtree_descriptor_validate_and_byteswap src = (True, d) \<and> ht_root_digest_len d = 0)"

lemma hashtree_step_forgets:
  "persistent_hashtree desc \<Longrightarrow>
    hashtree_descriptor_step ops rq desc ret out = hashtree_descriptor_step ops rq desc ret' out"
  unfolding persistent_hashtree_def hashtree_descriptor_step_def Let_def
  by (auto simp: andthen_pure)

lemma forget_bind:
  assumes "\<And>r out. L r out = K out"
  shows "andthen m (\<lambda>(g, r, out). if g then retn (True, r, out) else L r out) =
    andthen (forget m) (\<lambda>(g, r, out). if g then retn (True, r, out) else K out)"
  unfolding forget_def andthen_assoc
  by (rule arg_cong [where f = "andthen m"]) (simp add: assms fun_eq_iff split: prod.split)

text \<open>The loop is determined by its steps up to the result they carry on with, when the last one ignores it.\<close>

lemma loop_forget:
  assumes step: "\<And>d ret ret' out. forget (step d ret out) = forget (step' d ret' out)"
    and last: "\<And>ret ret' out. step t ret out = step' t ret' out"
  shows "descriptor_loop step (cs @ [t]) ret out = descriptor_loop step' (cs @ [t]) ret' out"
proof (induction cs arbitrary: ret ret' out)
  case Nil
  show ?case unfolding append_Nil descriptor_loop.simps last [of ret out ret'] ..
next
  case (Cons c cs)
  let ?K = "descriptor_loop step (cs @ [t]) AVB_SLOT_VERIFY_RESULT_OK"
  have k: "descriptor_loop step (cs @ [t]) r o' = ?K o'" "descriptor_loop step' (cs @ [t]) r o' = ?K o'" for r o'
    using Cons.IH [of r o' r] Cons.IH [of AVB_SLOT_VERIFY_RESULT_OK o' r] by simp_all
  show ?case
    unfolding append_Cons descriptor_loop.simps forget_bind [of "descriptor_loop step (cs @ [t])", OF k(1)]
      forget_bind [of "descriptor_loop step' (cs @ [t])", OF k(2)] step [of c ret out ret'] ..
qed

lemma chain_errors_forgotten:
  assumes "persistent_hashtree (drop t img)" "load_AvbDescriptor (drop t img) = Ok src"
    "avb_descriptor_validate_and_byteswap src = (True, d)" "tag d = tag_value AVB_DESCRIPTOR_TAG_HASHTREE"
  shows "descriptor_loop (\<lambda>n. descriptor_step rec ops rq m fl (drop n img)) (cs @ [t]) ret out =
    descriptor_loop (\<lambda>n. descriptor_step (forgiving rec) ops rq m fl (drop n img)) (cs @ [t]) ret' out"
proof (rule loop_forget)
  show "forget (descriptor_step rec ops rq m fl (drop d img) ret out) =
      forget (descriptor_step (forgiving rec) ops rq m fl (drop d img) ret' out)" for d ret ret' out
    by (rule forget_step)
  show "descriptor_step rec ops rq m fl (drop t img) ret out =
      descriptor_step (forgiving rec) ops rq m fl (drop t img) ret' out" for ret ret' out
    using assms hashtree_step_forgets [OF assms(1), of ops rq ret out ret']
    by (simp add: descriptor_step_def andthen_pure)
qed

end
