(* ===== verification/Avb_Cfig_Ops.thy ===== *)
theory Avb_Cfig_Ops
  imports Avb_Slot_Sound "HOL-Library.AList"
begin

text \<open>
  The host of the verifier, \<open>CfigAvbOps.cpp\<close>: the operations libavb calls, over the image files of the
  working directory and the files under \<open>config\<close>. What it prints is not modelled.
\<close>

section \<open>Definitions\<close>

text \<open>
  The world: the file system below the working directory (regular files by name, directories, and which
  names can be opened for reading and writing) and the file's static variables. A preloaded partition is
  the address and the contents of its buffer (\<open>None\<close> for a null pointer).
\<close>

record cfig_world =
  fs_files :: "(bytes \<times> bytes) list"
  fs_dirs :: "bytes list"
  fs_readable :: "bytes \<Rightarrow> bool"
  fs_writable :: "bytes \<Rightarrow> bool"
  validPartitions :: "bytes set"
  preloaded_partitions :: "(bytes \<times> (u64 \<times> bytes) option) list"
  expected_public_key :: bytes
  expected_public_key_metadata :: bytes

definition lockStatusFile :: bytes where
  "lockStatusFile = str ''config/locked''"

definition pubkeyFile :: bytes where
  "pubkeyFile = str ''config/pubkey''"

subsection \<open>System calls\<close>

definition file_of :: "cfig_world \<Rightarrow> bytes \<Rightarrow> bytes option" where
  "file_of w name = map_of (fs_files w) name"

definition put_file :: "bytes \<Rightarrow> bytes \<Rightarrow> cfig_world \<Rightarrow> cfig_world" where
  "put_file name contents w = w\<lparr>fs_files := AList.update name contents (fs_files w)\<rparr>"

text \<open>\<open>open(name, O_RDONLY)\<close>, and \<open>read\<close> at a position, which transfers at most \<open>0x7ffff000\<close> bytes.\<close>

definition open_read :: "cfig_world \<Rightarrow> bytes \<Rightarrow> bytes option" where
  "open_read w name = (if fs_readable w name then file_of w name else None)"

definition READ_MAX :: nat where
  "READ_MAX = 0x7ffff000"

definition posix_read :: "bytes \<Rightarrow> nat \<Rightarrow> nat \<Rightarrow> bytes" where
  "posix_read contents pos n = take (min n READ_MAX) (drop pos contents)"

text \<open>\<open>lseek\<close> to an absolute offset: its result, and the position of a fresh descriptor afterwards.\<close>

definition posix_lseek :: "int \<Rightarrow> int \<times> nat" where
  "posix_lseek offset = (if offset < 0 then (-1, 0) else (offset, nat offset))"

definition fileExists :: "cfig_world \<Rightarrow> bytes \<Rightarrow> bool" where
  "fileExists w name \<longleftrightarrow> file_of w name \<noteq> None \<or> name \<in> set (fs_dirs w)"

subsection \<open>Strings and files\<close>

text \<open>Where a string first and last occurs: \<open>-1\<close> (\<open>npos\<close>) when it does not.\<close>

definition occurs_at :: "bytes \<Rightarrow> bytes \<Rightarrow> nat \<Rightarrow> bool" where
  "occurs_at s sub i \<longleftrightarrow> i + length sub \<le> length s \<and> take (length sub) (drop i s) = sub"

definition string_find :: "bytes \<Rightarrow> bytes \<Rightarrow> u64" where
  "string_find s sub =
     (case List.find (occurs_at s sub) [0..<Suc (length s)] of Some i \<Rightarrow> of_nat i | None \<Rightarrow> -1)"

definition string_rfind :: "bytes \<Rightarrow> bytes \<Rightarrow> u64" where
  "string_rfind s sub =
     (case List.find (occurs_at s sub) (rev [0..<Suc (length s)]) of Some i \<Rightarrow> of_nat i | None \<Rightarrow> -1)"

definition startsWith :: "bytes \<Rightarrow> bytes \<Rightarrow> bool" where
  "startsWith s sub \<longleftrightarrow> string_find s sub = 0"

definition endsWith :: "bytes \<Rightarrow> bytes \<Rightarrow> bool" where
  "endsWith s sub \<longleftrightarrow> string_rfind s sub = of_nat (length s) - of_nat (length sub) \<and> length s \<ge> length sub"

definition getPartitionFile :: "bytes \<Rightarrow> bytes" where
  "getPartitionFile part = part @ str ''.img''"

definition get_file_size :: "cfig_world \<Rightarrow> bytes \<Rightarrow> u64" where
  "get_file_size w filename = (case file_of w filename of None \<Rightarrow> -1 | Some c \<Rightarrow> of_nat (length c))"

definition hexStr :: "bytes \<Rightarrow> bytes" where
  "hexStr data = concat (map (\<lambda>b. [hex_digits ! unat (drop_bit 4 (b AND 0xF0)), hex_digits ! unat (b AND 0x0F)]) data)"

text \<open>Whether writing failed, and the world afterwards.\<close>

definition write_to_file :: "bytes \<Rightarrow> bytes \<Rightarrow> cfig_world \<Rightarrow> bool \<times> cfig_world" where
  "write_to_file file value w =
     (if \<not> fs_writable w file then (True, w)
      else (False, put_file file (takeWhile (\<lambda>b. b \<noteq> 0) value @ [0x0A]) w))"

definition read_line :: "cfig_world \<Rightarrow> bytes \<Rightarrow> bytes" where
  "read_line w file = (case open_read w file of Some c \<Rightarrow> takeWhile (\<lambda>b. b \<noteq> 0x0A) c | None \<Rightarrow> [])"

text \<open>
  Numbers as the standard library prints and extracts them: after white space and a sign, the longest run
  of digits; no digit gives zero, too many the largest value, and a minus sign negates modulo \<open>2 ^ 64\<close>.
\<close>

definition to_string :: "nat \<Rightarrow> bytes" where
  "to_string n = map digit_byte (decimal n)"

definition is_space :: "u8 \<Rightarrow> bool" where
  "is_space b \<longleftrightarrow> b = 0x20 \<or> 9 \<le> b \<and> b \<le> 13"

definition is_digit :: "u8 \<Rightarrow> bool" where
  "is_digit b \<longleftrightarrow> 0x30 \<le> b \<and> b \<le> 0x39"

definition extract_u64 :: "bytes \<Rightarrow> u64" where
  "extract_u64 line =
     (let s = dropWhile is_space line;
          negative = (s \<noteq> [] \<and> hd s = 0x2D);
          s = (if s \<noteq> [] \<and> (hd s = 0x2D \<or> hd s = 0x2B) then tl s else s);
          n = foldl (\<lambda>a b. a * 10 + (unat b - 0x30)) 0 (takeWhile is_digit s)
      in if n \<ge> 2 ^ 64 then -1 else if negative then - of_nat n else of_nat n)"

definition rollback_file :: "u64 \<Rightarrow> bytes" where
  "rollback_file location = str ''config/rollbackIndex_'' @ to_string (unat location)"

subsection \<open>Operations\<close>

definition get_size_of_partitionX :: "bytes \<Rightarrow> cfig_world \<Rightarrow> AvbIOResult \<times> u64" where
  "get_size_of_partitionX part w =
     (if getPartitionFile part \<notin> validPartitions w then (AVB_IO_RESULT_ERROR_NO_SUCH_PARTITION, 0)
      else let file_size = get_file_size w (getPartitionFile part)
      in if file_size = -1 then (AVB_IO_RESULT_ERROR_IO, 0) else (AVB_IO_RESULT_OK, file_size))"

text \<open>
  A negative offset counts from the end: the new one is computed in \<open>uint64_t\<close> and stored in the \<open>int64_t\<close>.
\<close>

definition read_from_partitionX :: "bytes \<Rightarrow> int \<Rightarrow> u64 \<Rightarrow> cfig_world \<Rightarrow> AvbIOResult \<times> bytes \<times> u64" where
  "read_from_partitionX part offset num_bytes w =
     (let partitionFile = getPartitionFile part;
          fail = (\<lambda>e. (e, [], 0))
      in if partitionFile \<notin> validPartitions w then fail AVB_IO_RESULT_ERROR_NO_SUCH_PARTITION
      else case (if offset < 0
                 then case get_size_of_partitionX part w of (ret_get_size, file_size) \<Rightarrow>
                   if ret_get_size \<noteq> AVB_IO_RESULT_OK then Inl ret_get_size
                   else Inr (sint (file_size - word_of_int (- offset)))
                 else Inr offset) of Inl e \<Rightarrow> fail e
      | Inr offset \<Rightarrow>
      case open_read w partitionFile of
        None \<Rightarrow> fail (if file_of w partitionFile = None then AVB_IO_RESULT_ERROR_NO_SUCH_PARTITION
                      else AVB_IO_RESULT_ERROR_IO)
      | Some contents \<Rightarrow>
      case posix_lseek offset of (result, pos) \<Rightarrow>
      if result \<noteq> offset then fail AVB_IO_RESULT_ERROR_IO
      else let buffer = posix_read contents pos (unat num_bytes)
      in (AVB_IO_RESULT_OK, buffer, of_nat (length buffer)))"

text \<open>A write of some bytes past the end fills the gap with zeros; \<open>buffer\<close> is the memory from the pointer on.\<close>

definition posix_write :: "bytes \<Rightarrow> nat \<Rightarrow> bytes \<Rightarrow> bytes" where
  "posix_write contents pos data =
     (if data = [] then contents
      else take pos contents @ replicate (pos - length contents) 0 @ data @ drop (pos + length data) contents)"

definition write_to_partitionX :: "bytes \<Rightarrow> int \<Rightarrow> u64 \<Rightarrow> bytes \<Rightarrow> cfig_world \<Rightarrow> (AvbIOResult \<times> cfig_world) res" where
  "write_to_partitionX part offset num_bytes buffer w =
     (let partitionFile = getPartitionFile part
      in case (if fs_writable w partitionFile then file_of w partitionFile else None) of
        None \<Rightarrow> Ok (AVB_IO_RESULT_ERROR_IO, w)
      | Some contents \<Rightarrow>
      case posix_lseek offset of (result, pos) \<Rightarrow>
      if result = -1 then Ok (AVB_IO_RESULT_ERROR_IO, w)
      else if result \<noteq> offset then Ok (AVB_IO_RESULT_ERROR_RANGE_OUTSIDE_PARTITION, w)
      else if length buffer < unat num_bytes then Fault BadAccess
      else Ok (AVB_IO_RESULT_OK,
        put_file partitionFile (posix_write contents pos (take (min (unat num_bytes) READ_MAX) buffer)) w))"

definition get_preloaded_partitionX :: "bytes \<Rightarrow> u64 \<Rightarrow> cfig_world \<Rightarrow> AvbIOResult \<times> (u64 \<times> bytes) option \<times> u64" where
  "get_preloaded_partitionX part num_bytes w =
     (if getPartitionFile part \<notin> validPartitions w then (AVB_IO_RESULT_ERROR_NO_SUCH_PARTITION, None, 0)
      else case map_of (preloaded_partitions w) part of None \<Rightarrow> (AVB_IO_RESULT_OK, None, 0)
      | Some buffer \<Rightarrow>
      case get_size_of_partitionX part w of (result, partSize) \<Rightarrow>
      if result \<noteq> AVB_IO_RESULT_OK then (result, None, 0)
      else if num_bytes > partSize then (AVB_IO_RESULT_ERROR_IO, None, 0)
      else (AVB_IO_RESULT_OK, buffer, if num_bytes < partSize then num_bytes else partSize))"

text \<open>
  The comparison of a key and of its metadata with the expected ones: both are made, whatever the first
  says. The metadata pointer may be null when its length is zero.
\<close>

definition same_string :: "bytes \<Rightarrow> bytes option \<Rightarrow> u64 \<Rightarrow> bool res" where
  "same_string expected data len =
     (if len \<noteq> of_nat (length expected) then Ok False
      else case data of
        None \<Rightarrow> if len = 0 then Ok True else Fault BadAccess
      | Some d \<Rightarrow> bnd (avb_memcmp (expected @ [0]) d (unat len)) (\<lambda>c. Ok (c = 0)))"

definition validate_vbmeta_public_keyX ::
    "bytes \<Rightarrow> u64 \<Rightarrow> bytes option \<Rightarrow> u64 \<Rightarrow> cfig_world \<Rightarrow> (AvbIOResult \<times> bool) res" where
  "validate_vbmeta_public_keyX public_key_data public_key_length public_key_metadata public_key_metadata_length w =
     bnd (same_string (expected_public_key w) (Some public_key_data) public_key_length) (\<lambda>pk_matches.
     bnd (same_string (expected_public_key_metadata w) public_key_metadata public_key_metadata_length) (\<lambda>pkmd_matches.
     Ok (AVB_IO_RESULT_OK, pk_matches \<and> pkmd_matches)))"

text \<open>The rollback index location is left alone.\<close>

definition validate_public_key_for_partitionX ::
    "bytes \<Rightarrow> bytes \<Rightarrow> u64 \<Rightarrow> bytes option \<Rightarrow> u64 \<Rightarrow> u32 \<Rightarrow> cfig_world \<Rightarrow> (AvbIOResult \<times> bool \<times> u32) res" where
  "validate_public_key_for_partitionX part public_key_data public_key_length public_key_metadata
     public_key_metadata_length rollback_index_location w =
     bnd (same_string (expected_public_key w) (Some public_key_data) public_key_length) (\<lambda>pk_matches.
     bnd (same_string (expected_public_key_metadata w) public_key_metadata public_key_metadata_length) (\<lambda>pkmd_matches.
     Ok (AVB_IO_RESULT_OK, pk_matches \<and> pkmd_matches, rollback_index_location)))"

definition read_is_device_unlockedX :: "cfig_world \<Rightarrow> AvbIOResult \<times> bool" where
  "read_is_device_unlockedX w = (AVB_IO_RESULT_OK, read_line w lockStatusFile = str ''0'')"

definition read_rollback_indexX :: "u64 \<Rightarrow> cfig_world \<Rightarrow> AvbIOResult \<times> u64" where
  "read_rollback_indexX rollback_index_location w =
     (let line = read_line w (rollback_file rollback_index_location)
      in if line = [] then (AVB_IO_RESULT_ERROR_IO, 0) else (AVB_IO_RESULT_OK, extract_u64 line))"

definition write_rollback_indexX :: "u64 \<Rightarrow> u64 \<Rightarrow> cfig_world \<Rightarrow> AvbIOResult \<times> cfig_world" where
  "write_rollback_indexX rollback_index_location new_index w =
     (case write_to_file (rollback_file rollback_index_location) (to_string (unat new_index)) w of (result, w) \<Rightarrow>
      if result then (AVB_IO_RESULT_OK, w) else (AVB_IO_RESULT_ERROR_IO, w))"

text \<open>\<open>snprintf\<close> into a buffer of \<open>n\<close> bytes: what it writes.\<close>

definition snprintf_bytes :: "nat \<Rightarrow> bytes \<Rightarrow> bytes" where
  "snprintf_bytes n text = (if n = 0 then [] else take (n - 1) text @ [0])"

definition get_unique_guid_for_partitionX :: "bytes \<Rightarrow> u64 \<Rightarrow> AvbIOResult \<times> bytes" where
  "get_unique_guid_for_partitionX part guid_buf_size =
     (AVB_IO_RESULT_OK,
      snprintf_bytes (unat guid_buf_size) (str ''1dddd936-20da-460a-834c-b938a89acab0'' @ str ''-'' @ part))"

definition read_persistent_valueX :: "bytes \<Rightarrow> u64 \<Rightarrow> AvbIOResult \<times> bytes \<times> u64" where
  "read_persistent_valueX name buffer_size = (AVB_IO_RESULT_ERROR_NO_SUCH_VALUE, [], 0)"

definition write_persistent_valueX :: "bytes \<Rightarrow> u64 \<Rightarrow> bytes \<Rightarrow> AvbIOResult" where
  "write_persistent_valueX name value_size value' = AVB_IO_RESULT_ERROR_NO_SUCH_VALUE"

subsection \<open>The object\<close>

text \<open>The operations the constructor installs; \<open>reading\<close> makes one of an operation that changes nothing.\<close>

definition reading :: "('w \<Rightarrow> 'a) \<Rightarrow> 'w \<Rightarrow> ('a \<times> 'w) res" where
  "reading f w = Ok (f w, w)"

definition asking :: "('w \<Rightarrow> 'a res) \<Rightarrow> 'w \<Rightarrow> ('a \<times> 'w) res" where
  "asking f w = bnd (f w) (\<lambda>x. Ok (x, w))"

definition cfig_avb_ops :: "cfig_world AvbOps" where
  "cfig_avb_ops =
     \<lparr>read_from_partition = Some (\<lambda>p ofs n. reading (read_from_partitionX p ofs n)),
      get_preloaded_partition = Some (\<lambda>p n. reading (get_preloaded_partitionX p n)),
      write_to_partition = Some write_to_partitionX,
      validate_vbmeta_public_key = Some (\<lambda>k n m l. asking (validate_vbmeta_public_keyX k n m l)),
      read_rollback_index = Some (\<lambda>loc. reading (read_rollback_indexX loc)),
      write_rollback_index = Some (\<lambda>loc v w. Ok (write_rollback_indexX loc v w)),
      read_is_device_unlocked = Some (reading read_is_device_unlockedX),
      get_unique_guid_for_partition = Some (\<lambda>p n. reading (\<lambda>_. get_unique_guid_for_partitionX p n)),
      get_size_of_partition = Some (\<lambda>p. reading (get_size_of_partitionX p)),
      read_persistent_value = Some (\<lambda>name n. reading (\<lambda>_. read_persistent_valueX name n)),
      write_persistent_value = Some (\<lambda>name n v. reading (\<lambda>_. write_persistent_valueX name n v)),
      validate_public_key_for_partition = Some (\<lambda>p k n m l loc. asking (validate_public_key_for_partitionX p k n m l loc))\<rparr>"

definition preload_partition :: "bytes \<Rightarrow> (bool, cfig_world) act" where
  "preload_partition part s =
     (let w = sy_world s
      in if map_of (preloaded_partitions w) part \<noteq> None then Ok (False, s)
      else case get_size_of_partitionX part w of (get_size_ret, file_size) \<Rightarrow>
      if get_size_ret \<noteq> AVB_IO_RESULT_OK then Ok (False, s)
      else case open_read w (getPartitionFile part) of None \<Rightarrow> Ok (False, s)
      | Some contents \<Rightarrow>
      case avb_malloc_obj (unat file_size) (sy_heap s) of (buffer, heap) \<Rightarrow>
      let s = s\<lparr>sy_heap := heap\<rparr>;
          data = posix_read contents 0 (unat file_size)
      in case buffer of
        None \<Rightarrow> if file_size \<noteq> 0 then Ok (False, s)
                else Ok (True, s\<lparr>sy_world := w\<lparr>preloaded_partitions := (part, None) # preloaded_partitions w\<rparr>\<rparr>)
      | Some (a, _) \<Rightarrow>
        if length data \<noteq> unat file_size then Ok (False, s)
        else Ok (True, s\<lparr>sy_world := w\<lparr>preloaded_partitions := (part, Some (a, data)) # preloaded_partitions w\<rparr>\<rparr>))"

text \<open>A missing key file ends the program.\<close>

definition loadPubkey :: "cfig_world \<Rightarrow> cfig_world res" where
  "loadPubkey w =
     (case open_read w pubkeyFile of None \<Rightarrow> Fault Abort
      | Some key \<Rightarrow>
        let w = w\<lparr>expected_public_key := key\<rparr>
        in Ok (if fs_writable w (str ''out.key'') then put_file (str ''out.key'') key w else w))"

text \<open>The regular files of the directory, those without a slash in their name.\<close>

definition populatePartitions :: "bytes \<Rightarrow> cfig_world \<Rightarrow> cfig_world" where
  "populatePartitions path w =
     (if \<not> fs_readable w path then w
      else w\<lparr>validPartitions := validPartitions w \<union>
        set (filter (\<lambda>dn. 0x2F \<notin> set dn \<and> endsWith dn (str ''.img'')) (map fst (fs_files w)))\<rparr>)"

definition default_file :: "bytes \<Rightarrow> bytes \<Rightarrow> cfig_world \<Rightarrow> cfig_world" where
  "default_file name value w = (if fileExists w name then w else snd (write_to_file name value w))"

definition CfigAvbOps :: "cfig_world \<Rightarrow> cfig_world res" where
  "CfigAvbOps w =
     bnd (loadPubkey w) (\<lambda>w.
     let w = populatePartitions (str ''.'') w;
         w = (if \<not> fileExists w (str ''config'') \<and> fs_writable w (str ''config'')
              then w\<lparr>fs_dirs := str ''config'' # fs_dirs w\<rparr> else w);
         w = default_file lockStatusFile [] w;
         w = default_file (str ''config/rollbackIndex_0'') (str ''0'') w;
         w = default_file (str ''config/rollbackIndex_1'') (str ''0'') w
     in Ok w)"

section \<open>Strings\<close>

lemma find_up:
  "List.find P [0..<n] = Some i \<longleftrightarrow> i < n \<and> P i \<and> (\<forall>j<i. \<not> P j)"
  "List.find P [0..<n] = None \<longleftrightarrow> (\<forall>j<n. \<not> P j)"
proof -
  show "List.find P [0..<n] = Some i \<longleftrightarrow> i < n \<and> P i \<and> (\<forall>j<i. \<not> P j)"
    by (auto simp: find_Some_iff)
  show "List.find P [0..<n] = None \<longleftrightarrow> (\<forall>j<n. \<not> P j)"
    by (auto simp: find_None_iff)
qed

lemma find_down:
  "List.find P (rev [0..<n]) = Some i \<longleftrightarrow> i < n \<and> P i \<and> (\<forall>j<n. i < j \<longrightarrow> \<not> P j)"
  "List.find P (rev [0..<n]) = None \<longleftrightarrow> (\<forall>j<n. \<not> P j)"
proof -
  show "List.find P (rev [0..<n]) = Some i \<longleftrightarrow> i < n \<and> P i \<and> (\<forall>j<n. i < j \<longrightarrow> \<not> P j)"
  proof (induction n)
    case (Suc n)
    then show ?case by (auto simp: less_Suc_eq)
  qed simp
  show "List.find P (rev [0..<n]) = None \<longleftrightarrow> (\<forall>j<n. \<not> P j)"
    by (auto simp: find_None_iff)
qed

lemma occurs_at_end: "occurs_at s sub (length s - length sub) \<longleftrightarrow> (\<exists>r. s = r @ sub)" if "length sub \<le> length s"
proof
  assume "occurs_at s sub (length s - length sub)"
  then have "drop (length s - length sub) s = sub"
    using that by (simp add: occurs_at_def)
  then have "s = take (length s - length sub) s @ sub"
    by (metis append_take_drop_id)
  then show "\<exists>r. s = r @ sub" by blast
qed (auto simp: occurs_at_def)

lemma of_nat_u64_eq: "(of_nat a :: u64) = of_nat b \<longleftrightarrow> a = b" if "a < 2 ^ 64" "b < 2 ^ 64"
  using that by (auto simp: word_unat_eq_iff unsigned_of_nat take_bit_nat_eq_self)

lemma of_nat_neq_npos: "(of_nat a :: u64) \<noteq> -1" if "a < 2 ^ 64 - 1"
proof
  assume "(of_nat a :: u64) = -1"
  then have "(of_nat a :: u64) = of_nat (2 ^ 64 - 1)" by simp
  with that show False by (subst (asm) of_nat_u64_eq) simp_all
qed

lemma endsWith_iff:
  assumes "length s < 2 ^ 64 - 1"
  shows "endsWith s sub \<longleftrightarrow> (\<exists>r. s = r @ sub)"
proof (cases "length sub \<le> length s")
  case True
  let ?k = "length s - length sub"
  have k: "(of_nat (length s) - of_nat (length sub) :: u64) = of_nat ?k"
    using True by (simp add: of_nat_diff)
  have "string_rfind s sub = of_nat ?k \<longleftrightarrow> occurs_at s sub ?k"
  proof (cases "List.find (occurs_at s sub) (rev [0..<Suc (length s)])")
    case None
    then have "\<not> occurs_at s sub ?k" by (simp add: find_down del: upt_Suc) 
    moreover have "(of_nat ?k :: u64) \<noteq> -1" by (rule of_nat_neq_npos) (use assms in simp)
    ultimately show ?thesis using None by (simp add: string_rfind_def eq_commute [of "-1"] del: upt_Suc)
  next
    case (Some i)
    then have i: "i < Suc (length s)" "occurs_at s sub i" "\<forall>j<Suc (length s). i < j \<longrightarrow> \<not> occurs_at s sub j"
      unfolding find_down by blast+
    have "i + length sub \<le> length s" using i(2) unfolding occurs_at_def by blast
    then have "i \<le> ?k" by linarith
    moreover have "\<not> i < ?k" if "occurs_at s sub ?k"
      using i(3) that by (meson diff_le_self less_Suc_eq_le)
    ultimately have "i = ?k \<longleftrightarrow> occurs_at s sub ?k" using i(2) by fastforce
    then show ?thesis
      using Some i(1) assms by (simp add: string_rfind_def of_nat_u64_eq del: upt_Suc of_nat_diff)
  qed
  then show ?thesis using True occurs_at_end [OF True] unfolding endsWith_def k by blast
next
  case False
  then show ?thesis by (auto simp: endsWith_def)
qed

lemma startsWith_iff:
  assumes "length s < 2 ^ 64 - 1"
  shows "startsWith s sub \<longleftrightarrow> (\<exists>r. s = sub @ r)"
proof -
  have "occurs_at s sub 0 \<longleftrightarrow> (\<exists>r. s = sub @ r)"
    by (auto simp: occurs_at_def) (metis append_take_drop_id)
  moreover have "string_find s sub = 0 \<longleftrightarrow> occurs_at s sub 0"
  proof (cases "List.find (occurs_at s sub) [0..<Suc (length s)]")
    case None
    then have "\<forall>j<Suc (length s). \<not> occurs_at s sub j" unfolding find_up .
    then have "\<not> occurs_at s sub 0" by blast
    moreover have "string_find s sub \<noteq> 0" unfolding string_find_def None by simp
    ultimately show ?thesis by blast
  next
    case (Some i)
    then have i: "i < Suc (length s)" "occurs_at s sub i" "\<forall>j<i. \<not> occurs_at s sub j"
      unfolding find_up by blast+
    have "(of_nat i :: u64) = 0 \<longleftrightarrow> i = 0"
      using of_nat_u64_eq [of i 0] i(1) assms by simp
    then show ?thesis using Some i by (auto simp: string_find_def simp del: upt_Suc)
  qed
  ultimately show ?thesis by (simp add: startsWith_def)
qed

section \<open>Numbers in files\<close>

lemma digit_byte_classes:
  assumes "d < 10"
  shows "is_digit (digit_byte d)" "\<not> is_space (digit_byte d)" "digit_byte d \<noteq> 0x2D" "digit_byte d \<noteq> 0x2B"
    "digit_byte d \<noteq> 0x0A" "digit_byte d \<noteq> 0" "unat (digit_byte d) - 0x30 = d"
  using assms unat_digit_byte [OF assms]
  by (auto simp: is_digit_def is_space_def word_le_nat_alt word_unat_eq_iff)

lemma to_string_ne: "to_string n \<noteq> []"
  by (simp add: to_string_def decimal_nonempty)

lemma to_string_bytes:
  assumes "b \<in> set (to_string n)"
  shows "is_digit b \<and> \<not> is_space b \<and> b \<noteq> 0x2D \<and> b \<noteq> 0x2B \<and> b \<noteq> 0x0A \<and> b \<noteq> 0"
  using assms decimal_digits [of n] digit_byte_classes by (auto simp: to_string_def)

text \<open>A printed number followed by anything but a digit is read back.\<close>

lemma extract_to_string:
  assumes "n < 2 ^ 64" "rest = [] \<or> \<not> is_digit (hd rest)"
  shows "extract_u64 (to_string n @ rest) = of_nat n"
proof -
  obtain c cs where c: "to_string n = c # cs" using to_string_ne by (cases "to_string n") auto
  then have h: "\<not> is_space c" "c \<noteq> 0x2D" "c \<noteq> 0x2B"
    using to_string_bytes [of c n] by auto
  have d: "takeWhile is_digit (to_string n @ rest) = to_string n"
    using to_string_bytes [of _ n] assms(2)
    by (subst takeWhile_append2) (auto simp: takeWhile_eq_Nil_iff)
  have "foldl (\<lambda>a b. a * 10 + (unat b - 0x30)) a (map digit_byte ds) = foldl (\<lambda>a d. a * 10 + d) a ds"
    if "\<forall>d\<in>set ds. d < 10" for a ds
    using that by (induction ds arbitrary: a) (simp_all add: digit_byte_classes(7))
  then have v: "foldl (\<lambda>a b. a * 10 + (unat b - 0x30)) 0 (to_string n) = n"
    unfolding to_string_def using decimal_digits decimal_value by metis
  have w: "dropWhile is_space (to_string n @ rest) = to_string n @ rest"
    using h by (simp add: c)
  show ?thesis
    unfolding extract_u64_def Let_def w
    using assms(1) h d v by (simp add: c)
qed

lemma takeWhile_line: "\<forall>b\<in>set xs. b \<noteq> (0x0A :: u8) \<Longrightarrow> takeWhile (\<lambda>b. b \<noteq> 0x0A) (xs @ 0x0A # ys) = xs"
  by (simp add: takeWhile_append2)

lemma file_put [simp]:
  "file_of (put_file name c w) name' = (if name' = name then Some c else file_of w name')"
  "fs_readable (put_file name c w) = fs_readable w" "fs_writable (put_file name c w) = fs_writable w"
  "validPartitions (put_file name c w) = validPartitions w" "fs_dirs (put_file name c w) = fs_dirs w"
  "preloaded_partitions (put_file name c w) = preloaded_partitions w"
  "expected_public_key (put_file name c w) = expected_public_key w"
  "expected_public_key_metadata (put_file name c w) = expected_public_key_metadata w"
  by (simp_all add: file_of_def put_file_def update_conv')

text \<open>
  What is written as a rollback index is read back, though the code reports the write that succeeded as an
  error.
\<close>

lemma write_rollback_run:
  "write_rollback_indexX loc v w =
    (if fs_writable w (rollback_file loc)
     then (AVB_IO_RESULT_ERROR_IO, put_file (rollback_file loc) (to_string (unat v) @ [0x0A]) w)
     else (AVB_IO_RESULT_OK, w))"
proof -
  have "takeWhile (\<lambda>b. b \<noteq> 0) (to_string (unat v)) = to_string (unat v)"
    using to_string_bytes by (fastforce simp: takeWhile_eq_all_conv)
  then show ?thesis unfolding write_rollback_indexX_def write_to_file_def \<open>takeWhile _ _ = _\<close> by simp
qed

lemma rollback_round_trip:
  assumes "fs_writable w (rollback_file loc)" "fs_readable w (rollback_file loc)"
  shows "read_rollback_indexX loc (snd (write_rollback_indexX loc v w)) = (AVB_IO_RESULT_OK, v)"
proof -
  have "takeWhile (\<lambda>b. b \<noteq> 0x0A) (to_string (unat v) @ [0x0A]) = to_string (unat v)"
    using to_string_bytes by (intro takeWhile_line) fastforce
  then have "read_line (snd (write_rollback_indexX loc v w)) (rollback_file loc) = to_string (unat v)"
    using assms by (simp add: write_rollback_run read_line_def open_read_def)
  then show ?thesis
    using extract_to_string [of "unat v" "[]"] unat_u64_less [of v]
    by (simp add: read_rollback_indexX_def to_string_ne)
qed

section \<open>The host\<close>

text \<open>None of the operations that verification calls changes the world.\<close>

lemma reading_eq_Ok [simp]: "reading f w = Ok (x, w') \<longleftrightarrow> x = f w \<and> w' = w"
  by (auto simp: reading_def)

lemma asking_eq_Ok [simp]: "asking f w = Ok (x, w') \<longleftrightarrow> f w = Ok x \<and> w' = w"
  by (auto simp: asking_def bnd_eq_Ok)

interpretation cfig: host cfig_avb_ops "\<lambda>w. w = w0" for w0
  by unfold_locales (auto simp: cfig_avb_ops_def)

text \<open>Reads from an offset inside or after the file, and from the end of the file.\<close>

lemma READ_MAX_u64: "READ_MAX < 2 ^ 64"
  by (simp add: READ_MAX_def)

lemma posix_read_length: "length (posix_read c pos n) = min (min n READ_MAX) (length c - pos)"
  by (simp add: posix_read_def)

lemma read_forward:
  assumes "getPartitionFile part \<in> validPartitions w" "open_read w (getPartitionFile part) = Some c" "0 \<le> ofs"
  shows "read_from_partitionX part ofs n w =
    (let data = posix_read c (nat ofs) (unat n) in (AVB_IO_RESULT_OK, data, of_nat (length data)))"
  using assms by (simp add: read_from_partitionX_def posix_lseek_def Let_def)

lemma open_read_file: "open_read w name = Some c \<Longrightarrow> file_of w name = Some c"
  by (auto simp: open_read_def split: if_splits)

lemma size_of_file:
  assumes "getPartitionFile part \<in> validPartitions w" "file_of w (getPartitionFile part) = Some c" "length c < 2 ^ 63"
  shows "get_size_of_partitionX part w = (AVB_IO_RESULT_OK, of_nat (length c))"
  using assms of_nat_neq_npos [of "length c"] by (simp add: get_size_of_partitionX_def get_file_size_def)

text \<open>
  Counted from the end: when the file is long enough, the bytes asked for; one byte short, \<open>lseek\<close> fails
  with the very offset it was given, so that the read starts at the beginning; shorter, an error.
\<close>

lemma sint_of_diff:
  assumes "a < 2 ^ 63" "b < 2 ^ 63"
  shows "sint (of_nat a - of_nat b :: u64) = int a - int b"
proof -
  have "(of_nat a - of_nat b :: u64) = word_of_int (int a - int b)" by simp
  then have "sint (of_nat a - of_nat b :: u64) = signed_take_bit 63 (int a - int b)"
    by (simp only: sint_sbintrunc') simp
  also have "\<dots> = int a - int b"
    using assms by (intro signed_take_bit_int_eq_self) auto
  finally show ?thesis .
qed

lemma read_backward:
  assumes "getPartitionFile part \<in> validPartitions w" "open_read w (getPartitionFile part) = Some c"
    and "length c < 2 ^ 63" "0 < k" "k < 2 ^ 63"
  shows "read_from_partitionX part (- int k) n w =
    (if k \<le> length c then (let data = posix_read c (length c - k) (unat n) in (AVB_IO_RESULT_OK, data, of_nat (length data)))
     else if k = length c + 1 then (let data = posix_read c 0 (unat n) in (AVB_IO_RESULT_OK, data, of_nat (length data)))
     else (AVB_IO_RESULT_ERROR_IO, [], 0))"
proof -
  have size': "get_size_of_partitionX part w = (AVB_IO_RESULT_OK, of_nat (length c))"
    using assms by (intro size_of_file open_read_file)
  have d: "sint (of_nat (length c) - of_nat k :: u64) = int (length c) - int k"
    using assms by (intro sint_of_diff)
  have "nat (int (length c) - int k) = length c - k" by linarith
  then show ?thesis
    unfolding read_from_partitionX_def Let_def size' using assms(1,2,4)
    by (auto simp: d posix_lseek_def)
qed

section \<open>Preloaded partitions\<close>

text \<open>
  The invariant of the preloaded partitions: each buffer holds the contents of its file (as many bytes as
  its 64-bit size says). The constructor establishes it in a fresh process, and preloading keeps it.
\<close>

definition preloads_ok :: "cfig_world \<Rightarrow> bool" where
  "preloads_ok w \<longleftrightarrow> (\<forall>part a b. map_of (preloaded_partitions w) part = Some (Some (a, b)) \<longrightarrow>
     (\<exists>c. file_of w (getPartitionFile part) = Some c \<and> b = take (unat (of_nat (length c) :: u64)) c))"

lemma default_file_fields [simp]:
  "preloaded_partitions (default_file n v w) = preloaded_partitions w"
  "validPartitions (default_file n v w) = validPartitions w"
  "expected_public_key (default_file n v w) = expected_public_key w"
  "expected_public_key_metadata (default_file n v w) = expected_public_key_metadata w"
  by (simp_all add: default_file_def write_to_file_def)

lemma populate_fields [simp]:
  "preloaded_partitions (populatePartitions p w) = preloaded_partitions w"
  "expected_public_key (populatePartitions p w) = expected_public_key w"
  "expected_public_key_metadata (populatePartitions p w) = expected_public_key_metadata w"
  "file_of (populatePartitions p w) = file_of w"
  by (simp_all add: populatePartitions_def file_of_def fun_eq_iff)

lemma loadPubkey_run:
  assumes "loadPubkey w = Ok w'"
  shows "\<exists>key. open_read w pubkeyFile = Some key \<and> expected_public_key w' = key \<and>
    preloaded_partitions w' = preloaded_partitions w \<and> validPartitions w' = validPartitions w \<and>
    expected_public_key_metadata w' = expected_public_key_metadata w"
  using assms by (cases "fs_writable w (str ''out.key'')") (auto simp: loadPubkey_def Let_def split: option.splits)

text \<open>The object the constructor builds: the key it expects, and nothing preloaded.\<close>

lemma CfigAvbOps_run:
  assumes "CfigAvbOps w = Ok w'"
  shows "open_read w pubkeyFile = Some (expected_public_key w')" "preloaded_partitions w' = preloaded_partitions w"
    "expected_public_key_metadata w' = expected_public_key_metadata w"
proof -
  obtain v where "loadPubkey w = Ok v" "expected_public_key w' = expected_public_key v"
      "preloaded_partitions w' = preloaded_partitions v"
      "expected_public_key_metadata w' = expected_public_key_metadata v"
    using assms by (auto simp: CfigAvbOps_def bnd_eq_Ok Let_def)
  with loadPubkey_run [of w v] show "open_read w pubkeyFile = Some (expected_public_key w')"
    "preloaded_partitions w' = preloaded_partitions w"
    "expected_public_key_metadata w' = expected_public_key_metadata w" by auto
qed

lemma posix_read_whole: "length (posix_read c pos n) = n \<Longrightarrow> posix_read c pos n = take n (drop pos c)"
  by (auto simp: posix_read_def min_def split: if_splits)

text \<open>Preloading adds one entry, the contents of the file, or leaves the world alone.\<close>

definition add_preload :: "bytes \<Rightarrow> (u64 \<times> bytes) option \<Rightarrow> cfig_world \<Rightarrow> cfig_world" where
  "add_preload part p w = w\<lparr>preloaded_partitions := (part, p) # preloaded_partitions w\<rparr>"

definition preloaded_entry :: "cfig_world \<Rightarrow> bytes \<Rightarrow> (u64 \<times> bytes) option \<Rightarrow> bool" where
  "preloaded_entry w part p \<longleftrightarrow> (\<forall>a b. p = Some (a, b) \<longrightarrow>
     (\<exists>c. file_of w (getPartitionFile part) = Some c \<and> b = take (unat (of_nat (length c) :: u64)) c))"

lemma preloads_ok_entries:
  "preloads_ok w \<longleftrightarrow> (\<forall>part p. map_of (preloaded_partitions w) part = Some p \<longrightarrow> preloaded_entry w part p)"
  by (auto simp: preloads_ok_def preloaded_entry_def)

lemma get_size_OK:
  "get_size_of_partitionX part w = (AVB_IO_RESULT_OK, n) \<Longrightarrow>
    \<exists>c. file_of w (getPartitionFile part) = Some c \<and> n = of_nat (length c)"
  by (auto simp: get_size_of_partitionX_def get_file_size_def Let_def split: if_splits option.splits)

lemma preload_step:
  assumes "preload_partition part s = Ok (r, s')"
  shows "if r then \<exists>p. preloaded_entry (sy_world s) part p \<and> map_of (preloaded_partitions (sy_world s)) part = None \<and>
        sy_world s' = add_preload part p (sy_world s)
    else sy_world s' = sy_world s"
proof -
  have entry: "preloaded_entry w part (Some (a, data))"
    if "get_size_of_partitionX part w = (AVB_IO_RESULT_OK, n)" "open_read w (getPartitionFile part) = Some c"
      "data = posix_read c 0 (unat n)" "length data = unat n" for w n c a data
    using get_size_OK [OF that(1)] open_read_file [OF that(2)] posix_read_whole [of c 0 "unat n"] that(3,4)
    by (auto simp: preloaded_entry_def)
  have zero: "preloaded_entry w part (Some (a, []))" if "get_size_of_partitionX part w = (AVB_IO_RESULT_OK, 0)" for w a
    using get_size_OK [OF that] by (auto simp: preloaded_entry_def dest: arg_cong [of 0 _ unat])
  have null: "preloaded_entry w part None" for w by (simp add: preloaded_entry_def)
  have add: "\<exists>q. preloaded_entry w part q \<and> add_preload part p w = add_preload part q w"
    if "preloaded_entry w part p" for w p using that by blast
  show ?thesis
    using assms unfolding preload_partition_def Let_def add_preload_def [symmetric]
    by (auto intro!: add null intro: zero entry [OF _ _ refl] entry split: if_splits prod.splits option.splits)
qed

lemma preload_keeps:
  assumes "preload_partition part s = Ok (r, s')" "preloads_ok (sy_world s)"
  shows "preloads_ok (sy_world s')"
proof -
  have e: "preloaded_entry (add_preload q p w) = preloaded_entry w"
    "map_of (preloaded_partitions (add_preload q p w)) q' =
      (if q' = q then Some p else map_of (preloaded_partitions w) q')" for w q q' p
    by (simp_all add: preloaded_entry_def add_preload_def fun_eq_iff file_of_def)
  show ?thesis
    using preload_step [OF assms(1)] assms(2) by (auto simp: preloads_ok_entries e split: if_splits)
qed

text \<open>The contents of the partitions.\<close>

definition cfig_contents :: "cfig_world \<Rightarrow> bytes \<Rightarrow> bytes option" where
  "cfig_contents w part = (if getPartitionFile part \<in> validPartitions w then file_of w (getPartitionFile part) else None)"

lemma read_start_contents:
  assumes "read_from_partitionX part 0 n w = (AVB_IO_RESULT_OK, data, n)"
  shows "\<exists>c. cfig_contents w part = Some c \<and> unat n \<le> length c \<and> data = take (unat n) c"
proof -
  have v: "getPartitionFile part \<in> validPartitions w"
    using assms by (auto simp: read_from_partitionX_def Let_def split: if_splits)
  moreover obtain c where c: "open_read w (getPartitionFile part) = Some c"
    using assms v by (auto simp: read_from_partitionX_def Let_def split: option.splits if_splits)
  ultimately have r: "data = posix_read c 0 (unat n)" "n = of_nat (length data)"
    using assms read_forward [OF v c, of 0 n] by (auto simp: Let_def)
  then have "unat n = length data"
    using posix_read_length [of c 0 "unat n"] READ_MAX_u64
    by (simp add: unsigned_of_nat take_bit_nat_eq_self)
  then have l: "length (posix_read c 0 (unat n)) = unat n" using r(1) by simp
  then have "unat n \<le> length c" using posix_read_length [of c 0 "unat n"] by linarith
  then show ?thesis
    using v r(1) open_read_file [OF c] posix_read_whole [OF l] by (simp add: cfig_contents_def)
qed

lemma preloaded_buffer_contents:
  assumes "preloads_ok w" "get_preloaded_partitionX part n w = (AVB_IO_RESULT_OK, Some (a, b), n)"
  shows "holds (cfig_contents w) part n (Some (a, b))"
proof -
  have v: "getPartitionFile part \<in> validPartitions w" "map_of (preloaded_partitions w) part = Some (Some (a, b))"
    using assms(2) by (auto simp: get_preloaded_partitionX_def split: if_splits option.splits prod.splits)
  obtain m where m: "get_size_of_partitionX part w = (AVB_IO_RESULT_OK, m)" "n \<le> m"
    using assms(2) v by (auto simp: get_preloaded_partitionX_def split: if_splits prod.splits)
  then obtain c where c: "file_of w (getPartitionFile part) = Some c" "m = of_nat (length c)"
    using get_size_OK by blast
  have b: "b = take (unat (of_nat (length c) :: u64)) c"
    using assms(1) v(2) c(1) unfolding preloads_ok_def by fastforce
  have "unat n \<le> unat (of_nat (length c) :: u64)" using m(2) c(2) by (simp add: word_le_nat_alt)
  moreover have "unat (of_nat (length c) :: u64) \<le> length c" by (simp add: unsigned_of_nat)
  ultimately show ?thesis
    using v(1) c(1) b by (simp add: holds_def cfig_contents_def min_def)
qed

text \<open>
  With nothing written in between, the host's partitions have the contents of their files: what libavb
  loads through the operations, copied or preloaded, is the file.
\<close>

interpretation cfig_store: store cfig_avb_ops "\<lambda>w. w = w0 \<and> preloads_ok w" "cfig_contents w0" for w0
proof unfold_locales
  fix part n data fread w w'
  assume "read_from_partition cfig_avb_ops = Some fread" "w = w0 \<and> preloads_ok w"
    "fread part 0 n w = Ok ((AVB_IO_RESULT_OK, data, n), w')"
  then show "\<exists>c. cfig_contents w0 part = Some c \<and> unat n \<le> length c \<and> data = take (unat n) c"
    by (intro read_start_contents) (auto simp: cfig_avb_ops_def)
next
  fix part n a b fpre w w'
  assume "get_preloaded_partition cfig_avb_ops = Some fpre" "w = w0 \<and> preloads_ok w"
    "fpre part n w = Ok ((AVB_IO_RESULT_OK, Some (a, b), n), w')"
  then show "holds (cfig_contents w0) part n (Some (a, b))"
    by (intro preloaded_buffer_contents) (auto simp: cfig_avb_ops_def)
qed (auto simp: cfig_avb_ops_def)

text \<open>The host keeps no persistent values, so hash trees without a digest never verify.\<close>

lemma cfig_no_persistent_values: "read_persistent_value cfig_avb_ops = Some f \<Longrightarrow> f name n w \<noteq> Ok ((AVB_IO_RESULT_OK, d, k), w')"
  by (auto simp: cfig_avb_ops_def read_persistent_valueX_def)

end
