(* ===== verification/Avb_Verifier.thy ===== *)
theory Avb_Verifier
  imports Avb_Cfig_Ops
begin

text \<open>
  The verifier program: \<open>main.cpp\<close> builds the host, preloads partitions and verifies the slot its environment
  asks for; \<open>helper.cpp\<close> prints the result as JSON. And what the program guarantees of the image files.
\<close>

section \<open>Definitions\<close>

subsection \<open>JSON\<close>

fun toString_mode :: "AvbHashtreeErrorMode \<Rightarrow> bytes" where
  "toString_mode AVB_HASHTREE_ERROR_MODE_RESTART_AND_INVALIDATE = str ''AVB_HASHTREE_ERROR_MODE_RESTART_AND_INVALIDATE''"
| "toString_mode AVB_HASHTREE_ERROR_MODE_RESTART = str ''AVB_HASHTREE_ERROR_MODE_RESTART''"
| "toString_mode AVB_HASHTREE_ERROR_MODE_EIO = str ''AVB_HASHTREE_ERROR_MODE_EIO''"
| "toString_mode AVB_HASHTREE_ERROR_MODE_LOGGING = str ''AVB_HASHTREE_ERROR_MODE_LOGGING''"
| "toString_mode AVB_HASHTREE_ERROR_MODE_MANAGED_RESTART_AND_EIO = str ''AVB_HASHTREE_ERROR_MODE_MANAGED_RESTART_AND_EIO''"

fun toString_result :: "AvbSlotVerifyResult \<Rightarrow> bytes" where
  "toString_result AVB_SLOT_VERIFY_RESULT_OK = str ''AVB_SLOT_VERIFY_RESULT_OK''"
| "toString_result AVB_SLOT_VERIFY_RESULT_ERROR_OOM = str ''AVB_SLOT_VERIFY_RESULT_ERROR_OOM''"
| "toString_result AVB_SLOT_VERIFY_RESULT_ERROR_IO = str ''AVB_SLOT_VERIFY_RESULT_ERROR_IO''"
| "toString_result AVB_SLOT_VERIFY_RESULT_ERROR_VERIFICATION = str ''AVB_SLOT_VERIFY_RESULT_ERROR_VERIFICATION''"
| "toString_result AVB_SLOT_VERIFY_RESULT_ERROR_ROLLBACK_INDEX = str ''AVB_SLOT_VERIFY_RESULT_ERROR_ROLLBACK_INDEX''"
| "toString_result AVB_SLOT_VERIFY_RESULT_ERROR_PUBLIC_KEY_REJECTED = str ''AVB_SLOT_VERIFY_RESULT_ERROR_PUBLIC_KEY_REJECTED''"
| "toString_result AVB_SLOT_VERIFY_RESULT_ERROR_INVALID_METADATA = str ''AVB_SLOT_VERIFY_RESULT_ERROR_INVALID_METADATA''"
| "toString_result AVB_SLOT_VERIFY_RESULT_ERROR_UNSUPPORTED_VERSION = str ''AVB_SLOT_VERIFY_RESULT_ERROR_UNSUPPORTED_VERSION''"
| "toString_result AVB_SLOT_VERIFY_RESULT_ERROR_INVALID_ARGUMENT = str ''AVB_SLOT_VERIFY_RESULT_ERROR_INVALID_ARGUMENT''"

fun toString_verdict :: "AvbVBMetaVerifyResult \<Rightarrow> bytes" where
  "toString_verdict AVB_VBMETA_VERIFY_RESULT_OK = str ''AVB_VBMETA_VERIFY_RESULT_OK''"
| "toString_verdict AVB_VBMETA_VERIFY_RESULT_OK_NOT_SIGNED = str ''AVB_VBMETA_VERIFY_RESULT_OK_NOT_SIGNED''"
| "toString_verdict AVB_VBMETA_VERIFY_RESULT_INVALID_VBMETA_HEADER = str ''AVB_VBMETA_VERIFY_RESULT_INVALID_VBMETA_HEADER''"
| "toString_verdict AVB_VBMETA_VERIFY_RESULT_UNSUPPORTED_VERSION = str ''AVB_VBMETA_VERIFY_RESULT_UNSUPPORTED_VERSION''"
| "toString_verdict AVB_VBMETA_VERIFY_RESULT_HASH_MISMATCH = str ''AVB_VBMETA_VERIFY_RESULT_HASH_MISMATCH''"
| "toString_verdict AVB_VBMETA_VERIFY_RESULT_SIGNATURE_MISMATCH = str ''AVB_VBMETA_VERIFY_RESULT_SIGNATURE_MISMATCH''"

text \<open>Two hexadecimal digits per byte; the size is an \<open>int\<close>.\<close>

definition toString_bytes :: "bytes \<Rightarrow> u32 \<Rightarrow> bytes res" where
  "toString_bytes ba baSize =
     (let n = nat (sint baSize)
      in if length ba < n then Fault BadAccess
         else Ok (concat (map (\<lambda>b. [hex_digits ! (unat b div 16), hex_digits ! (unat b mod 16)]) (take n ba))))"

text \<open>A quote is the byte \<open>0x22\<close>; \<open>field\<close> is a name, the separator and a value in quotes.\<close>

definition quoted :: "bytes \<Rightarrow> bytes" where
  "quoted s = [0x22] @ s @ [0x22]"

definition field :: "string \<Rightarrow> bytes \<Rightarrow> bytes" where
  "field name s = quoted (str name) @ str '':'' @ quoted s"

definition toString_vbmeta :: "AvbVBMetaData \<Rightarrow> bytes res" where
  "toString_vbmeta vbmetaData =
     deref (vd_partition_name vbmetaData) (\<lambda>name.
     bnd (toString_bytes (snd (vd_vbmeta_data vbmetaData)) (ucast (vd_vbmeta_size vbmetaData))) (\<lambda>hex.
     Ok (str ''{'' @ field ''_type'' (str ''AvbVBMetaData'') @ str '','' @
         field ''partition_name'' name @ str '','' @
         field ''vbmeta_data'' hex @ str '','' @
         quoted (str ''vbmeta_size'') @ str '':'' @ to_string (unat (vd_vbmeta_size vbmetaData)) @ str '','' @
         field ''verify_result'' (toString_verdict (vd_verify_result vbmetaData)) @ str ''}'')))"

definition toString_partition :: "AvbPartitionData \<Rightarrow> bytes res" where
  "toString_partition partitionData =
     deref (pd_partition_name partitionData) (\<lambda>name.
     Ok (str ''{'' @ field ''partition_name'' name @ str '','' @
         field ''data'' (str ''omitted'') @ str '','' @
         field ''data_size'' (to_string (unat (pd_data_size partitionData))) @ str '','' @
         field ''preloaded'' (if pd_preloaded partitionData then str ''true'' else str ''false'') @ str ''}''))"

text \<open>The loops over the arrays, with a comma after every element but the last.\<close>

fun toString_list :: "('a \<Rightarrow> bytes res) \<Rightarrow> 'a list \<Rightarrow> bytes res" where
  "toString_list f [] = Ok []"
| "toString_list f [x] = f x"
| "toString_list f (x # y # xs) = bnd (f x) (\<lambda>a. bnd (toString_list f (y # xs)) (\<lambda>b. Ok (a @ str '','' @ b)))"

definition toString_slot :: "AvbSlotVerifyData option \<Rightarrow> bytes res" where
  "toString_slot slotData =
     (case slotData of None \<Rightarrow> Ok (str ''{}'') | Some slot \<Rightarrow>
      deref (sd_ab_suffix slot) (\<lambda>ab_suffix.
      bnd (toString_list toString_vbmeta (sd_vbmeta_images slot)) (\<lambda>vbmeta_images.
      bnd (toString_list toString_partition (sd_loaded_partitions slot)) (\<lambda>loaded_partitions.
      bnd (deref (sd_cmdline slot) cstr) (\<lambda>cmdline.
      bnd (toString_list (\<lambda>v. Ok (to_string (unat v))) (sd_rollback_indexes slot)) (\<lambda>rollback_indexes.
      Ok (str ''{'' @ field ''ab_suffix'' ab_suffix @ str '','' @
          quoted (str ''num_vbmeta_images'') @ str '':'' @ to_string (length (sd_vbmeta_images slot)) @ str '','' @
          quoted (str ''vbmeta_images'') @ str '':['' @ vbmeta_images @ str ''],'' @
          field ''num_loaded_partition'' (to_string (length (sd_loaded_partitions slot))) @ str '','' @
          quoted (str ''loaded_partitions'') @ str '':['' @ loaded_partitions @ str ''],'' @
          field ''cmdline'' cmdline @ str '','' @
          quoted (str ''rollback_indexes'') @ str '':['' @ rollback_indexes @ str ''],'' @
          field ''resolved_hashtree_error_mode'' (toString_mode (sd_resolved_hashtree_error_mode slot)) @ str ''}'')))))))"

subsection \<open>The program\<close>

lemma dropWhile_shorter: "length (dropWhile P s) \<le> length s"
  by (induction s) auto

text \<open>
  \<open>splitString\<close>: the pieces between the runs of white space, an empty one before a leading run but none
  after a trailing one.
\<close>

function split_tokens :: "bytes \<Rightarrow> bytes list" where
  "split_tokens s =
     (let token = takeWhile (\<lambda>b. \<not> is_space b) s;
          rest = dropWhile is_space (dropWhile (\<lambda>b. \<not> is_space b) s)
      in if rest = [] then [token] else token # split_tokens rest)"
  by pat_completeness auto

termination
proof (relation "measure length")
  fix s :: bytes and token rest
  assume r: "rest = dropWhile is_space (dropWhile (\<lambda>b. \<not> is_space b) s)" "rest \<noteq> []"
  show "(rest, s) \<in> measure length"
  proof (cases "dropWhile (\<lambda>b. \<not> is_space b) s")
    case (Cons c cs)
    then have "is_space c" by (metis dropWhile_eq_Cons_conv)
    then have "rest = dropWhile is_space cs" using r(1) Cons by simp
    moreover have "length (dropWhile (\<lambda>b. \<not> is_space b) s) \<le> length s" by (rule dropWhile_shorter)
    ultimately show ?thesis using dropWhile_shorter [of is_space cs] Cons by simp
  next
    case Nil
    then show ?thesis using r by (simp del: dropWhile_eq_Nil_conv)
  qed
qed simp

declare split_tokens.simps [simp del]

definition splitString :: "bytes \<Rightarrow> bytes list" where
  "splitString subject = (if subject = [] then [] else split_tokens subject)"

text \<open>The environment variables; an unset one is like an empty one.\<close>

record verifier_env =
  env_preloads :: "bytes option"
  env_requests :: "bytes option"
  env_suffix :: "bytes option"

definition env_text :: "bytes option \<Rightarrow> bytes" where
  "env_text v = (case v of None \<Rightarrow> [] | Some t \<Rightarrow> t)"

fun preload_all :: "bytes list \<Rightarrow> (unit, cfig_world) act" where
  "preload_all [] = retn ()"
| "preload_all (item # preloadVec) = andthen (preload_partition item) (\<lambda>_. preload_all preloadVec)"

definition request_flags :: "bytes list \<Rightarrow> u32" where
  "request_flags requestVec =
     foldl (\<lambda>fl r. if r = str ''recovery'' then fl OR AVB_SLOT_VERIFY_FLAGS_NO_VBMETA_PARTITION else fl) 0 requestVec"

text \<open>What the constructor leaves, as a program; the host's answer to whether the device is unlocked.\<close>

definition new_CfigAvbOps :: "(unit, cfig_world) act" where
  "new_CfigAvbOps = call (Some CfigAvbOps) (\<lambda>f w. bnd (f w) (\<lambda>w. Ok ((), w)))"

definition verifier_flags :: "bytes list \<Rightarrow> bool \<Rightarrow> u32" where
  "verifier_flags requestVec unlocked =
     (if unlocked then request_flags requestVec OR AVB_SLOT_VERIFY_FLAGS_ALLOW_VERIFICATION_ERROR
      else request_flags requestVec)"

definition save_result :: "AvbSlotVerifyData option \<Rightarrow> (unit, cfig_world) act" where
  "save_result slotData =
     andthen (pure (toString_slot slotData)) (\<lambda>json s.
       Ok ((), if fs_writable (sy_world s) (str ''verify_result.json'')
               then s\<lparr>sy_world := put_file (str ''verify_result.json'') json (sy_world s)\<rparr> else s))"

definition verifier_main :: "verifier_env \<Rightarrow> (AvbSlotVerifyResult \<times> AvbSlotVerifyData option, cfig_world) act" where
  "verifier_main env =
     (let requestVec = splitString (env_text (env_requests env)) in
      andthen new_CfigAvbOps (\<lambda>_.
      andthen (preload_all (splitString (env_text (env_preloads env)))) (\<lambda>_.
      andthen (call (read_is_device_unlocked cfig_avb_ops) (\<lambda>f. f)) (\<lambda>(_, unlocked).
      andthen (avb_slot_verify cfig_avb_ops (Some requestVec) (env_text (env_suffix env))
                 (verifier_flags requestVec unlocked) AVB_HASHTREE_ERROR_MODE_RESTART_AND_INVALIDATE)
        (\<lambda>(result, slotData).
      if result = AVB_SLOT_VERIFY_RESULT_OK
      then andthen (save_result slotData) (\<lambda>_. retn (result, slotData))
      else retn (result, slotData))))))"

section \<open>The object the program verifies with\<close>

lemma request_flags_cases:
  "request_flags rs = (if str ''recovery'' \<in> set rs then AVB_SLOT_VERIFY_FLAGS_NO_VBMETA_PARTITION else 0)"
proof -
  have "foldl (\<lambda>fl r. if r = k then fl OR m else fl) a rs = (if k \<in> set rs then a OR m else a)"
    for k :: bytes and m a :: u32
    by (induction rs arbitrary: a) (auto simp: or.assoc)
  then show ?thesis by (simp add: request_flags_def)
qed

lemma verifier_flags_locked: "verifier_flags rs False AND AVB_SLOT_VERIFY_FLAGS_ALLOW_VERIFICATION_ERROR = 0"
  by (simp add: verifier_flags_def request_flags_cases AVB_SLOT_VERIFY_FLAGS_NO_VBMETA_PARTITION_def
      AVB_SLOT_VERIFY_FLAGS_ALLOW_VERIFICATION_ERROR_def)

lemma verifier_flags_vbmeta:
  "no_vbmeta_partition (request parts suffix (verifier_flags rs b)) \<longleftrightarrow> str ''recovery'' \<in> set rs"
  by (simp add: verifier_flags_def request_flags_cases no_vbmeta_partition_def AVB_SLOT_VERIFY_FLAGS_NO_VBMETA_PARTITION_def
      AVB_SLOT_VERIFY_FLAGS_ALLOW_VERIFICATION_ERROR_def and.assoc bit.conj_disj_distrib2)

text \<open>The world in which the slot is verified differs from the first one in nothing that matters.\<close>

definition prepared :: "cfig_world \<Rightarrow> cfig_world \<Rightarrow> bool" where
  "prepared w0 w \<longleftrightarrow> preloads_ok w \<and> open_read w0 pubkeyFile = Some (expected_public_key w) \<and>
     expected_public_key_metadata w = expected_public_key_metadata w0 \<and>
     (\<forall>part. file_of w (getPartitionFile part) = file_of w0 (getPartitionFile part)) \<and>
     read_line w lockStatusFile = read_line w0 lockStatusFile \<and>
     (\<forall>loc. fileExists w0 (rollback_file loc) \<longrightarrow> read_rollback_indexX loc w = read_rollback_indexX loc w0)"

lemma str_append_neq: "last (x @ y) \<noteq> last n \<Longrightarrow> x @ y \<noteq> n"
  by blast

lemma getPartitionFile_neq:
  "getPartitionFile part \<noteq> str ''out.key''" "getPartitionFile part \<noteq> lockStatusFile"
  "getPartitionFile part \<noteq> str ''config/rollbackIndex_0''" "getPartitionFile part \<noteq> str ''config/rollbackIndex_1''"
  unfolding getPartitionFile_def lockStatusFile_def
  by (rule str_append_neq, simp add: str_def of_char_def; fail)+

lemma default_file_other: "name \<noteq> n \<Longrightarrow> file_of (default_file n v w) name = file_of w name"
  by (simp add: default_file_def write_to_file_def)

lemma file_of_update [simp]:
  "file_of (w\<lparr>fs_dirs := d\<rparr>) = file_of w" "file_of (w\<lparr>expected_public_key := k\<rparr>) = file_of w"
  "file_of (w\<lparr>preloaded_partitions := p\<rparr>) = file_of w"
  by (simp_all add: file_of_def fun_eq_iff)

lemma CfigAvbOps_files:
  assumes "CfigAvbOps w = Ok w'"
  shows "file_of w' (getPartitionFile part) = file_of w (getPartitionFile part)"
proof -
  obtain v where v: "loadPubkey w = Ok v" "file_of w' (getPartitionFile part) = file_of v (getPartitionFile part)"
    using assms by (auto simp: CfigAvbOps_def bnd_eq_Ok Let_def default_file_other getPartitionFile_neq)
  moreover have "file_of v (getPartitionFile part) = file_of w (getPartitionFile part)"
    using v(1) by (auto simp: loadPubkey_def Let_def getPartitionFile_neq split: option.splits if_splits)
  ultimately show ?thesis by simp
qed

lemma read_line_same:
  "file_of w name = file_of w' name \<Longrightarrow> fs_readable w = fs_readable w' \<Longrightarrow> read_line w name = read_line w' name"
  by (simp add: read_line_def open_read_def)

text \<open>A file that exists keeps its contents, whichever default files are written.\<close>

definition keeps_files :: "cfig_world \<Rightarrow> cfig_world \<Rightarrow> bool" where
  "keeps_files w w' \<longleftrightarrow> fs_readable w' = fs_readable w \<and> fs_writable w' = fs_writable w \<and>
     (\<forall>n. n \<noteq> str ''out.key'' \<longrightarrow> (file_of w n \<noteq> None \<longrightarrow> file_of w' n = file_of w n) \<and>
        (file_of w n = None \<longrightarrow> file_of w' n \<noteq> None \<longrightarrow> n = lockStatusFile \<longrightarrow> file_of w' n = Some [0x0A]) \<and>
        (fileExists w n \<longrightarrow> fileExists w' n \<and> file_of w' n = file_of w n))"

lemma keeps_files_refl: "keeps_files w w"
  by (simp add: keeps_files_def)

lemma keeps_files_trans:
  assumes "keeps_files a b" "keeps_files b c" shows "keeps_files a c"
proof -
  have "(file_of a n \<noteq> None \<longrightarrow> file_of c n = file_of a n) \<and>
      (file_of a n = None \<longrightarrow> file_of c n \<noteq> None \<longrightarrow> n = lockStatusFile \<longrightarrow> file_of c n = Some [0x0A]) \<and>
      (fileExists a n \<longrightarrow> fileExists c n \<and> file_of c n = file_of a n)" if "n \<noteq> str ''out.key''" for n
  proof (cases "file_of b n")
    case None
    with assms that show ?thesis unfolding keeps_files_def by metis
  next
    case (Some x)
    with assms that show ?thesis unfolding keeps_files_def by (metis option.distinct(1))
  qed
  with assms show ?thesis by (simp add: keeps_files_def)
qed

lemma default_file_keeps:
  assumes "n = lockStatusFile \<longrightarrow> v = []" shows "keeps_files w (default_file n v w)"
  using assms by (auto simp: keeps_files_def default_file_def write_to_file_def fileExists_def)

lemma loadPubkey_keeps:
  assumes "loadPubkey w = Ok w'" shows "keeps_files w w'"
  using assms by (auto simp: loadPubkey_def Let_def keeps_files_def fileExists_def split: option.splits if_splits)

lemma CfigAvbOps_keeps:
  assumes "CfigAvbOps w = Ok w'" shows "keeps_files w w'"
proof -
  have rb: "str ''config/rollbackIndex_0'' = lockStatusFile \<longrightarrow> v = []" "str ''config/rollbackIndex_1'' = lockStatusFile \<longrightarrow> v = []"
    for v :: bytes by (simp_all add: lockStatusFile_def str_def of_char_def)
  obtain v where v: "loadPubkey w = Ok v"
    and w': "w' = default_file (str ''config/rollbackIndex_1'') (str ''0'') (default_file (str ''config/rollbackIndex_0'') (str ''0'')
      (default_file lockStatusFile [] (let w = populatePartitions (str ''.'') v in
        if \<not> fileExists w (str ''config'') \<and> fs_writable w (str ''config'')
        then w\<lparr>fs_dirs := str ''config'' # fs_dirs w\<rparr> else w)))"
    using assms by (auto simp: CfigAvbOps_def bnd_eq_Ok Let_def)
  have "keeps_files v (let w = populatePartitions (str ''.'') v in
        if \<not> fileExists w (str ''config'') \<and> fs_writable w (str ''config'')
        then w\<lparr>fs_dirs := str ''config'' # fs_dirs w\<rparr> else w)"
    by (auto simp: keeps_files_def populatePartitions_def Let_def file_of_def fileExists_def)
  with v show ?thesis
    unfolding w'
    by (intro keeps_files_trans [OF _ default_file_keeps [OF rb(2)]] keeps_files_trans [OF _ default_file_keeps [OF rb(1)]]
        keeps_files_trans [OF _ default_file_keeps]) (auto intro: keeps_files_trans [OF loadPubkey_keeps])
qed

lemma keeps_lock:
  assumes "keeps_files w w'" shows "read_line w' lockStatusFile = read_line w lockStatusFile"
proof -
  have "lockStatusFile \<noteq> str ''out.key''" by (simp add: lockStatusFile_def str_def)
  with assms show ?thesis
    unfolding keeps_files_def read_line_def open_read_def
    by (cases "file_of w lockStatusFile"; cases "file_of w' lockStatusFile") auto
qed

lemma keeps_rollback:
  assumes "keeps_files w w'" "fileExists w (rollback_file loc)"
  shows "read_rollback_indexX loc w' = read_rollback_indexX loc w"
proof -
  have "hd (rollback_file loc) \<noteq> hd (str ''out.key'')" by (simp add: rollback_file_def str_def of_char_def)
  then have "rollback_file loc \<noteq> str ''out.key''" by metis
  with assms have "read_line w' (rollback_file loc) = read_line w (rollback_file loc)"
    unfolding keeps_files_def by (intro read_line_same) auto
  then show ?thesis by (simp add: read_rollback_indexX_def)
qed

lemma constructed:
  assumes "new_CfigAvbOps s = Ok (u, s')" "preloaded_partitions (sy_world s) = []"
  shows "prepared (sy_world s) (sy_world s')"
proof -
  have c: "CfigAvbOps (sy_world s) = Ok (sy_world s')"
    using assms(1) by (auto simp: new_CfigAvbOps_def call_eq_Ok bnd_eq_Ok)
  show ?thesis
    using CfigAvbOps_run [OF c] CfigAvbOps_files [OF c] assms(2) CfigAvbOps_keeps [OF c]
    by (simp add: prepared_def preloads_ok_def keeps_lock keeps_rollback)
qed

lemma preload_prepared:
  assumes "preload_partition part s = Ok (r, s')" "prepared w0 (sy_world s)"
  shows "prepared w0 (sy_world s')"
proof -
  have "read_line (add_preload q p w) = read_line w" "read_rollback_indexX loc (add_preload q p w) = read_rollback_indexX loc w"
    "file_of (add_preload q p w) = file_of w" "expected_public_key (add_preload q p w) = expected_public_key w"
    "expected_public_key_metadata (add_preload q p w) = expected_public_key_metadata w" for q p w loc
    by (simp_all add: add_preload_def read_line_def open_read_def read_rollback_indexX_def fun_eq_iff)
  then show ?thesis
    using preload_step [OF assms(1)] preload_keeps [OF assms(1)] assms(2)
    by (auto simp: prepared_def split: if_splits)
qed

lemma preload_all_prepared:
  "preload_all ps s = Ok (u, s') \<Longrightarrow> prepared w0 (sy_world s) \<Longrightarrow> prepared w0 (sy_world s')"
proof (induction ps arbitrary: s)
  case (Cons p ps)
  then obtain r t where "preload_partition p s = Ok (r, t)" "preload_all ps t = Ok (u, s')"
    by (auto simp: andthen_eq_Ok)
  then show ?case using Cons.IH preload_prepared [OF _ Cons.prems(2)] by blast
qed (simp add: retn_def)

section \<open>What the program verifies\<close>

text \<open>The host trusts one key, that of the key file, for the first rollback index location.\<close>

lemma same_string_True:
  assumes "same_string expected (Some d) len = Ok True" "length expected < 2 ^ 64"
  shows "take (unat len) d = expected"
proof -
  have l: "unat len = length expected" "avb_memcmp (expected @ [0]) d (unat len) = Ok 0"
    using assms by (auto simp: same_string_def bnd_eq_Ok unsigned_of_nat take_bit_nat_eq_self split: if_splits)
  then show ?thesis by (auto simp: avb_memcmp_def memcmp_sign_zero split: if_splits)
qed

lemma cfig_trusts:
  assumes "host_trusts cfig_avb_ops (\<lambda>v. v = w) rq key loc" "length (expected_public_key w) < 2 ^ 64"
  shows "key = expected_public_key w \<and> loc = 0"
  using assms(1) same_string_True [OF _ assms(2)]
  by (auto simp: host_trusts_def cfig_avb_ops_def validate_vbmeta_public_keyX_def validate_public_key_for_partitionX_def
      bnd_eq_Ok split: if_splits)

lemma cfig_vouching: "no_persistent_values cfig_avb_ops I"
  using cfig_no_persistent_values unfolding no_persistent_values_def by blast

text \<open>
  A partition entry with data: bytes from the start of the image file of that name, with or without the
  suffix.
\<close>

definition image_of_file :: "cfig_world \<Rightarrow> bytes \<Rightarrow> AvbPartitionData \<Rightarrow> bool" where
  "image_of_file w suffix p \<longleftrightarrow> (\<exists>name full c a data. pd_data p = Some (a, data) \<and>
     (pd_partition_name p = None \<or> pd_partition_name p = Some name) \<and> named suffix name full \<and>
     file_of w (getPartitionFile full) = Some c \<and> unat (pd_data_size p) \<le> length c \<and>
     unat (pd_data_size p) \<le> length data \<and> take (unat (pd_data_size p)) data = take (unat (pd_data_size p)) c)"

lemma loaded_image:
  assumes "loaded (holds (cfig_contents w)) suffix p" "pd_data p \<noteq> None" "prepared w0 w"
  shows "image_of_file w0 suffix p"
proof -
  obtain name full where n: "pd_partition_name p = None \<or> pd_partition_name p = Some name" "named suffix name full"
      "holds (cfig_contents w) full (pd_data_size p) (pd_data p)"
    using assms(1,2) by (auto simp: loaded_def)
  then obtain a data c where "pd_data p = Some (a, data)" "file_of w (getPartitionFile full) = Some c"
      "unat (pd_data_size p) \<le> length c" "unat (pd_data_size p) \<le> length data"
      "take (unat (pd_data_size p)) data = take (unat (pd_data_size p)) c"
    by (auto simp: holds_def cfig_contents_def split: if_splits)
  with n assms(3) show ?thesis unfolding image_of_file_def prepared_def by metis
qed

text \<open>A run that hands out slot data, from the world in which the slot is verified.\<close>

lemma verifier_run:
  assumes run: "verifier_main env s = Ok ((ret, Some slot), s')" and fresh: "preloaded_partitions (sy_world s) = []"
  shows "\<exists>w. prepared (sy_world s) w \<and> slot_shape slot \<and>
    (\<forall>p\<in>set (sd_loaded_partitions slot). pd_data p \<noteq> None \<longrightarrow>
       image_of_file (sy_world s) (env_text (env_suffix env)) p) \<and>
    (read_line w lockStatusFile \<noteq> str ''0'' \<longrightarrow> ret = AVB_SLOT_VERIFY_RESULT_OK \<and>
       slot_trusted cfig_avb_ops (\<lambda>v. v = w)
         (request (Some (splitString (env_text (env_requests env)))) (env_text (env_suffix env))
            (verifier_flags (splitString (env_text (env_requests env))) False)) slot)"
proof -
  let ?rs = "splitString (env_text (env_requests env))" and ?suffix = "env_text (env_suffix env)"
  obtain u t where t: "new_CfigAvbOps s = Ok (u, t)"
    "andthen (preload_all (splitString (env_text (env_preloads env)))) (\<lambda>_.
       andthen (call (read_is_device_unlocked cfig_avb_ops) (\<lambda>f. f)) (\<lambda>(_, unlocked).
       andthen (avb_slot_verify cfig_avb_ops (Some ?rs) ?suffix (verifier_flags ?rs unlocked)
           AVB_HASHTREE_ERROR_MODE_RESTART_AND_INVALIDATE) (\<lambda>(result, slotData).
       if result = AVB_SLOT_VERIFY_RESULT_OK then andthen (save_result slotData) (\<lambda>_. retn (result, slotData))
       else retn (result, slotData)))) t = Ok ((ret, Some slot), s')"
    using run unfolding verifier_main_def Let_def andthen_eq_Ok [of new_CfigAvbOps] by blast
  then obtain u2 t2 where t2: "preload_all (splitString (env_text (env_preloads env))) t = Ok (u2, t2)"
    "andthen (call (read_is_device_unlocked cfig_avb_ops) (\<lambda>f. f)) (\<lambda>(_, unlocked).
       andthen (avb_slot_verify cfig_avb_ops (Some ?rs) ?suffix (verifier_flags ?rs unlocked)
           AVB_HASHTREE_ERROR_MODE_RESTART_AND_INVALIDATE) (\<lambda>(result, slotData).
       if result = AVB_SLOT_VERIFY_RESULT_OK then andthen (save_result slotData) (\<lambda>_. retn (result, slotData))
       else retn (result, slotData))) t2 = Ok ((ret, Some slot), s')"
    unfolding andthen_eq_Ok [of "preload_all _"] by blast
  let ?w = "sy_world t2"
  let ?unlocked = "read_line ?w lockStatusFile = str ''0''"
  have p: "prepared (sy_world s) ?w"
    using constructed [OF t(1) fresh] preload_all_prepared [OF t2(1)] by blast
  have call: "call (read_is_device_unlocked cfig_avb_ops) (\<lambda>f. f) t2 = Ok ((AVB_IO_RESULT_OK, ?unlocked), t2)"
    by (simp add: call_eq_Ok cfig_avb_ops_def read_is_device_unlockedX_def)
  obtain r t3 where v: "avb_slot_verify cfig_avb_ops (Some ?rs) ?suffix (verifier_flags ?rs ?unlocked)
      AVB_HASHTREE_ERROR_MODE_RESTART_AND_INVALIDATE t2 = Ok ((r, Some slot), t3)" "r = ret"
    using t2(2) unfolding andthen_eq_Ok call by (auto simp: andthen_eq_Ok retn_def split: if_splits)
  have shape: "slot_shape slot \<and> (\<forall>p\<in>set (sd_loaded_partitions slot). loaded (holds (cfig_contents ?w)) ?suffix p)"
    using postD [OF cfig_store.stored.slot_verify_shape _ v(1)] p by (auto simp: prepared_def)
  have trust: "ret = AVB_SLOT_VERIFY_RESULT_OK \<and> slot_trusted cfig_avb_ops (\<lambda>v. v = ?w)
      (request (Some ?rs) ?suffix (verifier_flags ?rs False)) slot" if "\<not> ?unlocked"
  proof -
    from that have u: "?unlocked = False" by simp
    show ?thesis
      using postD [OF cfig.slot_verify_trust [OF verifier_flags_locked] _ v(1) [unfolded u]] v(2) by auto
  qed
  show ?thesis
    using p shape trust loaded_image [OF _ _ p] by blast
qed

section \<open>Looking for a footer\<close>

text \<open>
  What \<open>find_vbmeta\<close> sees of an image file by its size: the footer in its last 64 bytes; an I/O error when it
  is shorter than that; and, one byte short, the read that started at the beginning ends in the failing
  assertion that a whole footer was read.
\<close>

lemma cfig_read_call:
  "call (read_from_partition cfig_avb_ops) (\<lambda>f. f part ofs n) s = Ok (read_from_partitionX part ofs n (sy_world s), s)"
  by (simp add: call_def cfig_avb_ops_def reading_def)

lemma find_vbmeta_sizes:
  assumes "getPartitionFile part \<in> validPartitions (sy_world s)" "open_read (sy_world s) (getPartitionFile part) = Some c"
    and "length c < 2 ^ 63"
  shows "length c < 63 \<Longrightarrow> find_vbmeta cfig_avb_ops part s = Ok (Inl AVB_SLOT_VERIFY_RESULT_ERROR_IO, s)"
    and "length c = 63 \<Longrightarrow> find_vbmeta cfig_avb_ops part s = Fault Abort"
proof -
  have k: "(0 :: nat) < AVB_FOOTER_SIZE" "AVB_FOOTER_SIZE < 2 ^ 63" "AVB_FOOTER_SIZE = 64"
    by (simp_all add: AVB_FOOTER_SIZE_def)
  note r = read_backward [OF assms k(1,2), of "of_nat AVB_FOOTER_SIZE"]
  show "find_vbmeta cfig_avb_ops part s = Ok (Inl AVB_SLOT_VERIFY_RESULT_ERROR_IO, s)" if "length c < 63"
    unfolding find_vbmeta_def andthen_def cfig_read_call r using that
    by (simp add: k(3) pure_def io_error_def retn_def)
  show "find_vbmeta cfig_avb_ops part s = Fault Abort" if "length c = 63"
    unfolding find_vbmeta_def andthen_def cfig_read_call r using that
    by (simp add: k(3) pure_def posix_read_length READ_MAX_def asserting_def avb_assert_def Let_def)
qed

end
