(* ===== verification/Avb_Options.thy ===== *)
theory Avb_Options
  imports Avb_Slot_Verify
begin

text \<open>
  What the verifier does when nothing fails: \<open>gives\<close> is the total-correctness counterpart of \<open>post\<close>, a
  program that returns a value. With it, the command line a verified slot gets, option by option.
\<close>

section \<open>Programs that return\<close>

definition gives :: "('a, 'w) act \<Rightarrow> 'w sys \<Rightarrow> ('a \<Rightarrow> 'w sys \<Rightarrow> bool) \<Rightarrow> bool" where
  "gives m s Q \<longleftrightarrow> (\<exists>x s'. m s = Ok (x, s') \<and> Q x s')"

named_theorems avb_gives \<open>what it takes for a program to return\<close>

lemma gives_andthen [avb_gives]: "gives (andthen m f) s Q \<longleftrightarrow> gives m s (\<lambda>x t. gives (f x) t Q)"
  by (auto simp: gives_def andthen_eq_Ok)

lemma gives_basic [avb_gives]:
  "gives (retn x) s Q \<longleftrightarrow> Q x s"
  "gives (pure (Ok x)) s Q \<longleftrightarrow> Q x s"
  "gives (asserting True m) s Q \<longleftrightarrow> gives m s Q"
  by (simp_all add: gives_def retn_def pure_def asserting_def avb_assert_def)

lemma gives_alloc_iff: "gives (alloc g) s Q \<longleftrightarrow> (case g (sy_heap s) of (x, h) \<Rightarrow> Q x (s\<lparr>sy_heap := h\<rparr>))"
  by (auto simp: gives_def alloc_def heap_act_def split: prod.split)

lemma gives_call_iff:
  "op = Some g \<Longrightarrow> arg g (sy_world s) = Ok (x, sy_world s) \<Longrightarrow> gives (call op arg) s Q \<longleftrightarrow> Q x s"
  by (simp add: gives_def call_def)

lemma givesI: "m s = Ok (x, s') \<Longrightarrow> Q x s' \<Longrightarrow> gives m s Q"
  by (auto simp: gives_def)

lemma givesE: "gives m s Q \<Longrightarrow> (\<And>x s'. m s = Ok (x, s') \<Longrightarrow> Q x s' \<Longrightarrow> P) \<Longrightarrow> P"
  by (auto simp: gives_def)

lemma gives_mono: "gives m s P \<Longrightarrow> (\<And>x s'. P x s' \<Longrightarrow> Q x s') \<Longrightarrow> gives m s Q"
  by (auto simp: gives_def)

lemma gives_pure: "r = Ok x \<Longrightarrow> Q x s \<Longrightarrow> gives (pure r) s Q"
  by (simp add: avb_gives)

text \<open>The same world, and all the memory one asks for.\<close>

definition roomy :: "'w \<Rightarrow> 'w sys \<Rightarrow> bool" where
  "roomy w s \<longleftrightarrow> sy_world s = w \<and> malloc_total (sy_heap s)"

lemma roomy_heap: "roomy w s \<Longrightarrow> malloc_total h \<Longrightarrow> roomy w (s\<lparr>sy_heap := h\<rparr>)"
  by (simp add: roomy_def)

lemma gives_alloc:
  assumes "roomy w s" "\<And>a s'. roomy w s' \<Longrightarrow> Q (Some (a, replicate n 0)) s'"
  shows "gives (alloc (avb_calloc n)) s Q"
proof -
  obtain a h where "avb_malloc n (sy_heap s) = (Some a, h)" "malloc_total h"
    using malloc_total_malloc assms(1) unfolding roomy_def by blast
  with assms show ?thesis by (simp add: gives_alloc_iff avb_calloc_def roomy_heap)
qed

lemma gives_malloc_obj:
  assumes "roomy w s" "\<And>a junk s'. roomy w s' \<Longrightarrow> length junk = n \<Longrightarrow> Q (Some (a, junk)) s'"
  shows "gives (alloc (avb_malloc_obj n)) s Q"
proof -
  obtain a h where "avb_malloc n (sy_heap s) = (Some a, h)" "malloc_total h"
    using malloc_total_malloc assms(1) unfolding roomy_def by blast
  with assms show ?thesis by (simp add: gives_alloc_iff avb_malloc_obj_def roomy_heap Let_def)
qed

lemma gives_strdup:
  assumes "roomy w s" "\<And>s'. roomy w s' \<Longrightarrow> Q (Some t) s'"
  shows "gives (alloc (avb_strdup t)) s Q"
proof -
  obtain h where "avb_strdup t (sy_heap s) = (Some t, h)" "malloc_total h"
    using avb_strdup_total assms(1) unfolding roomy_def by blast
  with assms show ?thesis by (simp add: gives_alloc_iff roomy_heap)
qed

section \<open>The options of a slot\<close>

definition with_options :: "bytes \<Rightarrow> (bytes \<times> bytes) list \<Rightarrow> bytes" where
  "with_options = foldl (\<lambda>t (key, v). with_option t key v)"

text \<open>The digest reported for an algorithm, and the digests' names.\<close>

definition digest_type :: "AvbAlgorithmType \<Rightarrow> AvbDigestType" where
  "digest_type a =
     (if a \<in> {AVB_ALGORITHM_TYPE_SHA512_RSA2048, AVB_ALGORITHM_TYPE_SHA512_RSA4096, AVB_ALGORITHM_TYPE_SHA512_RSA8192}
      then AVB_DIGEST_TYPE_SHA512 else AVB_DIGEST_TYPE_SHA256)"

fun digest_name :: "AvbDigestType \<Rightarrow> bytes" where
  "digest_name AVB_DIGEST_TYPE_SHA256 = str ''sha256''"
| "digest_name AVB_DIGEST_TYPE_SHA512 = str ''sha512''"

definition digest_options :: "AvbDigestType \<Rightarrow> AvbVBMetaData list \<Rightarrow> (bytes \<times> bytes) list" where
  "digest_options d imgs =
     [(str ''androidboot.vbmeta.hash_alg'', digest_name d),
      (str ''androidboot.vbmeta.size'', map digit_byte (decimal (sum_list (map (\<lambda>img. unat (vd_vbmeta_size img)) imgs)))),
      (str ''androidboot.vbmeta.digest'', bin2hex_bytes (digest_of d (concat (map image_bytes imgs))))]"

definition state_options :: "bool \<Rightarrow> (bytes \<times> bytes) list" where
  "state_options unlocked =
     [(str ''androidboot.vbmeta.avb_version'', str ''1.1''),
      (str ''androidboot.vbmeta.device_state'', if unlocked then str ''unlocked'' else str ''locked'')]"

definition vbmeta_options :: "u32 \<Rightarrow> bool \<Rightarrow> AvbAlgorithmType \<Rightarrow> AvbVBMetaData list \<Rightarrow> (bytes \<times> bytes) list" where
  "vbmeta_options vflags unlocked a imgs =
     (if vflags AND AVB_SLOT_VERIFY_FLAGS_NO_VBMETA_PARTITION = 0
      then [(str ''androidboot.vbmeta.device'', str ''PARTUUID=$(ANDROID_VBMETA_PARTUUID)'')] else []) @
     state_options unlocked @ digest_options (digest_type a) imgs"

fun verity_words :: "AvbHashtreeErrorMode \<Rightarrow> bytes \<times> bytes" where
  "verity_words AVB_HASHTREE_ERROR_MODE_EIO = (str ''eio'', str ''ignore_zero_blocks'')"
| "verity_words AVB_HASHTREE_ERROR_MODE_LOGGING = (str ''logging'', str ''ignore_corruption'')"
| "verity_words _ = (str ''enforcing'', str ''restart_on_corruption'')"

definition managed_options :: "AvbHashtreeErrorMode \<Rightarrow> (bytes \<times> bytes) list" where
  "managed_options mode = (if mode = AVB_HASHTREE_ERROR_MODE_MANAGED_RESTART_AND_EIO
    then [(str ''androidboot.veritymode.managed'', str ''yes'')] else [])"

definition verity_text :: "bytes \<Rightarrow> AvbHashtreeErrorMode \<Rightarrow> AvbHashtreeErrorMode \<Rightarrow> u32 \<Rightarrow> bytes" where
  "verity_text t mode resolved toplevel_flags =
     with_options
       (if toplevel_flags AND AVB_VBMETA_IMAGE_FLAGS_HASHTREE_DISABLED \<noteq> 0
        then with_option t (str ''androidboot.veritymode'') (str ''disabled'')
        else with_option
          (replace_ref (str ''$(ANDROID_VERITY_MODE)'') (snd (verity_words resolved))
             (if resolved = AVB_HASHTREE_ERROR_MODE_RESTART_AND_INVALIDATE
              then with_option t (str ''androidboot.vbmeta.invalidate_on_error'') (str ''yes'') else t))
          (str ''androidboot.veritymode'') (fst (verity_words resolved)))
       (managed_options mode)"

text \<open>
  The same as \<open>avb_slot_verify.h\<close> has it: there the managed mode is only named when hash trees are in use.
  The code names it regardless.
\<close>

definition header_text :: "bytes \<Rightarrow> AvbHashtreeErrorMode \<Rightarrow> AvbHashtreeErrorMode \<Rightarrow> u32 \<Rightarrow> bytes" where
  "header_text t mode resolved toplevel_flags =
     (if toplevel_flags AND AVB_VBMETA_IMAGE_FLAGS_HASHTREE_DISABLED \<noteq> 0
      then with_option t (str ''androidboot.veritymode'') (str ''disabled'')
      else verity_text t mode resolved toplevel_flags)"

lemma verity_text_header:
  "verity_text t mode resolved toplevel_flags =
     (if toplevel_flags AND AVB_VBMETA_IMAGE_FLAGS_HASHTREE_DISABLED \<noteq> 0 \<and> mode = AVB_HASHTREE_ERROR_MODE_MANAGED_RESTART_AND_EIO
      then with_option (header_text t mode resolved toplevel_flags) (str ''androidboot.veritymode.managed'') (str ''yes'')
      else header_text t mode resolved toplevel_flags)"
  by (simp add: header_text_def verity_text_def managed_options_def with_options_def)

text \<open>A slot with a given command line, as a C string.\<close>

abbreviation with_cmdline :: "AvbSlotVerifyData \<Rightarrow> bytes \<Rightarrow> AvbSlotVerifyData" where
  "with_cmdline slot t \<equiv> slot\<lparr>sd_cmdline := Some (t @ [0])\<rparr>"

definition shows_text :: "AvbSlotVerifyData \<Rightarrow> bytes \<Rightarrow> bool" where
  "shows_text slot t \<longleftrightarrow> cmdline_ended (sd_cmdline slot) \<and> cmdline_text (sd_cmdline slot) = t \<and> cstring t"

lemma shows_with_cmdline: "cstring t \<Longrightarrow> shows_text (with_cmdline slot t) t"
  using cstr_terminated [of t "[]"] by (simp add: shows_text_def cmdline_ended_def cmdline_text_def cstr_def)

lemma cstring_with_option:
  "cstring t \<Longrightarrow> cstring key \<Longrightarrow> cstring v \<Longrightarrow> cstring (with_option t key v)"
  by (simp add: with_option_def cstring_def)

lemma gives_option:
  assumes "shows_text slot t" "roomy w s" "cstring key" "cstring v"
    and "\<And>s'. roomy w s' \<Longrightarrow> shows_text (with_cmdline slot (with_option t key v)) (with_option t key v) \<Longrightarrow>
      gives (rest (with_cmdline slot (with_option t key v))) s' Q"
  shows "gives (or_oom (cmdline_append_option slot key v) rest) s Q"
proof -
  have t: "cmdline_ended (sd_cmdline slot)" "cmdline_text (sd_cmdline slot) = t" "cstring t"
    using assms(1) by (simp_all add: shows_text_def)
  obtain h where h: "cmdline_append_option slot key v s = Ok ((True, with_cmdline slot (with_option t key v)), s\<lparr>sy_heap := h\<rparr>)"
      "malloc_total h"
    using append_option_run [OF t(1), of s key v] assms(2) t(2) unfolding roomy_def by blast
  show ?thesis
    unfolding or_oom_def gives_andthen
    by (rule givesI, rule h(1)) (use assms h(2) t(3) in \<open>simp add: roomy_heap shows_with_cmdline cstring_with_option\<close>)
qed

text \<open>The digest of the images, when they lie within their objects.\<close>

definition images_whole :: "AvbVBMetaData list \<Rightarrow> bool" where
  "images_whole imgs \<longleftrightarrow> list_all image_whole imgs \<and> length (concat (map image_bytes imgs)) < 2 ^ 61"

lemma images_size:
  assumes "images_whole imgs"
  shows "uint64_to_base10 (foldl (\<lambda>n img. n + vd_vbmeta_size img) 0 imgs) =
    map digit_byte (decimal (sum_list (map (\<lambda>img. unat (vd_vbmeta_size img)) imgs)))"
proof -
  have f: "foldl (\<lambda>n img. n + vd_vbmeta_size img) x imgs =
      x + of_nat (sum_list (map (\<lambda>img. unat (vd_vbmeta_size img)) imgs))" for x
    by (induction imgs arbitrary: x) (simp_all add: algebra_simps)
  have "sum_list (map (\<lambda>img. unat (vd_vbmeta_size img)) imgs) = length (concat (map image_bytes imgs))"
    using assms by (induction imgs) (auto simp: images_whole_def image_whole_def image_bytes_def)
  then have "sum_list (map (\<lambda>img. unat (vd_vbmeta_size img)) imgs) < 2 ^ 64"
    using assms by (simp add: images_whole_def)
  with f [of 0] show ?thesis
    by (simp add: base10_decimal unsigned_of_nat take_bit_nat_eq_self)
qed

lemma cstring_digits: "cstring (map digit_byte (decimal n))"
  using decimal_digits [of n] digit_byte_parse(1) by (fastforce simp: cstring_def)

lemma cstring_hex: "cstring (bin2hex_bytes data)"
proof -
  have "hex_value 0 = None" by (simp add: hex_value_def)
  then have "hex_digits ! unat (drop_bit 4 b) \<noteq> 0" "hex_digits ! unat (b AND 0x0f) \<noteq> 0" for b :: u8
    using hex_byte_decode [of b] by fastforce+
  then show ?thesis by (auto simp: cstring_def bin2hex_bytes_def)
qed

lemma options_cstring:
  "cstring (str ''androidboot.vbmeta.device'')" "cstring (str ''PARTUUID=$(ANDROID_VBMETA_PARTUUID)'')"
  "cstring (str ''androidboot.vbmeta.avb_version'')" "cstring (str ''1.1'')"
  "cstring (str ''androidboot.vbmeta.device_state'')" "cstring (if b then str ''unlocked'' else str ''locked'')"
  "cstring (str ''androidboot.vbmeta.hash_alg'')" "cstring (digest_name d)" "cstring (str ''androidboot.vbmeta.size'')"
  "cstring (str ''androidboot.vbmeta.digest'')" "cstring (str ''androidboot.vbmeta.invalidate_on_error'')"
  "cstring (str ''yes'')" "cstring (str ''androidboot.veritymode'')" "cstring (str ''androidboot.veritymode.managed'')"
  "cstring (str ''disabled'')" "cstring (str ''$(ANDROID_VERITY_MODE)'')" "cstring (fst (verity_words m))"
  "cstring (snd (verity_words m))"
  by (cases d; cases m; simp add: cstring_def str_def of_char_def; fail)+

lemma version_text: "uint64_to_base10 (ucast AVB_VERSION_MAJOR) @ [0x2E] @ uint64_to_base10 (ucast AVB_VERSION_MINOR) = str ''1.1''"
proof -
  have "decimal 1 = [1]" by (subst decimal.simps) simp
  then show ?thesis
    by (simp add: base10_decimal AVB_VERSION_MAJOR_def AVB_VERSION_MINOR_def digit_byte_def str_def of_char_def)
qed

lemma gives_hex_option:
  assumes "shows_text slot t" "roomy w s" "cstring key" "n = length data"
    and "\<And>s'. roomy w s' \<Longrightarrow> shows_text (with_cmdline slot (with_option t key (bin2hex_bytes data))) (with_option t key (bin2hex_bytes data)) \<Longrightarrow>
      gives (rest (with_cmdline slot (with_option t key (bin2hex_bytes data)))) s' Q"
  shows "gives (or_oom (cmdline_append_hex slot key data n) rest) s Q"
proof -
  obtain a h where h: "avb_malloc (n * 2 + 1) (sy_heap s) = (Some a, h)" "malloc_total h"
    using malloc_total_malloc assms(2) unfolding roomy_def by blast
  have "or_oom (cmdline_append_hex slot key data n) rest s =
      or_oom (cmdline_append_option slot key (bin2hex_bytes data)) rest (s\<lparr>sy_heap := h\<rparr>)"
    using h(1) assms(4) by (simp add: or_oom_def cmdline_append_hex_def andthen_def heap_act_def avb_bin2hex_def)
  moreover have "gives (or_oom (cmdline_append_option slot key (bin2hex_bytes data)) rest) (s\<lparr>sy_heap := h\<rparr>) Q"
    using gives_option [OF assms(1) roomy_heap [OF assms(2) h(2)] assms(3) cstring_hex] assms(5) by blast
  ultimately show ?thesis by (simp add: gives_def)
qed

lemma gives_replace:
  assumes "shows_text slot t" "roomy w s" "cstring tok" "cstring v" "sd_cmdline slot \<noteq> None"
    and "\<And>s'. roomy w s' \<Longrightarrow> shows_text (with_cmdline slot (replace_ref tok v t)) (replace_ref tok v t) \<Longrightarrow>
      gives (f (Some (replace_ref tok v t))) s' Q"
  shows "gives (andthen (pure (deref (sd_cmdline slot) cstr)) (\<lambda>cmdline. andthen (heap_act (avb_replace cmdline tok v)) f)) s Q"
proof -
  obtain m where m: "sd_cmdline slot = Some m" using assms(5) by blast
  have c: "cstr m = Ok t" "cstring t"
    using assms(1) unfolding m shows_text_def cmdline_ended_def cmdline_text_def by (simp_all add: cstr_def)
  obtain h where h: "heap_act (avb_replace t tok v) s = Ok (Some (replace_ref tok v t), s\<lparr>sy_heap := h\<rparr>)" "malloc_total h"
    using replace_act [OF c(2) assms(3)] assms(2) unfolding roomy_def by blast
  have "gives (heap_act (avb_replace t tok v)) s (\<lambda>x t. gives (f x) t Q)"
    by (rule givesI, rule h(1), rule assms(6))
      (use assms(2,4) h(2) c(2) in \<open>simp_all add: roomy_heap shows_with_cmdline cstring_replace_ref\<close>)
  then show ?thesis by (simp add: m c avb_gives)
qed

abbreviation options_end :: "'w \<Rightarrow> AvbSlotVerifyData \<Rightarrow> bytes \<Rightarrow> AvbSlotVerifyResult \<times> AvbSlotVerifyData \<Rightarrow> 'w sys \<Rightarrow> bool" where
  "options_end w slot u r s' \<equiv> r = (AVB_SLOT_VERIFY_RESULT_OK, with_cmdline slot u) \<and> cstring u \<and> roomy w s'"

lemma gives_veritymode:
  assumes "shows_text slot t" "roomy w s" "cstring v"
  shows "gives (append_veritymode mode v slot) s
    (options_end w slot (with_options (with_option t (str ''androidboot.veritymode'') v) (managed_options mode)))"
  using assms unfolding append_veritymode_def
  by (auto intro!: gives_option options_cstring simp: avb_gives with_options_def managed_options_def shows_text_def)

lemma gives_replace_mode:
  assumes "shows_text slot t" "roomy w s" "sd_cmdline slot \<noteq> None"
  shows "gives (replace_verity_mode mode (fst (verity_words m)) (snd (verity_words m)) slot) s
    (options_end w slot (with_options (with_option (replace_ref (str ''$(ANDROID_VERITY_MODE)'') (snd (verity_words m)) t)
       (str ''androidboot.veritymode'') (fst (verity_words m))) (managed_options mode)))"
  unfolding replace_verity_mode_def Let_def
proof (rule gives_replace [OF assms(1,2) options_cstring(16,18) assms(3)])
  fix s' let ?u = "replace_ref (str ''$(ANDROID_VERITY_MODE)'') (snd (verity_words m)) t"
  assume "roomy w s'" "shows_text (with_cmdline slot ?u) ?u"
  then show "gives (if Some ?u = None
      then retn (AVB_SLOT_VERIFY_RESULT_ERROR_OOM, slot\<lparr>sd_cmdline := map_option (\<lambda>s. s @ [0]) (Some ?u)\<rparr>)
      else append_veritymode mode (fst (verity_words m)) (slot\<lparr>sd_cmdline := map_option (\<lambda>s. s @ [0]) (Some ?u)\<rparr>)) s'
    (options_end w slot (with_options (with_option ?u (str ''androidboot.veritymode'') (fst (verity_words m))) (managed_options mode)))"
    using gives_veritymode [of "with_cmdline slot ?u" ?u w s' "fst (verity_words m)" mode] options_cstring(17) by simp
qed

lemma gives_verity_mode:
  assumes "shows_text slot t" "roomy w s" "sd_cmdline slot \<noteq> None"
    and "resolved \<noteq> AVB_HASHTREE_ERROR_MODE_MANAGED_RESTART_AND_EIO"
  shows "gives (append_verity_mode slot mode resolved toplevel_flags) s
    (options_end w slot (verity_text t mode resolved toplevel_flags))"
proof (cases "toplevel_flags AND AVB_VBMETA_IMAGE_FLAGS_HASHTREE_DISABLED = 0")
  case True
  then show ?thesis
    using assms gives_replace_mode [OF assms(1,2,3), of mode resolved]
      gives_replace_mode [of "with_cmdline slot u" u w _ mode AVB_HASHTREE_ERROR_MODE_RESTART_AND_INVALIDATE for u]
    unfolding append_verity_mode_def verity_text_def
    by (cases resolved) (simp_all add: gives_option [OF assms(1,2)] options_cstring)
next
  case False
  then show ?thesis
    using gives_veritymode [OF assms(1,2) options_cstring(15)] by (simp add: append_verity_mode_def verity_text_def)
qed

fun digest_bytes :: "AvbDigestType \<Rightarrow> nat" where
  "digest_bytes AVB_DIGEST_TYPE_SHA256 = AVB_SHA256_DIGEST_SIZE"
| "digest_bytes AVB_DIGEST_TYPE_SHA512 = AVB_SHA512_DIGEST_SIZE"

lemma io_ok_branch:
  "(if AVB_IO_RESULT_OK = AVB_IO_RESULT_ERROR_OOM then x else if AVB_IO_RESULT_OK \<noteq> AVB_IO_RESULT_OK then y else z) = z"
  by simp

lemma algorithm_switch:
  "(\<lambda>slot_data. if algorithm_value a = algorithm_value AVB_ALGORITHM_TYPE_NONE \<or>
       algorithm_value a = algorithm_value AVB_ALGORITHM_TYPE_SHA256_RSA2048 \<or>
       algorithm_value a = algorithm_value AVB_ALGORITHM_TYPE_SHA256_RSA4096 \<or>
       algorithm_value a = algorithm_value AVB_ALGORITHM_TYPE_SHA256_RSA8192
    then append_vbmeta_digest AVB_DIGEST_TYPE_SHA256 (str ''sha256'') AVB_SHA256_DIGEST_SIZE slot_data rest
    else if algorithm_value a = algorithm_value AVB_ALGORITHM_TYPE_SHA512_RSA2048 \<or>
       algorithm_value a = algorithm_value AVB_ALGORITHM_TYPE_SHA512_RSA4096 \<or>
       algorithm_value a = algorithm_value AVB_ALGORITHM_TYPE_SHA512_RSA8192
    then append_vbmeta_digest AVB_DIGEST_TYPE_SHA512 (str ''sha512'') AVB_SHA512_DIGEST_SIZE slot_data rest
    else if algorithm_value a = AVB_ALGORITHM_NUM_TYPES then pure (Fault Abort)
    else rest slot_data) =
   (\<lambda>slot_data. append_vbmeta_digest (digest_type a) (digest_name (digest_type a)) (digest_bytes (digest_type a)) slot_data rest)"
  by (cases a) (simp_all add: digest_type_def)

lemma gives_vbmeta_digest:
  assumes "shows_text slot t" "roomy w s" "images_whole (sd_vbmeta_images slot)"
    and rest: "\<And>s' u. u = with_options t (digest_options d (sd_vbmeta_images slot)) \<Longrightarrow> roomy w s' \<Longrightarrow>
      shows_text (with_cmdline slot u) u \<Longrightarrow> gives (rest (with_cmdline slot u)) s' Q"
  shows "gives (append_vbmeta_digest d (digest_name d) (digest_bytes d) slot rest) s Q"
proof -
  let ?digest = "digest_of d (concat (map image_bytes (sd_vbmeta_images slot)))"
  have d: "avb_slot_verify_data_calculate_vbmeta_digest slot d = Ok ?digest"
    using assms(3) by (intro calculate_vbmeta_digest_value) (simp_all add: images_whole_def)
  have n: "digest_bytes d = length ?digest"
    by (cases d) (simp_all add: sha256_size sha512_size AVB_SHA256_DIGEST_SIZE_def AVB_SHA512_DIGEST_SIZE_def)
  show ?thesis
    unfolding append_vbmeta_digest_def Let_def cmdline_append_uint64_base10_def images_size [OF assms(3)] gives_andthen d gives_basic
    by (rule gives_option [OF assms(1,2)] gives_option gives_hex_option options_cstring cstring_digits n | assumption)+
      (use rest in \<open>simp add: digest_options_def with_options_def\<close>)
qed

text \<open>The whole of \<open>avb_append_options\<close>.\<close>

lemma gives_append_options:
  assumes "shows_text slot t" "roomy w s" "images_whole (sd_vbmeta_images slot)"
    and "read_is_device_unlocked ops = Some f" "f w = Ok ((AVB_IO_RESULT_OK, unlocked), w)"
    and "resolved \<noteq> AVB_HASHTREE_ERROR_MODE_MANAGED_RESTART_AND_EIO"
  shows "gives (avb_append_options ops vflags slot toplevel (algorithm_value a) mode resolved) s
    (options_end w slot (verity_text (with_options t (vbmeta_options vflags unlocked a (sd_vbmeta_images slot)))
       mode resolved (flags toplevel)))"
proof -
  let ?imgs = "sd_vbmeta_images slot"
  let ?done_with = "\<lambda>u. options_end w slot (verity_text u mode resolved (flags toplevel))"
  have verity: "gives (append_verity_mode (with_cmdline slot u) mode resolved (flags toplevel)) s' (?done_with u)"
    if "shows_text (with_cmdline slot u) u" "roomy w s'" for u s'
    using gives_verity_mode [OF that _ assms(6), of mode "flags toplevel"] by simp
  have digest: "gives (append_vbmeta_digest d (digest_name d) (digest_bytes d) (with_cmdline slot u)
        (\<lambda>slot_data. append_verity_mode slot_data mode resolved (flags toplevel))) s'
      (?done_with (with_options u (digest_options d ?imgs)))"
    if "shows_text (with_cmdline slot u) u" "roomy w s'" for u s' d
    using that assms(3) verity by (intro gives_vbmeta_digest) auto
  have asked: "gives (call (read_is_device_unlocked ops) (\<lambda>f. f)) s' P \<longleftrightarrow> P (AVB_IO_RESULT_OK, unlocked) s'" if "roomy w s'" for s' P
    using that assms(4,5) by (intro gives_call_iff [where g = f and arg = "\<lambda>f. f"]) (auto simp: roomy_def)
  have version: "gives (append_version_to_digest ops (algorithm_value a) (slot\<lparr>sd_cmdline := c\<rparr>)
        (\<lambda>slot_data. append_verity_mode slot_data mode resolved (flags toplevel))) s'
      (?done_with (with_options u (state_options unlocked @ digest_options (digest_type a) ?imgs)))"
    if u: "shows_text (slot\<lparr>sd_cmdline := c\<rparr>) u" "roomy w s'" for u s' c
    unfolding append_version_to_digest_def cmdline_append_version_def Let_def version_text
      algorithm_switch
    by (rule gives_option [OF u options_cstring(3,4)], simp only: gives_andthen asked prod.case io_ok_branch,
        rule gives_option [OF _ _ options_cstring(5,6)])
      (cases unlocked; use digest in \<open>simp add: with_options_def state_options_def\<close>)+
  show ?thesis
    unfolding avb_append_options_def Let_def vbmeta_options_def
    using version [of "sd_cmdline slot" t s] version assms(1,2)
    by (auto intro!: gives_option options_cstring simp: with_options_def)
qed

end
