(* ===== verification/Avb_Slot_Accepts.thy ===== *)
theory Avb_Slot_Accepts
  imports Avb_Options Avb_Slot_Sound
begin

text \<open>
  A slot that verifies: on a host that answers, with memory to spare, a vbmeta image without descriptors
  runs through \<open>avb_slot_verify\<close> to the end, and the slot data is known to the last byte.
\<close>

section \<open>The top-level image\<close>

text \<open>The answers of the host that the run needs: it serves \<open>data\<close> as the vbmeta partition.\<close>

definition serves :: "'w AvbOps \<Rightarrow> 'w \<Rightarrow> bytes \<Rightarrow> bytes \<Rightarrow> u64 \<Rightarrow> bool \<Rightarrow> (bytes \<Rightarrow> bytes) \<Rightarrow> bool" where
  "serves ops w suffix data stored unlocked g \<longleftrightarrow>
     (\<exists>f. read_from_partition ops = Some f \<and>
        f (str ''vbmeta'' @ suffix) 0 (of_nat VBMETA_MAX_SIZE) w = Ok ((AVB_IO_RESULT_OK, data, of_nat (length data)), w)) \<and>
     (\<exists>f. read_rollback_index ops = Some f \<and> f 0 w = Ok ((AVB_IO_RESULT_OK, stored), w)) \<and>
     (\<exists>f. read_is_device_unlocked ops = Some f \<and> f w = Ok ((AVB_IO_RESULT_OK, unlocked), w)) \<and>
     validate_vbmeta_public_key ops \<noteq> None \<and> get_size_of_partition ops \<noteq> None \<and> guids_known ops g"

text \<open>The host's answer about the key, where there is one.\<close>

definition key_accepted :: "'w AvbOps \<Rightarrow> 'w \<Rightarrow> bytes \<Rightarrow> pubkey_out \<Rightarrow> bool" where
  "key_accepted ops w buf pk \<longleftrightarrow> (case pk of None \<Rightarrow> True | Some (ofs, len) \<Rightarrow>
     (\<exists>f. validate_vbmeta_public_key ops = Some f \<and>
        f (drop ofs buf) len
          (if vb_md_size buf > 0 then Some (drop (256 + vb_auth_size buf + vb_md_ofs buf) buf) else None)
          (of_nat (vb_md_size buf)) w = Ok ((AVB_IO_RESULT_OK, True), w)))"

lemma part_name_concat_prefix:
  assumes "unat n \<le> length name"
  shows "part_name_concat (name @ r) n suffix = part_name_concat name n suffix"
proof -
  have "avb_str_concat buf sz (name @ r) n t m = avb_str_concat buf sz name n t m" for buf sz t m
    using assms by (auto simp: avb_str_concat_def split: prod.split bool.split)
  then show ?thesis by (simp add: part_name_concat_def)
qed

lemma top_names:
  assumes "cstring suffix" "length suffix \<le> 25"
  shows "look_for_vbmeta_footer (top_args (str ''vbmeta'')) = Ok False"
    and "avb_validate_utf8 (va_partition_name (top_args (str ''vbmeta''))) (unat (va_partition_name_len (top_args (str ''vbmeta'')))) = Ok True"
    and "part_name_concat (va_partition_name (top_args (str ''vbmeta''))) (va_partition_name_len (top_args (str ''vbmeta''))) suffix =
      Ok (Some (str ''vbmeta'' @ suffix))"
    and "cstr (va_partition_name (top_args (str ''vbmeta''))) = Ok (str ''vbmeta'')"
proof -
  have l: "length (str ''vbmeta'') = 6" "cstring (str ''vbmeta'')" by (simp_all add: str_def cstring_def of_char_def)
  show "look_for_vbmeta_footer (top_args (str ''vbmeta'')) = Ok False"
    by (simp add: look_for_vbmeta_footer_def top_args_def str_def lit_def numeral_eq_Suc of_char_def)
  show "avb_validate_utf8 (va_partition_name (top_args (str ''vbmeta''))) (unat (va_partition_name_len (top_args (str ''vbmeta'')))) = Ok True"
    by (simp add: top_args_def avb_validate_utf8_def utf8_loop_accepts str_def of_char_def)
  show "part_name_concat (va_partition_name (top_args (str ''vbmeta''))) (va_partition_name_len (top_args (str ''vbmeta''))) suffix =
      Ok (Some (str ''vbmeta'' @ suffix))"
    using part_name_concat_value [OF l(2) assms(1)] assms(2)
    by (simp add: top_args_def part_name_concat_prefix l(1) AVB_PART_NAME_MAX_SIZE_def)
  show "cstr (va_partition_name (top_args (str ''vbmeta''))) = Ok (str ''vbmeta'')"
    using cstr_terminated [OF l(2)] by (simp add: top_args_def)
qed

text \<open>The entry of the image in the slot, and the outputs with it.\<close>

definition image_entry :: "AvbVBMetaVerifyResult \<Rightarrow> u64 \<Rightarrow> bytes \<Rightarrow> AvbVBMetaData" where
  "image_entry v ptr buf =
     \<lparr>vd_partition_name = Some (str ''vbmeta''), vd_vbmeta_data = (ptr, buf),
      vd_vbmeta_size = of_nat (256 + vb_auth_size buf + vb_aux_size buf), vd_verify_result = v\<rparr>"

definition with_image :: "AvbVBMetaVerifyResult \<Rightarrow> u64 \<Rightarrow> bytes \<Rightarrow> vbmeta_out \<Rightarrow> vbmeta_out" where
  "with_image v ptr buf out =
     out\<lparr>vo_slot_data := (vo_slot_data out)\<lparr>sd_vbmeta_images := [image_entry v ptr buf],
           sd_rollback_indexes := (sd_rollback_indexes (vo_slot_data out))[0 := rollback_index (host_header buf)]\<rparr>,
         vo_algorithm_type := map_option (\<lambda>_. algorithm_type (host_header buf)) (vo_algorithm_type out)\<rparr>"

lemma gives_check_key:
  assumes "\<not> no_vbmeta_partition rq" "sy_world s = w" "key_accepted ops w buf pk" "256 \<le> length buf"
    and "Q (Inr (ret, 0)) s"
  shows "gives (check_public_key ops rq (top_args name) full buf (host_header buf) pk ret) s Q"
proof (cases pk)
  case None
  then show ?thesis using assms(5) by (simp add: check_public_key_def avb_gives top_args_def Let_def)
next
  case (Some p)
  obtain ofs len where p: "pk = Some (ofs, len)" using Some by (cases p) simp
  note V = host_header_values(3,12,13) [OF assms(4)]
  have "0 < public_key_metadata_size (host_header buf) \<longleftrightarrow> vb_md_size buf > 0"
    by (simp add: word_less_nat_alt V)
  moreover have "public_key_metadata_size (host_header buf) = of_nat (vb_md_size buf)"
    by (simp flip: V(3))
  ultimately have md: "(if 0 < public_key_metadata_size (host_header buf)
      then (Some (drop (AVB_VBMETA_IMAGE_HEADER_SIZE + unat (authentication_data_block_size (host_header buf)) +
              unat (public_key_metadata_offset (host_header buf))) buf), public_key_metadata_size (host_header buf))
      else (None, 0)) =
    (if vb_md_size buf > 0 then Some (drop (256 + vb_auth_size buf + vb_md_ofs buf) buf) else None, of_nat (vb_md_size buf))"
    by (simp add: V AVB_VBMETA_IMAGE_HEADER_SIZE_def)
  have main: "is_main_vbmeta rq (top_args name)" using assms(1) by (simp add: is_main_vbmeta_def top_args_def)
  obtain f where f: "validate_vbmeta_public_key ops = Some f"
    "f (drop ofs buf) len (if vb_md_size buf > 0 then Some (drop (256 + vb_auth_size buf + vb_md_ofs buf) buf) else None)
        (of_nat (vb_md_size buf)) w = Ok ((AVB_IO_RESULT_OK, True), w)"
    using assms(3) unfolding key_accepted_def p by auto
  have loc: "va_rollback_index_location (top_args name) = 0" "va_expected_public_key (top_args name) = None"
    by (simp_all add: top_args_def)
  have c: "gives (call (validate_vbmeta_public_key ops) (\<lambda>f. f (drop ofs buf) len
        (if vb_md_size buf > 0 then Some (drop (256 + vb_auth_size buf + vb_md_ofs buf) buf) else None)
        (of_nat (vb_md_size buf)))) s P \<longleftrightarrow> P (AVB_IO_RESULT_OK, True) s" for P
    using f assms(2) by (intro gives_call_iff [where g = f]) simp_all
  show ?thesis
    using assms(1,5) main
    by (simp add: check_public_key_def p loc md Let_def avb_gives c split del: if_split)
qed

text \<open>An image whose descriptor area is empty.\<close>

definition bare :: "u64 \<Rightarrow> bytes \<Rightarrow> nat \<Rightarrow> bool" where
  "bare ptr buf n \<longleftrightarrow> image_ok ptr buf n \<and> flags (host_header buf) AND AVB_VBMETA_IMAGE_FLAGS_VERIFICATION_DISABLED = 0 \<and>
     (let (start, fin) = desc_area buf in start mod 8 = 0 \<and> fin = start \<and> fin \<le> n)"

lemma gives_no_descriptors:
  assumes "bare ptr buf n" "roomy w s" "\<And>s'. roomy w s' \<Longrightarrow> Q (Some ([], 0)) s'"
  shows "gives (heap_act (avb_descriptor_get_all (Some (ptr, buf)) (of_nat n))) s Q"
proof -
  obtain start where d: "desc_area buf = (start, start)" "start mod 8 = 0" "image_ok ptr buf n"
    using assms(1) by (auto simp: bare_def)
  have w: "walk buf start start start = ([], True)" by (subst walk.simps) simp
  obtain a h where h: "avb_malloc 8 (sy_heap s) = (Some a, h)" "malloc_total h"
    using malloc_total_malloc assms(2) unfolding roomy_def by blast
  have "avb_descriptor_get_all (Some (ptr, buf)) (of_nat n) (sy_heap s) = Ok (Some ([], 0), h)"
    using get_all_walk [OF d(3,1,2)] h(1) by (simp add: w avb_calloc_def Let_def)
  then have "heap_act (avb_descriptor_get_all (Some (ptr, buf)) (of_nat n)) s = Ok (Some ([], 0), s\<lparr>sy_heap := h\<rparr>)"
    by (simp add: heap_act_def)
  then show ?thesis
    by (rule givesI) (rule assms(3), rule roomy_heap [OF assms(2) h(2)])
qed

lemma gives_process_bare:
  assumes "bare ptr buf n" "roomy w s" "\<not> no_vbmeta_partition rq"
    and "\<And>s'. roomy w s' \<Longrightarrow> Q (ret, out\<lparr>vo_slot_data := (vo_slot_data out)\<lparr>sd_rollback_indexes :=
        (sd_rollback_indexes (vo_slot_data out))[0 := rollback_index (host_header buf)]\<rparr>,
      vo_algorithm_type := map_option (\<lambda>_. algorithm_type (host_header buf)) (vo_algorithm_type out)\<rparr>) s'"
  shows "gives (process_image rec ops rq (top_args name) (ptr, buf) (of_nat n) (host_header buf) ret out) s Q"
proof -
  have "flags (host_header buf) AND AVB_VBMETA_IMAGE_FLAGS_VERIFICATION_DISABLED = 0"
    using assms(1) by (simp add: bare_def)
  moreover have "va_rollback_index_location (top_args name) = 0" by (simp add: top_args_def)
  ultimately show ?thesis
    unfolding process_image_def gives_andthen
    using assms(4) by (simp add: gives_no_descriptors [OF assms(1,2)] avb_gives AVB_MAX_NUMBER_OF_ROLLBACK_INDEX_LOCATIONS_def)
qed

text \<open>From the bytes read on.\<close>

lemma gives_verify_image:
  assumes V: "avb_vbmeta_image_verify (ptr, buf) (of_nat n) (sy_heap s) = Ok ((v, pk), h)" "malloc_total h"
    and verdict: "vbmeta_verdict (rq_allow_verification_error rq) v = Inr ret"
      "v = AVB_VBMETA_VERIFY_RESULT_OK \<longrightarrow> (\<exists>ofs len. pk = Some (ofs, len) \<and> len > 0)"
    and W: "sy_world s = w" "serves ops w suffix data stored unlocked g" "key_accepted ops w buf pk"
    and R: "stored \<le> rollback_index (host_header buf)" "bare ptr buf n" "\<not> no_vbmeta_partition rq"
    and O: "sd_vbmeta_images (vo_slot_data out) = []"
    and Q: "\<And>s'. roomy w s' \<Longrightarrow> Q (ret, with_image v ptr buf out) s'"
  shows "gives (verify_image rec ops rq (top_args (str ''vbmeta'')) full (ptr, buf) (of_nat n) out) s Q"
proof -
  have l: "256 \<le> length buf" using R(2) by (simp add: bare_def image_ok_def)
  have main: "is_main_vbmeta rq (top_args (str ''vbmeta''))" using R(3) by (simp add: is_main_vbmeta_def top_args_def)
  have v: "heap_act (avb_vbmeta_image_verify (ptr, buf) (of_nat n)) s = Ok ((v, pk), s\<lparr>sy_heap := h\<rparr>)"
    using V(1) by (simp add: heap_act_def)
  have s: "roomy w (s\<lparr>sy_heap := h\<rparr>)" using V(2) W(1) by (simp add: roomy_def)
  obtain src where src: "load_AvbVBMetaImageHeader buf = Ok src" "avb_vbmeta_image_header_to_host_byte_order src = host_header buf"
    using host_header_load [OF l] by blast
  obtain f where f: "read_rollback_index ops = Some f" "f 0 w = Ok ((AVB_IO_RESULT_OK, stored), w)"
    using W(2) by (auto simp: serves_def)
  have rb: "gives (check_rollback_index ops rq (host_header buf) 0 ret) (s\<lparr>sy_heap := h\<rparr>) P"
    if "P (Inr (ret, ())) (s\<lparr>sy_heap := h\<rparr>)" for P
    using that leD [OF R(1)] s f by (simp add: check_rollback_index_def avb_gives gives_call_iff [where g = f] roomy_def)
  note H = host_header_values(3,4) [OF l]
  have "authentication_data_block_size (host_header buf) = of_nat (vb_auth_size buf)"
    "auxiliary_data_block_size (host_header buf) = of_nat (vb_aux_size buf)"
    by (simp_all flip: H)
  then have entry: "record_image (Some (str ''vbmeta'')) (ptr, buf) (host_header buf) v out =
      out\<lparr>vo_slot_data := (vo_slot_data out)\<lparr>sd_vbmeta_images := [image_entry v ptr buf]\<rparr>\<rparr>"
    using O by (simp add: record_image_def image_entry_def AVB_VBMETA_IMAGE_HEADER_SIZE_def algebra_simps)
  have name: "cstr (va_partition_name (top_args (str ''vbmeta''))) = Ok (str ''vbmeta'')" by (rule top_names(4) [of "[]"]) (simp_all add: cstring_def)
  have tail: "gives (process_image rec ops rq (top_args (str ''vbmeta'')) (ptr, buf) (of_nat n) (host_header buf) ret
      (record_image (Some (str ''vbmeta'')) (ptr, buf) (host_header buf) v out)) s' Q" if "roomy w s'" for s'
    using Q by (intro gives_process_bare [OF R(2) that R(3)]) (simp add: entry with_image_def)
  have dup: "gives (alloc (avb_strdup (str ''vbmeta''))) (s\<lparr>sy_heap := h\<rparr>) P" if "\<And>s'. roomy w s' \<Longrightarrow> P (Some (str ''vbmeta'')) s'" for P
    by (rule gives_strdup, rule s, rule that)
  have rest: "gives (check_rollback_index ops rq (host_header buf) 0 ret) (s\<lparr>sy_heap := h\<rparr>) (\<lambda>r t. gives (case r of
        Inl e \<Rightarrow> retn (e, out) | Inr (ret, _) \<Rightarrow>
     asserting (sd_vbmeta_images (vo_slot_data out) = [])
     (if length (sd_vbmeta_images (vo_slot_data out)) = MAX_NUMBER_OF_VBMETA_IMAGES
      then retn (AVB_SLOT_VERIFY_RESULT_ERROR_OOM, out)
      else andthen (pure (Ok (str ''vbmeta''))) (\<lambda>partition_name.
      andthen (alloc (avb_strdup partition_name)) (\<lambda>name.
      process_image rec ops rq (top_args (str ''vbmeta'')) (ptr, buf) (of_nat n) (host_header buf) ret
        (record_image name (ptr, buf) (host_header buf) v out))))) t Q)"
    by (rule rb) (use O in \<open>simp add: avb_gives MAX_NUMBER_OF_VBMETA_IMAGES_def dup tail\<close>)
  have key: "gives (check_public_key ops rq (top_args (str ''vbmeta'')) full buf (host_header buf) pk ret) (s\<lparr>sy_heap := h\<rparr>)
      (\<lambda>r t. gives (case r of Inl e \<Rightarrow> retn (e, out) | Inr (ret, location) \<Rightarrow>
        andthen (check_rollback_index ops rq (host_header buf) location ret) (\<lambda>r. case r of
            Inl e \<Rightarrow> retn (e, out) | Inr (ret, _) \<Rightarrow>
         asserting (sd_vbmeta_images (vo_slot_data out) = [])
         (if length (sd_vbmeta_images (vo_slot_data out)) = MAX_NUMBER_OF_VBMETA_IMAGES
          then retn (AVB_SLOT_VERIFY_RESULT_ERROR_OOM, out)
          else andthen (pure (Ok (str ''vbmeta''))) (\<lambda>partition_name.
          andthen (alloc (avb_strdup partition_name)) (\<lambda>name.
          process_image rec ops rq (top_args (str ''vbmeta'')) (ptr, buf) (of_nat n) (host_header buf) ret
            (record_image name (ptr, buf) (host_header buf) v out)))))) t Q)"
    by (rule gives_check_key [OF R(3) _ W(3) l]) (use rest W(1) in \<open>simp_all add: gives_andthen\<close>)
  have asserted: "asserting (v = AVB_VBMETA_VERIFY_RESULT_OK \<longrightarrow> (case pk of None \<Rightarrow> False | Some (_, pk_len) \<Rightarrow> pk_len > 0)) m = m" for m :: "('b, 'a) act"
    using verdict(2) by (auto simp: asserting_def avb_assert_def fun_eq_iff)
  have allowed: "(\<not> True \<and> b) = False" for b by simp
  show ?thesis
    unfolding verify_image_def gives_andthen [of "heap_act _"]
    by (rule givesI, rule v) (use key in \<open>simp only: prod.case asserted verdict(1) sum.case snd_conv
        gives_andthen [of "pure _"] src gives_basic Let_def allowed if_False gives_andthen [of "check_public_key _ _ _ _ _ _ _ _"]
        name main if_True\<close>)
qed

text \<open>The whole call for the vbmeta partition, from the allocation of the buffer on.\<close>

lemma gives_vbmeta_partition:
  assumes M: "avb_malloc_obj VBMETA_MAX_SIZE (sy_heap s) = (Some (ptr, junk), h1)"
    and V: "avb_vbmeta_image_verify (ptr, data @ drop (length data) junk) (of_nat (length data)) h1 = Ok ((v, pk), h)" "malloc_total h"
    and verdict: "vbmeta_verdict (rq_allow_verification_error rq) v = Inr ret"
      "v = AVB_VBMETA_VERIFY_RESULT_OK \<longrightarrow> (\<exists>ofs len. pk = Some (ofs, len) \<and> len > 0)"
    and W: "sy_world s = w" "serves ops w (rq_ab_suffix rq) data stored unlocked g"
      "key_accepted ops w (data @ drop (length data) junk) pk"
    and R: "stored \<le> rollback_index (host_header (data @ drop (length data) junk))"
      "bare ptr (data @ drop (length data) junk) (length data)" "\<not> no_vbmeta_partition rq"
    and O: "sd_vbmeta_images (vo_slot_data out) = []"
    and N: "cstring (rq_ab_suffix rq)" "length (rq_ab_suffix rq) \<le> 25" "length data \<le> VBMETA_MAX_SIZE"
    and Q: "\<And>s'. roomy w s' \<Longrightarrow> Q (ret, with_image v ptr (data @ drop (length data) junk) out) s'"
  shows "gives (load_and_verify_vbmeta_with rec ops rq (top_args (str ''vbmeta'')) out) s Q"
proof -
  let ?s = "s\<lparr>sy_heap := h1\<rparr>" and ?full = "str ''vbmeta'' @ rq_ab_suffix rq"
  have z: "unat (of_nat VBMETA_MAX_SIZE :: u64) = VBMETA_MAX_SIZE" "VBMETA_MAX_SIZE < 2 ^ 64"
    by (simp_all add: VBMETA_MAX_SIZE_def)
  have junk: "length junk = VBMETA_MAX_SIZE"
    using M by (auto simp: avb_malloc_obj_def Let_def split: option.splits prod.splits)
  obtain f where f: "read_from_partition ops = Some f"
    "f ?full 0 (of_nat VBMETA_MAX_SIZE) w = Ok ((AVB_IO_RESULT_OK, data, of_nat (length data)), w)"
    using W(2) by (auto simp: serves_def)
  have c: "gives (call (read_from_partition ops) (\<lambda>f. f ?full (sint (0 :: u64)) (of_nat VBMETA_MAX_SIZE))) ?s P \<longleftrightarrow>
      P (AVB_IO_RESULT_OK, data, of_nat (length data)) ?s" for P
    using f W(1) by (intro gives_call_iff [where g = f]) simp_all
  have a: "gives (alloc (avb_malloc_obj VBMETA_MAX_SIZE)) s P \<longleftrightarrow> P (Some (ptr, junk)) ?s" for P
    using M by (simp add: gives_alloc_iff)
  have filled: "filled junk data = Ok (data @ drop (length data) junk)"
    using junk N(3) by (simp add: filled_def)
  have num: "(of_nat (length data) :: u64) \<le> of_nat VBMETA_MAX_SIZE"
    using N(3) z by (simp add: word_le_nat_alt unsigned_of_nat take_bit_nat_eq_self)
  have verify: "gives (verify_image rec ops rq (top_args (str ''vbmeta'')) ?full (ptr, data @ drop (length data) junk)
      (of_nat (length data)) out) ?s Q"
    by (rule gives_verify_image [OF _ V(2) verdict _ W(2,3) R O]) (use V W Q in simp_all)
  show ?thesis
    unfolding load_and_verify_vbmeta_with_def top_names [OF N(1,2)] gives_andthen
    by (simp add: avb_gives z a c [simplified] filled num verify)
qed

section \<open>The slot\<close>

text \<open>The kernel command line a slot with one image ends up with.\<close>

definition accepted_cmdline ::
    "slot_request \<Rightarrow> bool \<Rightarrow> AvbAlgorithmType \<Rightarrow> AvbHashtreeErrorMode \<Rightarrow> (bytes \<Rightarrow> bytes) \<Rightarrow> AvbVBMetaData list \<Rightarrow> u32 \<Rightarrow> bytes" where
  "accepted_cmdline rq unlocked a mode g imgs toplevel_flags =
     (let t = verity_text (with_options [] (vbmeta_options (rq_flags rq) unlocked a imgs)) mode mode toplevel_flags
      in guid_text g t (rq_ab_suffix rq) t (sub_cmdline_guids False))"

lemma verity_text_nonempty: "verity_text t mode resolved fl \<noteq> []"
proof -
  have "with_options u os \<noteq> []" if "u \<noteq> []" for u os
    using that by (induction os arbitrary: u) (auto simp: with_options_def with_option_def)
  moreover have "with_option u k v \<noteq> []" for u k v by (simp add: with_option_def)
  ultimately show ?thesis unfolding verity_text_def by simp
qed

lemma gives_finish_slot:
  assumes O: "sd_vbmeta_images (vo_slot_data out) = [image_entry v ptr buf]" "sd_cmdline (vo_slot_data out) = None"
      "vo_algorithm_type out = Some (algorithm_value a)" "vo_cmdline_subst out = Some []"
    and B: "256 \<le> length buf" "flags (host_header buf) AND AVB_VBMETA_IMAGE_FLAGS_VERIFICATION_DISABLED = 0"
      "images_whole [image_entry v ptr buf]"
    and S: "roomy w s" "serves ops w suffix data stored unlocked g"
    and R: "\<not> no_vbmeta_partition rq" "cstring (rq_ab_suffix rq)" "length (rq_ab_suffix rq) \<le> 25"
      "rq_allow_verification_error rq \<or> ret = AVB_SLOT_VERIFY_RESULT_OK"
    and mode: "mode \<noteq> AVB_HASHTREE_ERROR_MODE_MANAGED_RESTART_AND_EIO"
  shows "gives (finish_slot ops rq mode ret out) s (\<lambda>(r, slot) _. r = ret \<and> slot = Some ((vo_slot_data out)\<lparr>
    sd_ab_suffix := Some (rq_ab_suffix rq), sd_resolved_hashtree_error_mode := mode,
    sd_cmdline := Some (accepted_cmdline rq unlocked a mode g [image_entry v ptr buf] (flags (host_header buf)) @ [0])\<rparr>))"
proof -
  obtain src where src: "load_AvbVBMetaImageHeader buf = Ok src" "avb_vbmeta_image_header_to_host_byte_order src = host_header buf"
    using host_header_load [OF B(1)] by blast
  have name: "vd_partition_name (image_entry v ptr buf) = Some (str ''vbmeta'')" "vd_vbmeta_data (image_entry v ptr buf) = (ptr, buf)"
    by (simp_all add: image_entry_def)
  have cmp: "avb_strcmp (str ''vbmeta'' @ [0]) (lit ''vbmeta'') = Ok 0" by (simp add: str_def lit_def of_char_def)
  obtain f where f: "read_is_device_unlocked ops = Some f" "f w = Ok ((AVB_IO_RESULT_OK, unlocked), w)"
    using S(2) by (auto simp: serves_def)
  let ?slot = "(vo_slot_data out)\<lparr>sd_ab_suffix := Some (rq_ab_suffix rq), sd_resolved_hashtree_error_mode := mode\<rparr>"
  let ?t = "verity_text (with_options [] (vbmeta_options (rq_flags rq) unlocked a [image_entry v ptr buf])) mode mode (flags (host_header buf))"
  have complete: "gives (complete_cmdline ops rq mode (host_header buf) (algorithm_value a)
      ((vo_slot_data out)\<lparr>sd_ab_suffix := Some (rq_ab_suffix rq)\<rparr>)) s' (\<lambda>r t. r = Inr (with_cmdline ?slot ?t) \<and> cstring ?t \<and> roomy w t)"
    if "roomy w s'" for s'
  proof -
    have "shows_text ?slot []" using O(2) by (simp add: shows_text_def cmdline_ended_def cmdline_text_def cstring_def)
    moreover have "sd_vbmeta_images ?slot = [image_entry v ptr buf]" using O(1) by simp
    ultimately have "gives (avb_append_options ops (rq_flags rq) ?slot (host_header buf) (algorithm_value a) mode mode) s'
        (options_end w ?slot ?t)"
      using gives_append_options [of ?slot "[]" w s' ops f unlocked mode "rq_flags rq" "host_header buf" a mode] that f B(3) mode by simp
    then show ?thesis
      using B(2) mode by (auto simp: complete_cmdline_def avb_gives io_error_def elim!: gives_mono)
  qed
  have substitute: "gives (substitute_cmdline ops rq False (Some []) (with_cmdline ?slot ?t)) s' (\<lambda>r _. r = Inr (with_cmdline ?slot
      (accepted_cmdline rq unlocked a mode g [image_entry v ptr buf] (flags (host_header buf)))))" if w: "roomy w s'" and t: "cstring ?t" for s'
  proof -
    have g: "guids_known ops g" using S(2) by (simp add: serves_def)
    obtain t where "avb_sub_cmdline ops ?t (rq_ab_suffix rq) False (Some []) s' =
        Ok (Some (guid_text g ?t (rq_ab_suffix rq) ?t (sub_cmdline_guids False)), t)"
      using sub_cmdline_text [OF g _ t R(2,3), of s' "[]" False] w by (auto simp: roomy_def token_text_def)
    moreover have "cstr (?t @ [0]) = Ok ?t" using cstr_terminated [OF t] by simp
    ultimately show ?thesis
      by (auto simp: substitute_cmdline_def avb_gives verity_text_nonempty accepted_cmdline_def Let_def intro: givesI)
  qed
  have suffix: "gives (alloc (avb_strdup (rq_ab_suffix rq))) s P" if "\<And>s'. roomy w s' \<Longrightarrow> P (Some (rq_ab_suffix rq)) s'" for P
    by (rule gives_strdup, rule S(1), rule that)
  have checked: "asserting (rq_allow_verification_error rq \<or> ret = AVB_SLOT_VERIFY_RESULT_OK) m = m" for m :: "('b, 'a) act"
    using R(4) by (simp add: asserting_def avb_assert_def fun_eq_iff)
  show ?thesis
    unfolding finish_slot_def Let_def gives_andthen O list.case if_not_P [OF R(1)] name deref_simps cmp bnd_simps list.sel
    using R(1)
    by (auto simp: avb_gives src checked intro!: suffix gives_mono [OF complete] gives_mono [OF substitute])
qed

definition accepted_slot ::
    "bytes \<Rightarrow> u32 \<Rightarrow> bool \<Rightarrow> AvbAlgorithmType \<Rightarrow> AvbHashtreeErrorMode \<Rightarrow> (bytes \<Rightarrow> bytes) \<Rightarrow> AvbVBMetaVerifyResult \<Rightarrow> u64 \<Rightarrow> bytes \<Rightarrow>
     AvbSlotVerifyData" where
  "accepted_slot suffix vflags unlocked a mode g v ptr buf =
     \<lparr>sd_ab_suffix = Some suffix, sd_vbmeta_images = [image_entry v ptr buf], sd_loaded_partitions = [],
      sd_cmdline = Some (accepted_cmdline (request None suffix vflags) unlocked a mode g [image_entry v ptr buf]
        (flags (host_header buf)) @ [0]),
      sd_rollback_indexes = (replicate AVB_MAX_NUMBER_OF_ROLLBACK_INDEX_LOCATIONS 0)[0 := rollback_index (host_header buf)],
      sd_resolved_hashtree_error_mode = mode\<rparr>"

text \<open>
  \<open>avb_slot_verify\<close> on such a host: four allocations, then the buffer, then the verification of the image.
\<close>

lemma slot_verify_bare:
  assumes H: "\<And>k n. k < 4 \<Longrightarrow> hp_alloc (sy_heap s) (hp_calls (sy_heap s) + k) n \<noteq> None"
    and M: "avb_malloc_obj VBMETA_MAX_SIZE ((sy_heap s)\<lparr>hp_calls := hp_calls (sy_heap s) + 4\<rparr>) = (Some (ptr, junk), h1)"
    and V: "avb_vbmeta_image_verify (ptr, data @ drop (length data) junk) (of_nat (length data)) h1 = Ok ((v, pk), h)" "malloc_total h"
    and verdict: "vbmeta_verdict (rq_allow_verification_error (request parts suffix vf)) v = Inr ret"
      "v = AVB_VBMETA_VERIFY_RESULT_OK \<longrightarrow> (\<exists>ofs len. pk = Some (ofs, len) \<and> len > 0)"
    and W: "serves ops (sy_world s) suffix data stored unlocked g"
      "key_accepted ops (sy_world s) (data @ drop (length data) junk) pk"
    and R: "stored \<le> rollback_index (host_header (data @ drop (length data) junk))"
      "bare ptr (data @ drop (length data) junk) (length data)" "\<not> no_vbmeta_partition (request parts suffix vf)"
      "images_whole [image_entry v ptr (data @ drop (length data) junk)]"
      "algorithm_type (host_header (data @ drop (length data) junk)) = algorithm_value a"
    and N: "cstring suffix" "length suffix \<le> 25" "length data \<le> VBMETA_MAX_SIZE"
    and mode: "mode \<notin> {AVB_HASHTREE_ERROR_MODE_MANAGED_RESTART_AND_EIO, AVB_HASHTREE_ERROR_MODE_LOGGING}"
  shows "\<exists>s'. avb_slot_verify ops parts suffix vf mode s =
    Ok ((ret, Some (accepted_slot suffix vf unlocked a mode g v ptr (data @ drop (length data) junk))), s')"
proof -
  let ?rq = "request parts suffix vf" and ?buf = "data @ drop (length data) junk" and ?h = "sy_heap s"
  define S where "S k = s\<lparr>sy_heap := ?h\<lparr>hp_calls := hp_calls ?h + k\<rparr>\<rparr>" for k
  have calloc: "gives (alloc (avb_calloc n)) (S k) Q \<longleftrightarrow> Q (Some (the (hp_alloc ?h (hp_calls ?h + k) n), replicate n 0)) (S (Suc k))"
      "gives (alloc avb_new_cmdline_subst_list) (S k) R \<longleftrightarrow> R (Some []) (S (Suc k))"
    if "k < 4" for n k Q R
    using H [OF that, of n] H [OF that, of "8 + 2 * 8 * AVB_MAX_NUM_CMDLINE_SUBST"]
    by (auto simp: gives_alloc_iff avb_calloc_def avb_malloc_def avb_new_cmdline_subst_list_def S_def)
  have S4: "sy_world (S 4) = sy_world s" "sy_heap (S 4) = ?h\<lparr>hp_calls := hp_calls ?h + 4\<rparr>" "S 0 = s"
    by (simp_all add: S_def)
  let ?out = "empty_out (Some [])"
  have four: "S (Suc (Suc (Suc (Suc 0)))) = S 4" by (simp add: eval_nat_numeral)
  have ops: "read_is_device_unlocked ops \<noteq> None" "read_from_partition ops \<noteq> None" "get_size_of_partition ops \<noteq> None"
      "read_rollback_index ops \<noteq> None" "get_unique_guid_for_partition ops \<noteq> None" "validate_vbmeta_public_key ops \<noteq> None"
    using W(1) by (auto simp: serves_def guids_known_def)
  have continue: "(rq_allow_verification_error ?rq \<or> ret = AVB_SLOT_VERIFY_RESULT_OK) \<and> result_should_continue ret"
    using verdict(1) by (cases v) (auto simp: vbmeta_verdict_def split: if_splits)
  have images: "gives (verify_images ops ?rq ?out) (S 4) P"
    if "\<And>s'. roomy (sy_world s) s' \<Longrightarrow> P (ret, with_image v ptr ?buf ?out) s'" for P
  proof -
    have "gives (load_and_verify_vbmeta_with (load_and_verify_vbmeta 2 ops ?rq) ops ?rq (top_args (str ''vbmeta'')) ?out) (S 4) P"
      by (rule gives_vbmeta_partition [OF _ V verdict _ _ W(2) R(1,2,3)]) (use M W N that in \<open>simp_all add: S4\<close>)
    then show ?thesis using R(3) by (simp add: verify_images_def VBMETA_DEPTH_def eval_nat_numeral)
  qed
  have finish: "gives (finish_slot ops ?rq mode ret (with_image v ptr ?buf ?out)) s'
      (\<lambda>r _. r = (ret, Some (accepted_slot suffix vf unlocked a mode g v ptr ?buf)))" if "roomy (sy_world s) s'" for s'
  proof (rule gives_mono [OF gives_finish_slot])
    show "256 \<le> length ?buf" "flags (host_header ?buf) AND AVB_VBMETA_IMAGE_FLAGS_VERIFICATION_DISABLED = 0"
      using R(2) by (auto simp: bare_def image_ok_def)
  qed (use that W R N continue mode in \<open>auto simp: with_image_def empty_out_def accepted_slot_def accepted_cmdline_def\<close>)
  have "gives (avb_slot_verify ops parts suffix vf mode) (S 0)
      (\<lambda>r _. r = (ret, Some (accepted_slot suffix vf unlocked a mode g v ptr ?buf)))"
    unfolding avb_slot_verify_def Let_def request_def [symmetric] empty_out_def [symmetric]
    using ops R(3) mode continue
    by (simp add: avb_gives calloc four images finish)
  then show ?thesis by (auto simp: gives_def S4)
qed

end
