(* ===== verification/Avb_Examples.thy ===== *)
theory Avb_Examples
  imports Avb_Verifier Avb_Slot_Accepts
begin

text \<open>
  Concrete inputs: a key, heaps, a signed image and its forgery, and a working directory; and what the
  program makes of them.
\<close>

section \<open>Definitions\<close>

text \<open>
  A heap on which only the allocation number \<open>k\<close> fails; a key with modulus \<open>2 ^ 2048 - 1\<close>, for which
  \<open>n0inv\<close> and \<open>rr\<close> are both one; and a header for SHA256_RSA2048 without descriptors.
\<close>

definition demo_heap :: heap where
  "demo_heap = \<lparr>hp_alloc = \<lambda>k n. Some 4096, hp_junk = \<lambda>k i. 0, hp_calls = 0\<rparr>"

definition oom_heap :: "nat \<Rightarrow> heap" where
  "oom_heap k = \<lparr>hp_alloc = \<lambda>i n. if i = k then None else Some 4096, hp_junk = \<lambda>k i. 0, hp_calls = 0\<rparr>"

definition demo_key :: bytes where
  "demo_key = [0, 0, 8, 0, 0, 0, 0, 1] @ replicate 256 0xff @ replicate 255 0 @ [1]"

definition demo_header :: bytes where
  "demo_header = AVB_MAGIC @ be_bytes 4 (1 :: u32) @ be_bytes 4 (0 :: u32) @ be_bytes 8 (320 :: u64) @
     be_bytes 8 (576 :: u64) @ be_bytes 4 (1 :: u32) @ be_bytes 8 (0 :: u64) @ be_bytes 8 (32 :: u64) @
     be_bytes 8 (32 :: u64) @ be_bytes 8 (256 :: u64) @ be_bytes 8 (0 :: u64) @ be_bytes 8 (520 :: u64) @
     replicate 176 0"

text \<open>An image of 1152 bytes: header, authentication block (hash, signature), auxiliary block (key).\<close>

definition image_of :: "bytes \<Rightarrow> bytes \<Rightarrow> bytes \<Rightarrow> bytes" where
  "image_of key h sig = demo_header @ (h @ sig @ replicate 32 0) @ key @ replicate 56 0"

definition demo_image :: bytes where
  "demo_image = image_of demo_key (replicate 32 0) (replicate 256 0)"

text \<open>For any key: the digest in its place and, where the signature belongs, the padded digest itself.\<close>

definition forged :: "bytes \<Rightarrow> bytes" where
  "forged key = (let h = sha256 (demo_header @ key @ replicate 56 0) in image_of key h (emsa_prefix 256 32 @ h))"

text \<open>A directory with a key, a locked device and one image; and an environment without variables.\<close>

definition demo_world :: "bytes \<Rightarrow> bytes \<Rightarrow> cfig_world" where
  "demo_world key img =
     \<lparr>fs_files = [(pubkeyFile, key), (lockStatusFile, str ''1'' @ [0x0A]), (str ''config/rollbackIndex_0'', str ''0'' @ [0x0A]),
        (str ''config/rollbackIndex_1'', str ''0'' @ [0x0A]), (str ''vbmeta.img'', img)],
      fs_dirs = [str ''.'', str ''config''], fs_readable = \<lambda>_. True, fs_writable = \<lambda>_. True,
      validPartitions = {}, preloaded_partitions = [], expected_public_key = [], expected_public_key_metadata = []\<rparr>"

definition demo_env :: verifier_env where
  "demo_env = \<lparr>env_preloads = None, env_requests = None, env_suffix = None\<rparr>"

section \<open>The images\<close>

lemma demo_heap_total: "malloc_total demo_heap"
  by (simp add: malloc_total_def demo_heap_def)

lemma be_nat_ff: "be_nat (replicate k 0xff) + 1 = 256 ^ k"
  by (induction k) (simp_all add: be_nat_Cons)

lemma be_nat_zeros: "be_nat (replicate k 0) = 0"
  by (simp add: be_nat_eq_0)

lemma be_nat_values:
  "be_nat [0, 0, 8, 0] = 2048" "be_nat [0, 0, 0, 1] = 1"
  by (simp_all add: be_nat_def)

lemma demo_key_parts:
  "length demo_key = 520" "pk_bits demo_key = 2048" "pk_n0inv demo_key = 1"
  "pk_modulus demo_key = be_nat (replicate 256 0xff)" "pk_rr demo_key = 1"
proof -
  show "length demo_key = 520" by (simp add: demo_key_def)
  show b: "pk_bits demo_key = 2048" by (simp add: demo_key_def pk_bits_def be_nat_values)
  show "pk_n0inv demo_key = 1" by (simp add: demo_key_def pk_n0inv_def be_nat_values)
  show "pk_modulus demo_key = be_nat (replicate 256 0xff)"
    unfolding pk_modulus_def b by (simp add: demo_key_def)
  show "pk_rr demo_key = 1"
    unfolding pk_rr_def b by (simp add: demo_key_def be_nat_append be_nat_zeros be_nat_Cons)
qed

lemma demo_key_ok: "pubkey_ok demo_key"
proof -
  define N where "N = be_nat (replicate 256 0xff)"
  have "(256 :: nat) ^ 256 = 2 ^ 2048"
  proof -
    have "(2 :: nat) ^ 2048 = (2 ^ 8) ^ 256" unfolding power_mult [symmetric] by simp
    then show ?thesis by simp
  qed
  then have N: "N + 1 = 2 ^ 2048" using be_nat_ff [of 256] by (simp only: N_def)
  have big: "(2 :: nat) ^ 1 < 2 ^ 2048" by (rule power_strict_increasing) simp_all
  have "(1 * N + 1) mod 2 ^ 32 = 0"
  proof -
    have "(2 :: nat) ^ 2048 = 2 ^ 32 * 2 ^ 2016" unfolding power_add [symmetric] by simp
    then show ?thesis unfolding mult_1 N by (simp only: mod_mult_self1_is_0)
  qed
  moreover have "1 mod N = (2 ^ 2048) ^ 2 mod N"
  proof -
    have "(N + 1) ^ 2 = 1 + (N + 2) * N" by (simp add: power2_eq_square algebra_simps)
    then show ?thesis unfolding N [symmetric] by (simp only: mod_mult_self1)
  qed
  moreover have "2 ^ 2048 \<le> 2 * N"
  proof -
    have "2 < N + 1" using big unfolding N by simp
    then show ?thesis unfolding N [symmetric] by simp
  qed
  moreover have "(2048 :: nat) \<in> {2048, 4096, 8192}" "length demo_key = 8 + 2 * (2048 div 8)"
    using demo_key_parts(1) by simp_all
  ultimately show ?thesis
    unfolding pubkey_ok_def demo_key_parts(2-5) N_def [symmetric] by blast
qed

lemma demo_header_length: "length demo_header = 256"
  by (simp add: demo_header_def AVB_MAGIC_def str_def)

lemma demo_fields:
  "f32 (demo_header @ r) 4 = 1" "f32 (demo_header @ r) 8 = 0" "vb_auth_size (demo_header @ r) = 320"
  "vb_aux_size (demo_header @ r) = 576" "vb_algorithm (demo_header @ r) = 1" "vb_hash_ofs (demo_header @ r) = 0"
  "vb_hash_size (demo_header @ r) = 32" "vb_sig_ofs (demo_header @ r) = 32" "vb_sig_size (demo_header @ r) = 256"
  "vb_key_ofs (demo_header @ r) = 0" "vb_key_size (demo_header @ r) = 520" "vb_md_ofs (demo_header @ r) = 0"
  "vb_md_size (demo_header @ r) = 0"
  by (simp_all add: demo_header_def f32_def f64_def AVB_MAGIC_def str_def be_nat_be_bytes be_nat_zeros)

lemma demo_header_ok:
  "take 4 (demo_header @ r) = AVB_MAGIC" "vb_version_ok (demo_header @ r)" "vb_structure (demo_header @ r) 1152"
proof -
  show "take 4 (demo_header @ r) = AVB_MAGIC"
    by (simp add: demo_header_def AVB_MAGIC_def str_def)
  show "vb_version_ok (demo_header @ r)"
    by (simp add: vb_version_ok_def demo_fields)
  have "(demo_header @ r) ! 175 = 0"
    by (simp add: demo_header_def AVB_MAGIC_def str_def nth_append)
  then show "vb_structure (demo_header @ r) 1152"
    by (simp add: vb_structure_def demo_fields)
qed

text \<open>The parts of any such image, whatever follows it in memory.\<close>

lemma image_parts:
  fixes h sig key r :: bytes
  assumes "length h = 32" "length sig = 256" "length key = 520"
  defines "d \<equiv> image_of key h sig @ r"
  shows "length d = 1152 + length r" "vb_hash d = h" "vb_signature d = sig" "vb_public_key d = key"
    "vb_signed_data d = demo_header @ key @ replicate 56 0"
    "take 4 d = AVB_MAGIC" "vb_version_ok d" "vb_structure d 1152"
  using assms(1-3)
  unfolding d_def vb_hash_def vb_signature_def vb_public_key_def vb_signed_data_def image_of_def append_assoc demo_fields
  using demo_header_ok(1) [of "[]"] by (simp_all add: demo_header_length demo_header_ok)

lemma demo_sizes:
  "length (sha256 m) = 32" "length (emsa_prefix 256 32) = 224"
  "algorithm_hash_bytes AVB_ALGORITHM_TYPE_SHA256_RSA2048 = 32" "algorithm_rsa_bytes AVB_ALGORITHM_TYPE_SHA256_RSA2048 = 256"
  by (simp_all add: sha256_size crypto_sizes emsa_prefix_def digest_info_prefix_def)

lemma forged_parts:
  fixes key r :: bytes
  assumes "length key = 520"
  defines "d \<equiv> forged key @ r"
  shows "length d = 1152 + length r" "vb_public_key d = key" "vb_hash d = sha256 (vb_signed_data d)"
    "vb_signature d = emsa_prefix 256 32 @ vb_hash d" "take 4 d = AVB_MAGIC" "vb_version_ok d" "vb_structure d 1152"
  using image_parts [of "sha256 (demo_header @ key @ replicate 56 0)"
      "emsa_prefix 256 32 @ sha256 (demo_header @ key @ replicate 56 0)" key, where r = r] assms(1)
  unfolding d_def forged_def Let_def by (simp_all add: demo_sizes)

lemma forged_header:
  obtains t where "forged key @ r = demo_header @ t"
  by (simp add: forged_def image_of_def Let_def)

lemma demo_image_parts:
  "length demo_image = 1152" "take 4 demo_image = AVB_MAGIC" "vb_version_ok demo_image" "vb_structure demo_image 1152"
  "vb_public_key demo_image = demo_key" "vb_algorithm demo_image = 1"
proof -
  have l: "length (replicate 32 (0 :: u8)) = 32" "length (replicate 256 (0 :: u8)) = 256" by simp_all
  note P = image_parts [OF l demo_key_parts(1), where r = "[]"]
  show "length demo_image = 1152" "take 4 demo_image = AVB_MAGIC" "vb_version_ok demo_image" "vb_structure demo_image 1152"
    "vb_public_key demo_image = demo_key"
    using P by (simp_all add: demo_image_def)
  show "vb_algorithm demo_image = 1" unfolding demo_image_def image_of_def by (rule demo_fields)
qed

text \<open>The verification of the forged image when the third of its allocations fails.\<close>

lemma forged_verdict:
  assumes K: "pubkey_ok key" "pk_bits key = 2048"
    and H: "\<And>sz. hp_alloc h (hp_calls h) sz \<noteq> None" "\<And>sz. hp_alloc h (Suc (hp_calls h)) sz \<noteq> None"
      "\<And>sz. hp_alloc h (Suc (Suc (hp_calls h))) sz = None"
    and P: "unat ptr + 1152 < 2 ^ 64"
  shows "avb_vbmeta_image_verify (ptr, forged key @ r) (of_nat 1152) h =
    Ok ((AVB_VBMETA_VERIFY_RESULT_OK, Some (576, 520)), h\<lparr>hp_calls := hp_calls h + 5\<rparr>)"
proof -
  let ?d = "forged key @ r" and ?a = AVB_ALGORITHM_TYPE_SHA256_RSA2048
  have k: "length key = 520" using pubkey_bits(2) [OF K(1)] K(2) by simp
  note D = forged_parts [OF k, where r = r]
  obtain t where t: "?d = demo_header @ t" by (rule forged_header)
  note F = demo_fields [of t, folded t]
  have l: "1152 \<le> length ?d" "length (vb_hash ?d) = 32" using D(1,3) by (simp_all add: demo_sizes)
  have parts: "take 520 (drop 576 ?d) = key" "take 256 (drop 288 ?d) = emsa_prefix 256 32 @ vb_hash ?d"
    "take 32 (drop 256 ?d) = vb_hash ?d"
    using D(2) [unfolded vb_public_key_def F] D(4) [unfolded vb_signature_def F] vb_hash_def [of ?d, unfolded F] by simp_all
  have "vb_rsa_call ?a ?d h = Ok (True, h\<lparr>hp_calls := hp_calls h + 5\<rparr>)"
    unfolding vb_rsa_call_def F demo_sizes(3,4)
    by (rule rsa_verify_oom) (use parts l K H in \<open>simp_all add: demo_sizes\<close>)
  then show ?thesis
    using check_signed_run [of 1152 ?d ?a h] verify_cases [of 1152 ?d ptr h] F D l P
    by (simp add: algorithm_digest_def demo_sizes crypto_sizes)
qed

section \<open>The program on the directory\<close>

lemma append_suffix_iff: "(\<exists>r. s = r @ t) \<longleftrightarrow> length t \<le> length s \<and> drop (length s - length t) s = t"
proof
  assume "length t \<le> length s \<and> drop (length s - length t) s = t"
  then have "s = take (length s - length t) s @ t" by (metis append_take_drop_id)
  then show "\<exists>r. s = r @ t" by blast
qed auto

lemmas text_simps = str_def of_char_def lockStatusFile_def pubkeyFile_def

definition built_world :: "bytes \<Rightarrow> bytes \<Rightarrow> cfig_world" where
  "built_world key img = (demo_world key img)\<lparr>fs_files := fs_files (demo_world key img) @ [(str ''out.key'', key)],
     validPartitions := {str ''vbmeta.img''}, expected_public_key := key\<rparr>"

lemma demo_files:
  "file_of (demo_world key img) pubkeyFile = Some key"
  "fileExists (built_world key img) (str ''config'')" "fileExists (built_world key img) lockStatusFile"
  "fileExists (built_world key img) (str ''config/rollbackIndex_0'')" "fileExists (built_world key img) (str ''config/rollbackIndex_1'')"
  "file_of (built_world key img) lockStatusFile = Some (str ''1'' @ [0x0A])"
  "file_of (built_world key img) (str ''config/rollbackIndex_0'') = Some (str ''0'' @ [0x0A])"
  "file_of (built_world key img) (str ''vbmeta.img'') = Some img"
  "AList.update (str ''out.key'') key (fs_files (demo_world key img)) = fs_files (demo_world key img) @ [(str ''out.key'', key)]"
  by (simp_all add: file_of_def fileExists_def built_world_def demo_world_def text_simps)

lemma demo_partitions:
  "set (filter (\<lambda>dn. 0x2F \<notin> set dn \<and> endsWith dn (str ''.img'')) (map fst (fs_files (demo_world key img) @ [(str ''out.key'', key)]))) =
    {str ''vbmeta.img''}"
  by (auto simp: demo_world_def endsWith_iff append_suffix_iff text_simps)

lemma demo_constructed: "CfigAvbOps (demo_world key img) = Ok (built_world key img)"
proof -
  have l: "loadPubkey (demo_world key img) =
      Ok ((demo_world key img)\<lparr>fs_files := fs_files (demo_world key img) @ [(str ''out.key'', key)], expected_public_key := key\<rparr>)"
    using demo_files(1) by (simp add: loadPubkey_def open_read_def put_file_def demo_files(9) demo_world_def) (simp add: text_simps)
  have p: "populatePartitions (str ''.'') ((demo_world key img)\<lparr>fs_files := fs_files (demo_world key img) @ [(str ''out.key'', key)],
      expected_public_key := key\<rparr>) = built_world key img"
    using demo_partitions [of key img] by (simp add: populatePartitions_def built_world_def) (simp add: demo_world_def)
  show ?thesis
    using demo_files(2-5) by (simp add: CfigAvbOps_def l p default_file_def Let_def)
qed

text \<open>What the host then answers.\<close>

definition demo_guid :: bytes where
  "demo_guid = str ''1dddd936-20da-460a-834c-b938a89acab0''"

lemma demo_guids: "guids_known cfig_avb_ops (\<lambda>_. demo_guid)"
proof -
  have "length (str ''1dddd936-20da-460a-834c-b938a89acab0'') = 36" "cstring demo_guid"
    by (simp_all add: str_def demo_guid_def cstring_def of_char_def)
  then show ?thesis
    using cstr_terminated [of demo_guid "[]"]
    by (auto simp: guids_known_def cfig_avb_ops_def reading_def get_unique_guid_for_partitionX_def snprintf_bytes_def demo_guid_def)
qed

lemma demo_rollback: "read_rollback_indexX 0 (built_world key img) = (AVB_IO_RESULT_OK, 0)"
proof -
  have "rollback_file 0 = str ''config/rollbackIndex_0''"
    by (simp add: rollback_file_def to_string_def digit_byte_def decimal.simps str_def of_char_def)
  then have "read_line (built_world key img) (rollback_file 0) = str ''0''"
    using demo_files(7) [of key img] by (simp add: read_line_def open_read_def built_world_def demo_world_def) (simp add: text_simps)
  then show ?thesis
    by (simp add: read_rollback_indexX_def extract_u64_def str_def of_char_def is_space_def is_digit_def Let_def)
qed

lemma demo_locked:
  "read_line (demo_world key img) lockStatusFile = str ''1''" "read_line (built_world key img) lockStatusFile = str ''1''"
  by (simp_all add: read_line_def open_read_def file_of_def built_world_def demo_world_def text_simps)

lemma demo_serves:
  assumes "length img \<le> VBMETA_MAX_SIZE"
  shows "serves cfig_avb_ops (built_world key img) [] img 0 False (\<lambda>_. demo_guid)"
proof -
  let ?w = "built_world key img"
  have f: "getPartitionFile (str ''vbmeta'') = str ''vbmeta.img''"
    by (simp add: getPartitionFile_def str_def)
  have p: "getPartitionFile (str ''vbmeta'') \<in> validPartitions ?w" "open_read ?w (getPartitionFile (str ''vbmeta'')) = Some img"
    using demo_files(8) [of key img] unfolding f by (simp_all add: built_world_def open_read_def demo_world_def)
  have "posix_read img 0 (unat (of_nat VBMETA_MAX_SIZE :: u64)) = img"
    using assms by (simp add: posix_read_def VBMETA_MAX_SIZE_def READ_MAX_def)
  then have r: "read_from_partitionX (str ''vbmeta'') 0 (of_nat VBMETA_MAX_SIZE) ?w = (AVB_IO_RESULT_OK, img, of_nat (length img))"
    using read_forward [OF p, of 0 "of_nat VBMETA_MAX_SIZE"] by (simp add: Let_def)
  have "read_is_device_unlockedX ?w = (AVB_IO_RESULT_OK, False)"
    by (simp add: read_is_device_unlockedX_def demo_locked str_def of_char_def)
  with r demo_rollback [of key img] demo_guids show ?thesis
    by (simp add: serves_def cfig_avb_ops_def reading_def)
qed

lemma demo_key_accepted:
  assumes "take 520 (drop ofs buf) = key" "length key = 520" "vb_md_size buf = 0"
  shows "key_accepted cfig_avb_ops (built_world key img) buf (Some (ofs, 520))"
proof -
  have "520 \<le> length (drop ofs buf)" using assms(1,2) by (metis length_take min.cobounded1 min_def nat_le_linear)
  then have "same_string key (Some (drop ofs buf)) 520 = Ok True" "same_string [] None 0 = Ok True"
    using assms by (simp_all add: same_string_def avb_memcmp_def memcmp_sign_zero)
  then show ?thesis
    using assms(3) by (simp add: key_accepted_def cfig_avb_ops_def asking_def validate_vbmeta_public_keyX_def built_world_def demo_world_def)
qed

text \<open>The slot of such a run can be printed.\<close>

lemma cstring_with_options:
  "cstring t \<Longrightarrow> \<forall>(k, v)\<in>set opts. cstring k \<and> cstring v \<Longrightarrow> cstring (with_options t opts)"
  by (induction opts arbitrary: t) (auto simp: with_options_def intro: cstring_with_option)

lemma cstring_accepted_cmdline:
  assumes "\<And>name. cstring (g name)"
  shows "cstring (accepted_cmdline rq b a mode g imgs fl)"
proof -
  have "cstring (with_options [] (vbmeta_options (rq_flags rq) b a imgs))"
    by (rule cstring_with_options)
      (auto simp: vbmeta_options_def state_options_def digest_options_def options_cstring options_cstring(6) [of True, simplified]
          options_cstring(6) [of False, simplified] cstring_digits cstring_hex split: if_splits)
  then have "cstring (verity_text (with_options [] (vbmeta_options (rq_flags rq) b a imgs)) mode mode fl)"
    by (auto simp: verity_text_def managed_options_def options_cstring
          options_cstring(17,18) [of AVB_HASHTREE_ERROR_MODE_RESTART, simplified]
        intro!: cstring_with_options cstring_with_option cstring_replace_ref)
  moreover have "cstring (guid_text g c sf t gs)" if "cstring t" for c sf t gs
    using that by (induction gs arbitrary: t) (auto simp: guid_text_def assms cstring_replace_ref)
  ultimately show ?thesis by (simp add: accepted_cmdline_def Let_def)
qed

lemma toString_list_total: "\<forall>x\<in>set xs. \<exists>t. f x = Ok t \<Longrightarrow> \<exists>t. toString_list f xs = Ok t"
  by (induction f xs rule: toString_list.induct) auto

lemma accepted_slot_prints:
  assumes "vb_auth_size buf = 320" "vb_aux_size buf = 576" "1152 \<le> length buf" "\<And>name. cstring (g name)"
  shows "\<exists>json. toString_slot (Some (accepted_slot suffix vf b a mode g v ptr buf)) = Ok json"
proof -
  have sz: "vd_vbmeta_size (image_entry v ptr buf) = 1152" using assms(1,2) by (simp add: image_entry_def)
  have "\<exists>t. toString_vbmeta (image_entry v ptr buf) = Ok t"
    using assms(3) by (simp add: toString_vbmeta_def toString_bytes_def sz) (simp add: image_entry_def)
  moreover have "\<exists>t. toString_list (\<lambda>v. Ok (to_string (unat v))) xs = Ok t" for xs :: "u64 list"
    by (rule toString_list_total) simp
  then obtain t where "toString_list (\<lambda>v. Ok (to_string (unat v))) (sd_rollback_indexes (accepted_slot suffix vf b a mode g v ptr buf)) = Ok t"
    by blast
  ultimately show ?thesis
    using cstr_terminated [OF cstring_accepted_cmdline [OF assms(4)], where r = "[]"]
    by (auto simp: toString_slot_def accepted_slot_def)
qed

text \<open>An image with the header of the examples has no descriptors.\<close>

lemma demo_bare:
  assumes "take 256 buf = demo_header" "1152 \<le> length buf" "unat ptr + length buf < 2 ^ 64" "unat ptr mod 8 = 0"
  shows "bare ptr buf 1152" "algorithm_type (host_header buf) = 1" "images_whole [image_entry v ptr buf]" "vb_md_size buf = 0"
    "vb_auth_size buf = 320" "vb_aux_size buf = 576"
proof -
  obtain t where t: "buf = demo_header @ t" using assms(1) by (metis append_take_drop_id)
  note F = demo_fields [of t, folded t]
  have l: "256 \<le> length buf" using assms(2) by simp
  have "flags (host_header buf) = avb_be32toh (load32 buf 120)"
    using l by (simp add: host_header_def load_AvbVBMetaImageHeader_def AVB_VBMETA_IMAGE_HEADER_SIZE_def
        avb_vbmeta_image_header_to_host_byte_order_def Let_def)
  moreover have "unat (avb_be32toh (load32 buf 120)) = 0"
    using l by (simp add: be32toh_load32) (simp add: t demo_header_def AVB_MAGIC_def str_def be_nat_zeros)
  ultimately have fl: "flags (host_header buf) = 0" by (simp add: unat_eq_zero)
  have "desc_area buf = (576, 576)"
    by (simp add: desc_area_def t demo_header_def AVB_MAGIC_def str_def be_nat_be_bytes be_nat_zeros)
  then show "bare ptr buf 1152"
    using assms(2-4) fl demo_header_ok(1) [of t] by (simp add: bare_def image_ok_def t)
  have "unat (algorithm_type (host_header buf)) = 1" using host_header_values(5) [OF l] F(5) by simp
  then show "algorithm_type (host_header buf) = 1" by (simp add: word_unat_eq_iff)
  show "vb_md_size buf = 0" "vb_auth_size buf = 320" "vb_aux_size buf = 576" using F by simp_all
  then show "images_whole [image_entry v ptr buf]"
    using assms(2) by (simp add: images_whole_def image_whole_def image_bytes_def image_entry_def)
qed

text \<open>The whole run on a forged image.\<close>

definition forged_state :: "bytes \<Rightarrow> cfig_world sys" where
  "forged_state key = \<lparr>sy_heap = oom_heap 7, sy_world = demo_world key (forged key)\<rparr>"

definition forged_buffer :: "bytes \<Rightarrow> bytes" where
  "forged_buffer key = forged key @ replicate (VBMETA_MAX_SIZE - 1152) 0"

lemma forged_conditions:
  assumes K: "pubkey_ok key" "pk_bits key = 2048"
  defines "buf \<equiv> forged_buffer key" and "h \<equiv> (oom_heap 7)\<lparr>hp_calls := 5\<rparr>"
  shows "length (forged key) = 1152" "forged key @ drop 1152 (replicate VBMETA_MAX_SIZE 0) = buf"
    "avb_malloc_obj VBMETA_MAX_SIZE ((oom_heap 7)\<lparr>hp_calls := 4\<rparr>) = (Some (4096, replicate VBMETA_MAX_SIZE 0), h)"
    "avb_vbmeta_image_verify (4096, buf) (of_nat 1152) h = Ok ((AVB_VBMETA_VERIFY_RESULT_OK, Some (576, 520)), h\<lparr>hp_calls := 10\<rparr>)"
    "malloc_total (h\<lparr>hp_calls := 10\<rparr>)" "bare 4096 buf 1152" "algorithm_type (host_header buf) = 1"
    "images_whole [image_entry AVB_VBMETA_VERIFY_RESULT_OK 4096 buf]"
    "key_accepted cfig_avb_ops (built_world key (forged key)) buf (Some (576, 520))"
    "serves cfig_avb_ops (built_world key (forged key)) [] (forged key) 0 False (\<lambda>_. demo_guid)"
proof -
  have k: "length key = 520" using pubkey_bits(2) [OF K(1)] K(2) by simp
  note D = forged_parts [OF k, of "replicate (VBMETA_MAX_SIZE - 1152) 0", folded forged_buffer_def buf_def]
  obtain t where t: "buf = demo_header @ t" unfolding buf_def forged_buffer_def by (rule forged_header)
  note F = demo_fields [of t, folded t]
  show l: "length (forged key) = 1152" using forged_parts(1) [OF k, of "[]"] by simp
  show "forged key @ drop 1152 (replicate VBMETA_MAX_SIZE 0) = buf" by (simp add: buf_def forged_buffer_def)
  show "avb_malloc_obj VBMETA_MAX_SIZE ((oom_heap 7)\<lparr>hp_calls := 4\<rparr>) = (Some (4096, replicate VBMETA_MAX_SIZE 0), h)"
    by (simp add: avb_malloc_obj_def avb_malloc_def oom_heap_def map_replicate_const h_def)
  show "avb_vbmeta_image_verify (4096, buf) (of_nat 1152) h = Ok ((AVB_VBMETA_VERIFY_RESULT_OK, Some (576, 520)), h\<lparr>hp_calls := 10\<rparr>)"
    using forged_verdict [OF K, of h 4096 "replicate (VBMETA_MAX_SIZE - 1152) 0"]
    unfolding buf_def forged_buffer_def by (simp add: oom_heap_def h_def)
  show "malloc_total (h\<lparr>hp_calls := 10\<rparr>)" by (simp add: malloc_total_def oom_heap_def h_def)
  have B: "take 256 buf = demo_header" "length buf = VBMETA_MAX_SIZE" "vb_public_key buf = key"
    using D(1,2) by (simp_all add: t demo_header_length) (simp add: VBMETA_MAX_SIZE_def)
  show b: "bare 4096 buf 1152" "algorithm_type (host_header buf) = 1"
      "images_whole [image_entry AVB_VBMETA_VERIFY_RESULT_OK 4096 buf]"
    using demo_bare [OF B(1), of 4096] B(2) by (simp_all add: VBMETA_MAX_SIZE_def)
  have "vb_md_size buf = 0" "take 520 (drop 576 buf) = key"
    using demo_bare [OF B(1), of 4096] B(2,3) by (simp_all add: VBMETA_MAX_SIZE_def vb_public_key_def F)
  then show "key_accepted cfig_avb_ops (built_world key (forged key)) buf (Some (576, 520))"
    using demo_key_accepted k by blast
  show "serves cfig_avb_ops (built_world key (forged key)) [] (forged key) 0 False (\<lambda>_. demo_guid)"
    by (rule demo_serves) (simp add: l VBMETA_MAX_SIZE_def)
qed

definition forged_built :: "bytes \<Rightarrow> cfig_world sys" where
  "forged_built key = \<lparr>sy_heap = oom_heap 7, sy_world = built_world key (forged key)\<rparr>"

lemma forged_accepted:
  assumes K: "pubkey_ok key" "pk_bits key = 2048"
  shows "\<exists>s'. avb_slot_verify cfig_avb_ops (Some []) [] 0 AVB_HASHTREE_ERROR_MODE_RESTART_AND_INVALIDATE (forged_built key) =
    Ok ((AVB_SLOT_VERIFY_RESULT_OK, Some (accepted_slot [] 0 False AVB_ALGORITHM_TYPE_SHA256_RSA2048
      AVB_HASHTREE_ERROR_MODE_RESTART_AND_INVALIDATE (\<lambda>_. demo_guid) AVB_VBMETA_VERIFY_RESULT_OK 4096 (forged_buffer key))), s')"
  using slot_verify_bare [of "forged_built key" 4096 "replicate VBMETA_MAX_SIZE 0" "(oom_heap 7)\<lparr>hp_calls := 5\<rparr>"
      "forged key" AVB_VBMETA_VERIFY_RESULT_OK "Some (576, 520)" "(oom_heap 7)\<lparr>hp_calls := 10\<rparr>" "Some []" "[]" 0
      AVB_SLOT_VERIFY_RESULT_OK cfig_avb_ops 0 False "\<lambda>_. demo_guid" AVB_ALGORITHM_TYPE_SHA256_RSA2048
      AVB_HASHTREE_ERROR_MODE_RESTART_AND_INVALIDATE] forged_conditions [OF K]
  by (simp add: forged_built_def oom_heap_def vbmeta_verdict_def cstring_def VBMETA_MAX_SIZE_def no_vbmeta_partition_def)

lemma forged_run:
  assumes K: "pubkey_ok key" "pk_bits key = 2048"
  shows "\<exists>slot s'. verifier_main demo_env (forged_state key) = Ok ((AVB_SLOT_VERIFY_RESULT_OK, Some slot), s') \<and>
    sd_vbmeta_images slot = [image_entry AVB_VBMETA_VERIFY_RESULT_OK 4096 (forged_buffer key)]"
proof -
  let ?buf = "forged_buffer key"
  let ?slot = "accepted_slot [] 0 False AVB_ALGORITHM_TYPE_SHA256_RSA2048
      AVB_HASHTREE_ERROR_MODE_RESTART_AND_INVALIDATE (\<lambda>_. demo_guid) AVB_VBMETA_VERIFY_RESULT_OK 4096 ?buf"
  let ?s = "forged_built key"
  have k: "length key = 520" using pubkey_bits(2) [OF K(1)] K(2) by simp
  have built: "new_CfigAvbOps (forged_state key) = Ok ((), ?s)"
    by (simp add: new_CfigAvbOps_def call_def demo_constructed forged_state_def forged_built_def)
  have locked: "call (read_is_device_unlocked cfig_avb_ops) (\<lambda>f. f) ?s = Ok ((AVB_IO_RESULT_OK, False), ?s)"
    by (simp add: call_def cfig_avb_ops_def reading_def read_is_device_unlockedX_def demo_locked forged_built_def) (simp add: str_def of_char_def)
  obtain s' where v: "avb_slot_verify cfig_avb_ops (Some []) [] 0 AVB_HASHTREE_ERROR_MODE_RESTART_AND_INVALIDATE ?s =
      Ok ((AVB_SLOT_VERIFY_RESULT_OK, Some ?slot), s')"
    using forged_accepted [OF K] by blast
  obtain t where t: "?buf = demo_header @ t" unfolding forged_buffer_def by (rule forged_header)
  have "cstring demo_guid" by (simp add: demo_guid_def str_def cstring_def of_char_def)
  then have "\<exists>json. toString_slot (Some ?slot) = Ok json"
    by (intro accepted_slot_prints) (use forged_parts(1) [OF k, of "replicate (VBMETA_MAX_SIZE - 1152) 0"]
      demo_fields(3,4) [of t, folded t] in \<open>simp_all add: forged_buffer_def\<close>)
  then have "\<exists>s''. save_result (Some ?slot) s' = Ok ((), s'')"
    by (auto simp: save_result_def andthen_def pure_def)
  then obtain s'' where "save_result (Some ?slot) s' = Ok ((), s'')" by blast
  moreover have "sd_vbmeta_images ?slot = [image_entry AVB_VBMETA_VERIFY_RESULT_OK 4096 ?buf]"
    by (simp add: accepted_slot_def)
  ultimately show ?thesis
    using built locked v
    by (auto simp: verifier_main_def demo_env_def env_text_def splitString_def Let_def andthen_def retn_def
        verifier_flags_def request_flags_def)
qed

section \<open>Descriptors\<close>

text \<open>
  An image with one property descriptor, \<open>k\<close> with the value \<open>7\<close>; and a hash descriptor and a hash tree
  descriptor with empty fields.
\<close>

text \<open>An image with one property, \<open>k = 7\<close>, whose value is followed by a byte \<open>b\<close>.\<close>

definition props_image_with :: "u8 \<Rightarrow> bytes" where
  "props_image_with b = AVB_MAGIC @ replicate 92 0 @ be_bytes 8 (0 :: u64) @ be_bytes 8 (40 :: u64) @ replicate 144 0 @
     be_bytes 8 (0 :: u64) @ be_bytes 8 (24 :: u64) @ be_bytes 8 (1 :: u64) @ be_bytes 8 (1 :: u64) @ str ''k'' @ [0] @ str ''7'' @ [b] @ replicate 4 0"

abbreviation props_image :: bytes where
  "props_image \<equiv> props_image_with 0"

lemma props_image_parts:
  "image_ok 4096 (props_image_with b) 296" "desc_area (props_image_with b) = (256, 296)" "desc_tiles (props_image_with b) 296 256 [256]"
  "prop_at (props_image_with b) (str ''k'') 256 = Some (290, 1)" "length (props_image_with b) = 296" "props_image_with b ! 291 = b"
proof -
  show l: "length (props_image_with b) = 296" by (simp add: props_image_with_def AVB_MAGIC_def str_def)
  then show "image_ok 4096 (props_image_with b) 296"
    by (simp add: image_ok_def) (simp add: props_image_with_def AVB_MAGIC_def str_def)
  show "desc_area (props_image_with b) = (256, 296)"
    by (simp add: desc_area_def props_image_with_def AVB_MAGIC_def str_def be_nat_be_bytes be_nat_zeros)
  have t: "desc_total (props_image_with b) 256 = 40"
    by (simp add: desc_total_def sizeof_AvbDescriptor_def props_image_with_def AVB_MAGIC_def str_def be_nat_be_bytes)
  then show "desc_tiles (props_image_with b) 296 256 [256]"
    by (intro desc_tiles.intros) (simp_all add: tiles_end)
  show "prop_at (props_image_with b) (str ''k'') 256 = Some (290, 1)"
    by (simp add: prop_at_def t Let_def) (simp add: props_image_with_def AVB_MAGIC_def str_def be_nat_be_bytes nth_append)
  show "props_image_with b ! 291 = b" by (simp add: props_image_with_def AVB_MAGIC_def str_def nth_append)
qed

definition hash_descriptor :: bytes where
  "hash_descriptor = be_bytes 8 (2 :: u64) @ be_bytes 8 (120 :: u64) @ replicate 120 0"

lemma zero_field:
  assumes "\<And>j. i \<le> j \<Longrightarrow> j < i + 4 \<Longrightarrow> m ! j = 0"
  shows "avb_be32toh (load32 m i) = 0"
  using assms [of i] assms [of "i + 1"] assms [of "i + 2"] assms [of "i + 3"]
  by (simp add: load32_def avb_be32toh_def byte_at_def Let_def)

lemma hash_descriptor_valid:
  "\<exists>src d. load_AvbHashDescriptor hash_descriptor = Ok src \<and> avb_hash_descriptor_validate_and_byteswap src = (True, d)"
proof -
  have h: "avb_be64toh (load64 hash_descriptor 0) = 2" "avb_be64toh (load64 hash_descriptor 8) = 120"
    unfolding hash_descriptor_def by (rule be64toh_be_bytes, simp)+
  have z: "avb_be32toh (load32 hash_descriptor i) = 0" if "16 \<le> i" "i + 4 \<le> 136" for i
    by (rule zero_field) (use that in \<open>auto simp: hash_descriptor_def nth_append\<close>)
  have "length hash_descriptor = 136" by (simp add: hash_descriptor_def)
  then show ?thesis
    by (simp add: load_AvbHashDescriptor_def avb_hash_descriptor_validate_and_byteswap_def h z sizeof_AvbHashDescriptor_def
        avb_descriptor_validate_and_byteswap_def sizeof_AvbDescriptor_def avb_safe_add_to_spec Let_def)
qed

end
