(* ===== verification/Avb_Persistent.thy ===== *)
theory Avb_Persistent
  imports Avb_Options
begin

text \<open>
  Slot verification on a host that keeps persistent values: the digests remembered for partitions whose
  descriptors carry none, and the managed hash tree error mode across boots.
\<close>

section \<open>A host that keeps values\<close>

text \<open>
  What \<open>avb_ops.h\<close> asks of the two operations: \<open>stored\<close> reads the values off the state of the host; a value
  that does not fit the buffer is refused, and writing no bytes removes the value.
\<close>

definition keeps_values :: "'w AvbOps \<Rightarrow> ('w \<Rightarrow> bytes \<Rightarrow> bytes option) \<Rightarrow> bool" where
  "keeps_values ops stored \<longleftrightarrow> (\<exists>rd wr. read_persistent_value ops = Some rd \<and> write_persistent_value ops = Some wr \<and>
     (\<forall>name n w. rd name n w = Ok (case stored w name of
          None \<Rightarrow> (AVB_IO_RESULT_ERROR_NO_SUCH_VALUE, [], 0)
        | Some d \<Rightarrow> if unat n < length d then (AVB_IO_RESULT_ERROR_INSUFFICIENT_SPACE, [], of_nat (length d))
            else (AVB_IO_RESULT_OK, d, of_nat (length d)), w)) \<and>
     (\<forall>name n d w. \<exists>w'. wr name n d w = Ok (AVB_IO_RESULT_OK, w') \<and>
        stored w' = (stored w)(name := if n = 0 then None else Some (take (unat n) d))))"

lemma gives_read_value:
  assumes "keeps_values ops stored"
  shows "gives (call (read_persistent_value ops) (\<lambda>f. f name n)) s Q \<longleftrightarrow>
    Q (case stored (sy_world s) name of
          None \<Rightarrow> (AVB_IO_RESULT_ERROR_NO_SUCH_VALUE, [], 0)
        | Some d \<Rightarrow> if unat n < length d then (AVB_IO_RESULT_ERROR_INSUFFICIENT_SPACE, [], of_nat (length d))
            else (AVB_IO_RESULT_OK, d, of_nat (length d))) s"
proof -
  obtain rd where rd: "read_persistent_value ops = Some rd" "\<And>name n w. rd name n w = Ok (case stored w name of
          None \<Rightarrow> (AVB_IO_RESULT_ERROR_NO_SUCH_VALUE, [], 0)
        | Some d \<Rightarrow> if unat n < length d then (AVB_IO_RESULT_ERROR_INSUFFICIENT_SPACE, [], of_nat (length d))
            else (AVB_IO_RESULT_OK, d, of_nat (length d)), w)"
    using assms unfolding keeps_values_def by blast
  then show ?thesis by (intro gives_call_iff [where g = rd]) simp_all
qed

lemma gives_write_value:
  assumes "keeps_values ops stored"
    and "\<And>w'. stored w' = (stored (sy_world s))(name := if n = 0 then None else Some (take (unat n) d)) \<Longrightarrow>
      Q AVB_IO_RESULT_OK (s\<lparr>sy_world := w'\<rparr>)"
  shows "gives (call (write_persistent_value ops) (\<lambda>f. f name n d)) s Q"
proof -
  obtain wr w' where "write_persistent_value ops = Some wr" "wr name n d (sy_world s) = Ok (AVB_IO_RESULT_OK, w')"
    "stored w' = (stored (sy_world s))(name := if n = 0 then None else Some (take (unat n) d))"
    using assms(1) unfolding keeps_values_def by metis
  with assms(2) show ?thesis by (simp add: gives_def call_def)
qed

lemma keeps_values_ops:
  "keeps_values ops stored \<Longrightarrow> read_persistent_value ops \<noteq> None \<and> write_persistent_value ops \<noteq> None"
  by (auto simp: keeps_values_def)

section \<open>Persistent digests\<close>

text \<open>What is read when there is no value to initialise: the stored digest, when it has the expected size.\<close>

definition stored_digest :: "bytes option \<Rightarrow> nat \<Rightarrow> AvbSlotVerifyResult \<times> bytes" where
  "stored_digest v n = (case v of None \<Rightarrow> (AVB_SLOT_VERIFY_RESULT_ERROR_VERIFICATION, [])
     | Some e \<Rightarrow> if length e = n then (AVB_SLOT_VERIFY_RESULT_OK, e)
         else (AVB_SLOT_VERIFY_RESULT_ERROR_INVALID_METADATA, if n < length e then [] else e))"

lemma gives_value_name:
  assumes "roomy w s" "length part < 2 ^ 32" "\<And>s'. roomy w s' \<Longrightarrow> Q (Some (AVB_NPV_PERSISTENT_DIGEST_PREFIX @ part)) s'"
  shows "gives (heap_act (avb_strdupv [AVB_NPV_PERSISTENT_DIGEST_PREFIX, part])) s Q"
proof -
  have "length (concat [AVB_NPV_PERSISTENT_DIGEST_PREFIX, part]) < 2 ^ 64"
    using assms(2) by (simp add: AVB_NPV_PERSISTENT_DIGEST_PREFIX_def str_def)
  then obtain h where "avb_strdupv [AVB_NPV_PERSISTENT_DIGEST_PREFIX, part] (sy_heap s) =
      Ok (Some (AVB_NPV_PERSISTENT_DIGEST_PREFIX @ part), h)" "malloc_total h"
    using strdupv_total [of "[AVB_NPV_PERSISTENT_DIGEST_PREFIX, part]" "sy_heap s"] assms(1) by (auto simp: roomy_def)
  then show ?thesis using assms by (auto simp: gives_def heap_act_def intro: roomy_heap)
qed

lemma gives_read_digest:
  assumes K: "keeps_values ops stored" and S: "roomy w s" "length part < 2 ^ 32" "n < 2 ^ 32"
    and len: "\<And>e. stored w (AVB_NPV_PERSISTENT_DIGEST_PREFIX @ part) = Some e \<Longrightarrow> length e < 2 ^ 32"
    and absent: "stored w (AVB_NPV_PERSISTENT_DIGEST_PREFIX @ part) = None \<Longrightarrow> initial \<noteq> None \<Longrightarrow>
      (\<And>s'. roomy w s' \<Longrightarrow> gives (init part (AVB_NPV_PERSISTENT_DIGEST_PREFIX @ part) n (the initial)) s' Q)"
    and present: "stored w (AVB_NPV_PERSISTENT_DIGEST_PREFIX @ part) \<noteq> None \<or> initial = None \<Longrightarrow>
      (\<And>s'. roomy w s' \<Longrightarrow> Q (stored_digest (stored w (AVB_NPV_PERSISTENT_DIGEST_PREFIX @ part)) n) s')"
  shows "gives (read_persistent_digest_by init ops part n initial) s Q"
proof -
  let ?name = "AVB_NPV_PERSISTENT_DIGEST_PREFIX @ part"
  have size: "(of_nat n = (of_nat (length e) :: u64)) = (n = length e)" "(unat (of_nat n :: u64) < length e) = (n < length e)"
    if "length e < 2 ^ 32" for e :: bytes
    using that S(3) by (simp_all add: word_unat_eq_iff unsigned_of_nat take_bit_nat_eq_self)
  have ops: "(read_persistent_value ops = None) = False" using keeps_values_ops [OF K] by simp
  show ?thesis
    unfolding read_persistent_digest_by_def ops if_False gives_andthen
    by (rule gives_value_name, rule S(1), rule S(2), cases "stored w ?name")
      (use len absent present in \<open>auto simp: gives_read_value [OF K] avb_gives roomy_def stored_digest_def size\<close>)
qed

text \<open>
  Trust on first use: a missing digest is stored, unless the device is unlocked; one that is there is
  returned and kept.
\<close>

lemma gives_persistent_digest:
  assumes K: "keeps_values ops stored" and S: "roomy w s" "length part < 2 ^ 32" "0 < length d" "length d < 2 ^ 32"
    and U: "read_is_device_unlocked ops = Some f" "f w = Ok ((AVB_IO_RESULT_OK, unlocked), w)"
    and len: "\<And>e. stored w (AVB_NPV_PERSISTENT_DIGEST_PREFIX @ part) = Some e \<Longrightarrow> length e < 2 ^ 32"
  defines "name \<equiv> AVB_NPV_PERSISTENT_DIGEST_PREFIX @ part"
  shows "gives (read_persistent_digest ops part (length d) (Some d)) s (\<lambda>r s'.
    if stored w name \<noteq> None \<or> unlocked
    then r = stored_digest (stored w name) (length d) \<and> stored (sy_world s') = stored w
    else r = (AVB_SLOT_VERIFY_RESULT_OK, d) \<and> stored (sy_world s') = (stored w)(name \<mapsto> d))"
    (is "gives _ _ ?Q")
proof -
  have z: "(of_nat (length d) :: u64) \<noteq> 0" "unat (of_nat (length d) :: u64) = length d"
    using S(3,4) by (simp_all add: unsigned_of_nat take_bit_nat_eq_self word_unat_eq_iff)
  have again: "gives (read_persistent_digest_by init ops part (length d) None) s' ?Q"
    if "roomy w' s'" "stored w' = (stored w)(name \<mapsto> d)" "stored w name = None" "\<not> unlocked" for init w' s'
    by (rule gives_read_digest [OF K that(1) S(2,4)]) (use that S(4) in \<open>auto simp: name_def [symmetric] stored_digest_def roomy_def\<close>)
  have init: "gives (initialize_persistent_digest ops part name (length d) d) s' ?Q"
    if "roomy w s'" "stored w name = None" for s'
  proof -
    have "gives (call (read_is_device_unlocked ops) (\<lambda>f. f)) s' P \<longleftrightarrow> P (AVB_IO_RESULT_OK, unlocked) s'" for P
      using U that(1) by (intro gives_call_iff [where g = f]) (simp_all add: roomy_def)
    moreover have "gives (call (write_persistent_value ops) (\<lambda>f. f name (of_nat (length d)) d)) s' (\<lambda>io_ret t.
        gives (case io_error io_ret of Some e \<Rightarrow> retn (e, []) | None \<Rightarrow>
        read_persistent_digest_by (\<lambda>_ _ _ _. pure (Fault OutOfFuel)) ops part (length d) None) t ?Q)" if "\<not> unlocked"
    proof (rule gives_write_value [OF K], unfold io_error_OK option.case)
      fix w'
      assume "stored w' = (stored (sy_world s'))(name := if (of_nat (length d) :: u64) = 0 then None else Some (take (unat (of_nat (length d) :: u64)) d))"
      then show "gives (read_persistent_digest_by (\<lambda>_ _ _ _. pure (Fault OutOfFuel)) ops part (length d) None) (s'\<lparr>sy_world := w'\<rparr>) ?Q"
        using z \<open>roomy w s'\<close> \<open>stored w name = None\<close> that by (intro again [of w']) (simp_all add: roomy_def)
    qed
    ultimately show ?thesis
      unfolding initialize_persistent_digest_def gives_andthen [of "call (read_is_device_unlocked ops) _"]
      using that by (auto simp: avb_gives stored_digest_def roomy_def)
  qed
  show ?thesis
    unfolding read_persistent_digest_def
    by (rule gives_read_digest [OF K S(1,2,4)]) (use init len in \<open>auto simp: name_def [symmetric] roomy_def\<close>)
qed

section \<open>The managed error mode\<close>

text \<open>
  One boot: a restart caused by corruption of a hash tree makes the host remember the digest of the vbmeta
  images and the mode \<open>EIO\<close>; that mode stays as long as the images are the same.
\<close>

definition slot_digest :: "AvbSlotVerifyData \<Rightarrow> bytes" where
  "slot_digest slot = sha256 (concat (map image_bytes (sd_vbmeta_images slot)))"

definition corrupted :: "u32 \<Rightarrow> bool" where
  "corrupted vflags \<longleftrightarrow> vflags AND AVB_SLOT_VERIFY_FLAGS_RESTART_CAUSED_BY_HASHTREE_CORRUPTION \<noteq> 0"

text \<open>The value the host remembers after a boot.\<close>

fun remembers :: "bytes option \<Rightarrow> u32 \<times> AvbSlotVerifyData \<Rightarrow> bytes option" where
  "remembers v (vflags, slot) = (if corrupted vflags \<or> v = Some (slot_digest slot) then Some (slot_digest slot) else None)"

definition mode_of :: "bytes option \<Rightarrow> AvbHashtreeErrorMode" where
  "mode_of v = (if v = None then AVB_HASHTREE_ERROR_MODE_RESTART else AVB_HASHTREE_ERROR_MODE_EIO)"

lemma gives_managed_mode:
  fixes vf :: u32
  assumes K: "keeps_values ops stored" and W: "images_whole (sd_vbmeta_images slot)"
    and len: "\<And>d. stored (sy_world s) AVB_NPV_MANAGED_VERITY_MODE = Some d \<Longrightarrow> length d = AVB_SHA256_DIGEST_SIZE"
  defines "v \<equiv> remembers (stored (sy_world s) AVB_NPV_MANAGED_VERITY_MODE) (vf, slot)"
  shows "gives (avb_manage_hashtree_error_mode ops vf slot) s (\<lambda>r s'.
    r = (AVB_IO_RESULT_OK, mode_of v) \<and> sy_heap s' = sy_heap s \<and>
    stored (sy_world s') = (stored (sy_world s))(AVB_NPV_MANAGED_VERITY_MODE := v))"
proof -
  have d: "avb_slot_verify_data_calculate_vbmeta_digest slot AVB_DIGEST_TYPE_SHA256 = Ok (slot_digest slot)"
    using calculate_vbmeta_digest_value [of slot AVB_DIGEST_TYPE_SHA256] W by (simp add: images_whole_def slot_digest_def)
  have l: "length (slot_digest slot) = AVB_SHA256_DIGEST_SIZE" by (simp add: slot_digest_def sha256_size AVB_SHA256_DIGEST_SIZE_def)
  have n: "(of_nat AVB_SHA256_DIGEST_SIZE :: u64) \<noteq> 0" "unat (of_nat AVB_SHA256_DIGEST_SIZE :: u64) = AVB_SHA256_DIGEST_SIZE"
    by (simp_all add: AVB_SHA256_DIGEST_SIZE_def)
  note ops = keeps_values_ops [OF K]
  show ?thesis
  proof (cases "corrupted vf")
    case True
    then show ?thesis
      using ops l n by (auto simp: avb_manage_hashtree_error_mode_def Let_def corrupted_def avb_gives d v_def mode_of_def
          intro!: gives_write_value [OF K])
  next
    case False
    then have f: "(vf AND AVB_SLOT_VERIFY_FLAGS_RESTART_CAUSED_BY_HASHTREE_CORRUPTION \<noteq> 0) = False" by (simp add: corrupted_def)
    show ?thesis
    proof (cases "stored (sy_world s) AVB_NPV_MANAGED_VERITY_MODE")
      case None
      then show ?thesis
        using ops f False by (simp add: avb_manage_hashtree_error_mode_def Let_def avb_gives gives_read_value [OF K] v_def mode_of_def fun_upd_idem)
    next
      case (Some e)
      then have e: "length e = AVB_SHA256_DIGEST_SIZE" using len by simp
      then obtain c where "avb_memcmp (slot_digest slot) e AVB_SHA256_DIGEST_SIZE = Ok c" "c = 0 \<longleftrightarrow> slot_digest slot = e"
        using avb_memcmp_zero [of AVB_SHA256_DIGEST_SIZE "slot_digest slot" e] l by auto
      with Some show ?thesis
        using ops f False e n
        by (auto simp: avb_manage_hashtree_error_mode_def Let_def avb_gives gives_read_value [OF K] v_def mode_of_def d
            fun_upd_idem intro!: gives_write_value [OF K])
    qed
  qed
qed

text \<open>A sequence of boots, with the modes they report.\<close>

fun managed_boots :: "'w AvbOps \<Rightarrow> (u32 \<times> AvbSlotVerifyData) list \<Rightarrow> (AvbHashtreeErrorMode list, 'w) act" where
  "managed_boots ops [] = retn []"
| "managed_boots ops ((vflags, slot) # bs) =
     andthen (avb_manage_hashtree_error_mode ops vflags slot) (\<lambda>(_, mode).
     andthen (managed_boots ops bs) (\<lambda>modes. retn (mode # modes)))"

lemma gives_managed_boots:
  assumes K: "keeps_values ops stored" and W: "\<forall>(vf, slot)\<in>set bs. images_whole (sd_vbmeta_images slot)"
    and len: "\<And>d. stored (sy_world s) AVB_NPV_MANAGED_VERITY_MODE = Some d \<Longrightarrow> length d = AVB_SHA256_DIGEST_SIZE"
  shows "gives (managed_boots ops bs) s (\<lambda>modes s'.
    modes = map (\<lambda>k. mode_of (foldl remembers (stored (sy_world s) AVB_NPV_MANAGED_VERITY_MODE) (take (Suc k) bs))) [0..<length bs])"
  using W len
proof (induction bs arbitrary: s)
  case Nil
  then show ?case by (simp add: avb_gives)
next
  case (Cons b bs)
  obtain vf slot where b: "b = (vf, slot)" by fastforce
  have W: "images_whole (sd_vbmeta_images slot)" using Cons.prems(1) b by simp
  let ?v = "remembers (stored (sy_world s) AVB_NPV_MANAGED_VERITY_MODE) b"
  have l: "length d = AVB_SHA256_DIGEST_SIZE" if "?v = Some d" for d
    using that by (auto simp: b slot_digest_def sha256_size AVB_SHA256_DIGEST_SIZE_def split: if_splits)
  let ?f = "\<lambda>k. mode_of (foldl remembers (stored (sy_world s) AVB_NPV_MANAGED_VERITY_MODE) (take k (b # bs)))"
  have modes: "map (\<lambda>k. ?f (Suc k)) [0..<length (b # bs)] = mode_of ?v # map (\<lambda>k. mode_of (foldl remembers ?v (take (Suc k) bs))) [0..<length bs]"
    using map_upt_Suc [of "\<lambda>k. ?f (Suc k)" "length bs"] by simp
  have rest: "gives (managed_boots ops bs) s' (\<lambda>modes t. modes =
      map (\<lambda>k. mode_of (foldl remembers ?v (take (Suc k) bs))) [0..<length bs])"
    if "stored (sy_world s') = (stored (sy_world s))(AVB_NPV_MANAGED_VERITY_MODE := ?v)" for s'
    using Cons.IH [of s'] Cons.prems(1) l that by simp
  have "gives (avb_manage_hashtree_error_mode ops vf slot) s (\<lambda>r t. gives (case r of (x, mode) \<Rightarrow>
      andthen (managed_boots ops bs) (\<lambda>modes. retn (mode # modes))) t (\<lambda>modes _. modes =
      mode_of ?v # map (\<lambda>k. mode_of (foldl remembers ?v (take (Suc k) bs))) [0..<length bs]))"
    by (rule gives_mono [OF gives_managed_mode [OF K W Cons.prems(2)]], assumption)
      (auto simp: avb_gives b [symmetric] intro!: gives_mono [OF rest])
  then show ?case unfolding modes unfolding b managed_boots.simps gives_andthen .
qed

text \<open>What is remembered after some boots: the last one was corrupted, or an earlier one of an unbroken run with the same images.\<close>

definition corruption_stands :: "(u32 \<times> AvbSlotVerifyData) list \<Rightarrow> nat \<Rightarrow> bool" where
  "corruption_stands bs k \<longleftrightarrow> (\<exists>i\<le>k. corrupted (fst (bs ! i)) \<and>
     (\<forall>j. i \<le> j \<and> j \<le> k \<longrightarrow> slot_digest (snd (bs ! j)) = slot_digest (snd (bs ! k))))"

lemma remembers_history:
  "k < length bs \<Longrightarrow> foldl remembers None (take (Suc k) bs) =
    (if corruption_stands bs k then Some (slot_digest (snd (bs ! k))) else None)"
proof (induction k)
  case 0
  then show ?case by (cases bs; cases "bs ! 0") (auto simp: corruption_stands_def)
next
  case (Suc k)
  then have IH: "foldl remembers None (take (Suc k) bs) =
      (if corruption_stands bs k then Some (slot_digest (snd (bs ! k))) else None)" by simp
  have "corruption_stands bs (Suc k) \<longleftrightarrow> corrupted (fst (bs ! Suc k)) \<or>
      corruption_stands bs k \<and> slot_digest (snd (bs ! k)) = slot_digest (snd (bs ! Suc k))"
    (is "?L \<longleftrightarrow> ?A \<or> ?B \<and> ?E")
  proof
    assume ?L
    then obtain i where i: "i \<le> Suc k" "corrupted (fst (bs ! i))"
      "\<And>j. i \<le> j \<Longrightarrow> j \<le> Suc k \<Longrightarrow> slot_digest (snd (bs ! j)) = slot_digest (snd (bs ! Suc k))"
      unfolding corruption_stands_def by blast
    show "?A \<or> ?B \<and> ?E"
    proof (cases "i = Suc k")
      case False
      then have "i \<le> k" using i(1) by simp
      then have ?E using i(3) [of k] by simp
      have "slot_digest (snd (bs ! j)) = slot_digest (snd (bs ! k))" if "i \<le> j" "j \<le> k" for j
        using i(3) [of j] that \<open>?E\<close> by simp
      then have ?B unfolding corruption_stands_def using i(2) \<open>i \<le> k\<close> by blast
      with \<open>?E\<close> show ?thesis by simp
    qed (use i in simp)
  next
    assume "?A \<or> ?B \<and> ?E"
    then show ?L
    proof
      assume ?A
      then show ?L unfolding corruption_stands_def by (intro exI [of _ "Suc k"]) (auto simp: le_antisym)
    next
      assume be: "?B \<and> ?E"
      then obtain i where i: "i \<le> k" "corrupted (fst (bs ! i))"
        "\<And>j. i \<le> j \<Longrightarrow> j \<le> k \<Longrightarrow> slot_digest (snd (bs ! j)) = slot_digest (snd (bs ! k))"
        unfolding corruption_stands_def by blast
      have "slot_digest (snd (bs ! j)) = slot_digest (snd (bs ! Suc k))" if "i \<le> j" "j \<le> Suc k" for j
        using i(3) [of j] that be by (cases "j = Suc k") simp_all
      moreover have "i \<le> Suc k" using i(1) by simp
      ultimately show ?L unfolding corruption_stands_def using i(2) by blast
    qed
  qed
  then show ?case
    using Suc.prems IH by (cases "bs ! Suc k") (auto simp: take_Suc_conv_app_nth)
qed

lemma managed_boots_history:
  assumes "keeps_values ops stored" "\<forall>(vf, slot)\<in>set bs. images_whole (sd_vbmeta_images slot)"
    and "stored (sy_world s) AVB_NPV_MANAGED_VERITY_MODE = None"
  shows "\<exists>s'. managed_boots ops bs s = Ok (map (\<lambda>k. if corruption_stands bs k
    then AVB_HASHTREE_ERROR_MODE_EIO else AVB_HASHTREE_ERROR_MODE_RESTART) [0..<length bs], s')"
proof -
  have "gives (managed_boots ops bs) s (\<lambda>modes s'. modes = map (\<lambda>k. if corruption_stands bs k
    then AVB_HASHTREE_ERROR_MODE_EIO else AVB_HASHTREE_ERROR_MODE_RESTART) [0..<length bs])"
    by (rule gives_mono [OF gives_managed_boots [OF assms(1,2)]]) (auto simp: assms(3) remembers_history mode_of_def)
  then show ?thesis by (auto simp: gives_def)
qed

section \<open>A concrete host\<close>

text \<open>A host whose state is the table of its values, locked, with no other operation.\<close>

definition store_ops :: "(bytes \<Rightarrow> bytes option) AvbOps" where
  "store_ops = \<lparr>read_from_partition = None, get_preloaded_partition = None, write_to_partition = None,
     validate_vbmeta_public_key = None, read_rollback_index = None, write_rollback_index = None,
     read_is_device_unlocked = Some (\<lambda>w. Ok ((AVB_IO_RESULT_OK, False), w)),
     get_unique_guid_for_partition = None, get_size_of_partition = None,
     read_persistent_value = Some (\<lambda>name n w. Ok (case w name of
          None \<Rightarrow> (AVB_IO_RESULT_ERROR_NO_SUCH_VALUE, [], 0)
        | Some d \<Rightarrow> if unat n < length d then (AVB_IO_RESULT_ERROR_INSUFFICIENT_SPACE, [], of_nat (length d))
            else (AVB_IO_RESULT_OK, d, of_nat (length d)), w)),
     write_persistent_value = Some (\<lambda>name n d w. Ok (AVB_IO_RESULT_OK, w(name := if n = 0 then None else Some (take (unat n) d)))),
     validate_public_key_for_partition = None\<rparr>"

lemma store_ops_keep: "keeps_values store_ops (\<lambda>w. w)"
  by (simp add: keeps_values_def store_ops_def)

definition bare_slot :: AvbSlotVerifyData where
  "bare_slot = \<lparr>sd_ab_suffix = None, sd_vbmeta_images = [], sd_loaded_partitions = [], sd_cmdline = None,
     sd_rollback_indexes = replicate AVB_MAX_NUMBER_OF_ROLLBACK_INDEX_LOCATIONS 0,
     sd_resolved_hashtree_error_mode = AVB_HASHTREE_ERROR_MODE_RESTART\<rparr>"

end
