(* ===== verification/Avb_Crc32.thy ===== *)
theory Avb_Crc32
  imports Avb_Prelude
begin

text \<open>
  The CRC-32 of \<open>avb_crc32.c\<close>: the table-driven loop, its equivalence with the shift register that the
  polynomial \<open>0xedb88320\<close> defines, and the burst errors it detects.
\<close>

section \<open>Definitions\<close>

text \<open>The rows of the table as the source has them.\<close>

definition iavb_crc32_tab :: "u32 list" where
  "iavb_crc32_tab = concat
    [[0x00000000, 0x77073096, 0xee0e612c, 0x990951ba, 0x076dc419, 0x706af48f],
     [0xe963a535, 0x9e6495a3, 0x0edb8832, 0x79dcb8a4, 0xe0d5e91e, 0x97d2d988],
     [0x09b64c2b, 0x7eb17cbd, 0xe7b82d07, 0x90bf1d91, 0x1db71064, 0x6ab020f2],
     [0xf3b97148, 0x84be41de, 0x1adad47d, 0x6ddde4eb, 0xf4d4b551, 0x83d385c7],
     [0x136c9856, 0x646ba8c0, 0xfd62f97a, 0x8a65c9ec, 0x14015c4f, 0x63066cd9],
     [0xfa0f3d63, 0x8d080df5, 0x3b6e20c8, 0x4c69105e, 0xd56041e4, 0xa2677172],
     [0x3c03e4d1, 0x4b04d447, 0xd20d85fd, 0xa50ab56b, 0x35b5a8fa, 0x42b2986c],
     [0xdbbbc9d6, 0xacbcf940, 0x32d86ce3, 0x45df5c75, 0xdcd60dcf, 0xabd13d59],
     [0x26d930ac, 0x51de003a, 0xc8d75180, 0xbfd06116, 0x21b4f4b5, 0x56b3c423],
     [0xcfba9599, 0xb8bda50f, 0x2802b89e, 0x5f058808, 0xc60cd9b2, 0xb10be924],
     [0x2f6f7c87, 0x58684c11, 0xc1611dab, 0xb6662d3d, 0x76dc4190, 0x01db7106],
     [0x98d220bc, 0xefd5102a, 0x71b18589, 0x06b6b51f, 0x9fbfe4a5, 0xe8b8d433],
     [0x7807c9a2, 0x0f00f934, 0x9609a88e, 0xe10e9818, 0x7f6a0dbb, 0x086d3d2d],
     [0x91646c97, 0xe6635c01, 0x6b6b51f4, 0x1c6c6162, 0x856530d8, 0xf262004e],
     [0x6c0695ed, 0x1b01a57b, 0x8208f4c1, 0xf50fc457, 0x65b0d9c6, 0x12b7e950],
     [0x8bbeb8ea, 0xfcb9887c, 0x62dd1ddf, 0x15da2d49, 0x8cd37cf3, 0xfbd44c65],
     [0x4db26158, 0x3ab551ce, 0xa3bc0074, 0xd4bb30e2, 0x4adfa541, 0x3dd895d7],
     [0xa4d1c46d, 0xd3d6f4fb, 0x4369e96a, 0x346ed9fc, 0xad678846, 0xda60b8d0],
     [0x44042d73, 0x33031de5, 0xaa0a4c5f, 0xdd0d7cc9, 0x5005713c, 0x270241aa],
     [0xbe0b1010, 0xc90c2086, 0x5768b525, 0x206f85b3, 0xb966d409, 0xce61e49f],
     [0x5edef90e, 0x29d9c998, 0xb0d09822, 0xc7d7a8b4, 0x59b33d17, 0x2eb40d81],
     [0xb7bd5c3b, 0xc0ba6cad, 0xedb88320, 0x9abfb3b6, 0x03b6e20c, 0x74b1d29a],
     [0xead54739, 0x9dd277af, 0x04db2615, 0x73dc1683, 0xe3630b12, 0x94643b84],
     [0x0d6d6a3e, 0x7a6a5aa8, 0xe40ecf0b, 0x9309ff9d, 0x0a00ae27, 0x7d079eb1],
     [0xf00f9344, 0x8708a3d2, 0x1e01f268, 0x6906c2fe, 0xf762575d, 0x806567cb],
     [0x196c3671, 0x6e6b06e7, 0xfed41b76, 0x89d32be0, 0x10da7a5a, 0x67dd4acc],
     [0xf9b9df6f, 0x8ebeeff9, 0x17b7be43, 0x60b08ed5, 0xd6d6a3e8, 0xa1d1937e],
     [0x38d8c2c4, 0x4fdff252, 0xd1bb67f1, 0xa6bc5767, 0x3fb506dd, 0x48b2364b],
     [0xd80d2bda, 0xaf0a1b4c, 0x36034af6, 0x41047a60, 0xdf60efc3, 0xa867df55],
     [0x316e8eef, 0x4669be79, 0xcb61b38c, 0xbc66831a, 0x256fd2a0, 0x5268e236],
     [0xcc0c7795, 0xbb0b4703, 0x220216b9, 0x5505262f, 0xc5ba3bbe, 0xb2bd0b28],
     [0x2bb45a92, 0x5cb36a04, 0xc2d7ffa7, 0xb5d0cf31, 0x2cd99e8b, 0x5bdeae1d],
     [0x9b64c2b0, 0xec63f226, 0x756aa39c, 0x026d930a, 0x9c0906a9, 0xeb0e363f],
     [0x72076785, 0x05005713, 0x95bf4a82, 0xe2b87a14, 0x7bb12bae, 0x0cb61b38],
     [0x92d28e9b, 0xe5d5be0d, 0x7cdcefb7, 0x0bdbdf21, 0x86d3d2d4, 0xf1d4e242],
     [0x68ddb3f8, 0x1fda836e, 0x81be16cd, 0xf6b9265b, 0x6fb077e1, 0x18b74777],
     [0x88085ae6, 0xff0f6a70, 0x66063bca, 0x11010b5c, 0x8f659eff, 0xf862ae69],
     [0x616bffd3, 0x166ccf45, 0xa00ae278, 0xd70dd2ee, 0x4e048354, 0x3903b3c2],
     [0xa7672661, 0xd06016f7, 0x4969474d, 0x3e6e77db, 0xaed16a4a, 0xd9d65adc],
     [0x40df0b66, 0x37d83bf0, 0xa9bcae53, 0xdebb9ec5, 0x47b2cf7f, 0x30b5ffe9],
     [0xbdbdf21c, 0xcabac28a, 0x53b39330, 0x24b4a3a6, 0xbad03605, 0xcdd70693],
     [0x54de5729, 0x23d967bf, 0xb3667a2e, 0xc4614ab8, 0x5d681b02, 0x2a6f2b94],
     [0xb40bbe37, 0xc30c8ea1, 0x5a05df1b, 0x2d02ef8d]]"

text \<open>
  The loop \<open>while (size--)\<close> over a signed 32-bit counter. A negative counter never reaches zero before it
  leaves the range of \<open>int\<close>; like a read past the buffer this is undefined in C.
\<close>

fun crc32_loop :: "u32 \<Rightarrow> bytes \<Rightarrow> int \<Rightarrow> u32 res" where
  "crc32_loop crc p sz =
     (if sz = 0 then Ok crc
      else if sz = - (2 ^ 31) then Fault BadAccess
      else case p of
        [] \<Rightarrow> Fault BadAccess
      | b # p \<Rightarrow> crc32_loop (iavb_crc32_tab ! unat ((crc XOR ucast b) AND 0xff) XOR drop_bit 8 crc) p (sz - 1))"

declare crc32_loop.simps [simp del]

definition iavb_crc32 :: "u32 \<Rightarrow> bytes \<Rightarrow> int \<Rightarrow> u32 res" where
  "iavb_crc32 crc_in buf sz = bnd (crc32_loop (crc_in XOR NOT 0) buf sz) (\<lambda>crc. Ok (crc XOR NOT 0))"

text \<open>The \<open>size_t\<close> argument is converted to \<open>int\<close>.\<close>

definition avb_crc32 :: "bytes \<Rightarrow> u64 \<Rightarrow> u32 res" where
  "avb_crc32 buf sz = iavb_crc32 0 buf (sint (ucast sz :: u32))"

section \<open>The shift register\<close>

text \<open>One step of the reflected division by the polynomial, and a byte's eight steps.\<close>

definition crc_bit :: "u32 \<Rightarrow> u32" where
  "crc_bit c = (if bit c 0 then drop_bit 1 c XOR 0xedb88320 else drop_bit 1 c)"

definition crc_byte :: "u32 \<Rightarrow> u8 \<Rightarrow> u32" where
  "crc_byte c b = (crc_bit ^^ 8) (c XOR ucast b)"

definition crc32_ref :: "bytes \<Rightarrow> u32" where
  "crc32_ref bs = NOT (foldl crc_byte (NOT 0) bs)"

lemma crc_bit_xor: "crc_bit (x XOR y) = crc_bit x XOR crc_bit y"
  by (rule bit_word_eqI) (auto simp: crc_bit_def bit_simps)

lemma crc_bits_xor: "(crc_bit ^^ n) (x XOR y) = (crc_bit ^^ n) x XOR (crc_bit ^^ n) y"
  by (induction n) (simp_all add: crc_bit_xor)

lemma crc_bits_shift: "(\<And>i. i < n \<Longrightarrow> \<not> bit y i) \<Longrightarrow> (crc_bit ^^ n) y = drop_bit n y"
proof (induction n)
  case (Suc n)
  then have "(crc_bit ^^ n) y = drop_bit n y" "\<not> bit y n" by auto
  moreover have "crc_bit x = drop_bit 1 x" if "\<not> bit x 0" for x
    using that by (simp add: crc_bit_def)
  ultimately show ?case by (simp add: bit_simps)
qed simp

text \<open>A register in which the low bits and the others are processed apart.\<close>

lemma crc_bits_split: "(crc_bit ^^ n) c = (crc_bit ^^ n) (take_bit n c) XOR drop_bit n c"
proof -
  have "c = take_bit n c XOR (c AND NOT (mask n))"
    by (rule bit_word_eqI) (auto simp: bit_simps)
  then have "(crc_bit ^^ n) c = (crc_bit ^^ n) (take_bit n c) XOR (crc_bit ^^ n) (c AND NOT (mask n))"
    using crc_bits_xor by metis
  also have "(crc_bit ^^ n) (c AND NOT (mask n)) = drop_bit n (c AND NOT (mask n))"
    by (rule crc_bits_shift) (simp add: bit_simps)
  also have "\<dots> = drop_bit n c"
    by (rule bit_word_eqI) (auto simp: bit_simps dest: bit_imp_le_length)
  finally show ?thesis .
qed

text \<open>The entries of a table, from that of \<open>b\<close> on, as eight steps each.\<close>

fun crc_tab_from :: "u32 \<Rightarrow> u32 list \<Rightarrow> bool" where
  "crc_tab_from b [] = True"
| "crc_tab_from b (t # ts) = (crc_bit (crc_bit (crc_bit (crc_bit (crc_bit (crc_bit (crc_bit (crc_bit b))))))) = t \<and> crc_tab_from (b + 1) ts)"

lemma crc_tab: "crc_tab_from 0 iavb_crc32_tab"
  by (simp add: iavb_crc32_tab_def crc_bit_def)

lemma crc_tab_entry: "iavb_crc32_tab ! unat (b :: u8) = (crc_bit ^^ 8) (ucast b)"
proof -
  have "crc_tab_from c ts \<Longrightarrow> i < length ts \<Longrightarrow> ts ! i = (crc_bit ^^ 8) (c + of_nat i)" for c ts i
    by (induction ts arbitrary: c i) (auto simp: nth_Cons numeral_eq_Suc add.assoc split: nat.splits)
  from this [OF crc_tab, of "unat b"] show ?thesis
    using unat_u8_less [of b] by (simp add: iavb_crc32_tab_def)
qed

text \<open>The table lookup of the loop is a byte's eight steps.\<close>

lemma crc_step: "iavb_crc32_tab ! unat ((c XOR ucast b) AND 0xff) XOR drop_bit 8 c = crc_byte c b"
proof -
  let ?x = "c XOR ucast b"
  have low: "?x AND 0xff = ucast (ucast ?x :: u8)"
  proof -
    have "(0xff :: u32) = mask 8" by (simp add: mask_eq_exp_minus_1)
    then show ?thesis by (simp add: bit_eq_iff bit_simps) auto
  qed
  have "drop_bit 8 c = drop_bit 8 ?x"
    by (rule bit_word_eqI) (auto simp: bit_simps dest: bit_imp_le_length)
  moreover have "(ucast (ucast ?x :: u8) :: u32) = take_bit 8 ?x"
    by (rule bit_word_eqI) (auto simp: bit_simps)
  moreover have "iavb_crc32_tab ! unat (ucast (ucast ?x :: u8) :: u32) = (crc_bit ^^ 8) (ucast (ucast ?x :: u8))"
    using crc_tab_entry [of "ucast ?x"] by (simp add: unat_ucast_up)
  ultimately show ?thesis
    unfolding crc_byte_def low using crc_bits_split [of 8 ?x] by simp
qed

lemma crc32_loop_ref:
  "n \<le> length p \<Longrightarrow> crc32_loop crc p (int n) = Ok (foldl crc_byte crc (take n p))"
proof (induction n arbitrary: crc p)
  case 0
  show ?case by (simp add: crc32_loop.simps)
next
  case (Suc n)
  then obtain b q where p: "p = b # q" "n \<le> length q" by (cases p) auto
  have "crc32_loop crc p (int (Suc n)) = crc32_loop (crc_byte crc b) q (int n)"
    by (subst crc32_loop.simps) (simp add: p crc_step)
  with Suc.IH [OF p(2)] show ?case by (simp add: p)
qed

lemma crc32_loop_short: "length p < n \<Longrightarrow> crc32_loop crc p (int n) = Fault BadAccess"
proof (induction p arbitrary: crc n)
  case Nil
  then show ?case by (subst crc32_loop.simps) simp
next
  case (Cons b p)
  then obtain m where "n = Suc m" "length p < m" by (cases n) auto
  then show ?case by (subst crc32_loop.simps) (simp add: Cons.IH)
qed

lemma sint_small: "n < 2 ^ 31 \<Longrightarrow> sint (ucast (of_nat n :: u64) :: u32) = int n"
proof -
  assume n: "n < 2 ^ 31"
  then have "(ucast (of_nat n :: u64) :: u32) = of_nat n"
    by (simp add: word_unat_eq_iff unsigned_ucast_eq unsigned_of_nat take_bit_nat_eq_self)
  with n show ?thesis
    by (simp add: signed_of_nat signed_take_bit_int_eq_self)
qed

lemma avb_crc32_ref: "n \<le> length buf \<Longrightarrow> n < 2 ^ 31 \<Longrightarrow> avb_crc32 buf (of_nat n) = Ok (crc32_ref (take n buf))"
  by (simp add: avb_crc32_def iavb_crc32_def sint_small crc32_loop_ref crc32_ref_def)

section \<open>Burst errors\<close>

lemma xor_cancel: "x XOR z = y XOR z \<longleftrightarrow> x = (y :: u32)"
  by (metis xor.assoc xor_self_eq xor.right_neutral)

text \<open>The register can be run backwards, so different registers stay different.\<close>

lemma crc_bit_inject: "crc_bit x = crc_bit y \<longleftrightarrow> x = y"
proof
  assume e: "crc_bit x = crc_bit y"
  have top: "bit (crc_bit z) 31 = bit z 0" for z
    by (auto simp: crc_bit_def bit_simps dest: bit_imp_le_length)
  then have low: "bit x 0 = bit y 0" using e by metis
  then have "drop_bit 1 x = drop_bit 1 y"
    using e by (auto simp: crc_bit_def xor_cancel split: if_splits)
  show "x = y"
  proof (rule bit_word_eqI)
    fix n show "bit x n = bit y n"
    proof (cases n)
      case (Suc m)
      have "bit (drop_bit 1 x) m = bit (drop_bit 1 y) m" using \<open>drop_bit 1 x = drop_bit 1 y\<close> by simp
      then show ?thesis by (simp add: Suc bit_simps)
    qed (simp add: low)
  qed
qed simp

lemma crc_bits_inject: "(crc_bit ^^ n) x = (crc_bit ^^ n) y \<longleftrightarrow> x = y"
  by (induction n) (simp_all add: crc_bit_inject)

lemma crc_fold_inject: "foldl crc_byte x bs = foldl crc_byte y bs \<longleftrightarrow> x = y"
  by (induction bs arbitrary: x y) (simp_all add: crc_byte_def crc_bits_inject xor_cancel)

text \<open>Up to four bytes enter the register as one word.\<close>

fun le_word :: "bytes \<Rightarrow> u32" where
  "le_word [] = 0"
| "le_word (b # bs) = ucast b XOR push_bit 8 (le_word bs)"

lemma le_word_high: "8 * length bs \<le> n \<Longrightarrow> \<not> bit (le_word bs) n"
  by (induction bs arbitrary: n) (auto simp: bit_simps dest: bit_imp_le_length)

lemma crc_fold_word:
  "length bs \<le> 4 \<Longrightarrow> foldl crc_byte c bs = (crc_bit ^^ (8 * length bs)) (c XOR le_word bs)"
proof (induction bs arbitrary: c)
  case (Cons b bs)
  let ?w = "le_word bs"
  have "(crc_bit ^^ 8) (push_bit 8 ?w) = ?w"
  proof -
    have "(crc_bit ^^ 8) (push_bit 8 ?w) = drop_bit 8 (push_bit 8 ?w)"
      by (rule crc_bits_shift) (simp add: bit_simps)
    also have "\<dots> = ?w"
    proof (rule bit_word_eqI)
      fix n
      have "\<not> bit ?w n" if "24 \<le> n"
        using that Cons.prems by (intro le_word_high) simp
      then show "bit (drop_bit 8 (push_bit 8 ?w)) n = bit ?w n"
        by (cases "24 \<le> n") (auto simp: bit_simps)
    qed
    finally show ?thesis .
  qed
  then have "crc_byte c b XOR ?w = (crc_bit ^^ 8) (c XOR le_word (b # bs))"
    by (simp add: crc_byte_def crc_bits_xor xor.assoc)
  moreover have "(crc_bit ^^ (8 * length (b # bs))) z = (crc_bit ^^ (8 * length bs)) ((crc_bit ^^ 8) z)" for z
    by (simp add: add.commute [of 8] funpow_add)
  ultimately show ?case
    using Cons by simp
qed simp

lemma le_word_inject: "length xs = length ys \<Longrightarrow> length xs \<le> 4 \<Longrightarrow> le_word xs = le_word ys \<Longrightarrow> xs = ys"
proof (induction xs ys rule: list_induct2)
  case (Cons x xs y ys)
  have bits: "bit (le_word (z # zs)) n = (if n < 8 then bit z n else bit (le_word zs) (n - 8))"
    if "n < 32" for z zs n
    using that by (auto simp: bit_simps dest: bit_imp_le_length)
  have "x = y"
  proof (rule bit_word_eqI)
    fix n assume "n < LENGTH(8)"
    then show "bit x n = bit y n"
      using bits [of n x xs] bits [of n y ys] Cons.prems(2) by simp
  qed
  moreover have "le_word xs = le_word ys"
  proof (rule bit_word_eqI)
    fix n assume "n < LENGTH(32)"
    show "bit (le_word xs) n = bit (le_word ys) n"
    proof (cases "n < 24")
      case True
      then show ?thesis
        using bits [of "n + 8" x xs] bits [of "n + 8" y ys] Cons.prems(2) by simp
    next
      case False
      then show ?thesis
        using le_word_high [of xs n] le_word_high [of ys n] Cons.hyps Cons.prems(1) by simp
    qed
  qed
  ultimately show ?case using Cons by simp
qed simp

text \<open>A change confined to four consecutive bytes changes the checksum.\<close>

lemma crc32_burst:
  assumes "length xs = length ys" "length xs \<le> 4" "xs \<noteq> ys"
  shows "crc32_ref (pre @ xs @ post) \<noteq> crc32_ref (pre @ ys @ post)"
proof
  assume "crc32_ref (pre @ xs @ post) = crc32_ref (pre @ ys @ post)"
  then have "foldl crc_byte (foldl crc_byte (foldl crc_byte (NOT 0) pre) xs) post =
      foldl crc_byte (foldl crc_byte (foldl crc_byte (NOT 0) pre) ys) post"
    unfolding crc32_ref_def foldl_append by (metis bit.double_compl)
  then have "foldl crc_byte (foldl crc_byte (NOT 0) pre) xs = foldl crc_byte (foldl crc_byte (NOT 0) pre) ys"
    unfolding crc_fold_inject .
  then have "le_word xs = le_word ys"
    using assms by (simp add: crc_fold_word crc_bits_inject) (metis xor.commute xor_cancel)
  with assms le_word_inject show False by blast
qed

end
