(* ===== verification/Sparse_Blocks.thy ===== *)
theory Sparse_Blocks
  imports Avb_Util
begin

text \<open>
  The list of backed blocks of the sparse image library (\<open>backed_block.cpp\<close>): what each block of an image is
  backed by, sorted by block number, with neighbours merged. A list linked by pointers is a list here and a
  pointer to a node the position of the node; \<open>last_used\<close> is such a position. The library is compiled with
  \<open>NDEBUG\<close>, so \<open>assert\<close> does nothing; reading the wrong member of the union is a \<open>Fault\<close>.
\<close>

section \<open>Definitions\<close>

text \<open>
  A data pointer is the memory from the pointer on; a file name is null when \<open>strdup\<close> failed; offsets are
  64-bit words in two's complement.
\<close>

datatype backed_block_kind =
    BACKED_BLOCK_DATA bytes
  | BACKED_BLOCK_FILE "bytes option" u64
  | BACKED_BLOCK_FD int u64
  | BACKED_BLOCK_FILL u32

record backed_block =
  bb_block :: u32
  bb_len :: u32
  bb_kind :: backed_block_kind

record backed_block_list =
  data_blocks :: "backed_block list"
  last_used :: "nat option"
  bbl_block_size :: u32

definition EINVAL :: int where "EINVAL = 22"
definition ENOMEM :: int where "ENOMEM = 12"

definition backed_block_data :: "backed_block \<Rightarrow> bytes res" where
  "backed_block_data bb = (case bb_kind bb of BACKED_BLOCK_DATA data \<Rightarrow> Ok data | _ \<Rightarrow> Fault BadAccess)"

definition backed_block_filename :: "backed_block \<Rightarrow> bytes option res" where
  "backed_block_filename bb = (case bb_kind bb of BACKED_BLOCK_FILE filename _ \<Rightarrow> Ok filename | _ \<Rightarrow> Fault BadAccess)"

definition backed_block_fd :: "backed_block \<Rightarrow> int res" where
  "backed_block_fd bb = (case bb_kind bb of BACKED_BLOCK_FD fd _ \<Rightarrow> Ok fd | _ \<Rightarrow> Fault BadAccess)"

definition backed_block_file_offset :: "backed_block \<Rightarrow> u64 res" where
  "backed_block_file_offset bb = (case bb_kind bb of
     BACKED_BLOCK_FILE _ offset \<Rightarrow> Ok offset | BACKED_BLOCK_FD _ offset \<Rightarrow> Ok offset | _ \<Rightarrow> Fault BadAccess)"

definition backed_block_fill_val :: "backed_block \<Rightarrow> u32 res" where
  "backed_block_fill_val bb = (case bb_kind bb of BACKED_BLOCK_FILL val \<Rightarrow> Ok val | _ \<Rightarrow> Fault BadAccess)"

text \<open>Whether an allocation succeeds.\<close>

definition try_alloc :: "nat \<Rightarrow> heap \<Rightarrow> bool \<times> heap" where
  "try_alloc n h = (case avb_malloc n h of (p, h) \<Rightarrow> (p \<noteq> None, h))"

definition backed_block_list_new :: "u32 \<Rightarrow> heap \<Rightarrow> (backed_block_list \<times> heap) res" where
  "backed_block_list_new block_size h =
     (case try_alloc 24 h of (ok, h) \<Rightarrow>
      if ok then Ok (\<lparr>data_blocks = [], last_used = None, bbl_block_size = block_size\<rparr>, h) else Fault BadAccess)"

subsection \<open>Moving\<close>

text \<open>How many steps the pointer advances while the next block is there and \<open>before\<close> holds of its number.\<close>

fun advance :: "(u32 \<Rightarrow> bool) \<Rightarrow> backed_block list \<Rightarrow> nat" where
  "advance before (bb # bb' # bs) = (if before (bb_block bb') then Suc (advance before (bb' # bs)) else 0)"
| "advance before _ = 0"

text \<open>\<open>start\<close> and \<open>end\<close> are positions in \<open>from\<close>, or null.\<close>

definition backed_block_list_move ::
    "backed_block_list \<Rightarrow> backed_block_list \<Rightarrow> nat option \<Rightarrow> nat option \<Rightarrow> backed_block_list \<times> backed_block_list" where
  "backed_block_list_move from to start last_block =
     (let bs = data_blocks from;
          s = (case start of None \<Rightarrow> 0 | Some k \<Rightarrow> k);
          e = (case last_block of None \<Rightarrow> length bs - 1 | Some k \<Rightarrow> k)
      in if bs = [] then (from, to)
         else let moved = take (Suc e - s) (drop s bs);
                  kept = take s bs @ drop (Suc e) bs;
                  ts = data_blocks to;
                  ts' = (if ts = [] then moved
                         else let k = Suc (advance (\<lambda>n. \<not> n > bb_block (bs ! s)) ts)
                              in take k ts @ moved @ drop k ts)
              in (from\<lparr>data_blocks := kept, last_used := None\<rparr>, to\<lparr>data_blocks := ts', last_used := None\<rparr>))"

subsection \<open>Queueing\<close>

text \<open>\<open>Some\<close> merged block, or \<open>None\<close> for \<open>-EINVAL\<close>. A division by zero is a \<open>Fault\<close>.\<close>

definition merge_bb :: "u32 \<Rightarrow> backed_block option \<Rightarrow> backed_block option \<Rightarrow> backed_block option res" where
  "merge_bb block_size a b =
     (case (a, b) of
        (Some a, Some b) \<Rightarrow>
          let merged = Ok (Some (a\<lparr>bb_len := bb_len a + bb_len b\<rparr>));
              adjacent = (\<lambda>k. if block_size = 0 then Fault BadAccess
                else if bb_block a + bb_len a div block_size \<noteq> bb_block b then Ok None else k)
          in (case (bb_kind a, bb_kind b) of
                (BACKED_BLOCK_DATA _, BACKED_BLOCK_DATA _) \<Rightarrow> adjacent (Ok None)
              | (BACKED_BLOCK_FILL v, BACKED_BLOCK_FILL w) \<Rightarrow> adjacent (if v \<noteq> w then Ok None else merged)
              | (BACKED_BLOCK_FILE f ofs, BACKED_BLOCK_FILE g ofs') \<Rightarrow> adjacent
                  (deref f (\<lambda>f. deref g (\<lambda>g. if f \<noteq> g \<or> ofs + ucast (bb_len a) \<noteq> ofs' then Ok None else merged)))
              | (BACKED_BLOCK_FD f ofs, BACKED_BLOCK_FD g ofs') \<Rightarrow> adjacent
                  (if f \<noteq> g \<or> ofs + ucast (bb_len a) \<noteq> ofs' then Ok None else merged)
              | _ \<Rightarrow> Ok None)
      | _ \<Rightarrow> Ok None)"

text \<open>Merging the node at a position with the one after it: whether it happened, and the list.\<close>

definition node :: "backed_block list \<Rightarrow> nat \<Rightarrow> backed_block option" where
  "node bs i = (if i < length bs then Some (bs ! i) else None)"

definition merge_at :: "u32 \<Rightarrow> backed_block list \<Rightarrow> nat \<Rightarrow> (bool \<times> backed_block list) res" where
  "merge_at block_size bs i =
     bnd (merge_bb block_size (node bs i) (node bs (Suc i))) (\<lambda>r. Ok (case r of
       None \<Rightarrow> (False, bs) | Some a \<Rightarrow> (True, take i bs @ a # drop (i + 2) bs)))"

text \<open>Where the search starts: at \<open>last_used\<close> when the new block comes after it.\<close>

definition search_start :: "backed_block_list \<Rightarrow> backed_block \<Rightarrow> nat" where
  "search_start bbl new_bb = (case last_used bbl of
     Some k \<Rightarrow> if bb_block new_bb > bb_block (data_blocks bbl ! k) then k else 0 | None \<Rightarrow> 0)"

definition queue_bb :: "backed_block_list \<Rightarrow> backed_block \<Rightarrow> (int \<times> backed_block_list) res" where
  "queue_bb bbl new_bb =
     (let bs = data_blocks bbl in
      case bs of
        [] \<Rightarrow> Ok (0, bbl\<lparr>data_blocks := [new_bb]\<rparr>)
      | first # _ \<Rightarrow>
          if bb_block first > bb_block new_bb
          then Ok (0, bbl\<lparr>data_blocks := new_bb # bs, last_used := map_option Suc (last_used bbl)\<rparr>)
          else
            let s = search_start bbl new_bb;
                i = s + advance (\<lambda>n. n < bb_block new_bb) (drop s bs);
                bs = take (Suc i) bs @ new_bb # drop (Suc i) bs
            in bnd (merge_at (bbl_block_size bbl) bs (Suc i)) (\<lambda>(_, bs).
               bnd (merge_at (bbl_block_size bbl) bs i) (\<lambda>(merged, bs).
               Ok (0, bbl\<lparr>data_blocks := bs, last_used := Some (if merged then i else Suc i)\<rparr>))))"

definition add_block :: "backed_block_list \<Rightarrow> backed_block \<Rightarrow> heap \<Rightarrow> (int \<times> backed_block_list \<times> heap) res" where
  "add_block bbl bb h =
     (case try_alloc 40 h of (ok, h) \<Rightarrow>
      if \<not> ok then Ok (- ENOMEM, bbl, h)
      else bnd (queue_bb bbl bb) (\<lambda>(ret, bbl). Ok (ret, bbl, h)))"

definition backed_block_add_fill ::
    "backed_block_list \<Rightarrow> u32 \<Rightarrow> u32 \<Rightarrow> u32 \<Rightarrow> heap \<Rightarrow> (int \<times> backed_block_list \<times> heap) res" where
  "backed_block_add_fill bbl fill_val len block =
     add_block bbl \<lparr>bb_block = block, bb_len = len, bb_kind = BACKED_BLOCK_FILL fill_val\<rparr>"

definition backed_block_add_data ::
    "backed_block_list \<Rightarrow> bytes \<Rightarrow> u32 \<Rightarrow> u32 \<Rightarrow> heap \<Rightarrow> (int \<times> backed_block_list \<times> heap) res" where
  "backed_block_add_data bbl data len block =
     add_block bbl \<lparr>bb_block = block, bb_len = len, bb_kind = BACKED_BLOCK_DATA data\<rparr>"

text \<open>The allocation of the block comes before that of the name.\<close>

definition backed_block_add_file ::
    "backed_block_list \<Rightarrow> bytes \<Rightarrow> u64 \<Rightarrow> u32 \<Rightarrow> u32 \<Rightarrow> heap \<Rightarrow> (int \<times> backed_block_list \<times> heap) res" where
  "backed_block_add_file bbl filename offset len block h =
     (case try_alloc 40 h of (ok, h) \<Rightarrow>
      if \<not> ok then Ok (- ENOMEM, bbl, h)
      else case try_alloc (length filename + 1) h of (named, h) \<Rightarrow>
      bnd (queue_bb bbl \<lparr>bb_block = block, bb_len = len,
          bb_kind = BACKED_BLOCK_FILE (if named then Some filename else None) offset\<rparr>) (\<lambda>(ret, bbl). Ok (ret, bbl, h)))"

definition backed_block_add_fd ::
    "backed_block_list \<Rightarrow> int \<Rightarrow> u64 \<Rightarrow> u32 \<Rightarrow> u32 \<Rightarrow> heap \<Rightarrow> (int \<times> backed_block_list \<times> heap) res" where
  "backed_block_add_fd bbl fd offset len block =
     add_block bbl \<lparr>bb_block = block, bb_len = len, bb_kind = BACKED_BLOCK_FD fd offset\<rparr>"

subsection \<open>Splitting\<close>

fun kind_at :: "backed_block_kind \<Rightarrow> nat \<Rightarrow> backed_block_kind" where
  "kind_at (BACKED_BLOCK_DATA data) n = BACKED_BLOCK_DATA (drop n data)"
| "kind_at (BACKED_BLOCK_FILE f ofs) n = BACKED_BLOCK_FILE f (ofs + of_nat n)"
| "kind_at (BACKED_BLOCK_FD fd ofs) n = BACKED_BLOCK_FD fd (ofs + of_nat n)"
| "kind_at (BACKED_BLOCK_FILL v) n = BACKED_BLOCK_FILL v"

text \<open>\<open>k\<close> is the position of the block to split.\<close>

definition backed_block_split :: "backed_block_list \<Rightarrow> nat \<Rightarrow> u32 \<Rightarrow> heap \<Rightarrow> (int \<times> backed_block_list \<times> heap) res" where
  "backed_block_split bbl k max_len h =
     (let bs = data_blocks bbl; bb = bs ! k; sz = bbl_block_size bbl in
      if sz = 0 then Fault BadAccess
      else let max_len = sz * (max_len div sz) in
      if bb_len bb \<le> max_len then Ok (0, bbl, h)
      else case try_alloc 40 h of (ok, h) \<Rightarrow>
      if \<not> ok then Ok (- ENOMEM, bbl, h)
      else let new_bb = bb\<lparr>bb_len := bb_len bb - max_len, bb_block := bb_block bb + max_len div sz,
                 bb_kind := kind_at (bb_kind bb) (unat max_len)\<rparr>
           in Ok (0, bbl\<lparr>data_blocks := take k bs @ [bb\<lparr>bb_len := max_len\<rparr>, new_bb] @ drop (Suc k) bs,
                last_used := map_option (\<lambda>j. if j > k then Suc j else j) (last_used bbl)\<rparr>, h))"


section \<open>The image a list of blocks stands for\<close>

text \<open>
  \<open>backing\<close> is what the files hold, by name and by descriptor. A block of any kind that ends inside an image
  block is padded with zeros, as \<open>sparse.h\<close> says of the operations that add one. The writers do so for data;
  a fill they write as whole blocks of its pattern, so what is said of them is about \<open>whole_fills\<close>.
\<close>

record backing =
  named_file :: "bytes \<Rightarrow> u64 \<Rightarrow> u8"
  open_file :: "int \<Rightarrow> u64 \<Rightarrow> u8"

fun kind_byte :: "backing \<Rightarrow> backed_block_kind \<Rightarrow> nat \<Rightarrow> u8" where
  "kind_byte env (BACKED_BLOCK_DATA data) p = data ! p"
| "kind_byte env (BACKED_BLOCK_FILE f ofs) p = (case f of Some f \<Rightarrow> named_file env f (ofs + of_nat p) | None \<Rightarrow> 0)"
| "kind_byte env (BACKED_BLOCK_FD fd ofs) p = open_file env fd (ofs + of_nat p)"
| "kind_byte env (BACKED_BLOCK_FILL v) p = byte_at v (p mod 4)"

fun is_fill :: "backed_block_kind \<Rightarrow> bool" where
  "is_fill (BACKED_BLOCK_FILL _) = True"
| "is_fill _ = False"

fun kind_present :: "backed_block_kind \<Rightarrow> nat \<Rightarrow> bool" where
  "kind_present (BACKED_BLOCK_DATA data) n = (n \<le> length data)"
| "kind_present (BACKED_BLOCK_FILE f _) n = (f \<noteq> None)"
| "kind_present _ n = True"

definition block_byte :: "backing \<Rightarrow> backed_block \<Rightarrow> nat \<Rightarrow> u8" where
  "block_byte env bb p = (if p < unat (bb_len bb) then kind_byte env (bb_kind bb) p else 0)"

abbreviation whole_fills :: "u32 \<Rightarrow> backed_block list \<Rightarrow> bool" where
  "whole_fills sz bs \<equiv> \<forall>bb\<in>set bs. is_fill (bb_kind bb) \<longrightarrow> unat sz dvd unat (bb_len bb)"

definition block_bytes :: "backing \<Rightarrow> u32 \<Rightarrow> backed_block \<Rightarrow> nat \<Rightarrow> bytes" where
  "block_bytes env sz bb k = map (\<lambda>i. block_byte env bb (k * unat sz + i)) [0..<unat sz]"

definition past :: "u32 \<Rightarrow> backed_block \<Rightarrow> nat" where
  "past sz bb = unat (bb_block bb) + (unat (bb_len bb) + unat sz - 1) div unat sz"

definition covers :: "backing \<Rightarrow> u32 \<Rightarrow> backed_block \<Rightarrow> nat \<rightharpoonup> bytes" where
  "covers env sz bb = (\<lambda>n. if unat (bb_block bb) \<le> n \<and> n < past sz bb
     then Some (block_bytes env sz bb (n - unat (bb_block bb))) else None)"

fun block_image :: "backing \<Rightarrow> u32 \<Rightarrow> backed_block list \<Rightarrow> nat \<rightharpoonup> bytes" where
  "block_image env sz [] = Map.empty"
| "block_image env sz (bb # bs) = block_image env sz bs ++ covers env sz bb"

text \<open>Well-formed lists: non-empty blocks with their data, in order and without overlaps.\<close>

definition block_fits :: "u32 \<Rightarrow> backed_block \<Rightarrow> bool" where
  "block_fits sz bb \<longleftrightarrow> 0 < bb_len bb \<and> past sz bb < 2 ^ 32 \<and> kind_present (bb_kind bb) (unat (bb_len bb))"

definition blocks_ok :: "u32 \<Rightarrow> backed_block list \<Rightarrow> bool" where
  "blocks_ok sz bs \<longleftrightarrow> list_all (block_fits sz) bs \<and> sorted_wrt (\<lambda>a b. past sz a \<le> unat (bb_block b)) bs"

definition total_len :: "backed_block list \<Rightarrow> nat" where
  "total_len bs = (\<Sum>bb\<leftarrow>bs. unat (bb_len bb))"

definition list_ok :: "backed_block_list \<Rightarrow> bool" where
  "list_ok bbl \<longleftrightarrow> 0 < bbl_block_size bbl \<and> 4 dvd unat (bbl_block_size bbl) \<and>
     blocks_ok (bbl_block_size bbl) (data_blocks bbl) \<and> total_len (data_blocks bbl) < 2 ^ 32 \<and>
     (\<forall>k. last_used bbl = Some k \<longrightarrow> k < length (data_blocks bbl))"

section \<open>Lemmas\<close>

lemma total_len_simps [simp]:
  "total_len [] = 0" "total_len (b # bs) = unat (bb_len b) + total_len bs"
  "total_len (xs @ ys) = total_len xs + total_len ys"
  by (simp_all add: total_len_def)

lemma block_image_append: "block_image env sz (xs @ ys) = block_image env sz ys ++ block_image env sz xs"
  by (induction xs) simp_all

lemma dom_covers: "dom (covers env sz bb) = {unat (bb_block bb)..<past sz bb}"
  by (auto simp: covers_def split: if_splits)

lemma dom_block_image: "dom (block_image env sz bs) = (\<Union>bb\<in>set bs. {unat (bb_block bb)..<past sz bb})"
  by (induction bs) (auto simp: dom_covers)

lemma blocks_ok_append:
  "blocks_ok sz (xs @ ys) \<longleftrightarrow> blocks_ok sz xs \<and> blocks_ok sz ys \<and>
     (\<forall>a\<in>set xs. \<forall>b\<in>set ys. past sz a \<le> unat (bb_block b))"
  by (auto simp: blocks_ok_def sorted_wrt_append)

lemma blocks_ok_Cons:
  "blocks_ok sz (b # bs) \<longleftrightarrow> block_fits sz b \<and> blocks_ok sz bs \<and> (\<forall>c\<in>set bs. past sz b \<le> unat (bb_block c))"
  by (auto simp: blocks_ok_def)

lemma blocks_ok_Nil [simp]: "blocks_ok sz []"
  by (simp add: blocks_ok_def)

lemma past_greater: "0 < sz \<Longrightarrow> 0 < bb_len bb \<Longrightarrow> unat (bb_block bb) < past sz bb"
  by (simp add: past_def word_less_nat_alt div_greater_zero_iff)

text \<open>A block between others: the image is extended by what the block covers.\<close>

lemma block_image_insert:
  assumes "\<forall>a\<in>set xs. past sz a \<le> unat (bb_block b)"
  shows "block_image env sz (xs @ b # ys) = block_image env sz (xs @ ys) ++ covers env sz b"
proof -
  have "dom (covers env sz b) \<inter> dom (block_image env sz xs) = {}"
    using assms by (auto simp: dom_covers dom_block_image)
  then show ?thesis
    by (simp add: block_image_append map_add_comm flip: map_add_assoc)
qed

subsection \<open>Merging\<close>

text \<open>
  Two neighbours merge only when the first ends exactly where the second begins: rounding its length
  down could find an overlap, but there is none.
\<close>

lemma adjacent_exact:
  assumes sz: "0 < sz" and a: "past sz a < 2 ^ 32" and ab: "past sz a \<le> unat (bb_block b)"
    and adj: "bb_block a + bb_len a div sz = bb_block b"
  shows "unat (bb_len a) = (unat (bb_block b) - unat (bb_block a)) * unat sz" "past sz a = unat (bb_block b)"
proof -
  let ?l = "unat (bb_len a)" and ?z = "unat sz"
  have z: "0 < ?z" using sz by (simp add: word_less_nat_alt)
  have le: "?l div ?z \<le> (?l + ?z - 1) div ?z" using z by (intro div_le_mono) simp
  have "unat (bb_block a + bb_len a div sz) = unat (bb_block a) + ?l div ?z"
    using a le by (simp add: past_def unat_word_ariths unat_div)
  then have b: "unat (bb_block b) = unat (bb_block a) + ?l div ?z" by (simp add: adj)
  with ab le have eq: "(?l + ?z - 1) div ?z = ?l div ?z" by (simp add: past_def)
  then show "past sz a = unat (bb_block b)" by (simp add: past_def b)
  have "?l mod ?z = 0"
  proof (rule ccontr)
    assume "?l mod ?z \<noteq> 0"
    then have "?l div ?z * ?z + ?z \<le> ?l + ?z - 1"
      using div_mult_mod_eq [of ?l ?z] by linarith
    then have "Suc (?l div ?z) * ?z div ?z \<le> (?l + ?z - 1) div ?z" by (intro div_le_mono) simp
    with eq z show False by simp
  qed
  then show "?l = (unat (bb_block b) - unat (bb_block a)) * ?z" by (simp add: b) (metis div_mult_mod_eq add_0_right)
qed

lemma merge_bb_kinds:
  assumes "merge_bb sz (Some a) (Some b) = Ok (Some m)"
  shows "m = a\<lparr>bb_len := bb_len a + bb_len b\<rparr>" "bb_block a + bb_len a div sz = bb_block b" "sz \<noteq> 0"
    "is_fill (bb_kind a) \<longleftrightarrow> is_fill (bb_kind b)" "kind_present (bb_kind a) n"
    "4 dvd unat (bb_len a) \<Longrightarrow> kind_byte env (bb_kind a) (unat (bb_len a) + p) = kind_byte env (bb_kind b) p"
proof (atomize (full), goal_cases)
  case 1
  show ?case
    using assms
    by (cases "bb_kind a"; cases "bb_kind b")
      (auto simp: merge_bb_def Let_def deref_eq_Ok add.assoc split: if_splits)
qed

text \<open>A block that consists of two others, one behind the other.\<close>

lemma covers_join:
  assumes la: "unat (bb_len a) = (unat (bb_block b) - unat (bb_block a)) * unat sz"
    and order: "unat (bb_block a) < unat (bb_block b)" "unat (bb_block b) \<le> past sz b" "past sz a = unat (bb_block b)"
    and m: "bb_block m = bb_block a" "past sz m = past sz b"
    and low: "\<And>p. p < unat (bb_len a) \<Longrightarrow> block_byte env m p = block_byte env a p"
    and high: "\<And>p. block_byte env m (unat (bb_len a) + p) = block_byte env b p"
  shows "covers env sz m = covers env sz b ++ covers env sz a"
proof
  fix n
  let ?a = "unat (bb_block a)" and ?b = "unat (bb_block b)" and ?z = "unat sz"
  consider "n < ?a" | "?a \<le> n" "n < ?b" | "?b \<le> n" by linarith
  then show "covers env sz m n = (covers env sz b ++ covers env sz a) n"
  proof cases
    case 2
    have "(n - ?a) * ?z + i < unat (bb_len a)" if "i < ?z" for i
    proof -
      have "Suc (n - ?a) * ?z \<le> (?b - ?a) * ?z" using 2 by (intro mult_le_mono1) simp
      then show ?thesis using that by (simp add: la)
    qed
    then have "block_bytes env sz m (n - ?a) = block_bytes env sz a (n - ?a)"
      by (auto simp: block_bytes_def low)
    then show ?thesis using 2 order by (simp add: covers_def map_add_def m)
  next
    case 3
    have "(n - ?a) * ?z + i = unat (bb_len a) + ((n - ?b) * ?z + i)" for i
      using 3 order by (simp add: la flip: add_mult_distrib)
    then have "block_bytes env sz m (n - ?a) = block_bytes env sz b (n - ?b)"
      by (simp only: block_bytes_def high add.assoc)
    then show ?thesis using 3 order by (auto simp: covers_def map_add_def m)
  qed (use order in \<open>simp add: covers_def map_add_def m\<close>)
qed

text \<open>Rounding up after whole blocks.\<close>

lemma round_up_whole: "0 < z \<Longrightarrow> (k * z + l + z - 1) div z = k + (l + z - 1) div (z :: nat)"
  using div_mult_self3 [of z k "l + z - 1"] by (simp add: add.assoc)

lemma merge_bb_covers:
  assumes m: "merge_bb sz (Some a) (Some b) = Ok (Some m)"
    and a: "block_fits sz a" and b: "block_fits sz b" and ab: "past sz a \<le> unat (bb_block b)"
    and len: "unat (bb_len a) + unat (bb_len b) < 2 ^ 32" and sz: "4 dvd unat sz"
  shows "covers env sz m = covers env sz b ++ covers env sz a" "block_fits sz m"
    "bb_block m = bb_block a" "past sz m = past sz b" "unat (bb_len m) = unat (bb_len a) + unat (bb_len b)"
proof -
  note k = merge_bb_kinds [OF m]
  have z: "0 < sz" using k(3) by (simp add: word_neq_0_conv)
  have la: "unat (bb_len a) = (unat (bb_block b) - unat (bb_block a)) * unat sz" "past sz a = unat (bb_block b)"
    using adjacent_exact [OF z _ ab k(2)] a by (simp_all add: block_fits_def)
  have four: "4 dvd unat (bb_len a)" using sz by (simp add: la(1))
  have len_m: "unat (bb_len m) = unat (bb_len a) + unat (bb_len b)" using len by (simp add: k(1) unat_word_ariths)
  then show "unat (bb_len m) = unat (bb_len a) + unat (bb_len b)" .
  show blk: "bb_block m = bb_block a" by (simp add: k(1))
  have order: "unat (bb_block a) < unat (bb_block b)" "unat (bb_block b) \<le> past sz b"
    using past_greater [OF z, of a] past_greater [OF z, of b] a b la(2) by (simp_all add: block_fits_def)
  show pm: "past sz m = past sz b"
    using order z round_up_whole [of "unat sz"] by (simp add: past_def len_m blk la(1) word_less_nat_alt)
  have kind: "bb_kind m = bb_kind a" by (simp add: k(1))
  have "0 < bb_len m" using a by (simp add: word_less_nat_alt len_m block_fits_def)
  with b k(5) show "block_fits sz m" by (simp add: block_fits_def pm kind)
  show "covers env sz m = covers env sz b ++ covers env sz a"
    using k(4) k(6) [OF four]
    by (intro covers_join [OF la(1) order la(2) blk pm]) (simp_all add: block_byte_def kind len_m)
qed

text \<open>With block size and file names there, merging does not go wrong.\<close>

lemma merge_bb_ok:
  "sz \<noteq> 0 \<Longrightarrow> block_fits sz a \<Longrightarrow> block_fits sz b \<Longrightarrow> \<exists>r. merge_bb sz (Some a) (Some b) = Ok r"
  by (cases "bb_kind a"; cases "bb_kind b") (auto simp: merge_bb_def Let_def block_fits_def)

lemma merge_at_split:
  "merge_at sz (xs @ a # b # ys) (length xs) =
     bnd (merge_bb sz (Some a) (Some b)) (\<lambda>r. Ok (case r of
       None \<Rightarrow> (False, xs @ a # b # ys) | Some m \<Rightarrow> (True, xs @ m # ys)))"
  by (simp add: merge_at_def node_def nth_append cong: option.case_cong)

lemma merge_at_end: "length bs \<le> Suc i \<Longrightarrow> merge_at sz bs i = Ok (False, bs)"
  by (simp add: merge_at_def node_def merge_bb_def split: option.split)

text \<open>What a step leaves alone: well-formedness, the image, the lengths in all, the blocks before.\<close>

definition same_image :: "u32 \<Rightarrow> backed_block list \<Rightarrow> backed_block list \<Rightarrow> bool" where
  "same_image sz bs bs' \<longleftrightarrow> blocks_ok sz bs' \<and> (\<forall>env. block_image env sz bs' = block_image env sz bs) \<and>
     total_len bs' = total_len bs"

lemma merge_at_same:
  assumes sz: "0 < sz" "4 dvd unat sz" and ok: "blocks_ok sz bs" and len: "total_len bs < 2 ^ 32" and i: "i < length bs"
  shows "\<exists>merged bs'. merge_at sz bs i = Ok (merged, bs') \<and> same_image sz bs bs' \<and> take i bs' = take i bs \<and>
    length bs' = (if merged then length bs - 1 else length bs) \<and>
    i < length bs' \<and> bb_block (bs' ! i) = bb_block (bs ! i)"
proof (cases "Suc i < length bs")
  case False
  then show ?thesis using ok i by (intro exI [of _ False]) (simp add: merge_at_end same_image_def)
next
  case True
  define xs where "xs = take i bs"
  obtain a b ys where bs: "bs = xs @ a # b # ys" "length xs = i"
    using True by (metis Cons_nth_drop_Suc Suc_lessD append_take_drop_id length_take less_imp_le_nat min.absorb2 xs_def)
  have fits: "block_fits sz a" "block_fits sz b" "past sz a \<le> unat (bb_block b)"
    using ok by (simp_all add: bs blocks_ok_append blocks_ok_Cons)
  obtain r where r: "merge_bb sz (Some a) (Some b) = Ok r" using merge_bb_ok [OF _ fits(1,2)] sz by (auto simp: word_neq_0_conv)
  show ?thesis
  proof (cases r)
    case None
    then show ?thesis using ok r by (intro exI [of _ False]) (simp add: bs merge_at_split same_image_def flip: bs(2))
  next
    case (Some m)
    have l: "unat (bb_len a) + unat (bb_len b) < 2 ^ 32" using len by (simp add: bs)
    note m = merge_bb_covers [OF r [unfolded Some] fits l sz(2)]
    have "blocks_ok sz (xs @ m # ys)" using ok m by (auto simp: bs blocks_ok_append blocks_ok_Cons)
    then show ?thesis
      using r Some m by (intro exI [of _ True]) (simp add: bs merge_at_split same_image_def block_image_append flip: bs(2))
  qed
qed

subsection \<open>Queueing\<close>

text \<open>The search stops behind the last block with a smaller number, if there is one, else at the first.\<close>

lemma advance_less: "bs \<noteq> [] \<Longrightarrow> advance before bs < length bs"
  by (induction before bs rule: advance.induct) auto

lemma advance_before: "0 < j \<Longrightarrow> j \<le> advance before bs \<Longrightarrow> before (bb_block (bs ! j))"
proof (induction before bs arbitrary: j rule: advance.induct)
  case (1 before bb bb' bs)
  then show ?case using "1.IH" [of "j - 1"] by (cases "j = 1") (auto split: if_splits simp: nth_Cons')
qed auto

lemma advance_stop: "Suc (advance before bs) < length bs \<Longrightarrow> \<not> before (bb_block (bs ! Suc (advance before bs)))"
  by (induction before bs rule: advance.induct) auto

lemma blocks_ok_sorted:
  "blocks_ok sz bs \<Longrightarrow> 0 < sz \<Longrightarrow> i < j \<Longrightarrow> j < length bs \<Longrightarrow>
     past sz (bs ! i) \<le> unat (bb_block (bs ! j)) \<and> bb_block (bs ! i) < bb_block (bs ! j)"
proof -
  assume a: "blocks_ok sz bs" "0 < sz" "i < j" "j < length bs"
  then have "past sz (bs ! i) \<le> unat (bb_block (bs ! j))" by (simp add: blocks_ok_def sorted_wrt_iff_nth_less)
  moreover have "unat (bb_block (bs ! i)) < past sz (bs ! i)"
    using a by (intro past_greater) (auto simp: blocks_ok_def list_all_length block_fits_def)
  ultimately show ?thesis by (simp add: word_less_nat_alt)
qed

lemma search_place:
  assumes ok: "blocks_ok sz bs" "0 < sz" and s: "s < length bs" "s = 0 \<or> bb_block (bs ! s) < v"
    and first: "\<not> bb_block (hd bs) > v"
  defines "i \<equiv> s + advance (\<lambda>n. n < v) (drop s bs)"
  shows "i < length bs" "\<forall>j\<le>i. \<not> bb_block (bs ! j) > v" "\<forall>j>i. j < length bs \<longrightarrow> \<not> bb_block (bs ! j) < v"
    "0 < i \<Longrightarrow> bb_block (bs ! i) < v"
proof -
  have i: "i < length bs" using advance_less [of "drop s bs" "\<lambda>n. n < v"] s by (simp add: i_def)
  then show "i < length bs" .
  have last: "bb_block (bs ! i) < v" if "0 < i"
  proof (cases "advance (\<lambda>n. n < v) (drop s bs)")
    case 0
    then show ?thesis using that s by (simp add: i_def)
  next
    case (Suc k)
    then show ?thesis
      using advance_before [of "Suc k" "\<lambda>n. n < v" "drop s bs"] i by (simp add: i_def add.commute)
  qed
  then show "0 < i \<Longrightarrow> bb_block (bs ! i) < v" .
  show "\<forall>j\<le>i. \<not> bb_block (bs ! j) > v"
  proof (intro allI impI)
    fix j assume j: "j \<le> i"
    show "\<not> bb_block (bs ! j) > v"
    proof (cases "j = 0")
      case True
      then show ?thesis using first i by (cases bs) simp_all
    next
      case False
      then have "bb_block (bs ! j) \<le> bb_block (bs ! i)"
        using blocks_ok_sorted [OF ok, of j i] i j by (cases "j = i") auto
      then show ?thesis using last j False by simp
    qed
  qed
  show "\<forall>j>i. j < length bs \<longrightarrow> \<not> bb_block (bs ! j) < v"
  proof (intro allI impI)
    fix j assume j: "i < j" "j < length bs"
    then have "\<not> bb_block (bs ! Suc i) < v"
      using advance_stop [of "\<lambda>n. n < v" "drop s bs"] by (simp add: i_def)
    moreover have "bb_block (bs ! Suc i) \<le> bb_block (bs ! j)"
      using blocks_ok_sorted [OF ok, of "Suc i" j] j by (cases "j = Suc i") auto
    ultimately show "\<not> bb_block (bs ! j) < v" by simp
  qed
qed

text \<open>The position does not depend on where the search starts: \<open>last_used\<close> is an optimisation only.\<close>

lemma search_unique:
  assumes ok: "blocks_ok sz bs" "0 < sz" and s: "s < length bs" "s = 0 \<or> bb_block (bs ! s) < v"
    and first: "\<not> bb_block (hd bs) > v"
  shows "s + advance (\<lambda>n. n < v) (drop s bs) = advance (\<lambda>n. n < v) bs"
proof -
  have l: "0 < length bs" using s(1) by linarith
  let ?i = "s + advance (\<lambda>n. n < v) (drop s bs)" and ?k = "advance (\<lambda>n. n < v) bs"
  note a = search_place [OF ok s first] and b = search_place [OF ok l disjI1 [OF refl] first, simplified]
  show ?thesis
  proof (rule linorder_cases [of ?i ?k])
    assume "?i < ?k"
    with a(3) b(1,4) show ?thesis by auto
  next
    assume k: "?k < ?i"
    then have "bb_block (bs ! ?i) < v" using a(4) by linarith
    with b(3) a(1) k show ?thesis by blast
  qed
qed

lemma queue_bb_insert:
  assumes ok: "list_ok bbl" and ne: "data_blocks bbl \<noteq> []" and le: "\<not> bb_block (hd (data_blocks bbl)) > bb_block b"
  obtains i where "i < length (data_blocks bbl)"
    "\<forall>j\<le>i. \<not> bb_block (data_blocks bbl ! j) > bb_block b"
    "\<forall>j>i. j < length (data_blocks bbl) \<longrightarrow> \<not> bb_block (data_blocks bbl ! j) < bb_block b"
    "search_start bbl b + advance (\<lambda>n. n < bb_block b) (drop (search_start bbl b) (data_blocks bbl)) = i"
    "advance (\<lambda>n. n < bb_block b) (data_blocks bbl) = i"
proof -
  have bs: "blocks_ok (bbl_block_size bbl) (data_blocks bbl)" "0 < bbl_block_size bbl"
    and last: "\<And>k. last_used bbl = Some k \<Longrightarrow> k < length (data_blocks bbl)"
    using ok by (simp_all add: list_ok_def)
  have s: "search_start bbl b < length (data_blocks bbl)"
    "search_start bbl b = 0 \<or> bb_block (data_blocks bbl ! search_start bbl b) < bb_block b"
    using last ne by (auto simp: search_start_def split: option.split)
  show thesis
    using that [OF search_place(1-3) [OF bs s le] refl] search_unique [OF bs s le] by simp
qed

definition extends_image :: "u32 \<Rightarrow> backed_block list \<Rightarrow> backed_block \<Rightarrow> backed_block list \<Rightarrow> bool" where
  "extends_image sz bs b bs' \<longleftrightarrow> (\<forall>env. block_image env sz bs' = block_image env sz bs ++ covers env sz b) \<and>
     total_len bs' = total_len bs + unat (bb_len b)"

text \<open>Free space for the new block: no other block in its range, and the sum of lengths stays in 32 bits.\<close>

definition has_room :: "backed_block_list \<Rightarrow> backed_block \<Rightarrow> bool" where
  "has_room bbl b \<longleftrightarrow> block_fits (bbl_block_size bbl) b \<and> total_len (data_blocks bbl) + unat (bb_len b) < 2 ^ 32 \<and>
     (\<forall>a\<in>set (data_blocks bbl). past (bbl_block_size bbl) a \<le> unat (bb_block b) \<or>
        past (bbl_block_size bbl) b \<le> unat (bb_block a))"

lemma insert_ok:
  assumes ok: "blocks_ok sz bs" "0 < sz" and b: "block_fits sz b"
    and room: "\<forall>a\<in>set bs. past sz a \<le> unat (bb_block b) \<or> past sz b \<le> unat (bb_block a)"
    and below: "\<forall>j<n. \<not> bb_block (bs ! j) > bb_block b"
    and above: "\<forall>j\<ge>n. j < length bs \<longrightarrow> \<not> bb_block (bs ! j) < bb_block b" and n: "n \<le> length bs"
  shows "blocks_ok sz (take n bs @ b # drop n bs) \<and> extends_image sz bs b (take n bs @ b # drop n bs)"
proof -
  have blt: "unat (bb_block b) < past sz b" using past_greater [OF ok(2)] b by (simp add: block_fits_def)
  have lt: "unat (bb_block a) < past sz a" if "a \<in> set bs" for a
    using that ok by (intro past_greater) (auto simp: blocks_ok_def list_all_iff block_fits_def)
  have lo: "\<forall>a\<in>set (take n bs). past sz a \<le> unat (bb_block b)"
  proof
    fix a assume "a \<in> set (take n bs)"
    then obtain j where "j < n" "j < length bs" "a = bs ! j" by (auto simp: in_set_conv_nth)
    then have "unat (bb_block a) \<le> unat (bb_block b)" "a \<in> set bs" using below by (auto simp: not_less word_le_nat_alt)
    then show "past sz a \<le> unat (bb_block b)" using room blt by fastforce
  qed
  have hi: "\<forall>a\<in>set (drop n bs). past sz b \<le> unat (bb_block a)"
  proof
    fix a assume "a \<in> set (drop n bs)"
    then obtain j where "j < length bs - n" "a = bs ! (n + j)" by (auto simp: in_set_conv_nth)
    then have "\<not> bb_block a < bb_block b" "a \<in> set bs" using above by auto
    then show "past sz b \<le> unat (bb_block a)" using room lt by (fastforce simp: word_less_nat_alt)
  qed
  have "blocks_ok sz (take n bs @ drop n bs)" using ok by simp
  then have "blocks_ok sz (take n bs @ b # drop n bs)"
    using lo hi b unfolding blocks_ok_append blocks_ok_Cons by (auto dest: le_less_trans [OF _ blt] intro: le_trans less_imp_le)
  moreover have "total_len (take n bs @ b # drop n bs) = total_len (take n bs @ drop n bs) + unat (bb_len b)"
    by (simp only: total_len_simps)
  ultimately show ?thesis
    using block_image_insert [OF lo, of _ "drop n bs"] by (simp add: extends_image_def)
qed

lemma queue_bb_extends:
  assumes ok: "list_ok bbl" and room: "has_room bbl b"
  shows "\<exists>bbl'. queue_bb bbl b = Ok (0, bbl') \<and> list_ok bbl' \<and> bbl_block_size bbl' = bbl_block_size bbl \<and>
    extends_image (bbl_block_size bbl) (data_blocks bbl) b (data_blocks bbl')"
proof -
  let ?sz = "bbl_block_size bbl" and ?bs = "data_blocks bbl"
  have sz: "0 < ?sz" "4 dvd unat ?sz" and bs: "blocks_ok ?sz ?bs"
    and last: "\<And>k. last_used bbl = Some k \<Longrightarrow> k < length ?bs"
    using ok by (simp_all add: list_ok_def)
  have b: "block_fits ?sz b" "total_len ?bs + unat (bb_len b) < 2 ^ 32" using room by (simp_all add: has_room_def)
  note ins = insert_ok [OF bs sz(1) b(1)]
  have place: "\<forall>a\<in>set ?bs. past ?sz a \<le> unat (bb_block b) \<or> past ?sz b \<le> unat (bb_block a)"
    using room by (simp add: has_room_def)
  consider "?bs = []" | "?bs \<noteq> []" "bb_block (hd ?bs) > bb_block b" | "?bs \<noteq> []" "\<not> bb_block (hd ?bs) > bb_block b"
    by blast
  then show ?thesis
  proof cases
    case 1
    then show ?thesis using b sz last by (auto simp: queue_bb_def list_ok_def blocks_ok_def extends_image_def total_len_def)
  next
    case 2
    have "\<not> bb_block (?bs ! j) < bb_block b" if "j < length ?bs" for j
      using 2 blocks_ok_sorted [OF bs sz(1), of 0 j] that by (cases "j = 0") (auto simp: hd_conv_nth)
    with ins [OF place, of 0] have "blocks_ok ?sz (b # ?bs) \<and> extends_image ?sz ?bs b (b # ?bs)" by simp
    moreover have "total_len (b # ?bs) < 2 ^ 32" using b by simp
    ultimately show ?thesis
      using 2 sz last by (cases ?bs) (auto simp: queue_bb_def list_ok_def)
  next
    case 3
    obtain i where i: "i < length ?bs" "\<forall>j\<le>i. \<not> bb_block (?bs ! j) > bb_block b"
      "\<forall>j>i. j < length ?bs \<longrightarrow> \<not> bb_block (?bs ! j) < bb_block b"
      "search_start bbl b + advance (\<lambda>n. n < bb_block b) (drop (search_start bbl b) ?bs) = i"
      "advance (\<lambda>n. n < bb_block b) ?bs = i"
      by (rule queue_bb_insert [OF ok 3])
    define bs1 where "bs1 = take (Suc i) ?bs @ b # drop (Suc i) ?bs"
    have one: "blocks_ok ?sz bs1" "extends_image ?sz ?bs b bs1"
      using ins [OF place, of "Suc i"] i unfolding bs1_def by (simp_all add: less_Suc_eq_le Suc_le_eq)
    have l1: "length bs1 = Suc (length ?bs)" using i(1) by (simp add: bs1_def)
    have t1: "total_len bs1 < 2 ^ 32" using one(2) b(2) by (simp add: extends_image_def)
    obtain m2 bs2 where two: "merge_at ?sz bs1 (Suc i) = Ok (m2, bs2)" "same_image ?sz bs1 bs2" "Suc i < length bs2"
      using merge_at_same [OF sz one(1) t1, of "Suc i"] i(1) l1 by auto
    then have ok2: "blocks_ok ?sz bs2" "total_len bs2 < 2 ^ 32" using t1 by (simp_all add: same_image_def)
    obtain m3 bs3 where three: "merge_at ?sz bs2 i = Ok (m3, bs3)" "same_image ?sz bs2 bs3" "i < length bs3"
      "length bs3 = (if m3 then length bs2 - 1 else length bs2)"
      using merge_at_same [OF sz ok2, of i] two(3) by auto
    have "queue_bb bbl b = Ok (0, bbl\<lparr>data_blocks := bs3, last_used := Some (if m3 then i else Suc i)\<rparr>)"
      using 3 two(1) three(1) i(4) by (cases ?bs) (simp_all add: queue_bb_def Let_def bs1_def)
    moreover have "extends_image ?sz ?bs b bs3" using one(2) two(2) three(2) by (simp add: extends_image_def same_image_def)
    moreover have "list_ok (bbl\<lparr>data_blocks := bs3, last_used := Some (if m3 then i else Suc i)\<rparr>)"
      using sz ok2 two(2,3) three by (auto simp: list_ok_def same_image_def)
    ultimately show ?thesis by simp
  qed
qed

text \<open>Without \<open>last_used\<close> the same list results.\<close>

lemma queue_bb_search:
  assumes "list_ok bbl"
  shows "(case queue_bb bbl b of Ok (r, l) \<Rightarrow> Ok (r, data_blocks l) | Fault e \<Rightarrow> Fault e) =
    (case queue_bb (bbl\<lparr>last_used := None\<rparr>) b of Ok (r, l) \<Rightarrow> Ok (r, data_blocks l) | Fault e \<Rightarrow> Fault e)"
proof (cases "data_blocks bbl = [] \<or> bb_block (hd (data_blocks bbl)) > bb_block b")
  case True
  then show ?thesis by (cases "data_blocks bbl") (auto simp: queue_bb_def)
next
  case False
  then obtain f fs where bs: "data_blocks bbl = f # fs" by (cases "data_blocks bbl") auto
  have eq: "search_start bbl b + advance (\<lambda>n. n < bb_block b) (drop (search_start bbl b) (f # fs)) = advance (\<lambda>n. n < bb_block b) (f # fs)"
    using queue_bb_insert [OF assms, of b] False bs by metis
  define i where "i = advance (\<lambda>n. n < bb_block b) (f # fs)"
  define X where "X = merge_at (bbl_block_size bbl) (take (Suc i) (f # fs) @ b # drop (Suc i) (f # fs)) (Suc i)"
  have "queue_bb l b = bnd X (\<lambda>(_, bs). bnd (merge_at (bbl_block_size bbl) bs i) (\<lambda>(m, bs).
      Ok (0, l\<lparr>data_blocks := bs, last_used := Some (if m then i else Suc i)\<rparr>)))"
    if "l = bbl \<or> l = bbl\<lparr>last_used := None\<rparr>" for l
  proof -
    have s: "search_start l b + advance (\<lambda>n. n < bb_block b) (drop (search_start l b) (f # fs)) = i"
      using that eq by (auto simp: i_def search_start_def)
    have l: "data_blocks l = f # fs" "bbl_block_size l = bbl_block_size bbl" using that bs by auto
    show ?thesis unfolding queue_bb_def Let_def l s X_def using False bs by simp
  qed
  then have q: "queue_bb bbl b = bnd X (\<lambda>(_, bs). bnd (merge_at (bbl_block_size bbl) bs i) (\<lambda>(m, bs).
      Ok (0, bbl\<lparr>data_blocks := bs, last_used := Some (if m then i else Suc i)\<rparr>)))"
    "queue_bb (bbl\<lparr>last_used := None\<rparr>) b = bnd X (\<lambda>(_, bs). bnd (merge_at (bbl_block_size bbl) bs i) (\<lambda>(m, bs).
      Ok (0, bbl\<lparr>last_used := None, data_blocks := bs, last_used := Some (if m then i else Suc i)\<rparr>)))" by simp_all
  show ?thesis
  proof (cases X)
    case (Ok p)
    then show ?thesis
      by (cases "merge_at (bbl_block_size bbl) (snd p) i") (simp_all add: q split: prod.split)
  qed (simp add: q)
qed

subsection \<open>The operations\<close>

lemma try_alloc_total: "malloc_total h \<Longrightarrow> \<exists>h'. try_alloc n h = (True, h') \<and> malloc_total h'"
  using malloc_total_malloc [of h n] by (fastforce simp: try_alloc_def)

lemma add_block_extends:
  assumes "list_ok bbl" "has_room bbl b" "malloc_total h"
  shows "\<exists>bbl' h'. add_block bbl b h = Ok (0, bbl', h') \<and> malloc_total h' \<and> list_ok bbl' \<and>
    bbl_block_size bbl' = bbl_block_size bbl \<and> extends_image (bbl_block_size bbl) (data_blocks bbl) b (data_blocks bbl')"
  using queue_bb_extends [OF assms(1,2)] try_alloc_total [OF assms(3), of 40] by (auto simp: add_block_def)

lemma add_file_extends:
  assumes "list_ok bbl" "has_room bbl \<lparr>bb_block = block, bb_len = len, bb_kind = BACKED_BLOCK_FILE (Some f) ofs\<rparr>" "malloc_total h"
  shows "\<exists>bbl' h'. backed_block_add_file bbl f ofs len block h = Ok (0, bbl', h') \<and> malloc_total h' \<and> list_ok bbl' \<and>
    bbl_block_size bbl' = bbl_block_size bbl \<and>
    extends_image (bbl_block_size bbl) (data_blocks bbl) \<lparr>bb_block = block, bb_len = len, bb_kind = BACKED_BLOCK_FILE (Some f) ofs\<rparr> (data_blocks bbl')"
proof -
  obtain h1 where "try_alloc 40 h = (True, h1)" "malloc_total h1" using try_alloc_total [OF assms(3)] by blast
  moreover obtain h2 where "try_alloc (length f + 1) h1 = (True, h2)" "malloc_total h2"
    using try_alloc_total calculation(2) by blast
  ultimately show ?thesis
    using queue_bb_extends [OF assms(1,2)] by (auto simp: backed_block_add_file_def)
qed

text \<open>Splitting at a whole number of blocks: both halves together are the block.\<close>

lemma kind_at_byte:
  "kind_present k m \<Longrightarrow> n \<le> m \<Longrightarrow> 4 dvd n \<Longrightarrow> kind_byte env (kind_at k n) p = kind_byte env k (n + p)"
  by (cases k) (auto simp: mod_add_left_eq [of n, symmetric] add.assoc split: option.split)

lemma kind_at_present: "kind_present k m \<Longrightarrow> n \<le> m \<Longrightarrow> kind_present (kind_at k n) (m - n)"
  by (cases k) auto

lemma kind_present_le: "kind_present k m \<Longrightarrow> n \<le> m \<Longrightarrow> kind_present k n"
  by (cases k) auto

lemma is_fill_kind_at [simp]: "is_fill (kind_at k n) = is_fill k"
  by (cases k) auto

lemma align_down:
  fixes m sz :: u32
  shows "unat (sz * (m div sz)) = unat m div unat sz * unat sz" "unat (sz * (m div sz)) \<le> unat m"
    "sz \<noteq> 0 \<Longrightarrow> sz * (m div sz) div sz = m div sz"
proof -
  have "unat sz * (unat m div unat sz) < 2 ^ 32"
    using unat_u32_less [of m] times_div_less_eq_dividend [of "unat sz" "unat m"] by (simp del: times_div_less_eq_dividend)
  moreover have "unat m div unat sz < 2 ^ 32"
    using unat_u32_less [of m] by (simp add: le_less_trans [OF div_le_dividend])
  ultimately show e: "unat (sz * (m div sz)) = unat m div unat sz * unat sz"
    by (simp add: unat_word_ariths unat_div mult.commute)
  then show "unat (sz * (m div sz)) \<le> unat m" by simp
  assume "sz \<noteq> 0"
  then show "sz * (m div sz) div sz = m div sz"
    by (simp only: word_unat_eq_iff unat_div e) (simp add: unat_eq_0)
qed

lemma backed_block_split_same:
  assumes ok: "list_ok bbl" and k: "k < length (data_blocks bbl)" and m: "bbl_block_size bbl \<le> max_len" and h: "malloc_total h"
  shows "\<exists>bbl' h'. backed_block_split bbl k max_len h = Ok (0, bbl', h') \<and> malloc_total h' \<and> list_ok bbl' \<and>
    bbl_block_size bbl' = bbl_block_size bbl \<and>
    same_image (bbl_block_size bbl) (data_blocks bbl) (data_blocks bbl') \<and>
    k < length (data_blocks bbl') \<and> bb_len (data_blocks bbl' ! k) \<le> max_len"
proof -
  define sz bb q where "sz = bbl_block_size bbl" and "bb = data_blocks bbl ! k" and "q = unat max_len div unat sz"
  define xs ys where "xs = take k (data_blocks bbl)" and "ys = drop (Suc k) (data_blocks bbl)"
  have bs: "data_blocks bbl = xs @ bb # ys" "length xs = k"
    using k by (simp_all add: xs_def ys_def bb_def id_take_nth_drop)
  have sz: "0 < sz" "4 dvd unat sz" and good: "blocks_ok sz (xs @ bb # ys)" "block_fits sz bb"
    and last: "\<And>j. last_used bbl = Some j \<Longrightarrow> j < length (data_blocks bbl)"
    using ok by (auto simp: list_ok_def sz_def bs blocks_ok_append blocks_ok_Cons)
  have z: "0 < unat sz" "sz \<noteq> 0" using sz(1) by (auto simp: word_less_nat_alt)
  define m where "m = sz * (max_len div sz)"
  have mv: "unat m = q * unat sz" "m \<le> max_len" "m div sz = max_len div sz"
    using align_down [of sz max_len] z by (simp_all add: m_def q_def word_le_nat_alt)
  have q: "0 < q" using m z by (simp add: q_def sz_def div_greater_zero_iff word_le_nat_alt)
  obtain h' where h': "try_alloc 40 h = (True, h')" "malloc_total h'" using try_alloc_total [OF h] by blast
  show ?thesis
  proof (cases "bb_len bb \<le> m")
    case True
    then have "backed_block_split bbl k max_len h = Ok (0, bbl, h)"
      using z by (simp add: backed_block_split_def Let_def flip: sz_def bb_def m_def)
    moreover have "bb_len bb \<le> max_len" using True mv(2) by simp
    ultimately show ?thesis using ok k h good by (simp add: same_image_def list_ok_def flip: bb_def)
  next
    case False
    define a where "a = bb\<lparr>bb_len := m\<rparr>"
    define b where "b = bb\<lparr>bb_len := bb_len bb - m, bb_block := bb_block bb + m div sz, bb_kind := kind_at (bb_kind bb) (unat m)\<rparr>"
    have lt: "unat m < unat (bb_len bb)" using False by (simp add: not_le word_less_nat_alt)
    have bl: "unat (bb_len b) = unat (bb_len bb) - unat m" using lt by (simp add: b_def unat_sub word_le_nat_alt)
    have up: "(unat (bb_len bb) + unat sz - 1) div unat sz = q + (unat (bb_len b) + unat sz - 1) div unat sz"
      using round_up_whole [OF z(1), of q "unat (bb_len b)"] lt bl mv(1) by simp
    have blk: "unat (bb_block b) = unat (bb_block bb) + q"
    proof -
      have "unat (bb_block bb) + q < 2 ^ 32" using good(2) up by (simp add: block_fits_def past_def)
      then show ?thesis by (simp add: b_def mv(3) q_def unat_word_ariths unat_div)
    qed
    have pb: "past sz b = past sz bb" using up by (simp add: past_def blk)
    have pa: "past sz a = unat (bb_block b)"
      using round_up_whole [OF z(1), of q 0] z by (simp add: past_def a_def mv(1) blk)
    have fits: "block_fits sz b" "block_fits sz a"
      using good(2) lt bl pb pa q z kind_at_present [of "bb_kind bb" "unat (bb_len bb)" "unat m"] kind_present_le [of "bb_kind bb" "unat (bb_len bb)" "unat m"]
      by (auto simp: block_fits_def word_less_nat_alt mv(1) a_def b_def past_def unat_sub word_le_nat_alt)
    have join: "covers env sz bb = covers env sz b ++ covers env sz a" for env
    proof (rule covers_join)
      show "unat (bb_len a) = (unat (bb_block b) - unat (bb_block a)) * unat sz" by (simp add: a_def mv(1) blk)
      show "unat (bb_block a) < unat (bb_block b)" "unat (bb_block b) \<le> past sz b"
        using q pb past_greater [OF sz(1), of b] fits(1) by (simp_all add: a_def blk block_fits_def)
      have "4 dvd unat m" using sz(2) by (simp add: mv(1))
      then have "kind_byte env (kind_at (bb_kind bb) (unat m)) p = kind_byte env (bb_kind bb) (unat m + p)" for p
        using kind_at_byte [of "bb_kind bb" "unat (bb_len bb)"] good(2) lt by (simp add: block_fits_def)
      then show "block_byte env bb (unat (bb_len a) + p) = block_byte env b p" for p
        using lt bl by (auto simp: block_byte_def a_def) (simp_all add: b_def)
    qed (use lt pa pb in \<open>auto simp: block_byte_def a_def\<close>)
    define bbl' where "bbl' = bbl\<lparr>data_blocks := xs @ a # b # ys, last_used := map_option (\<lambda>j. if j > k then Suc j else j) (last_used bbl)\<rparr>"
    have "blocks_ok sz (xs @ a # b # ys)"
      using good(1) fits pa pb past_greater [OF sz(1), of b]
      by (auto simp: blocks_ok_append blocks_ok_Cons a_def blk block_fits_def)
    then have same: "same_image sz (data_blocks bbl) (xs @ a # b # ys)"
      using lt bl by (simp add: same_image_def bs block_image_append join) (simp add: a_def)
    moreover have "list_ok bbl'"
    proof -
      have "length (data_blocks bbl) = Suc (length xs + length ys)" by (simp add: bs)
      then show ?thesis
        using same ok last sz by (auto simp: list_ok_def bbl'_def same_image_def simp flip: sz_def)
    qed
    moreover have "backed_block_split bbl k max_len h = Ok (0, bbl', h')"
      using h' z False
      by (simp add: backed_block_split_def Let_def bbl'_def a_def b_def flip: sz_def bb_def m_def xs_def ys_def)
    ultimately show ?thesis using h' mv(2) by (auto simp: bbl'_def sz_def a_def nth_append bs(2))
  qed
qed

end
