(* ===== verification/Sparse_Format.thy ===== *)
theory Sparse_Format
  imports Sparse_Blocks Avb_Crc32 "HOL-Library.Signed_Division"
begin

text \<open>
  The sparse image format (\<open>sparse_format.h\<close>), the rounding macros (\<open>sparse_defs.h\<close>) and the CRC of the
  sparse library (\<open>sparse_crc32.cpp\<close>).
\<close>

section \<open>Definitions\<close>

definition DIV_ROUND_UP :: "u32 \<Rightarrow> u32 \<Rightarrow> u32" where
  "DIV_ROUND_UP x y = (x + y - 1) div y"

definition ALIGN :: "u32 \<Rightarrow> u32 \<Rightarrow> u32" where
  "ALIGN x y = y * DIV_ROUND_UP x y"

text \<open>On \<open>int64_t\<close>, where division truncates towards zero.\<close>

definition DIV_ROUND_UP64 :: "u64 \<Rightarrow> u32 \<Rightarrow> int" where
  "DIV_ROUND_UP64 x y = sint (x + ucast y - 1) sdiv uint y"

definition nonzero :: "u32 \<Rightarrow> 'a res \<Rightarrow> 'a res" where
  "nonzero y k = (if y = 0 then Fault BadAccess else k)"

subsection \<open>Checksum\<close>

definition crc32_tab :: "u32 list" where
  "crc32_tab = concat
    [[0x00000000, 0x77073096, 0xee0e612c, 0x990951ba, 0x076dc419, 0x706af48f, 0xe963a535, 0x9e6495a3],
     [0x0edb8832, 0x79dcb8a4, 0xe0d5e91e, 0x97d2d988, 0x09b64c2b, 0x7eb17cbd, 0xe7b82d07, 0x90bf1d91],
     [0x1db71064, 0x6ab020f2, 0xf3b97148, 0x84be41de, 0x1adad47d, 0x6ddde4eb, 0xf4d4b551, 0x83d385c7],
     [0x136c9856, 0x646ba8c0, 0xfd62f97a, 0x8a65c9ec, 0x14015c4f, 0x63066cd9, 0xfa0f3d63, 0x8d080df5],
     [0x3b6e20c8, 0x4c69105e, 0xd56041e4, 0xa2677172, 0x3c03e4d1, 0x4b04d447, 0xd20d85fd, 0xa50ab56b],
     [0x35b5a8fa, 0x42b2986c, 0xdbbbc9d6, 0xacbcf940, 0x32d86ce3, 0x45df5c75, 0xdcd60dcf, 0xabd13d59],
     [0x26d930ac, 0x51de003a, 0xc8d75180, 0xbfd06116, 0x21b4f4b5, 0x56b3c423, 0xcfba9599, 0xb8bda50f],
     [0x2802b89e, 0x5f058808, 0xc60cd9b2, 0xb10be924, 0x2f6f7c87, 0x58684c11, 0xc1611dab, 0xb6662d3d],
     [0x76dc4190, 0x01db7106, 0x98d220bc, 0xefd5102a, 0x71b18589, 0x06b6b51f, 0x9fbfe4a5, 0xe8b8d433],
     [0x7807c9a2, 0x0f00f934, 0x9609a88e, 0xe10e9818, 0x7f6a0dbb, 0x086d3d2d, 0x91646c97, 0xe6635c01],
     [0x6b6b51f4, 0x1c6c6162, 0x856530d8, 0xf262004e, 0x6c0695ed, 0x1b01a57b, 0x8208f4c1, 0xf50fc457],
     [0x65b0d9c6, 0x12b7e950, 0x8bbeb8ea, 0xfcb9887c, 0x62dd1ddf, 0x15da2d49, 0x8cd37cf3, 0xfbd44c65],
     [0x4db26158, 0x3ab551ce, 0xa3bc0074, 0xd4bb30e2, 0x4adfa541, 0x3dd895d7, 0xa4d1c46d, 0xd3d6f4fb],
     [0x4369e96a, 0x346ed9fc, 0xad678846, 0xda60b8d0, 0x44042d73, 0x33031de5, 0xaa0a4c5f, 0xdd0d7cc9],
     [0x5005713c, 0x270241aa, 0xbe0b1010, 0xc90c2086, 0x5768b525, 0x206f85b3, 0xb966d409, 0xce61e49f],
     [0x5edef90e, 0x29d9c998, 0xb0d09822, 0xc7d7a8b4, 0x59b33d17, 0x2eb40d81, 0xb7bd5c3b, 0xc0ba6cad],
     [0xedb88320, 0x9abfb3b6, 0x03b6e20c, 0x74b1d29a, 0xead54739, 0x9dd277af, 0x04db2615, 0x73dc1683],
     [0xe3630b12, 0x94643b84, 0x0d6d6a3e, 0x7a6a5aa8, 0xe40ecf0b, 0x9309ff9d, 0x0a00ae27, 0x7d079eb1],
     [0xf00f9344, 0x8708a3d2, 0x1e01f268, 0x6906c2fe, 0xf762575d, 0x806567cb, 0x196c3671, 0x6e6b06e7],
     [0xfed41b76, 0x89d32be0, 0x10da7a5a, 0x67dd4acc, 0xf9b9df6f, 0x8ebeeff9, 0x17b7be43, 0x60b08ed5],
     [0xd6d6a3e8, 0xa1d1937e, 0x38d8c2c4, 0x4fdff252, 0xd1bb67f1, 0xa6bc5767, 0x3fb506dd, 0x48b2364b],
     [0xd80d2bda, 0xaf0a1b4c, 0x36034af6, 0x41047a60, 0xdf60efc3, 0xa867df55, 0x316e8eef, 0x4669be79],
     [0xcb61b38c, 0xbc66831a, 0x256fd2a0, 0x5268e236, 0xcc0c7795, 0xbb0b4703, 0x220216b9, 0x5505262f],
     [0xc5ba3bbe, 0xb2bd0b28, 0x2bb45a92, 0x5cb36a04, 0xc2d7ffa7, 0xb5d0cf31, 0x2cd99e8b, 0x5bdeae1d],
     [0x9b64c2b0, 0xec63f226, 0x756aa39c, 0x026d930a, 0x9c0906a9, 0xeb0e363f, 0x72076785, 0x05005713],
     [0x95bf4a82, 0xe2b87a14, 0x7bb12bae, 0x0cb61b38, 0x92d28e9b, 0xe5d5be0d, 0x7cdcefb7, 0x0bdbdf21],
     [0x86d3d2d4, 0xf1d4e242, 0x68ddb3f8, 0x1fda836e, 0x81be16cd, 0xf6b9265b, 0x6fb077e1, 0x18b74777],
     [0x88085ae6, 0xff0f6a70, 0x66063bca, 0x11010b5c, 0x8f659eff, 0xf862ae69, 0x616bffd3, 0x166ccf45],
     [0xa00ae278, 0xd70dd2ee, 0x4e048354, 0x3903b3c2, 0xa7672661, 0xd06016f7, 0x4969474d, 0x3e6e77db],
     [0xaed16a4a, 0xd9d65adc, 0x40df0b66, 0x37d83bf0, 0xa9bcae53, 0xdebb9ec5, 0x47b2cf7f, 0x30b5ffe9],
     [0xbdbdf21c, 0xcabac28a, 0x53b39330, 0x24b4a3a6, 0xbad03605, 0xcdd70693, 0x54de5729, 0x23d967bf],
     [0xb3667a2e, 0xc4614ab8, 0x5d681b02, 0x2a6f2b94, 0xb40bbe37, 0xc30c8ea1, 0x5a05df1b, 0x2d02ef8d]]"

fun crc_loop :: "u32 \<Rightarrow> bytes \<Rightarrow> nat \<Rightarrow> u32 res" where
  "crc_loop crc p 0 = Ok crc"
| "crc_loop crc [] (Suc n) = Fault BadAccess"
| "crc_loop crc (b # p) (Suc n) = crc_loop (crc32_tab ! unat ((crc XOR ucast b) AND 0xff) XOR drop_bit 8 crc) p n"

definition sparse_crc32 :: "u32 \<Rightarrow> bytes \<Rightarrow> u64 \<Rightarrow> u32 res" where
  "sparse_crc32 crc_in buf sz = bnd (crc_loop (crc_in XOR NOT 0) buf (unat sz)) (\<lambda>crc. Ok (crc XOR NOT 0))"

subsection \<open>The format\<close>

text \<open>Packed structures in the little-endian memory order of the host.\<close>

type_synonym u16 = "16 word"

definition le_bytes :: "nat \<Rightarrow> 'a::len word \<Rightarrow> bytes" where
  "le_bytes n w = map (byte_at w) [0..<n]"

record sparse_header =
  magic :: u32
  major_version :: u16
  minor_version :: u16
  file_hdr_sz :: u16
  chunk_hdr_sz :: u16
  blk_sz :: u32
  total_blks :: u32
  total_chunks :: u32
  image_checksum :: u32

record chunk_header =
  chunk_type :: u16
  reserved1 :: u16
  chunk_sz :: u32
  total_sz :: u32

definition SPARSE_HEADER_MAGIC :: u32 where "SPARSE_HEADER_MAGIC = 0xed26ff3a"
definition CHUNK_TYPE_RAW :: u16 where "CHUNK_TYPE_RAW = 0xCAC1"
definition CHUNK_TYPE_FILL :: u16 where "CHUNK_TYPE_FILL = 0xCAC2"
definition CHUNK_TYPE_DONT_CARE :: u16 where "CHUNK_TYPE_DONT_CARE = 0xCAC3"
definition CHUNK_TYPE_CRC32 :: u16 where "CHUNK_TYPE_CRC32 = 0xCAC4"
definition SPARSE_HEADER_MAJOR_VER :: u16 where "SPARSE_HEADER_MAJOR_VER = 1"
definition SPARSE_HEADER_MINOR_VER :: u16 where "SPARSE_HEADER_MINOR_VER = 0"
definition SPARSE_HEADER_LEN :: nat where "SPARSE_HEADER_LEN = 28"
definition CHUNK_HEADER_LEN :: nat where "CHUNK_HEADER_LEN = 12"

definition sparse_header_bytes :: "sparse_header \<Rightarrow> bytes" where
  "sparse_header_bytes h = le_bytes 4 (magic h) @ le_bytes 2 (major_version h) @ le_bytes 2 (minor_version h) @
     le_bytes 2 (file_hdr_sz h) @ le_bytes 2 (chunk_hdr_sz h) @ le_bytes 4 (blk_sz h) @ le_bytes 4 (total_blks h) @
     le_bytes 4 (total_chunks h) @ le_bytes 4 (image_checksum h)"

definition chunk_header_bytes :: "chunk_header \<Rightarrow> bytes" where
  "chunk_header_bytes c =
     le_bytes 2 (chunk_type c) @ le_bytes 2 (reserved1 c) @ le_bytes 4 (chunk_sz c) @ le_bytes 4 (total_sz c)"

text \<open>The first \<open>n\<close> bytes of a buffer filled with a value.\<close>

definition fill_bytes :: "u32 \<Rightarrow> nat \<Rightarrow> bytes" where
  "fill_bytes v n = map (\<lambda>i. byte_at v (i mod 4)) [0..<n]"

section \<open>Lemmas\<close>

subsection \<open>Rounding\<close>

lemma unat_DIV_ROUND_UP:
  assumes "unat x + unat y \<le> 2 ^ 32" "0 < y"
  shows "unat (DIV_ROUND_UP x y) = (unat x + unat y - 1) div unat y"
proof -
  have y: "0 < unat y" using assms(2) by (simp add: word_less_nat_alt)
  then have "unat (y - 1) = unat y - 1" by (simp add: unat_sub word_le_nat_alt)
  moreover have "x + y - 1 = x + (y - 1)" by simp
  ultimately have "unat (x + y - 1) = unat x + unat y - 1"
    using assms(1) y by (simp only: unat_word_ariths) simp
  then show ?thesis by (simp add: DIV_ROUND_UP_def unat_div)
qed

subsection \<open>Bytes\<close>

lemma length_le_bytes [simp]: "length (le_bytes n w) = n"
  by (simp add: le_bytes_def)

lemma length_headers [simp]:
  "length (sparse_header_bytes h) = SPARSE_HEADER_LEN" "length (chunk_header_bytes c) = CHUNK_HEADER_LEN"
  by (simp_all add: sparse_header_bytes_def chunk_header_bytes_def SPARSE_HEADER_LEN_def CHUNK_HEADER_LEN_def)

subsection \<open>Checksum\<close>

lemma crc32_tab_same: "crc32_tab = iavb_crc32_tab"
  by (simp add: crc32_tab_def iavb_crc32_tab_def)

lemma crc_loop_ref: "n \<le> length p \<Longrightarrow> crc_loop crc p n = Ok (foldl crc_byte crc (take n p))"
  by (induction crc p n rule: crc_loop.induct) (simp_all add: crc32_tab_same crc_step)

text \<open>The checksum continued: a register for each prefix.\<close>

definition crc_after :: "u32 \<Rightarrow> bytes \<Rightarrow> u32" where
  "crc_after crc bs = NOT (foldl crc_byte (NOT crc) bs)"

lemma sparse_crc32_after: "unat n \<le> length buf \<Longrightarrow> sparse_crc32 crc buf n = Ok (crc_after crc (take (unat n) buf))"
  by (simp add: sparse_crc32_def crc_loop_ref crc_after_def)

lemma crc_after_append: "crc_after crc (xs @ ys) = crc_after (crc_after crc xs) ys"
  by (simp add: crc_after_def)

lemma crc_after_Nil [simp]: "crc_after crc [] = crc"
  by (simp add: crc_after_def)

lemma crc_after_ref: "crc_after 0 bs = crc32_ref bs"
  by (simp add: crc_after_def crc32_ref_def)

end
