(* ===== verification/Sparse_Output.thy ===== *)
theory Sparse_Output
  imports Sparse_Format
begin

text \<open>
  Writing sparse and plain images (\<open>output_file.cpp\<close>). An output file is a record over the state of its
  sink; the three sinks of the source, a file descriptor, a zlib stream and a callback, are tables of
  operations on that state.
\<close>

section \<open>Definitions\<close>

subsection \<open>Output files\<close>

text \<open>
  A buffer passed to \<open>write\<close> is the memory from the pointer on with a length. \<open>ops\<close> and the enclosing
  structure of the source are the table below and \<open>sink\<close>.
\<close>

record 's output_file_ops =
  op_open :: "int \<Rightarrow> 's \<Rightarrow> int \<times> 's"
  op_skip :: "u64 \<Rightarrow> 's \<Rightarrow> (int \<times> 's) res"
  op_pad :: "u64 \<Rightarrow> 's \<Rightarrow> (int \<times> 's) res"
  op_write :: "bytes \<Rightarrow> u64 \<Rightarrow> 's \<Rightarrow> (int \<times> 's) res"
  op_close :: "'s \<Rightarrow> 's"

record 's output_file =
  cur_out_ptr :: u64
  chunk_cnt :: u32
  of_crc32 :: u32
  use_crc :: bool
  of_block_size :: u32
  of_len :: u64
  zero_buf :: bytes
  fill_buf :: bytes
  sparse_ops :: bool
  sink :: 's

paragraph \<open>File descriptors\<close>

text \<open>
  The file behind a descriptor: contents and position, and how the system answers: an outcome for each of
  the next calls of \<open>write\<close> (after the last, everything is written at once), and whether \<open>lseek64\<close> and
  \<open>ftruncate64\<close> fail.
\<close>

datatype write_answer = Written nat | Failed int

record fd_sink =
  outn_fd :: int
  fd_content :: bytes
  fd_pos :: nat
  fd_answers :: "write_answer list"
  fd_no_seek :: bool
  fd_no_truncate :: "int option"

definition EINTR :: int where "EINTR = 4"

definition stretch :: "nat \<Rightarrow> bytes \<Rightarrow> bytes" where
  "stretch n bs = take n bs @ replicate (n - length bs) 0"

definition put :: "bytes \<Rightarrow> fd_sink \<Rightarrow> fd_sink" where
  "put bs f = (if bs = [] then f else f\<lparr>fd_content := stretch (fd_pos f) (fd_content f) @ bs @ drop (fd_pos f + length bs) (fd_content f),
     fd_pos := fd_pos f + length bs\<rparr>)"

definition file_open :: "int \<Rightarrow> fd_sink \<Rightarrow> int \<times> fd_sink" where
  "file_open fd f = (0, f\<lparr>outn_fd := fd\<rparr>)"

definition file_skip :: "u64 \<Rightarrow> fd_sink \<Rightarrow> (int \<times> fd_sink) res" where
  "file_skip cnt f =
     (let pos = int (fd_pos f) + sint cnt in
      if fd_no_seek f \<or> pos < 0 then Ok (-1, f) else Ok (0, f\<lparr>fd_pos := nat pos\<rparr>))"

definition file_pad :: "u64 \<Rightarrow> fd_sink \<Rightarrow> (int \<times> fd_sink) res" where
  "file_pad len f = (case fd_no_truncate f of
     Some errno \<Rightarrow> Ok (- errno, f)
   | None \<Rightarrow> if sint len < 0 then Ok (- EINVAL, f) else Ok (0, f\<lparr>fd_content := stretch (unat len) (fd_content f)\<rparr>))"

fun file_write_loop :: "write_answer list \<Rightarrow> bytes \<Rightarrow> nat \<Rightarrow> fd_sink \<Rightarrow> int \<times> fd_sink" where
  "file_write_loop [] data len f = (0, put (take len data) (f\<lparr>fd_answers := []\<rparr>))"
| "file_write_loop (a # as) data len f =
     (if len = 0 then (0, f\<lparr>fd_answers := a # as\<rparr>)
      else case a of
        Failed errno \<Rightarrow> if errno = EINTR then file_write_loop as data len f else (-1, f\<lparr>fd_answers := as\<rparr>)
      | Written n \<Rightarrow> let k = min n len in file_write_loop as (drop k data) (len - k) (put (take k data) f))"

definition file_write :: "bytes \<Rightarrow> u64 \<Rightarrow> fd_sink \<Rightarrow> (int \<times> fd_sink) res" where
  "file_write data len f = (if length data < unat len then Fault BadAccess
     else Ok (file_write_loop (fd_answers f) data (unat len) f))"

definition file_close :: "fd_sink \<Rightarrow> fd_sink" where
  "file_close f = f"

definition file_ops :: "fd_sink output_file_ops" where
  "file_ops = \<lparr>op_open = file_open, op_skip = file_skip, op_pad = file_pad, op_write = file_write, op_close = file_close\<rparr>"

paragraph \<open>Compressed files\<close>

text \<open>
  zlib is a parameter: its functions on a state of streams. \<open>gzdopen\<close> answers with the error number when it
  fails; a stream that is not open is part of the state.
\<close>

record 'z zlib =
  gzdopen :: "int \<Rightarrow> 'z \<Rightarrow> int option \<times> 'z"
  gzseek_cur :: "u64 \<Rightarrow> 'z \<Rightarrow> int \<times> 'z"
  gzseek_set :: "u64 \<Rightarrow> 'z \<Rightarrow> int \<times> 'z"
  gztell :: "'z \<Rightarrow> int \<times> 'z"
  gzwrite :: "bytes \<Rightarrow> 'z \<Rightarrow> int \<times> 'z"
  gzclose :: "'z \<Rightarrow> 'z"

definition INT_MAX :: nat where "INT_MAX = 2147483647"

definition gz_file_open :: "'z zlib \<Rightarrow> int \<Rightarrow> 'z \<Rightarrow> int \<times> 'z" where
  "gz_file_open zl fd z = (case gzdopen zl fd z of (Some errno, z) \<Rightarrow> (- errno, z) | (None, z) \<Rightarrow> (0, z))"

definition gz_file_skip :: "'z zlib \<Rightarrow> u64 \<Rightarrow> 'z \<Rightarrow> (int \<times> 'z) res" where
  "gz_file_skip zl cnt z = (case gzseek_cur zl cnt z of (ret, z) \<Rightarrow> Ok (if ret < 0 then -1 else 0, z))"

definition gz_file_pad :: "'z zlib \<Rightarrow> u64 \<Rightarrow> 'z \<Rightarrow> (int \<times> 'z) res" where
  "gz_file_pad zl len z =
     (case gztell zl z of (ret, z) \<Rightarrow>
      if ret < 0 then Ok (-1, z)
      else if ret \<ge> sint len then Ok (0, z)
      else case gzseek_set zl (len - 1) z of (ret, z) \<Rightarrow>
      if ret < 0 then Ok (-1, z)
      else Ok (0, snd (gzwrite zl [0] z)))"

text \<open>
  The loop ends when \<open>gzwrite\<close> reports what it wrote. The request is the low 32 bits of what is left, at most
  \<open>INT_MAX\<close>. One unit of fuel a turn; \<open>unat len\<close> is enough when \<open>gzwrite\<close> answers as documented.
\<close>

fun gz_write_loop :: "'z zlib \<Rightarrow> nat \<Rightarrow> bytes \<Rightarrow> u64 \<Rightarrow> 'z \<Rightarrow> (int \<times> 'z) res" where
  "gz_write_loop zl 0 data len z = (if len = 0 then Ok (0, z) else Fault OutOfFuel)"
| "gz_write_loop zl (Suc fuel) data len z =
     (if len = 0 then Ok (0, z)
      else let n = min (unat (ucast len :: u32)) INT_MAX in
      if length data < n then Fault BadAccess
      else case gzwrite zl (take n data) z of (ret, z) \<Rightarrow>
      if ret = 0 then Ok (-1, z)
      else if ret < 0 then Fault BadAccess
      else gz_write_loop zl fuel (drop (nat ret) data) (len - of_int ret) z)"

definition gz_file_write :: "'z zlib \<Rightarrow> bytes \<Rightarrow> u64 \<Rightarrow> 'z \<Rightarrow> (int \<times> 'z) res" where
  "gz_file_write zl data len z = gz_write_loop zl (unat len) data len z"

definition gz_file_ops :: "'z zlib \<Rightarrow> 'z output_file_ops" where
  "gz_file_ops zl = \<lparr>op_open = gz_file_open zl, op_skip = gz_file_skip zl, op_pad = gz_file_pad zl,
     op_write = gz_file_write zl, op_close = gzclose zl\<rparr>"

paragraph \<open>Callbacks\<close>

text \<open>The function \<open>write\<close> of the caller on its \<open>priv\<close>; the buffer may be null.\<close>

type_synonym 'p write_callback = "bytes option \<Rightarrow> u64 \<Rightarrow> 'p \<Rightarrow> (int \<times> 'p) res"

function callback_skip_loop :: "'p write_callback \<Rightarrow> nat \<Rightarrow> 'p \<Rightarrow> (int \<times> 'p) res" where
  "callback_skip_loop write off p =
     (if off = 0 then Ok (0, p)
      else let to_write = min off INT_MAX in
      bnd (write None (of_nat to_write) p) (\<lambda>(ret, p).
      if ret < 0 then Ok (ret, p) else callback_skip_loop write (off - to_write) p))"
  by pat_completeness auto
termination by (relation "measure (\<lambda>(_, off, _). off)") (auto simp: INT_MAX_def)

declare callback_skip_loop.simps [simp del]

definition callback_file_skip :: "'p write_callback \<Rightarrow> u64 \<Rightarrow> 'p \<Rightarrow> (int \<times> 'p) res" where
  "callback_file_skip write off p = callback_skip_loop write (nat (sint off)) p"

definition callback_file_write :: "'p write_callback \<Rightarrow> bytes \<Rightarrow> u64 \<Rightarrow> 'p \<Rightarrow> (int \<times> 'p) res" where
  "callback_file_write write data len p = write (Some data) len p"

definition callback_file_ops :: "'p write_callback \<Rightarrow> 'p output_file_ops" where
  "callback_file_ops write = \<lparr>op_open = (\<lambda>fd p. (0, p)), op_skip = callback_file_skip write,
     op_pad = (\<lambda>len p. Ok (-1, p)), op_write = callback_file_write write, op_close = (\<lambda>p. p)\<rparr>"

subsection \<open>Chunks\<close>

text \<open>Writing to the sink; and writing and giving up with \<open>-1\<close> when it fails.\<close>

definition emit :: "'s output_file_ops \<Rightarrow> bytes \<Rightarrow> u64 \<Rightarrow> 's output_file \<Rightarrow> (int \<times> 's output_file) res" where
  "emit ops data len out = bnd (op_write ops data len (sink out)) (\<lambda>(ret, s). Ok (ret, out\<lparr>sink := s\<rparr>))"

definition emit_or :: "'s output_file_ops \<Rightarrow> bytes \<Rightarrow> u64 \<Rightarrow> 's output_file \<Rightarrow>
    ('s output_file \<Rightarrow> (int \<times> 's output_file) res) \<Rightarrow> (int \<times> 's output_file) res" where
  "emit_or ops data len out k = bnd (emit ops data len out) (\<lambda>(ret, out). if ret < 0 then Ok (-1, out) else k out)"

definition write_sparse_skip_chunk :: "'s output_file_ops \<Rightarrow> u64 \<Rightarrow> 's output_file \<Rightarrow> (int \<times> 's output_file) res" where
  "write_sparse_skip_chunk ops skip_len out = nonzero (of_block_size out)
     (if sint skip_len mod uint (of_block_size out) \<noteq> 0 then Ok (-1, out)
      else let chunk_header = \<lparr>chunk_type = CHUNK_TYPE_DONT_CARE, reserved1 = 0,
                 chunk_sz = of_int (sint skip_len div uint (of_block_size out)), total_sz = of_nat CHUNK_HEADER_LEN\<rparr>
      in emit_or ops (chunk_header_bytes chunk_header) 12 out (\<lambda>out.
      Ok (0, out\<lparr>cur_out_ptr := cur_out_ptr out + skip_len, chunk_cnt := chunk_cnt out + 1\<rparr>)))"

text \<open>\<open>count\<close> times the checksum of the fill value.\<close>

fun crc_fill_loop :: "nat \<Rightarrow> bytes \<Rightarrow> u32 \<Rightarrow> u32 res" where
  "crc_fill_loop 0 fill crc = Ok crc"
| "crc_fill_loop (Suc count) fill crc = bnd (sparse_crc32 crc fill 4) (crc_fill_loop count fill)"

definition write_sparse_fill_chunk :: "'s output_file_ops \<Rightarrow> u32 \<Rightarrow> u32 \<Rightarrow> 's output_file \<Rightarrow> (int \<times> 's output_file) res" where
  "write_sparse_fill_chunk ops len fill_val out = nonzero (of_block_size out)
     (let rnd_up_len = ALIGN len (of_block_size out);
          chunk_header = \<lparr>chunk_type = CHUNK_TYPE_FILL, reserved1 = 0, chunk_sz = rnd_up_len div of_block_size out,
            total_sz = of_nat CHUNK_HEADER_LEN + 4\<rparr>
      in emit_or ops (chunk_header_bytes chunk_header) 12 out (\<lambda>out.
         emit_or ops (le_bytes 4 fill_val) 4 out (\<lambda>out.
         bnd (if use_crc out then crc_fill_loop (unat (of_block_size out) div 4) (le_bytes 4 fill_val) (of_crc32 out)
              else Ok (of_crc32 out)) (\<lambda>crc.
         Ok (0, out\<lparr>of_crc32 := crc, cur_out_ptr := cur_out_ptr out + scast rnd_up_len, chunk_cnt := chunk_cnt out + 1\<rparr>)))))"

definition write_sparse_data_chunk :: "'s output_file_ops \<Rightarrow> u32 \<Rightarrow> bytes \<Rightarrow> 's output_file \<Rightarrow> (int \<times> 's output_file) res" where
  "write_sparse_data_chunk ops len data out = nonzero (of_block_size out)
     (let rnd_up_len = ALIGN len (of_block_size out);
          zero_len = rnd_up_len - len;
          chunk_header = \<lparr>chunk_type = CHUNK_TYPE_RAW, reserved1 = 0, chunk_sz = rnd_up_len div of_block_size out,
            total_sz = of_nat CHUNK_HEADER_LEN + rnd_up_len\<rparr>
      in emit_or ops (chunk_header_bytes chunk_header) 12 out (\<lambda>out.
         emit_or ops data (ucast len) out (\<lambda>out.
         (\<lambda>k. if zero_len \<noteq> 0 then emit_or ops (zero_buf out) (scast zero_len) out k else k out) (\<lambda>out.
         bnd (if use_crc out
              then bnd (sparse_crc32 (of_crc32 out) data (ucast len)) (\<lambda>crc.
                if zero_len \<noteq> 0 then sparse_crc32 crc (zero_buf out) (scast zero_len) else Ok crc)
              else Ok (of_crc32 out)) (\<lambda>crc.
         Ok (0, out\<lparr>of_crc32 := crc, cur_out_ptr := cur_out_ptr out + scast rnd_up_len, chunk_cnt := chunk_cnt out + 1\<rparr>))))))"

text \<open>The result of the second \<open>write\<close> is not looked at.\<close>

definition write_sparse_end_chunk :: "'s output_file_ops \<Rightarrow> 's output_file \<Rightarrow> (int \<times> 's output_file) res" where
  "write_sparse_end_chunk ops out =
     (if use_crc out
      then let chunk_header = \<lparr>chunk_type = CHUNK_TYPE_CRC32, reserved1 = 0, chunk_sz = 0, total_sz = of_nat CHUNK_HEADER_LEN + 4\<rparr>
        in bnd (emit ops (chunk_header_bytes chunk_header) 12 out) (\<lambda>(ret, out).
           if ret < 0 then Ok (ret, out)
           else bnd (emit ops (le_bytes 4 (of_crc32 out)) 4 out) (\<lambda>(_, out).
           Ok (0, out\<lparr>chunk_cnt := chunk_cnt out + 1\<rparr>)))
      else Ok (0, out))"

definition skip_sink :: "'s output_file_ops \<Rightarrow> u64 \<Rightarrow> 's output_file \<Rightarrow> (int \<times> 's output_file) res" where
  "skip_sink ops len out = bnd (op_skip ops len (sink out)) (\<lambda>(ret, s). Ok (ret, out\<lparr>sink := s\<rparr>))"

definition write_normal_data_chunk :: "'s output_file_ops \<Rightarrow> u32 \<Rightarrow> bytes \<Rightarrow> 's output_file \<Rightarrow> (int \<times> 's output_file) res" where
  "write_normal_data_chunk ops len data out = nonzero (of_block_size out)
     (let rnd_up_len = ALIGN len (of_block_size out) in
      bnd (emit ops data (ucast len) out) (\<lambda>(ret, out).
      if ret < 0 then Ok (ret, out)
      else if rnd_up_len > len then skip_sink ops (ucast (rnd_up_len - len)) out
      else Ok (ret, out)))"

text \<open>With block size zero the loop would not end.\<close>

function normal_fill_loop :: "'s output_file_ops \<Rightarrow> nat \<Rightarrow> 's output_file \<Rightarrow> (int \<times> 's output_file) res" where
  "normal_fill_loop ops len out =
     (if len = 0 then Ok (0, out)
      else let write_len = min len (unat (of_block_size out)) in
      if write_len = 0 then Fault OutOfFuel
      else bnd (emit ops (fill_buf out) (of_nat write_len) out) (\<lambda>(ret, out).
      if ret < 0 then Ok (ret, out) else normal_fill_loop ops (len - write_len) out))"
  by pat_completeness auto
termination by (relation "measure (\<lambda>(_, len, _). len)") auto

declare normal_fill_loop.simps [simp del]

text \<open>\<open>fill_buf\<close> is filled with whole words; bytes behind them stay as they are.\<close>

definition write_normal_fill_chunk :: "'s output_file_ops \<Rightarrow> u32 \<Rightarrow> u32 \<Rightarrow> 's output_file \<Rightarrow> (int \<times> 's output_file) res" where
  "write_normal_fill_chunk ops len fill_val out =
     (let words = unat (of_block_size out) div 4
      in normal_fill_loop ops (unat len) (out\<lparr>fill_buf := concat (replicate words (le_bytes 4 fill_val)) @ drop (4 * words) (fill_buf out)\<rparr>))"

definition write_normal_skip_chunk :: "'s output_file_ops \<Rightarrow> u64 \<Rightarrow> 's output_file \<Rightarrow> (int \<times> 's output_file) res" where
  "write_normal_skip_chunk = skip_sink"

definition write_normal_end_chunk :: "'s output_file_ops \<Rightarrow> 's output_file \<Rightarrow> (int \<times> 's output_file) res" where
  "write_normal_end_chunk ops out = bnd (op_pad ops (of_len out) (sink out)) (\<lambda>(ret, s). Ok (ret, out\<lparr>sink := s\<rparr>))"

subsection \<open>Opening and closing\<close>

definition output_file_close :: "'s output_file_ops \<Rightarrow> 's output_file \<Rightarrow> 's res" where
  "output_file_close ops out =
     bnd (if sparse_ops out then write_sparse_end_chunk ops out else write_normal_end_chunk ops out)
       (\<lambda>(_, out). Ok (op_close ops (sink out)))"

text \<open>A zeroed structure around a sink.\<close>

definition blank_file :: "'s \<Rightarrow> 's output_file" where
  "blank_file s = \<lparr>cur_out_ptr = 0, chunk_cnt = 0, of_crc32 = 0, use_crc = False, of_block_size = 0, of_len = 0,
     zero_buf = [], fill_buf = [], sparse_ops = False, sink = s\<rparr>"

definition output_file_init :: "'s output_file_ops \<Rightarrow> 's \<Rightarrow> u32 \<Rightarrow> u64 \<Rightarrow> bool \<Rightarrow> u32 \<Rightarrow> bool \<Rightarrow> heap \<Rightarrow>
    (int \<times> 's output_file \<times> heap) res" where
  "output_file_init ops s block_size len sparse chunks crc h =
     (let n = unat (scast block_size :: u64);
          out = (blank_file s)\<lparr>of_len := len, of_block_size := block_size, use_crc := crc\<rparr>
      in case try_alloc n h of (ok, h) \<Rightarrow>
      if \<not> ok then Ok (- ENOMEM, out, h)
      else case try_alloc n h of (ok, h) \<Rightarrow>
      if \<not> ok then Ok (- ENOMEM, out, h)
      else let out = out\<lparr>zero_buf := replicate (unat block_size) 0, fill_buf := replicate (unat block_size) 0, sparse_ops := sparse\<rparr> in
      if \<not> sparse then Ok (0, out, h)
      else nonzero block_size
        (let sparse_header = \<lparr>magic = SPARSE_HEADER_MAGIC, major_version = SPARSE_HEADER_MAJOR_VER,
               minor_version = SPARSE_HEADER_MINOR_VER, file_hdr_sz = of_nat SPARSE_HEADER_LEN, chunk_hdr_sz = of_nat CHUNK_HEADER_LEN,
               blk_sz = block_size, total_blks = of_int (DIV_ROUND_UP64 len block_size),
               total_chunks = (if crc then chunks + 1 else chunks), image_checksum = 0\<rparr>
         in bnd (emit ops (sparse_header_bytes sparse_header) 28 out) (\<lambda>(ret, out). Ok (if ret < 0 then ret else 0, out, h))))"

text \<open>
  Opening: whether the returned pointer is not null, and the structure with the sink it stands on.
\<close>

definition output_file_open_callback :: "'p write_callback \<Rightarrow> 'p \<Rightarrow> u32 \<Rightarrow> u64 \<Rightarrow> bool \<Rightarrow> u32 \<Rightarrow> bool \<Rightarrow> heap \<Rightarrow>
    (bool \<times> 'p output_file \<times> heap) res" where
  "output_file_open_callback write priv block_size len sparse chunks crc h =
     (case try_alloc 88 h of (ok, h) \<Rightarrow>
      if \<not> ok then Ok (False, blank_file priv, h)
      else bnd (output_file_init (callback_file_ops write) priv block_size len sparse chunks crc h) (\<lambda>(ret, out, h).
      Ok (\<not> ret < 0, out, h)))"

text \<open>For a descriptor; \<open>ops\<close> is \<open>gz_file_ops\<close> or \<open>file_ops\<close>. That opening a stream fails is not noticed.\<close>

definition output_file_open_fd :: "'s output_file_ops \<Rightarrow> 's \<Rightarrow> int \<Rightarrow> u32 \<Rightarrow> u64 \<Rightarrow> bool \<Rightarrow> u32 \<Rightarrow> bool \<Rightarrow> heap \<Rightarrow>
    (bool \<times> 's output_file \<times> heap) res" where
  "output_file_open_fd ops s fd block_size len sparse chunks crc h =
     (case try_alloc 80 h of (ok, h) \<Rightarrow>
      if \<not> ok then Ok (False, blank_file s, h)
      else bnd (output_file_init ops (snd (op_open ops fd s)) block_size len sparse chunks crc h) (\<lambda>(ret, out, h).
      Ok (\<not> ret < 0, out, h)))"

subsection \<open>Writing regions\<close>

definition write_data_chunk :: "'s output_file_ops \<Rightarrow> u32 \<Rightarrow> bytes \<Rightarrow> 's output_file \<Rightarrow> (int \<times> 's output_file) res" where
  "write_data_chunk ops len data out =
     (if sparse_ops out then write_sparse_data_chunk ops len data out else write_normal_data_chunk ops len data out)"

definition write_fill_chunk :: "'s output_file_ops \<Rightarrow> u32 \<Rightarrow> u32 \<Rightarrow> 's output_file \<Rightarrow> (int \<times> 's output_file) res" where
  "write_fill_chunk ops len fill_val out =
     (if sparse_ops out then write_sparse_fill_chunk ops len fill_val out else write_normal_fill_chunk ops len fill_val out)"

definition write_skip_chunk :: "'s output_file_ops \<Rightarrow> u64 \<Rightarrow> 's output_file \<Rightarrow> (int \<times> 's output_file) res" where
  "write_skip_chunk ops len out =
     (if sparse_ops out then write_sparse_skip_chunk ops len out else write_normal_skip_chunk ops len out)"

text \<open>
  The files that are mapped and opened for reading: \<open>mmap64\<close> of a length, descriptor and offset, and
  \<open>open\<close> of a name, each with an error number or the mapped memory or descriptor.
\<close>

record os =
  mmap64 :: "u64 \<Rightarrow> int \<Rightarrow> u64 \<Rightarrow> int + bytes"
  open_rdonly :: "bytes \<Rightarrow> int + int"

definition write_fd_chunk :: "os \<Rightarrow> 's output_file_ops \<Rightarrow> u32 \<Rightarrow> int \<Rightarrow> u64 \<Rightarrow> 's output_file \<Rightarrow> (int \<times> 's output_file) res" where
  "write_fd_chunk os ops len fd offset out =
     (let aligned_offset = offset AND NOT 4095;
          aligned_diff = offset - aligned_offset;
          buffer_size = ucast len + aligned_diff
      in case mmap64 os buffer_size fd aligned_offset of
           Inl errno \<Rightarrow> Ok (- errno, out)
         | Inr data \<Rightarrow> write_data_chunk ops len (drop (unat aligned_diff) data) out)"

definition EFAULT :: int where "EFAULT = 14"

definition write_file_chunk :: "os \<Rightarrow> 's output_file_ops \<Rightarrow> u32 \<Rightarrow> bytes option \<Rightarrow> u64 \<Rightarrow> 's output_file \<Rightarrow> (int \<times> 's output_file) res" where
  "write_file_chunk os ops len file offset out =
     (case (case file of None \<Rightarrow> Inl EFAULT | Some name \<Rightarrow> open_rdonly os name) of
        Inl errno \<Rightarrow> Ok (- errno, out)
      | Inr file_fd \<Rightarrow> write_fd_chunk os ops len file_fd offset out)"

end
