(* ===== verification/Sparse_File.thy ===== *)
theory Sparse_File
  imports Sparse_Output
begin

text \<open>
  Sparse files (\<open>sparse.cpp\<close>): a list of backed blocks with the length of the image, writing it in either
  format, its length, and splitting it into files of bounded length.
\<close>

section \<open>Definitions\<close>

record sparse_file =
  sf_block_size :: u32
  sf_len :: u64
  sf_verbose :: bool
  backed_blocks :: backed_block_list

definition sparse_file_new :: "u32 \<Rightarrow> u64 \<Rightarrow> heap \<Rightarrow> (sparse_file option \<times> heap) res" where
  "sparse_file_new block_size len h =
     (case try_alloc 40 h of (ok, h) \<Rightarrow>
      if \<not> ok then Ok (None, h)
      else bnd (backed_block_list_new block_size h) (\<lambda>(bbl, h).
      Ok (Some \<lparr>sf_block_size = block_size, sf_len = len, sf_verbose = False, backed_blocks = bbl\<rparr>, h)))"

text \<open>An operation on the list of blocks as one on the file.\<close>

definition on_blocks :: "sparse_file \<Rightarrow> (int \<times> backed_block_list \<times> heap) res \<Rightarrow> (int \<times> sparse_file \<times> heap) res" where
  "on_blocks s r = bnd r (\<lambda>(ret, bbl, h). Ok (ret, s\<lparr>backed_blocks := bbl\<rparr>, h))"

definition sparse_file_add_data :: "sparse_file \<Rightarrow> bytes \<Rightarrow> u32 \<Rightarrow> u32 \<Rightarrow> heap \<Rightarrow> (int \<times> sparse_file \<times> heap) res" where
  "sparse_file_add_data s data len block h = on_blocks s (backed_block_add_data (backed_blocks s) data len block h)"

definition sparse_file_add_fill :: "sparse_file \<Rightarrow> u32 \<Rightarrow> u32 \<Rightarrow> u32 \<Rightarrow> heap \<Rightarrow> (int \<times> sparse_file \<times> heap) res" where
  "sparse_file_add_fill s fill_val len block h = on_blocks s (backed_block_add_fill (backed_blocks s) fill_val len block h)"

definition sparse_file_add_file :: "sparse_file \<Rightarrow> bytes \<Rightarrow> u64 \<Rightarrow> u32 \<Rightarrow> u32 \<Rightarrow> heap \<Rightarrow> (int \<times> sparse_file \<times> heap) res" where
  "sparse_file_add_file s filename file_offset len block h =
     on_blocks s (backed_block_add_file (backed_blocks s) filename file_offset len block h)"

definition sparse_file_add_fd :: "sparse_file \<Rightarrow> int \<Rightarrow> u64 \<Rightarrow> u32 \<Rightarrow> u32 \<Rightarrow> heap \<Rightarrow> (int \<times> sparse_file \<times> heap) res" where
  "sparse_file_add_fd s fd file_offset len block h = on_blocks s (backed_block_add_fd (backed_blocks s) fd file_offset len block h)"

subsection \<open>Writing\<close>

text \<open>The block behind a block.\<close>

definition next_block :: "u32 \<Rightarrow> backed_block \<Rightarrow> u32" where
  "next_block sz bb = bb_block bb + DIV_ROUND_UP (bb_len bb) sz"

fun count_loop :: "u32 \<Rightarrow> backed_block list \<Rightarrow> u32 \<Rightarrow> u32 \<Rightarrow> u32 \<times> u32" where
  "count_loop sz [] last_block chunks = (last_block, chunks)"
| "count_loop sz (bb # bs) last_block chunks =
     count_loop sz bs (next_block sz bb) ((if bb_block bb > last_block then chunks + 1 else chunks) + 1)"

definition sparse_count_chunks :: "sparse_file \<Rightarrow> u32 res" where
  "sparse_count_chunks s = nonzero (sf_block_size s)
     (case count_loop (sf_block_size s) (data_blocks (backed_blocks s)) 0 0 of (last_block, chunks) \<Rightarrow>
      Ok (if uint last_block < DIV_ROUND_UP64 (sf_len s) (sf_block_size s) then chunks + 1 else chunks))"

definition sparse_file_write_block :: "os \<Rightarrow> 's output_file_ops \<Rightarrow> backed_block \<Rightarrow> 's output_file \<Rightarrow> (int \<times> 's output_file) res" where
  "sparse_file_write_block os ops bb out = (case bb_kind bb of
     BACKED_BLOCK_DATA data \<Rightarrow> write_data_chunk ops (bb_len bb) data out
   | BACKED_BLOCK_FILE filename offset \<Rightarrow> write_file_chunk os ops (bb_len bb) filename offset out
   | BACKED_BLOCK_FD fd offset \<Rightarrow> write_fd_chunk os ops (bb_len bb) fd offset out
   | BACKED_BLOCK_FILL fill_val \<Rightarrow> write_fill_chunk ops (bb_len bb) fill_val out)"

text \<open>The loop over the blocks: its result, and the block it has come to. Results of skipping are not looked at.\<close>

fun write_blocks_loop :: "os \<Rightarrow> 's output_file_ops \<Rightarrow> u32 \<Rightarrow> backed_block list \<Rightarrow> u32 \<Rightarrow> 's output_file \<Rightarrow>
    (int \<times> u32 \<times> 's output_file) res" where
  "write_blocks_loop os ops sz [] last_block out = Ok (0, last_block, out)"
| "write_blocks_loop os ops sz (bb # bs) last_block out =
     bnd (if bb_block bb > last_block
          then write_skip_chunk ops (ucast (bb_block bb - last_block) * ucast sz) out else Ok (0, out)) (\<lambda>(_, out).
     bnd (sparse_file_write_block os ops bb out) (\<lambda>(ret, out).
     if ret \<noteq> 0 then Ok (ret, last_block, out)
     else write_blocks_loop os ops sz bs (next_block sz bb) out))"

definition write_all_blocks :: "os \<Rightarrow> 's output_file_ops \<Rightarrow> sparse_file \<Rightarrow> 's output_file \<Rightarrow> (int \<times> 's output_file) res" where
  "write_all_blocks os ops s out =
     bnd (write_blocks_loop os ops (sf_block_size s) (data_blocks (backed_blocks s)) 0 out) (\<lambda>(ret, last_block, out).
     if ret \<noteq> 0 then Ok (ret, out)
     else let pad = sf_len s - ucast last_block * ucast (sf_block_size s) in
     bnd (if sint pad > 0 then write_skip_chunk ops pad out else Ok (0, out)) (\<lambda>(_, out).
     Ok (0, out)))"

text \<open>\<open>ops\<close> is \<open>gz_file_ops\<close> when \<open>gz\<close> is set, else \<open>file_ops\<close>.\<close>

definition sparse_file_write :: "os \<Rightarrow> 's output_file_ops \<Rightarrow> sparse_file \<Rightarrow> int \<Rightarrow> bool \<Rightarrow> bool \<Rightarrow> 's \<Rightarrow> heap \<Rightarrow> (int \<times> 's \<times> heap) res" where
  "sparse_file_write os ops s fd sparse crc k h =
     bnd (sparse_count_chunks s) (\<lambda>chunks.
     bnd (output_file_open_fd ops k fd (sf_block_size s) (sf_len s) sparse chunks crc h) (\<lambda>(opened, out, h).
     if \<not> opened then Ok (- ENOMEM, sink out, h)
     else bnd (write_all_blocks os ops s out) (\<lambda>(ret, out).
     bnd (output_file_close ops out) (\<lambda>k. Ok (ret, k, h)))))"

definition sparse_file_callback :: "os \<Rightarrow> sparse_file \<Rightarrow> bool \<Rightarrow> bool \<Rightarrow> 'p write_callback \<Rightarrow> 'p \<Rightarrow> heap \<Rightarrow> (int \<times> 'p \<times> heap) res" where
  "sparse_file_callback os s sparse crc write priv h =
     bnd (sparse_count_chunks s) (\<lambda>chunks.
     bnd (output_file_open_callback write priv (sf_block_size s) (sf_len s) sparse chunks crc h) (\<lambda>(opened, out, h).
     if \<not> opened then Ok (- ENOMEM, sink out, h)
     else bnd (write_all_blocks os (callback_file_ops write) s out) (\<lambda>(ret, out).
     bnd (output_file_close (callback_file_ops write) out) (\<lambda>p. Ok (ret, p, h)))))"

text \<open>\<open>chunk_data\<close>: the caller's \<open>priv\<close> with the block and the number of blocks it is told about.\<close>

record 'p chunk_data =
  cd_priv :: 'p
  cd_block :: u32
  cd_nr_blocks :: u32

definition foreach_chunk_write ::
    "(bytes option \<Rightarrow> u64 \<Rightarrow> u32 \<Rightarrow> u32 \<Rightarrow> 'p \<Rightarrow> (int \<times> 'p) res) \<Rightarrow> 'p chunk_data write_callback" where
  "foreach_chunk_write write data len chk =
     bnd (write data len (cd_block chk) (cd_nr_blocks chk) (cd_priv chk)) (\<lambda>(ret, p). Ok (ret, chk\<lparr>cd_priv := p\<rparr>))"

text \<open>\<open>ret\<close> is \<open>None\<close> as long as nothing was assigned to it; returning it then is a \<open>Fault\<close>.\<close>

fun chunk_foreach_loop :: "os \<Rightarrow> 'p chunk_data output_file_ops \<Rightarrow> u32 \<Rightarrow> backed_block list \<Rightarrow> int option \<Rightarrow> 'p chunk_data output_file \<Rightarrow>
    (int option \<times> 'p chunk_data output_file) res" where
  "chunk_foreach_loop os ops sz [] ret out = Ok (ret, out)"
| "chunk_foreach_loop os ops sz (bb # bs) ret out =
     (let out = out\<lparr>sink := (sink out)\<lparr>cd_block := bb_block bb, cd_nr_blocks := (bb_len bb - 1) div sz + 1\<rparr>\<rparr> in
      bnd (sparse_file_write_block os ops bb out) (\<lambda>(ret, out).
      if ret \<noteq> 0 then Ok (Some ret, out) else chunk_foreach_loop os ops sz bs (Some ret) out))"

definition sparse_file_foreach_chunk :: "os \<Rightarrow> sparse_file \<Rightarrow> bool \<Rightarrow> bool \<Rightarrow>
    (bytes option \<Rightarrow> u64 \<Rightarrow> u32 \<Rightarrow> u32 \<Rightarrow> 'p \<Rightarrow> (int \<times> 'p) res) \<Rightarrow> 'p \<Rightarrow> heap \<Rightarrow> (int \<times> 'p \<times> heap) res" where
  "sparse_file_foreach_chunk os s sparse crc write priv h =
     (let chk = \<lparr>cd_priv = priv, cd_block = 0, cd_nr_blocks = 0\<rparr>; ops = callback_file_ops (foreach_chunk_write write) in
      bnd (sparse_count_chunks s) (\<lambda>chunks.
      bnd (output_file_open_callback (foreach_chunk_write write) chk (sf_block_size s) (sf_len s) sparse chunks crc h) (\<lambda>(opened, out, h).
      if \<not> opened then Ok (- ENOMEM, cd_priv (sink out), h)
      else bnd (chunk_foreach_loop os ops (sf_block_size s) (data_blocks (backed_blocks s)) None out) (\<lambda>(ret, out).
      case ret of
        None \<Rightarrow> Fault BadAccess
      | Some ret \<Rightarrow>
          if ret \<noteq> 0 then Ok (ret, cd_priv (sink out), h)
          else bnd (output_file_close ops out) (\<lambda>chk. Ok (ret, cd_priv chk, h))))))"

subsection \<open>Lengths\<close>

definition out_counter_write :: "u64 write_callback" where
  "out_counter_write data len count = Ok (0, count + len)"

text \<open>The result is an \<open>int64_t\<close>.\<close>

definition sparse_file_length :: "os \<Rightarrow> sparse_file \<Rightarrow> bool \<Rightarrow> bool \<Rightarrow> heap \<Rightarrow> (int \<times> heap) res" where
  "sparse_file_length os s sparse crc h =
     bnd (sparse_count_chunks s) (\<lambda>chunks.
     bnd (output_file_open_callback out_counter_write 0 (sf_block_size s) (sf_len s) sparse chunks crc h) (\<lambda>(opened, out, h).
     if \<not> opened then Ok (-1, h)
     else bnd (write_all_blocks os (callback_file_ops out_counter_write) s out) (\<lambda>(ret, out).
     bnd (output_file_close (callback_file_ops out_counter_write) out) (\<lambda>count.
     Ok (if ret < 0 then -1 else sint count, h)))))"

subsection \<open>Splitting\<close>

text \<open>
  \<open>move_chunks_up_to_len\<close>: the loop with the position of \<open>bb\<close>; it ends with an error, with all blocks
  measured, or at the block where the length is exceeded, with the list, the last block to move and the heap.
\<close>

datatype measured = Unwritable | All_fit "nat option" | Exceeded "nat option" backed_block_list heap

function measure_loop :: "os \<Rightarrow> u32 \<Rightarrow> u32 \<Rightarrow> backed_block_list \<Rightarrow> nat \<Rightarrow> u32 \<Rightarrow> int \<Rightarrow> nat option \<Rightarrow> u64 output_file \<Rightarrow> heap \<Rightarrow>
    (measured \<times> u64 output_file) res" where
  "measure_loop os sz len bbl k last_block file_len last_bb out h =
     (if length (data_blocks bbl) \<le> k then Ok (All_fit last_bb, out)
      else let bb = data_blocks bbl ! k;
             out = out\<lparr>sink := if bb_block bb > last_block then of_nat CHUNK_HEADER_LEN else 0\<rparr> in
      bnd (sparse_file_write_block os (callback_file_ops out_counter_write) bb out) (\<lambda>(ret, out).
      if ret \<noteq> 0 then Ok (Unwritable, out)
      else if file_len + sint (sink out) > uint len then
        let file_len = file_len + int CHUNK_HEADER_LEN in
        if last_bb = None \<or> uint len - file_len > uint (len div 8)
        then bnd (backed_block_split bbl k (of_int (uint len - file_len)) h) (\<lambda>(_, bbl, h).
             Ok (Exceeded (Some k) bbl h, out))
        else Ok (Exceeded last_bb bbl h, out)
      else measure_loop os sz len bbl (Suc k) (next_block sz bb) (file_len + sint (sink out)) (Some k) out h))"
  by pat_completeness auto
termination by (relation "measure (\<lambda>(_, _, _, bbl, k, _). length (data_blocks bbl) - k)") auto

declare measure_loop.simps [simp del]

text \<open>
  \<open>sizeof\<close> of the file header, two chunk headers and the checksum is taken off the length without a check.
  The result is whether the returned pointer is not null.
\<close>

definition move_chunks_up_to_len :: "os \<Rightarrow> sparse_file \<Rightarrow> sparse_file \<Rightarrow> u32 \<Rightarrow> heap \<Rightarrow>
    (bool \<times> sparse_file \<times> sparse_file \<times> heap) res" where
  "move_chunks_up_to_len os from to len h =
     (let len = len - 56 in
      bnd (output_file_open_callback out_counter_write 0 (sf_block_size to) (sf_len to) True 0 False h) (\<lambda>(opened, out, h).
      if \<not> opened then Ok (False, from, to, h)
      else bnd (measure_loop os (sf_block_size to) len (backed_blocks from) 0 0 0 None out h) (\<lambda>(m, out).
      let move = (\<lambda>bbl last_bb. backed_block_list_move bbl (backed_blocks to)
            (if data_blocks bbl = [] then None else Some 0) last_bb);
          done_with = (\<lambda>more bbls h. case bbls of (f, t) \<Rightarrow> bnd (output_file_close (callback_file_ops out_counter_write) out) (\<lambda>_.
            Ok (more, from\<lparr>backed_blocks := f\<rparr>, to\<lparr>backed_blocks := t\<rparr>, h)))
      in case m of
           Unwritable \<Rightarrow> done_with False (backed_blocks from, backed_blocks to) h
         | All_fit last_bb \<Rightarrow> done_with False (move (backed_blocks from) last_bb) h
         | Exceeded last_bb bbl h \<Rightarrow> done_with True (move bbl last_bb) h)))"

text \<open>
  The loop of \<open>sparse_file_resparse\<close>: files beyond the capacity of \<open>out_s\<close> are collected in \<open>tmp\<close>. One unit of
  fuel a turn.
\<close>

fun resparse_loop :: "nat \<Rightarrow> os \<Rightarrow> u32 \<Rightarrow> nat \<Rightarrow> sparse_file \<Rightarrow> backed_block_list \<Rightarrow> sparse_file list \<Rightarrow> nat \<Rightarrow> heap \<Rightarrow>
    (nat \<times> sparse_file \<times> backed_block_list \<times> sparse_file list \<times> heap) res" where
  "resparse_loop 0 os max_len out_s_count in_s tmp out_s c h = Fault OutOfFuel"
| "resparse_loop (Suc fuel) os max_len out_s_count in_s tmp out_s c h =
     bnd (sparse_file_new (sf_block_size in_s) (sf_len in_s) h) (\<lambda>(s, h).
     deref s (\<lambda>s.
     bnd (move_chunks_up_to_len os in_s s max_len h) (\<lambda>(more, in_s, s, h).
     (case (if c < out_s_count then (tmp, out_s @ [s])
            else (snd (backed_block_list_move (backed_blocks s) tmp None None), out_s)) of (tmp, out_s) \<Rightarrow>
      if more then resparse_loop fuel os max_len out_s_count in_s tmp out_s (Suc c) h
      else Ok (Suc c, in_s, tmp, out_s, h)))))"

definition sparse_file_resparse :: "nat \<Rightarrow> os \<Rightarrow> sparse_file \<Rightarrow> u32 \<Rightarrow> nat \<Rightarrow> heap \<Rightarrow> (int \<times> sparse_file \<times> sparse_file list \<times> heap) res" where
  "sparse_file_resparse fuel os in_s max_len out_s_count h =
     bnd (sparse_file_new (sf_block_size in_s) (sf_len in_s) h) (\<lambda>(tmp, h).
     case tmp of
       None \<Rightarrow> Ok (- ENOMEM, in_s, [], h)
     | Some tmp \<Rightarrow>
         bnd (resparse_loop fuel os max_len out_s_count in_s (backed_blocks tmp) [] 0 h) (\<lambda>(c, in_s, tmp, out_s, h).
         Ok (int c, in_s\<lparr>backed_blocks := snd (backed_block_list_move tmp (backed_blocks in_s) None None)\<rparr>, out_s, h)))"

definition sparse_file_verbose :: "sparse_file \<Rightarrow> sparse_file" where
  "sparse_file_verbose s = s\<lparr>sf_verbose := True\<rparr>"

end
