(* ===== verification/Sparse_Written.thy ===== *)
theory Sparse_Written
  imports Sparse_File
begin

text \<open>
  What \<open>sparse_file_write\<close> and its relatives write. An image is a list of chunks with an encoding; the
  locale \<open>chunk_sink\<close> is what the chunk writers need of a sink, and its interpretations are a descriptor and
  the counter by which \<open>sparse_file_len\<close> measures.
\<close>

section \<open>Chunks and their encoding\<close>

datatype chunk = Raw bytes | Fill u32 nat | Hole nat | Checksum u32

definition encode_header :: "u16 \<Rightarrow> nat \<Rightarrow> nat \<Rightarrow> bytes" where
  "encode_header t blocks payload = chunk_header_bytes \<lparr>chunk_type = t, reserved1 = 0, chunk_sz = of_nat blocks, total_sz = of_nat (12 + payload)\<rparr>"

fun encode_chunk :: "nat \<Rightarrow> chunk \<Rightarrow> bytes" where
  "encode_chunk z (Raw d) = encode_header CHUNK_TYPE_RAW (length d div z) (length d) @ d"
| "encode_chunk z (Fill v n) = encode_header CHUNK_TYPE_FILL n 4 @ le_bytes 4 v"
| "encode_chunk z (Hole n) = encode_header CHUNK_TYPE_DONT_CARE n 0"
| "encode_chunk z (Checksum c) = encode_header CHUNK_TYPE_CRC32 0 4 @ le_bytes 4 c"

definition file_header :: "u32 \<Rightarrow> nat \<Rightarrow> nat \<Rightarrow> bytes" where
  "file_header sz nb chunks = sparse_header_bytes \<lparr>magic = 0xed26ff3a, major_version = 1, minor_version = 0, file_hdr_sz = 28,
     chunk_hdr_sz = 12, blk_sz = sz, total_blks = of_nat nb, total_chunks = of_nat chunks, image_checksum = 0\<rparr>"

definition encode_file :: "u32 \<Rightarrow> nat \<Rightarrow> chunk list \<Rightarrow> bytes" where
  "encode_file sz nb cs = file_header sz nb (length cs) @ concat (map (encode_chunk (unat sz)) cs)"

text \<open>
  The chunks of a list of blocks, from a block number on, and of an image. A fill becomes whole blocks of
  its pattern.
\<close>

definition extent :: "u32 \<Rightarrow> backed_block \<Rightarrow> nat" where
  "extent sz bb = past sz bb - unat (bb_block bb)"

definition padded :: "backing \<Rightarrow> u32 \<Rightarrow> backed_block \<Rightarrow> bytes" where
  "padded env sz bb = map (block_byte env bb) [0..<extent sz bb * unat sz]"

definition chunk_of :: "backing \<Rightarrow> u32 \<Rightarrow> backed_block \<Rightarrow> chunk" where
  "chunk_of env sz bb = (case bb_kind bb of BACKED_BLOCK_FILL v \<Rightarrow> Fill v (extent sz bb) | _ \<Rightarrow> Raw (padded env sz bb))"

definition hole :: "nat \<Rightarrow> chunk list" where
  "hole n = (if n = 0 then [] else [Hole n])"

fun block_chunks :: "backing \<Rightarrow> u32 \<Rightarrow> backed_block list \<Rightarrow> nat \<Rightarrow> chunk list" where
  "block_chunks env sz [] n = []"
| "block_chunks env sz (bb # bs) n = hole (unat (bb_block bb) - n) @ chunk_of env sz bb # block_chunks env sz bs (past sz bb)"

fun blocks_end :: "u32 \<Rightarrow> backed_block list \<Rightarrow> nat \<Rightarrow> nat" where
  "blocks_end sz [] n = n"
| "blocks_end sz (bb # bs) n = blocks_end sz bs (past sz bb)"

definition total_blocks :: "sparse_file \<Rightarrow> nat" where
  "total_blocks s = unat (sf_len s) div unat (sf_block_size s)"

definition image_chunks :: "backing \<Rightarrow> sparse_file \<Rightarrow> chunk list" where
  "image_chunks env s = (let bs = data_blocks (backed_blocks s); sz = sf_block_size s
     in block_chunks env sz bs 0 @ hole (total_blocks s - blocks_end sz bs 0))"

text \<open>The bytes the writer takes into the checksum: of a fill one block, however long it is.\<close>

fun summed :: "nat \<Rightarrow> chunk \<Rightarrow> bytes" where
  "summed z (Raw d) = d"
| "summed z (Fill v n) = fill_bytes v z"
| "summed z _ = []"

section \<open>Sizes\<close>

lemma unat_scast_small: "unat x < 2 ^ 31 \<Longrightarrow> unat (scast (x :: u32) :: u64) = unat x"
proof -
  assume x: "unat x < 2 ^ 31"
  then have "uint x < 2 ^ 31" by (simp add: nat_less_iff flip: nat_uint_eq)
  then have "sint x = int (unat x)"
    using signed_take_bit_int_eq_self [of 31 "uint x"] uint_ge_0 [of x] by (simp add: sint_uint)
  then have "(scast x :: u64) = of_nat (unat x)" by (metis of_int_of_nat_eq of_int_sint)
  then show ?thesis by (simp add: unat_ucast_up)
qed

lemma sint_of_nat_small: "n < 2 ^ 63 \<Longrightarrow> sint (of_nat n :: u64) = int n"
  by (simp add: signed_of_nat signed_take_bit_int_eq_self)

text \<open>Files that can be written: below 2 GiB, a whole number of blocks.\<close>

definition writable :: "sparse_file \<Rightarrow> bool" where
  "writable s \<longleftrightarrow> list_ok (backed_blocks s) \<and> bbl_block_size (backed_blocks s) = sf_block_size s \<and>
     unat (sf_block_size s) dvd unat (sf_len s) \<and> unat (sf_len s) < 2 ^ 31 \<and>
     (\<forall>bb\<in>set (data_blocks (backed_blocks s)). past (sf_block_size s) bb \<le> total_blocks s)"

definition small :: "u32 \<Rightarrow> nat \<Rightarrow> backed_block \<Rightarrow> bool" where
  "small sz nb bb \<longleftrightarrow> 0 < sz \<and> 4 dvd unat sz \<and> nb * unat sz < 2 ^ 31 \<and> block_fits sz bb \<and> past sz bb \<le> nb"

lemma small_sizes:
  assumes "small sz nb bb"
  shows "0 < unat sz" "0 < extent sz bb" "unat (bb_len bb) \<le> extent sz bb * unat sz"
    "extent sz bb * unat sz < 2 ^ 31" "extent sz bb * unat sz < unat (bb_len bb) + unat sz"
    "past sz bb = unat (bb_block bb) + extent sz bb" "unat sz < 2 ^ 31"
    "extent sz bb = (unat (bb_len bb) + unat sz - 1) div unat sz"
proof -
  let ?z = "unat sz" and ?l = "unat (bb_len bb)"
  show z: "0 < ?z" using assms by (simp add: small_def word_less_nat_alt)
  show e: "extent sz bb = (?l + ?z - 1) div ?z" by (simp add: extent_def past_def)
  show "past sz bb = unat (bb_block bb) + extent sz bb" by (simp add: extent_def past_def)
  have l: "0 < ?l" using assms by (simp add: small_def block_fits_def word_less_nat_alt)
  then show p: "0 < extent sz bb" using z by (simp add: e div_greater_zero_iff)
  have d: "(?l + ?z - 1) div ?z * ?z + (?l + ?z - 1) mod ?z = ?l + ?z - 1" by simp
  moreover have "(?l + ?z - 1) mod ?z < ?z" using z by simp
  ultimately show "?l \<le> extent sz bb * ?z" "extent sz bb * ?z < ?l + ?z" using l unfolding e by linarith+
  have "extent sz bb \<le> nb" using assms by (auto simp: small_def extent_def)
  then have "extent sz bb * ?z \<le> nb * ?z" by (rule mult_le_mono1)
  moreover have "nb * ?z < 2 ^ 31" using assms by (simp add: small_def)
  ultimately show lim: "extent sz bb * ?z < 2 ^ 31" by (rule le_less_trans)
  have "1 * ?z \<le> extent sz bb * ?z" using p by (intro mult_le_mono1) simp
  from le_less_trans [OF this lim] show "?z < 2 ^ 31" by simp
qed

lemma small_words:
  assumes "small sz nb bb"
  shows "unat (DIV_ROUND_UP (bb_len bb) sz) = extent sz bb"
    "unat (ALIGN (bb_len bb) sz) = extent sz bb * unat sz"
    "ALIGN (bb_len bb) sz div sz = of_nat (extent sz bb)"
    "unat (ALIGN (bb_len bb) sz - bb_len bb) = extent sz bb * unat sz - unat (bb_len bb)"
    "unat (scast (ALIGN (bb_len bb) sz - bb_len bb) :: u64) = extent sz bb * unat sz - unat (bb_len bb)"
    "unat (next_block sz bb) = past sz bb"
proof -
  note z = small_sizes [OF assms]
  show d: "unat (DIV_ROUND_UP (bb_len bb) sz) = extent sz bb"
    using unat_DIV_ROUND_UP [of "bb_len bb" sz] z assms by (simp add: small_def)
  show a: "unat (ALIGN (bb_len bb) sz) = extent sz bb * unat sz"
    using z by (simp add: ALIGN_def unat_word_ariths d mult.commute)
  have "extent sz bb * 1 \<le> extent sz bb * unat sz" using z(1) by (intro mult_le_mono2) simp
  then have "extent sz bb < 2 ^ 32" using le_less_trans [of "extent sz bb" "extent sz bb * unat sz" "2 ^ 31"] z(4) by simp
  then show "ALIGN (bb_len bb) sz div sz = of_nat (extent sz bb)"
    using z(1) by (simp add: word_unat_eq_iff unat_div a unsigned_of_nat take_bit_nat_eq_self)
  show s: "unat (ALIGN (bb_len bb) sz - bb_len bb) = extent sz bb * unat sz - unat (bb_len bb)"
    using z by (simp add: unat_sub word_le_nat_alt a)
  then have "unat (ALIGN (bb_len bb) sz - bb_len bb) < 2 ^ 31" using z(4) by simp
  then show "unat (scast (ALIGN (bb_len bb) sz - bb_len bb) :: u64) = extent sz bb * unat sz - unat (bb_len bb)"
    by (simp add: unat_scast_small s)
  have "past sz bb < 2 ^ 32" using assms by (simp add: small_def block_fits_def)
  then show "unat (next_block sz bb) = past sz bb" using z(6) by (simp add: next_block_def unat_word_ariths d)
qed

text \<open>The checksum of the words of a fill is that of its bytes.\<close>

lemma fill_bytes_words: "fill_bytes v (4 * n) = concat (replicate n (le_bytes 4 v))"
proof (induction n)
  case (Suc n)
  have "[0..<4 * Suc n] = [0..<4] @ map (\<lambda>i. i + 4) [0..<4 * n]"
    using upt_add_eq_append [of 0 4 "4 * n"] by (simp add: map_add_upt add.commute)
  then have "fill_bytes v (4 * Suc n) = map (\<lambda>i. byte_at v (i mod 4)) [0..<4] @ fill_bytes v (4 * n)"
    by (simp add: fill_bytes_def del: upt_Suc upt_rec_numeral)
  moreover have "map (\<lambda>i. byte_at v (i mod 4)) [0..<4] = le_bytes 4 v"
    unfolding le_bytes_def by (intro map_cong) auto
  ultimately show ?case using Suc by simp
qed (simp add: fill_bytes_def)

lemma fill_bytes_append: "4 dvd a \<Longrightarrow> fill_bytes v (a + b) = fill_bytes v a @ fill_bytes v b"
proof -
  assume a: "4 dvd a"
  have "[0..<a + b] = [0..<a] @ map (\<lambda>i. i + a) [0..<b]"
    using upt_add_eq_append [of 0 a b] by (simp add: map_add_upt add.commute)
  moreover have "(i + a) mod 4 = i mod 4" for i using a by (auto elim: dvdE)
  ultimately show ?thesis by (simp add: fill_bytes_def comp_def)
qed

lemma crc_fill_loop_after:
  assumes "4 dvd n"
  shows "crc_fill_loop (n div 4) (le_bytes 4 v) crc = Ok (crc_after crc (fill_bytes v n))"
proof -
  have "crc_fill_loop k (le_bytes 4 v) crc = Ok (crc_after crc (concat (replicate k (le_bytes 4 v))))" for k
    by (induction k arbitrary: crc) (simp_all add: sparse_crc32_after crc_after_append)
  from this [of "n div 4"] show ?thesis using assms by (simp flip: fill_bytes_words)
qed

text \<open>What reading the data of a block gives: the mapping is there and holds the file's bytes.\<close>

definition mapped :: "os \<Rightarrow> u32 \<Rightarrow> int \<Rightarrow> u64 \<Rightarrow> (u64 \<Rightarrow> u8) \<Rightarrow> bool" where
  "mapped os len fd ofs content \<longleftrightarrow> (\<exists>data. let diff = ofs - (ofs AND NOT 4095) in
     mmap64 os (ucast len + diff) fd (ofs AND NOT 4095) = Inr data \<and> unat diff + unat len \<le> length data \<and>
     (\<forall>i<unat len. data ! (unat diff + i) = content (ofs + of_nat i)))"

definition block_readable :: "os \<Rightarrow> backing \<Rightarrow> backed_block \<Rightarrow> bool" where
  "block_readable os env bb = (case bb_kind bb of
     BACKED_BLOCK_FILE (Some name) ofs \<Rightarrow> (\<exists>fd. open_rdonly os name = Inr fd \<and> mapped os (bb_len bb) fd ofs (named_file env name))
   | BACKED_BLOCK_FD fd ofs \<Rightarrow> mapped os (bb_len bb) fd ofs (open_file env fd)
   | _ \<Rightarrow> True)"

text \<open>Writing a block with data is writing those data.\<close>

lemma write_block_data:
  assumes fits: "block_fits sz bb" and rd: "block_readable os env bb" and kind: "\<not> is_fill (bb_kind bb)"
  obtains data where "unat (bb_len bb) \<le> length data"
    "take (unat (bb_len bb)) data = map (block_byte env bb) [0..<unat (bb_len bb)]"
    "\<And>out. sparse_file_write_block os ops bb out = write_data_chunk ops (bb_len bb) data out"
proof -
  have map_take: "take n d = map f [0..<n]" if "n \<le> length d" "\<forall>i<n. d ! i = f i" for n and d :: bytes and f
    using that by (intro nth_equalityI) auto
  note result = that
  have fd: thesis
    if m: "mapped os (bb_len bb) fd ofs content" and c: "\<And>p. kind_byte env (bb_kind bb) p = content (ofs + of_nat p)"
      and w: "\<And>out. sparse_file_write_block os ops bb out = write_fd_chunk os ops (bb_len bb) fd ofs out" for fd ofs content
  proof -
    define diff where "diff = ofs - (ofs AND NOT 4095)"
    obtain data where d: "mmap64 os (ucast (bb_len bb) + diff) fd (ofs AND NOT 4095) = Inr data"
      "unat diff + unat (bb_len bb) \<le> length data" "\<forall>i<unat (bb_len bb). data ! (unat diff + i) = content (ofs + of_nat i)"
      using m unfolding mapped_def Let_def diff_def by blast
    show thesis
    proof (rule result [of "drop (unat diff) data"])
      show "take (unat (bb_len bb)) (drop (unat diff) data) = map (block_byte env bb) [0..<unat (bb_len bb)]"
        using d by (intro map_take) (auto simp: block_byte_def c)
      show "sparse_file_write_block os ops bb out = write_data_chunk ops (bb_len bb) (drop (unat diff) data) out" for out
        unfolding w write_fd_chunk_def Let_def diff_def [symmetric] d(1) by simp
    qed (use d(2) in simp)
  qed
  show thesis
  proof (cases "bb_kind bb")
    case (BACKED_BLOCK_DATA data)
    then show thesis
      using fits by (intro that [of data] map_take) (auto simp: block_fits_def block_byte_def sparse_file_write_block_def)
  next
    case (BACKED_BLOCK_FILE f ofs)
    then obtain name fh where "f = Some name" "open_rdonly os name = Inr fh" "mapped os (bb_len bb) fh ofs (named_file env name)"
      using rd fits by (auto simp: block_readable_def block_fits_def)
    then show thesis
      using BACKED_BLOCK_FILE by (intro fd [of fh ofs "named_file env name"]) (simp_all add: sparse_file_write_block_def write_file_chunk_def)
  next
    case (BACKED_BLOCK_FD fh ofs)
    then show thesis
      using rd by (intro fd [of fh ofs "open_file env fh"]) (simp_all add: block_readable_def sparse_file_write_block_def)
  qed (use kind in simp)
qed

text \<open>The written file, and that the number of chunks in its header is the number counted.\<close>

definition written_file :: "backing \<Rightarrow> sparse_file \<Rightarrow> bool \<Rightarrow> bytes" where
  "written_file env s crc = encode_file (sf_block_size s) (total_blocks s) (image_chunks env s @
     (if crc then [Checksum (crc_after 0 (concat (map (summed (unat (sf_block_size s))) (image_chunks env s))))] else []))"

lemma count_loop_chunks:
  assumes "\<forall>bb\<in>set bs. small sz nb bb" "blocks_ok sz bs" "\<forall>bb\<in>set bs. unat last_block \<le> unat (bb_block bb)"
  shows "\<exists>last'. count_loop sz bs last_block c = (last', c + of_nat (length (block_chunks env sz bs (unat last_block)))) \<and>
    unat last' = blocks_end sz bs (unat last_block)"
  using assms
proof (induction bs arbitrary: last_block c)
  case (Cons bb bs)
  let ?c = "(if bb_block bb > last_block then c + 1 else c) + 1"
  have "small sz nb bb" using Cons.prems(1) by simp
  then have "unat (next_block sz bb) = past sz bb" by (rule small_words(6))
  then obtain last' where "count_loop sz bs (next_block sz bb) ?c = (last', ?c + of_nat (length (block_chunks env sz bs (past sz bb))))"
    "unat last' = blocks_end sz bs (past sz bb)"
    using Cons.IH [of "next_block sz bb" ?c] Cons.prems by (auto simp: blocks_ok_Cons)
  then show ?case using Cons.prems(3) by (auto simp: hole_def word_less_nat_alt split: if_splits)
qed simp

lemma blocks_end_le: "\<forall>bb\<in>set bs. past sz bb \<le> nb \<Longrightarrow> n \<le> nb \<Longrightarrow> blocks_end sz bs n \<le> nb"
  by (induction bs arbitrary: n) auto

lemma writable_small: "writable s \<Longrightarrow> bb \<in> set (data_blocks (backed_blocks s)) \<Longrightarrow> small (sf_block_size s) (total_blocks s) bb"
  by (auto simp: writable_def small_def list_ok_def blocks_ok_def list_all_iff total_blocks_def)

lemma sdiv_nat: "int a sdiv int b = int (a div b)"
  by (simp add: signed_divide_int_def sgn_if zdiv_int)

lemma writable_len:
  assumes "writable s"
  shows "unat (sf_len s) = total_blocks s * unat (sf_block_size s)" "0 < unat (sf_block_size s)"
    "DIV_ROUND_UP64 (sf_len s) (sf_block_size s) = int (total_blocks s)"
proof -
  let ?z = "unat (sf_block_size s)"
  show l: "unat (sf_len s) = total_blocks s * ?z" using assms by (simp add: writable_def total_blocks_def)
  show z: "0 < ?z" using assms by (auto simp: writable_def list_ok_def word_less_nat_alt)
  have "unat (sf_len s) < 2 ^ 31" using assms by (simp add: writable_def)
  moreover have "?z < 2 ^ 32" using unat_u32_less [of "sf_block_size s"] by simp
  ultimately have "unat (sf_len s) + ?z - 1 < 2 ^ 63" by simp
  moreover have "sf_len s + ucast (sf_block_size s) - 1 = of_nat (unat (sf_len s) + ?z - 1)"
    using z by (simp add: of_nat_diff)
  ultimately have "sint (sf_len s + ucast (sf_block_size s) - 1) = int (unat (sf_len s) + ?z - 1)"
    using sint_of_nat_small by metis
  then have "DIV_ROUND_UP64 (sf_len s) (sf_block_size s) = int ((total_blocks s * ?z + ?z - 1) div ?z)"
    using sdiv_nat [of "unat (sf_len s) + ?z - 1" ?z] unfolding DIV_ROUND_UP64_def l by simp
  then show "DIV_ROUND_UP64 (sf_len s) (sf_block_size s) = int (total_blocks s)"
    using round_up_whole [OF z, of "total_blocks s" 0] z by simp
qed

text \<open>The gap at the end of the image.\<close>

lemma end_gap:
  assumes s: "writable s" and last: "unat last' = blocks_end (sf_block_size s) (data_blocks (backed_blocks s)) 0"
  defines "n \<equiv> total_blocks s - blocks_end (sf_block_size s) (data_blocks (backed_blocks s)) 0"
  shows "sf_len s - ucast last' * ucast (sf_block_size s) = of_nat (n * unat (sf_block_size s))"
    "n * unat (sf_block_size s) < 2 ^ 31"
    "0 < sint (sf_len s - ucast last' * ucast (sf_block_size s)) \<longleftrightarrow> n \<noteq> 0"
proof -
  let ?z = "unat (sf_block_size s)"
  note len = writable_len [OF s]
  have le: "unat last' \<le> total_blocks s" unfolding last using s by (intro blocks_end_le) (auto simp: writable_def)
  have "(of_nat (n * ?z) :: u64) = of_nat (total_blocks s * ?z) - of_nat (unat last' * ?z)"
    using le by (simp add: n_def flip: last) (simp add: of_nat_diff algebra_simps)
  also have "of_nat (total_blocks s * ?z) = sf_len s" by (simp flip: len(1))
  finally show pad: "sf_len s - ucast last' * ucast (sf_block_size s) = of_nat (n * ?z)" by simp
  have "n * ?z \<le> total_blocks s * ?z" by (rule mult_le_mono1) (simp add: n_def)
  also have "\<dots> < 2 ^ 31" using s len(1) by (simp add: writable_def)
  finally show small: "n * ?z < 2 ^ 31" .
  then have "sint (of_nat (n * ?z) :: u64) = int (n * ?z)" by (intro sint_of_nat_small) simp
  then show "0 < sint (sf_len s - ucast last' * ucast (sf_block_size s)) \<longleftrightarrow> n \<noteq> 0"
    unfolding pad using len(2) by (simp only: of_nat_0_less_iff) simp
qed

lemma count_chunks:
  assumes "writable s"
  shows "sparse_count_chunks s = Ok (of_nat (length (image_chunks env s)))"
proof -
  let ?sz = "sf_block_size s" and ?bs = "data_blocks (backed_blocks s)"
  have "\<forall>bb\<in>set ?bs. small ?sz (total_blocks s) bb" "blocks_ok ?sz ?bs"
    using writable_small [OF assms] assms by (auto simp: writable_def list_ok_def)
  then obtain last' where "count_loop ?sz ?bs 0 0 = (last', of_nat (length (block_chunks env ?sz ?bs 0)))"
    "unat last' = blocks_end ?sz ?bs 0" using count_loop_chunks [of ?bs ?sz "total_blocks s" 0 0 env] by auto
  moreover have "uint last' = int (unat last')" by simp
  ultimately show ?thesis
    using writable_len [OF assms]
    by (auto simp: sparse_count_chunks_def nonzero_def image_chunks_def Let_def hole_def)
qed

text \<open>A gap before a block, in blocks and bytes.\<close>

lemma gap_size:
  assumes bb: "small sz nb bb"
  shows "(unat (bb_block bb) - n) * unat sz < 2 ^ 31"
    "unat m \<le> unat (bb_block bb) \<Longrightarrow> (ucast (bb_block bb - m) * ucast sz :: u64) = of_nat ((unat (bb_block bb) - unat m) * unat sz)"
proof -
  have "unat (bb_block bb) - n \<le> nb" using small_sizes(6) [OF bb] bb unfolding small_def by linarith
  then have "(unat (bb_block bb) - n) * unat sz \<le> nb * unat sz" by (rule mult_le_mono1)
  moreover have "nb * unat sz < 2 ^ 31" using bb by (simp add: small_def)
  ultimately show "(unat (bb_block bb) - n) * unat sz < 2 ^ 31" by (rule le_less_trans)
  assume "unat m \<le> unat (bb_block bb)"
  then have "unat (bb_block bb) - unat m = unat (bb_block bb - m)" by (simp add: unat_sub word_le_nat_alt)
  then show "(ucast (bb_block bb - m) * ucast sz :: u64) = of_nat ((unat (bb_block bb) - unat m) * unat sz)"
    by (simp only: of_nat_mult of_nat_unat)
qed

lemma padded_split:
  assumes bb: "small sz nb bb" and data: "take (unat (bb_len bb)) data = map (block_byte env bb) [0..<unat (bb_len bb)]"
    and kind: "\<not> is_fill (bb_kind bb)"
  shows "padded env sz bb = take (unat (bb_len bb)) data @ replicate (extent sz bb * unat sz - unat (bb_len bb)) 0"
proof -
  let ?l = "unat (bb_len bb)" and ?e = "extent sz bb * unat sz"
  note z = small_sizes [OF bb]
  have "[0..<?e] = [0..<?l] @ [?l..<?e]" using upt_add_eq_append [of 0 ?l "?e - ?l"] z(3) by simp
  moreover have "map (block_byte env bb) [?l..<?e] = replicate (?e - ?l) 0"
    using kind by (intro nth_equalityI) (auto simp: block_byte_def)
  ultimately show ?thesis by (simp add: padded_def data)
qed

section \<open>Sinks that take what is written\<close>

text \<open>
  \<open>after s bs s'\<close>: the sink is in state \<open>s'\<close> when \<open>bs\<close> were written to it in state \<open>s\<close>.
\<close>

locale chunk_sink =
  fixes ops :: "'s output_file_ops" and good :: "'s \<Rightarrow> bool" and after :: "'s \<Rightarrow> bytes \<Rightarrow> 's \<Rightarrow> bool"
  assumes after_refl: "after s [] s"
    and after_trans: "after s xs t \<Longrightarrow> after t ys u \<Longrightarrow> after s (xs @ ys) u"
    and sink_write: "good s \<Longrightarrow> unat n \<le> length data \<Longrightarrow>
      \<exists>t. op_write ops data n s = Ok (0, t) \<and> good t \<and> after s (take (unat n) data) t"
    and sink_close: "good s \<Longrightarrow> after s [] (op_close ops s)"
begin

text \<open>An open file in sparse mode, and what a step on it wrote and summed up.\<close>

definition open_sparse :: "u32 \<Rightarrow> 's output_file \<Rightarrow> bool" where
  "open_sparse sz out \<longleftrightarrow> sparse_ops out \<and> of_block_size out = sz \<and> zero_buf out = replicate (unat sz) 0 \<and> good (sink out)"

definition wrote :: "'s output_file \<Rightarrow> bytes \<Rightarrow> bytes \<Rightarrow> 's output_file \<Rightarrow> bool" where
  "wrote out bs cs out' \<longleftrightarrow> open_sparse (of_block_size out) out' \<and> use_crc out' = use_crc out \<and> of_len out' = of_len out \<and>
     after (sink out) bs (sink out') \<and> of_crc32 out' = (if use_crc out then crc_after (of_crc32 out) cs else of_crc32 out)"

lemma wrote_trans: "wrote a xs p b \<Longrightarrow> wrote b ys q c \<Longrightarrow> wrote a (xs @ ys) (p @ q) c"
  unfolding wrote_def open_sparse_def by (auto simp: crc_after_append intro: after_trans)

lemma wrote_refl: "open_sparse (of_block_size out) out \<Longrightarrow> wrote out [] [] out"
  by (simp add: wrote_def after_refl)

lemma emit_writes:
  assumes "good (sink out)" "unat n \<le> length data"
  obtains t where "emit ops data n out = Ok (0, out\<lparr>sink := t\<rparr>)" "good t" "after (sink out) (take (unat n) data) t"
  using sink_write [OF assms] by (auto simp: emit_def)

lemma emit_or_writes:
  assumes "good (sink out)" "unat n \<le> length data"
  obtains t where "\<And>k. emit_or ops data n out k = k (out\<lparr>sink := t\<rparr>)" "good t" "after (sink out) (take (unat n) data) t"
proof -
  obtain t where "emit ops data n out = Ok (0, out\<lparr>sink := t\<rparr>)" "good t" "after (sink out) (take (unat n) data) t"
    using emit_writes [OF assms] by blast
  then show thesis by (intro that [of t]) (simp_all add: emit_or_def)
qed

lemma write_raw:
  assumes bb: "small sz nb bb" and out: "open_sparse sz out"
    and data: "unat (bb_len bb) \<le> length data" "take (unat (bb_len bb)) data = map (block_byte env bb) [0..<unat (bb_len bb)]"
    and kind: "\<not> is_fill (bb_kind bb)"
  shows "\<exists>out'. write_sparse_data_chunk ops (bb_len bb) data out = Ok (0, out') \<and>
    wrote out (encode_chunk (unat sz) (Raw (padded env sz bb))) (padded env sz bb) out'"
proof -
  note z = small_sizes [OF bb] and w = small_words [OF bb]
  let ?l = "unat (bb_len bb)" and ?e = "extent sz bb * unat sz"
  have o: "sparse_ops out" "of_block_size out = sz" "zero_buf out = replicate (unat sz) 0" "good (sink out)"
    using out by (simp_all add: open_sparse_def)
  have pad: "padded env sz bb = take ?l data @ replicate (?e - ?l) 0" by (rule padded_split [OF bb data(2) kind])
  have plen: "length (padded env sz bb) = ?e" by (simp add: padded_def)
  let ?hdr = "\<lparr>chunk_type = CHUNK_TYPE_RAW, reserved1 = 0, chunk_sz = ALIGN (bb_len bb) sz div sz, total_sz = of_nat CHUNK_HEADER_LEN + ALIGN (bb_len bb) sz\<rparr>"
  have hdr: "chunk_header_bytes ?hdr = encode_header CHUNK_TYPE_RAW (length (padded env sz bb) div unat sz) (length (padded env sz bb))"
  proof -
    have "ALIGN (bb_len bb) sz = of_nat ?e" by (simp flip: w(2))
    moreover have "?e div unat sz = extent sz bb" using z(1) by simp
    ultimately show ?thesis unfolding encode_header_def plen w(3) CHUNK_HEADER_LEN_def by simp
  qed
  obtain t1 where t1: "\<And>k. emit_or ops (chunk_header_bytes ?hdr) 12 out k = k (out\<lparr>sink := t1\<rparr>)" "good t1"
    "after (sink out) (chunk_header_bytes ?hdr) t1"
    using emit_or_writes [of out 12 "chunk_header_bytes ?hdr"] o(4) by (auto simp: CHUNK_HEADER_LEN_def)
  obtain t2 where t2: "\<And>k. emit_or ops data (ucast (bb_len bb)) (out\<lparr>sink := t1\<rparr>) k = k (out\<lparr>sink := t2\<rparr>)" "good t2"
    "after t1 (take ?l data) t2"
    using emit_or_writes [of "out\<lparr>sink := t1\<rparr>" "ucast (bb_len bb)" data] t1(2) data(1) by (auto simp: unat_ucast_up)
  define zl where "zl = ALIGN (bb_len bb) sz - bb_len bb"
  have zl: "unat zl = ?e - ?l" "unat (scast zl :: u64) = ?e - ?l" "?e - ?l < unat sz"
    using z(3,5) w(4,5) by (simp_all add: zl_def)
  obtain t3 where t3: "zl = 0 \<Longrightarrow> t3 = t2" "good t3" "after t2 (replicate (?e - ?l) 0) t3"
    "\<And>k. zl \<noteq> 0 \<Longrightarrow> emit_or ops (replicate (unat sz) 0) (scast zl) (out\<lparr>sink := t2\<rparr>) k = k (out\<lparr>sink := t3\<rparr>)"
  proof (cases "zl = 0")
    case True
    then show ?thesis using that [of t2] zl(1) t2(2) after_refl by simp
  next
    case False
    then show ?thesis
      using emit_or_writes [of "out\<lparr>sink := t2\<rparr>" "scast zl" "replicate (unat sz) 0"] t2(2) zl that
      by (auto simp: take_replicate min_def)
  qed
  define crc where "crc = (if use_crc out then crc_after (of_crc32 out) (padded env sz bb) else of_crc32 out)"
  define crc1 where "crc1 = crc_after (of_crc32 out) (take ?l data)"
  have c: "sparse_crc32 (of_crc32 out) data (ucast (bb_len bb)) = Ok crc1"
    "use_crc out \<Longrightarrow> sparse_crc32 crc1 (replicate (unat sz) 0) (scast zl) = Ok crc"
    "use_crc out \<Longrightarrow> zl = 0 \<Longrightarrow> crc1 = crc" "\<not> use_crc out \<Longrightarrow> of_crc32 out = crc"
    using data(1) zl by (auto simp: sparse_crc32_after unat_ucast_up crc_def crc1_def pad crc_after_append take_replicate min_def)
  have "after (sink out) (encode_chunk (unat sz) (Raw (padded env sz bb))) t3"
    using after_trans [OF after_trans [OF t1(3) t2(3)] t3(3)] by (simp add: hdr) (simp add: pad)
  then have "wrote out (encode_chunk (unat sz) (Raw (padded env sz bb))) (padded env sz bb)
      (out\<lparr>sink := t3, of_crc32 := crc, cur_out_ptr := cur_out_ptr out + scast (ALIGN (bb_len bb) sz), chunk_cnt := chunk_cnt out + 1\<rparr>)"
    using o t3(2) by (simp add: wrote_def open_sparse_def crc_def)
  moreover have "write_sparse_data_chunk ops (bb_len bb) data out = Ok (0,
      out\<lparr>sink := t3, of_crc32 := crc, cur_out_ptr := cur_out_ptr out + scast (ALIGN (bb_len bb) sz), chunk_cnt := chunk_cnt out + 1\<rparr>)"
    unfolding write_sparse_data_chunk_def nonzero_def Let_def o t1(1) t2(1) zl_def [symmetric]
    using z(1) c t3(1,4) by (cases "zl = 0"; cases "use_crc out") (auto simp: o)
  ultimately show ?thesis by blast
qed

lemma write_fill:
  assumes bb: "small sz nb bb" and out: "open_sparse sz out" and kind: "bb_kind bb = BACKED_BLOCK_FILL v"
  shows "\<exists>out'. write_sparse_fill_chunk ops (bb_len bb) v out = Ok (0, out') \<and>
    wrote out (encode_chunk (unat sz) (Fill v (extent sz bb))) (fill_bytes v (unat sz)) out'"
proof -
  note z = small_sizes [OF bb] and w = small_words [OF bb]
  have o: "sparse_ops out" "of_block_size out = sz" "zero_buf out = replicate (unat sz) 0" "good (sink out)"
    using out by (simp_all add: open_sparse_def)
  let ?hdr = "\<lparr>chunk_type = CHUNK_TYPE_FILL, reserved1 = 0, chunk_sz = ALIGN (bb_len bb) sz div sz, total_sz = of_nat CHUNK_HEADER_LEN + 4\<rparr>"
  have hdr: "chunk_header_bytes ?hdr = encode_header CHUNK_TYPE_FILL (extent sz bb) 4"
    by (simp add: encode_header_def w(3) CHUNK_HEADER_LEN_def)
  obtain t1 where t1: "\<And>k. emit_or ops (chunk_header_bytes ?hdr) 12 out k = k (out\<lparr>sink := t1\<rparr>)" "good t1"
    "after (sink out) (chunk_header_bytes ?hdr) t1"
    using emit_or_writes [of out 12 "chunk_header_bytes ?hdr"] o(4) by (auto simp: CHUNK_HEADER_LEN_def)
  obtain t2 where t2: "\<And>k. emit_or ops (le_bytes 4 v) 4 (out\<lparr>sink := t1\<rparr>) k = k (out\<lparr>sink := t2\<rparr>)" "good t2" "after t1 (le_bytes 4 v) t2"
    using emit_or_writes [of "out\<lparr>sink := t1\<rparr>" 4 "le_bytes 4 v"] t1(2) by auto
  define crc where "crc = (if use_crc out then crc_after (of_crc32 out) (fill_bytes v (unat sz)) else of_crc32 out)"
  have c: "use_crc out \<Longrightarrow> crc_fill_loop (unat sz div 4) (le_bytes 4 v) (of_crc32 out) = Ok crc" "\<not> use_crc out \<Longrightarrow> of_crc32 out = crc"
    using bb by (simp_all add: crc_fill_loop_after crc_def small_def)
  have "after (sink out) (encode_chunk (unat sz) (Fill v (extent sz bb))) t2"
    using after_trans [OF t1(3) t2(3)] by (simp add: hdr)
  then have "wrote out (encode_chunk (unat sz) (Fill v (extent sz bb))) (fill_bytes v (unat sz))
      (out\<lparr>sink := t2, of_crc32 := crc, cur_out_ptr := cur_out_ptr out + scast (ALIGN (bb_len bb) sz), chunk_cnt := chunk_cnt out + 1\<rparr>)"
    using o t2(2) by (simp add: wrote_def open_sparse_def crc_def)
  moreover have "write_sparse_fill_chunk ops (bb_len bb) v out = Ok (0,
      out\<lparr>sink := t2, of_crc32 := crc, cur_out_ptr := cur_out_ptr out + scast (ALIGN (bb_len bb) sz), chunk_cnt := chunk_cnt out + 1\<rparr>)"
    unfolding write_sparse_fill_chunk_def nonzero_def Let_def o t1(1) t2(1)
    using z(1) c by (cases "use_crc out") (auto simp: o)
  ultimately show ?thesis by blast
qed

lemma write_hole:
  assumes n: "n * unat sz < 2 ^ 31" "0 < unat sz" and out: "open_sparse sz out"
  shows "\<exists>out'. write_skip_chunk ops (of_nat (n * unat sz)) out = Ok (0, out') \<and> wrote out (encode_chunk (unat sz) (Hole n)) [] out'"
proof -
  have o: "sparse_ops out" "of_block_size out = sz" "zero_buf out = replicate (unat sz) 0" "good (sink out)"
    using out by (simp_all add: open_sparse_def)
  define len where "len = (of_nat (n * unat sz) :: u64)"
  have i: "sint len = int n * uint sz"
  proof -
    have "n * unat sz < 2 ^ 63" using n(1) by simp
    from sint_of_nat_small [OF this] show ?thesis unfolding len_def by (simp only: of_nat_mult) simp
  qed
  let ?hdr = "\<lparr>chunk_type = CHUNK_TYPE_DONT_CARE, reserved1 = 0, chunk_sz = of_nat n, total_sz = of_nat CHUNK_HEADER_LEN\<rparr>"
  have hdr: "chunk_header_bytes ?hdr = encode_header CHUNK_TYPE_DONT_CARE n 0"
    by (simp add: encode_header_def CHUNK_HEADER_LEN_def)
  obtain t1 where t1: "\<And>k. emit_or ops (chunk_header_bytes ?hdr) 12 out k = k (out\<lparr>sink := t1\<rparr>)" "good t1"
    "after (sink out) (chunk_header_bytes ?hdr) t1"
    using emit_or_writes [of out 12 "chunk_header_bytes ?hdr"] o(4) by (auto simp: CHUNK_HEADER_LEN_def)
  have "write_skip_chunk ops (len) out = Ok (0,
      out\<lparr>sink := t1, cur_out_ptr := cur_out_ptr out + len, chunk_cnt := chunk_cnt out + 1\<rparr>)"
    using n(2) t1(1) word_neq_0_conv [of sz] by (simp add: write_skip_chunk_def write_sparse_skip_chunk_def nonzero_def Let_def o i) (auto simp: uint_0_iff)
  moreover have "wrote out (encode_chunk (unat sz) (Hole n)) []
      (out\<lparr>sink := t1, cur_out_ptr := cur_out_ptr out + len, chunk_cnt := chunk_cnt out + 1\<rparr>)"
    using o t1 by (simp add: wrote_def open_sparse_def hdr)
  ultimately show ?thesis unfolding len_def by blast
qed

lemma write_block:
  assumes bb: "small sz nb bb" and rd: "block_readable os env bb" and out: "open_sparse sz out"
  shows "\<exists>out'. sparse_file_write_block os ops bb out = Ok (0, out') \<and>
    wrote out (encode_chunk (unat sz) (chunk_of env sz bb)) (summed (unat sz) (chunk_of env sz bb)) out'"
proof (cases "is_fill (bb_kind bb)")
  case True
  then obtain v where "bb_kind bb = BACKED_BLOCK_FILL v" by (cases "bb_kind bb") auto
  then show ?thesis
    using write_fill [OF bb out] out by (simp add: sparse_file_write_block_def write_fill_chunk_def open_sparse_def chunk_of_def)
next
  case False
  then have "chunk_of env sz bb = Raw (padded env sz bb)" by (cases "bb_kind bb") (auto simp: chunk_of_def)
  moreover obtain data where "unat (bb_len bb) \<le> length data"
    "take (unat (bb_len bb)) data = map (block_byte env bb) [0..<unat (bb_len bb)]"
    "\<And>out. sparse_file_write_block os ops bb out = write_data_chunk ops (bb_len bb) data out"
    using write_block_data [of sz bb os env ops] bb rd False by (auto simp: small_def)
  ultimately show ?thesis
    using write_raw [OF bb out _ _ False] out by (simp add: write_data_chunk_def open_sparse_def)
qed

lemma write_blocks:
  assumes "\<forall>bb\<in>set bs. small sz nb bb \<and> block_readable os env bb" "blocks_ok sz bs"
    "\<forall>bb\<in>set bs. unat last_block \<le> unat (bb_block bb)" "open_sparse sz out"
  shows "\<exists>last' out'. write_blocks_loop os ops sz bs last_block out = Ok (0, last', out') \<and>
    unat last' = blocks_end sz bs (unat last_block) \<and>
    wrote out (concat (map (encode_chunk (unat sz)) (block_chunks env sz bs (unat last_block))))
      (concat (map (summed (unat sz)) (block_chunks env sz bs (unat last_block)))) out'"
  using assms
proof (induction bs arbitrary: last_block out)
  case Nil
  then show ?case by (simp add: wrote_refl open_sparse_def)
next
  case (Cons bb bs)
  let ?n = "unat (bb_block bb) - unat last_block" and ?z = "unat sz"
  have bb: "small sz nb bb" "block_readable os env bb" and le: "unat last_block \<le> unat (bb_block bb)"
    and sz: "of_block_size out = sz" using Cons.prems by (auto simp: open_sparse_def)
  note z = small_sizes [OF bb(1)]
  note gap = gap_size [OF bb(1)]
  have "\<exists>out1 ret. (if bb_block bb > last_block then write_skip_chunk ops (ucast (bb_block bb - last_block) * ucast sz) out
      else Ok (0, out)) = Ok (ret, out1) \<and> wrote out (concat (map (encode_chunk ?z) (hole ?n))) (concat (map (summed ?z) (hole ?n))) out1"
  proof (cases "bb_block bb > last_block")
    case True
    note gap(2) [OF le]
    moreover obtain out1 where "write_skip_chunk ops (of_nat (?n * ?z)) out = Ok (0, out1)" "wrote out (encode_chunk ?z (Hole ?n)) [] out1"
      using write_hole [OF gap(1) z(1) Cons.prems(4)] by blast
    ultimately show ?thesis using True by (intro exI [of _ out1] exI [of _ 0]) (simp add: hole_def word_less_nat_alt del: of_nat_mult of_nat_diff)
  next
    case False
    then show ?thesis using le Cons.prems(4) sz by (simp add: hole_def word_less_nat_alt wrote_refl)
  qed
  then obtain out1 ret where one: "(if bb_block bb > last_block then write_skip_chunk ops (ucast (bb_block bb - last_block) * ucast sz) out
      else Ok (0, out)) = Ok (ret, out1)"
    "wrote out (concat (map (encode_chunk ?z) (hole ?n))) (concat (map (summed ?z) (hole ?n))) out1" by blast
  then have open1: "open_sparse sz out1" using sz by (simp add: wrote_def)
  obtain out2 where two: "sparse_file_write_block os ops bb out1 = Ok (0, out2)"
    "wrote out1 (encode_chunk ?z (chunk_of env sz bb)) (summed ?z (chunk_of env sz bb)) out2"
    using write_block [OF bb open1] by blast
  have open2: "open_sparse sz out2" using two(2) open1 by (simp add: wrote_def open_sparse_def)
  have nx: "unat (next_block sz bb) = past sz bb" by (rule small_words(6) [OF bb(1)])
  obtain last' out3 where three: "write_blocks_loop os ops sz bs (next_block sz bb) out2 = Ok (0, last', out3)"
    "unat last' = blocks_end sz bs (past sz bb)"
    "wrote out2 (concat (map (encode_chunk ?z) (block_chunks env sz bs (past sz bb))))
      (concat (map (summed ?z) (block_chunks env sz bs (past sz bb)))) out3"
    using Cons.IH [of "next_block sz bb" out2] Cons.prems(1,2) open2 by (auto simp: nx blocks_ok_Cons)
  then show ?case using one(1) two(1) wrote_trans [OF one(2) wrote_trans [OF two(2) three(3)]] by simp
qed

lemma init_sparse:
  assumes k: "good k" and h: "malloc_total h" and s: "writable s"
  shows "\<exists>out h'. output_file_init ops k (sf_block_size s) (sf_len s) True (of_nat n) crc h = Ok (0, out, h') \<and> malloc_total h' \<and>
    open_sparse (sf_block_size s) out \<and> use_crc out = crc \<and> of_len out = sf_len s \<and> of_crc32 out = 0 \<and>
    after k (file_header (sf_block_size s) (total_blocks s) (if crc then n + 1 else n)) (sink out)"
proof -
  let ?sz = "sf_block_size s" and ?a = "unat (scast (sf_block_size s) :: u64)"
  obtain h1 where h1: "try_alloc ?a h = (True, h1)" "malloc_total h1" using try_alloc_total [OF h] by blast
  obtain h2 where h2: "try_alloc ?a h1 = (True, h2)" "malloc_total h2" using try_alloc_total [OF h1(2)] by blast
  define out where "out = (blank_file k)\<lparr>of_len := sf_len s, of_block_size := ?sz, use_crc := crc,
    zero_buf := replicate (unat ?sz) 0, fill_buf := replicate (unat ?sz) 0, sparse_ops := True\<rparr>"
  let ?hdr = "file_header ?sz (total_blocks s) (if crc then n + 1 else n)"
  obtain t where t: "emit ops ?hdr 28 out = Ok (0, out\<lparr>sink := t\<rparr>)" "good t" "after k ?hdr t"
    using emit_writes [of out 28 ?hdr] k by (auto simp: out_def blank_file_def file_header_def SPARSE_HEADER_LEN_def)
  have "output_file_init ops k ?sz (sf_len s) True (of_nat n) crc h = Ok (0, out\<lparr>sink := t\<rparr>, h2)"
    using h1(1) h2(1) t(1) writable_len [OF s]
    by (auto simp: output_file_init_def Let_def nonzero_def out_def file_header_def SPARSE_HEADER_MAGIC_def
      SPARSE_HEADER_MAJOR_VER_def SPARSE_HEADER_MINOR_VER_def SPARSE_HEADER_LEN_def CHUNK_HEADER_LEN_def add.commute split: if_splits)
  then show ?thesis using h2(2) t by (auto simp: open_sparse_def out_def blank_file_def)
qed

lemma write_image:
  assumes s: "writable s" and rd: "\<forall>bb\<in>set (data_blocks (backed_blocks s)). block_readable os env bb"
    and out: "open_sparse (sf_block_size s) out"
  shows "\<exists>out'. write_all_blocks os ops s out = Ok (0, out') \<and>
    wrote out (concat (map (encode_chunk (unat (sf_block_size s))) (image_chunks env s)))
      (concat (map (summed (unat (sf_block_size s))) (image_chunks env s))) out'"
proof -
  let ?sz = "sf_block_size s" and ?bs = "data_blocks (backed_blocks s)"
  let ?n = "total_blocks s - blocks_end ?sz ?bs 0"
  note len = writable_len [OF s]
  have "\<forall>bb\<in>set ?bs. small ?sz (total_blocks s) bb \<and> block_readable os env bb" "blocks_ok ?sz ?bs"
    using writable_small [OF s] s rd by (auto simp: writable_def list_ok_def)
  then obtain last' out1 where one: "write_blocks_loop os ops ?sz ?bs 0 out = Ok (0, last', out1)"
    "unat last' = blocks_end ?sz ?bs 0"
    "wrote out (concat (map (encode_chunk (unat ?sz)) (block_chunks env ?sz ?bs 0)))
      (concat (map (summed (unat ?sz)) (block_chunks env ?sz ?bs 0))) out1"
    using write_blocks [of ?bs ?sz "total_blocks s" os env 0 out] out by auto
  have open1: "open_sparse ?sz out1" using one(3) out by (simp add: wrote_def open_sparse_def)
  define pad where "pad = sf_len s - ucast last' * ucast ?sz"
  note pad = end_gap [OF s one(2), folded pad_def]
  have "\<exists>ret out2. (if sint pad > 0 then write_skip_chunk ops pad out1 else Ok (0, out1)) = Ok (ret, out2) \<and>
    wrote out1 (concat (map (encode_chunk (unat ?sz)) (hole ?n))) (concat (map (summed (unat ?sz)) (hole ?n))) out2"
  proof (cases "?n = 0")
    case True
    then show ?thesis using pad(3) open1 by (simp add: hole_def wrote_refl open_sparse_def)
  next
    case False
    moreover obtain out2 where "write_skip_chunk ops pad out1 = Ok (0, out2)" "wrote out1 (encode_chunk (unat ?sz) (Hole ?n)) [] out2"
      using write_hole [OF pad(2) len(2) open1] unfolding pad(1) by blast
    ultimately show ?thesis using pad(3) by (simp add: hole_def)
  qed
  then show ?thesis
    using one(1) wrote_trans [OF one(3)] by (fastforce simp: write_all_blocks_def image_chunks_def Let_def pad_def)
qed

lemma close_sparse:
  assumes out: "open_sparse sz out" and c: "of_crc32 out = c"
  shows "\<exists>k. output_file_close ops out = Ok k \<and>
    after (sink out) (if use_crc out then encode_chunk (unat sz) (Checksum c) else []) k"
proof (cases "use_crc out")
  case True
  let ?hdr = "\<lparr>chunk_type = CHUNK_TYPE_CRC32, reserved1 = 0, chunk_sz = 0, total_sz = of_nat CHUNK_HEADER_LEN + 4\<rparr>"
  have hdr: "chunk_header_bytes ?hdr = encode_header CHUNK_TYPE_CRC32 0 4"
    by (simp add: encode_header_def CHUNK_HEADER_LEN_def)
  obtain t1 where t1: "emit ops (chunk_header_bytes ?hdr) 12 out = Ok (0, out\<lparr>sink := t1\<rparr>)" "good t1"
    "after (sink out) (chunk_header_bytes ?hdr) t1"
    using emit_writes [of out 12 "chunk_header_bytes ?hdr"] out by (auto simp: open_sparse_def CHUNK_HEADER_LEN_def)
  obtain t2 where t2: "emit ops (le_bytes 4 c) 4 (out\<lparr>sink := t1\<rparr>) = Ok (0, out\<lparr>sink := t2\<rparr>)" "good t2" "after t1 (le_bytes 4 c) t2"
    using emit_writes [of "out\<lparr>sink := t1\<rparr>" 4 "le_bytes 4 c"] t1(2) by auto
  have "after (sink out) (encode_chunk (unat sz) (Checksum c)) (op_close ops t2)"
    using after_trans [OF t1(3) after_trans [OF t2(3) sink_close [OF t2(2)]]] by (simp add: hdr)
  then show ?thesis
    using True t1(1) t2(1) out c by (simp add: output_file_close_def write_sparse_end_chunk_def Let_def open_sparse_def)
next
  case False
  then show ?thesis using out sink_close by (simp add: output_file_close_def write_sparse_end_chunk_def open_sparse_def)
qed

text \<open>The three steps by which every caller writes a file.\<close>

lemma file_written:
  assumes k: "good k" and h: "malloc_total h" and s: "writable s"
    and rd: "\<forall>bb\<in>set (data_blocks (backed_blocks s)). block_readable os env bb"
    and n: "sparse_count_chunks s = Ok n"
  shows "\<exists>out h' out' k'. output_file_init ops k (sf_block_size s) (sf_len s) True n crc h = Ok (0, out, h') \<and>
    malloc_total h' \<and> write_all_blocks os ops s out = Ok (0, out') \<and> output_file_close ops out' = Ok k' \<and>
    after k (written_file env s crc) k'"
proof -
  let ?sz = "sf_block_size s" and ?cs = "image_chunks env s"
  obtain out h' where one: "output_file_init ops k ?sz (sf_len s) True n crc h = Ok (0, out, h')" "malloc_total h'"
    "open_sparse ?sz out" "use_crc out = crc" "of_crc32 out = 0"
    "after k (file_header ?sz (total_blocks s) (if crc then length ?cs + 1 else length ?cs)) (sink out)"
    using init_sparse [OF k h s, of "length ?cs" crc] n count_chunks [OF s, of env] by auto
  obtain out' where two: "write_all_blocks os ops s out = Ok (0, out')"
    "wrote out (concat (map (encode_chunk (unat ?sz)) ?cs)) (concat (map (summed (unat ?sz)) ?cs)) out'"
    using write_image [OF s rd one(3)] by blast
  have "open_sparse ?sz out'" using two(2) one(3) by (simp add: wrote_def open_sparse_def)
  from close_sparse [OF this refl] obtain k' where three: "output_file_close ops out' = Ok k'"
    "after (sink out') (if use_crc out' then encode_chunk (unat ?sz) (Checksum (of_crc32 out')) else []) k'" by blast
  have "after k (written_file env s crc) k'"
    using after_trans [OF one(6) after_trans [OF _ three(2)]] two(2) one(4,5)
    by (cases crc) (auto simp: wrote_def written_file_def encode_file_def)
  then show ?thesis using one(1,2) two(1) three(1) by blast
qed

end

section \<open>The sinks of the library\<close>

subsection \<open>A descriptor\<close>

text \<open>At the end of its file; calls of \<open>write\<close> may be interrupted or write less than asked for.\<close>

definition fd_good :: "fd_sink \<Rightarrow> bool" where
  "fd_good f \<longleftrightarrow> fd_pos f = length (fd_content f) \<and> (\<forall>e. Failed e \<in> set (fd_answers f) \<longrightarrow> e = EINTR)"

definition fd_after :: "fd_sink \<Rightarrow> bytes \<Rightarrow> fd_sink \<Rightarrow> bool" where
  "fd_after f bs g \<longleftrightarrow> fd_content g = fd_content f @ bs"

lemma put_end:
  "fd_pos f = length (fd_content f) \<Longrightarrow> fd_content (put bs f) = fd_content f @ bs \<and> fd_pos (put bs f) = length (fd_content f @ bs)"
  by (simp add: put_def stretch_def)

lemma put_answers [simp]: "fd_answers (put bs f) = fd_answers f" "fd_no_seek (put bs f) = fd_no_seek f"
    "fd_no_truncate (put bs f) = fd_no_truncate f"
  by (simp_all add: put_def)

lemma file_write_loop_good:
  assumes "fd_pos f = length (fd_content f)" "\<forall>e. Failed e \<in> set as \<longrightarrow> e = EINTR" "len \<le> length data"
  shows "\<exists>g. file_write_loop as data len f = (0, g) \<and> fd_content g = fd_content f @ take len data \<and>
    fd_pos g = length (fd_content g) \<and> set (fd_answers g) \<subseteq> set as"
  using assms
proof (induction as data len f rule: file_write_loop.induct)
  case (1 data len f)
  then show ?case using put_end [of "f\<lparr>fd_answers := []\<rparr>" "take len data"] by simp
next
  case (2 a as data len f)
  show ?case
  proof (cases "len = 0")
    case True
    then show ?thesis using 2 by simp
  next
    case False
    show ?thesis
    proof (cases a)
      case (Written n)
      let ?k = "min n len"
      note p = put_end [OF "2.prems"(1), of "take ?k data"]
      have "\<exists>g. file_write_loop as (drop ?k data) (len - ?k) (put (take ?k data) f) = (0, g) \<and>
          fd_content g = fd_content (put (take ?k data) f) @ take (len - ?k) (drop ?k data) \<and>
          fd_pos g = length (fd_content g) \<and> set (fd_answers g) \<subseteq> set as"
        using "2.IH"(1) [OF False Written refl] p "2.prems" by auto
      moreover have "take ?k data @ take (len - ?k) (drop ?k data) = take len data"
        by (metis add_diff_inverse_nat min.cobounded2 not_less take_add)
      ultimately show ?thesis using False Written p by fastforce
    next
      case (Failed e)
      then have e: "e = EINTR" using "2.prems"(2) by simp
      then show ?thesis using "2.IH"(2) [OF False Failed e] "2.prems" False Failed by fastforce
    qed
  qed
qed

interpretation fd: chunk_sink file_ops fd_good fd_after
proof unfold_locales
  show "\<exists>t. op_write file_ops data n s = Ok (0, t) \<and> fd_good t \<and> fd_after s (take (unat n) data) t"
    if "fd_good s" "unat n \<le> length data" for s n data
    using file_write_loop_good [of s "fd_answers s" "unat n" data] that
    by (auto simp: file_ops_def file_write_def fd_good_def fd_after_def)
qed (auto simp: fd_after_def file_ops_def file_close_def)

subsection \<open>The counter\<close>

definition counter_after :: "u64 \<Rightarrow> bytes \<Rightarrow> u64 \<Rightarrow> bool" where
  "counter_after c bs d \<longleftrightarrow> d = c + of_nat (length bs)"

interpretation counter: chunk_sink "callback_file_ops out_counter_write" "\<lambda>_. True" counter_after
  by unfold_locales (auto simp: counter_after_def callback_file_ops_def callback_file_write_def out_counter_write_def)

section \<open>Results\<close>

lemma sparse_file_write_content:
  assumes s: "writable s" "\<forall>bb\<in>set (data_blocks (backed_blocks s)). block_readable os env bb"
    and k: "fd_good k" and h: "malloc_total h"
  shows "\<exists>k' h'. sparse_file_write os file_ops s fd True crc k h = Ok (0, k', h') \<and> malloc_total h' \<and>
    fd_content k' = fd_content k @ written_file env s crc"
proof -
  obtain h1 where h1: "try_alloc 80 h = (True, h1)" "malloc_total h1" using try_alloc_total [OF h] by blast
  define k1 where "k1 = snd (op_open file_ops fd k)"
  have k1: "fd_good k1" "fd_content k1 = fd_content k" using k by (simp_all add: k1_def file_ops_def file_open_def fd_good_def)
  define n where "n = (of_nat (length (image_chunks env s)) :: u32)"
  have n: "sparse_count_chunks s = Ok n" using count_chunks [OF s(1)] by (simp add: n_def)
  obtain out h2 out' k' where w: "output_file_init file_ops k1 (sf_block_size s) (sf_len s) True n crc h1 = Ok (0, out, h2)"
    "malloc_total h2" "write_all_blocks os file_ops s out = Ok (0, out')" "output_file_close file_ops out' = Ok k'"
    "fd_after k1 (written_file env s crc) k'"
    using fd.file_written [OF k1(1) h1(2) s n] by blast
  then have "sparse_file_write os file_ops s fd True crc k h = Ok (0, k', h2)"
    by (simp add: sparse_file_write_def n output_file_open_fd_def h1(1) flip: k1_def)
  then show ?thesis using w(2,5) k1(2) by (simp add: fd_after_def)
qed

lemma encode_chunk_bound: "small sz nb bb \<Longrightarrow> length (encode_chunk (unat sz) (chunk_of env sz bb)) \<le> 16 + extent sz bb * unat sz"
  by (cases "bb_kind bb") (auto simp: chunk_of_def encode_header_def CHUNK_HEADER_LEN_def padded_def)

lemma encode_blocks_bound:
  assumes "\<forall>bb\<in>set bs. small sz nb bb" "blocks_ok sz bs" "\<forall>bb\<in>set bs. n \<le> unat (bb_block bb)"
  shows "length (concat (map (encode_chunk (unat sz)) (block_chunks env sz bs n))) \<le> (blocks_end sz bs n - n) * (28 + unat sz) \<and>
    n \<le> blocks_end sz bs n"
  using assms
proof (induction bs arbitrary: n)
  case (Cons bb bs)
  let ?L = "length (concat (map (encode_chunk (unat sz)) (block_chunks env sz bs (past sz bb))))" and ?z = "unat sz"
  have bb: "small sz nb bb" using Cons.prems(1) by simp
  note z = small_sizes [OF bb]
  let ?c = "28 + ?z" and ?e = "blocks_end sz bs (past sz bb)"
  have IH: "?L \<le> (?e - past sz bb) * ?c" "past sz bb \<le> ?e" using Cons by (auto simp: blocks_ok_Cons)
  have step: "n + extent sz bb \<le> past sz bb" using z(6) Cons.prems(3) by simp
  then have "(?e - n) * ?c = (?e - past sz bb) * ?c + (past sz bb - n) * ?c"
    using IH(2) by (simp flip: add_mult_distrib)
  moreover have "extent sz bb * ?c \<le> (past sz bb - n) * ?c" using step by (intro mult_le_mono1) simp
  moreover have "16 + extent sz bb * ?z + 12 \<le> extent sz bb * ?c"
    using z(2) by (cases "extent sz bb") (auto simp: algebra_simps)
  moreover have "length (concat (map (encode_chunk ?z) (hole m))) \<le> 12" for m
    by (simp add: hole_def encode_header_def CHUNK_HEADER_LEN_def)
  moreover note encode_chunk_bound [OF bb, of env]
  ultimately have "length (concat (map (encode_chunk ?z) (hole (unat (bb_block bb) - n)))) + (length (encode_chunk ?z (chunk_of env sz bb)) + ?L) \<le> (?e - n) * ?c"
    using IH(1) by (smt (verit) add_le_mono add.assoc add.commute le_trans)
  then show ?case using IH(2) step by simp
qed simp

text \<open>The written file is far smaller than the range of its counter.\<close>

lemma written_file_bound:
  assumes s: "writable s"
  shows "length (written_file env s crc) < 2 ^ 63"
proof -
  let ?sz = "sf_block_size s" and ?bs = "data_blocks (backed_blocks s)" and ?nb = "total_blocks s"
  let ?e = "blocks_end ?sz ?bs 0"
  have "\<forall>bb\<in>set ?bs. small ?sz ?nb bb" "blocks_ok ?sz ?bs"
    using writable_small [OF s] s by (auto simp: writable_def list_ok_def)
  then have "length (concat (map (encode_chunk (unat ?sz)) (block_chunks env ?sz ?bs 0))) \<le> ?e * (28 + unat ?sz)"
    using encode_blocks_bound [of ?bs ?sz ?nb 0 env] by simp
  also have "\<dots> \<le> ?nb * (28 + unat ?sz)"
    using s by (intro mult_le_mono1 blocks_end_le) (auto simp: writable_def)
  also have "\<dots> \<le> 29 * 2 ^ 31"
  proof -
    have len: "?nb * unat ?sz < 2 ^ 31" "0 < unat ?sz" using writable_len [OF s] s by (auto simp: writable_def)
    have "?nb * 1 \<le> ?nb * unat ?sz" using len(2) by (intro mult_le_mono2) simp
    then have "?nb < 2 ^ 31" using le_less_trans [OF _ len(1)] by simp
    then show ?thesis using len(1) by (simp add: add_mult_distrib2)
  qed
  finally show ?thesis
    by (simp add: written_file_def encode_file_def file_header_def image_chunks_def Let_def hole_def encode_header_def
      CHUNK_HEADER_LEN_def SPARSE_HEADER_LEN_def)
qed

lemma sparse_file_length_written:
  assumes s: "writable s" "\<forall>bb\<in>set (data_blocks (backed_blocks s)). block_readable os env bb" and h: "malloc_total h"
  shows "\<exists>h'. sparse_file_length os s True crc h = Ok (int (length (written_file env s crc)), h') \<and> malloc_total h'"
proof -
  obtain h1 where h1: "try_alloc 88 h = (True, h1)" "malloc_total h1" using try_alloc_total [OF h] by blast
  define n where "n = (of_nat (length (image_chunks env s)) :: u32)"
  have n: "sparse_count_chunks s = Ok n" using count_chunks [OF s(1)] by (simp add: n_def)
  let ?ops = "callback_file_ops out_counter_write"
  obtain out h2 out' count where w: "output_file_init ?ops 0 (sf_block_size s) (sf_len s) True n crc h1 = Ok (0, out, h2)"
    "malloc_total h2" "write_all_blocks os ?ops s out = Ok (0, out')" "output_file_close ?ops out' = Ok count"
    "counter_after 0 (written_file env s crc) count"
    using counter.file_written [OF _ h1(2) s n] by blast
  have "sint count = int (length (written_file env s crc))"
    using w(5) sint_of_nat_small [OF written_file_bound [OF s(1)]] by (simp add: counter_after_def)
  then show ?thesis using w by (simp add: sparse_file_length_def n output_file_open_callback_def h1(1))
qed

end
