(* ===== verification/Sparse_Read.thy ===== *)
theory Sparse_Read
  imports Sparse_File
begin

text \<open>
  Reading images (\<open>sparse_read.cpp\<close>, and \<open>read_all\<close> of \<open>output_file.cpp\<close>): parsing sparse images from a
  descriptor or from memory, and reading plain images. The messages of \<open>verbose_error\<close> are left out.
\<close>

section \<open>Definitions\<close>

definition load16 :: "bytes \<Rightarrow> nat \<Rightarrow> u16" where
  "load16 m i = push_bit 8 (ucast (m ! (i + 1))) OR ucast (m ! i)"

definition load_sparse_header :: "bytes \<Rightarrow> sparse_header" where
  "load_sparse_header m = \<lparr>magic = load32 m 0, major_version = load16 m 4, minor_version = load16 m 6, file_hdr_sz = load16 m 8,
     chunk_hdr_sz = load16 m 10, blk_sz = load32 m 12, total_blks = load32 m 16, total_chunks = load32 m 20, image_checksum = load32 m 24\<rparr>"

definition load_chunk_header :: "bytes \<Rightarrow> chunk_header" where
  "load_chunk_header m = \<lparr>chunk_type = load16 m 0, reserved1 = load16 m 2, chunk_sz = load32 m 4, total_sz = load32 m 8\<rparr>"

text \<open>The state of the library: whether \<open>copybuf\<close> is allocated, and the heap.\<close>

record library =
  copybuf :: bool
  lib_heap :: heap

definition COPY_BUF_SIZE :: nat where "COPY_BUF_SIZE = 1024 * 1024"

subsection \<open>Sources\<close>

text \<open>
  The virtual functions of \<open>SparseFileSource\<close> on the state of a source; \<open>ReadValue\<close> gives the bytes read,
  which count only when its result is zero.
\<close>

record 'r source =
  Seek :: "u64 \<Rightarrow> 'r \<Rightarrow> 'r"
  GetOffset :: "'r \<Rightarrow> u64"
  SetOffset :: "u64 \<Rightarrow> 'r \<Rightarrow> int \<times> 'r"
  AddToSparseFile :: "sparse_file \<Rightarrow> u64 \<Rightarrow> u32 \<Rightarrow> 'r \<Rightarrow> heap \<Rightarrow> (int \<times> sparse_file \<times> heap) res"
  ReadValue :: "nat \<Rightarrow> 'r \<Rightarrow> (int \<times> bytes \<times> 'r) res"
  GetCrc32 :: "u32 \<Rightarrow> u64 \<Rightarrow> 'r \<Rightarrow> (int \<times> u32 \<times> 'r) res"

paragraph \<open>Descriptors\<close>

text \<open>
  A descriptor for reading: contents, position, whether it can seek, and the outcomes of the next calls of
  \<open>read\<close>: at most one more byte than the number, or an error; after the last, as much as there is. Linux
  transfers at most \<open>0x7ffff000\<close> bytes in a call, so the result is an \<open>int\<close>.
\<close>

datatype read_answer = Up_to nat | Read_failed int

record fd_source =
  fs_fd :: int
  fs_content :: bytes
  fs_pos :: nat
  fs_seekable :: bool
  fs_answers :: "read_answer list"

definition read_fd :: "nat \<Rightarrow> fd_source \<Rightarrow> (int + bytes) \<times> fd_source" where
  "read_fd n f =
     (let rest = drop (fs_pos f) (fs_content f);
          got = (\<lambda>k f. (Inr (take k rest), f\<lparr>fs_pos := fs_pos f + min k (length rest)\<rparr>))
      in case fs_answers f of
           [] \<Rightarrow> got (min n 0x7ffff000) f
         | Up_to k # as \<Rightarrow> got (min n (min (Suc k) 0x7ffff000)) (f\<lparr>fs_answers := as\<rparr>)
         | Read_failed errno # as \<Rightarrow> (Inl errno, f\<lparr>fs_answers := as\<rparr>))"

function read_all_loop :: "nat \<Rightarrow> bytes \<Rightarrow> fd_source \<Rightarrow> int \<times> bytes \<times> fd_source" where
  "read_all_loop len buf f =
     (if len = 0 then (0, buf, f)
      else case read_fd len f of
        (Inl errno, f) \<Rightarrow> (- errno, buf, f)
      | (Inr bs, f) \<Rightarrow> if bs = [] then (- EINVAL, buf, f) else read_all_loop (len - length bs) (buf @ bs) f)"
  by pat_completeness auto
termination by (relation "measure fst") auto

declare read_all_loop.simps [simp del]

definition read_all :: "nat \<Rightarrow> fd_source \<Rightarrow> int \<times> bytes \<times> fd_source" where
  "read_all len f = read_all_loop len [] f"

definition ESPIPE :: int where "ESPIPE = 29"

text \<open>\<open>lseek64\<close> to a position: the result, negated error number or the position.\<close>

definition seek_fd :: "int \<Rightarrow> fd_source \<Rightarrow> int \<times> fd_source" where
  "seek_fd pos f = (if \<not> fs_seekable f then (- ESPIPE, f) else if pos < 0 then (- EINVAL, f) else (pos, f\<lparr>fs_pos := nat pos\<rparr>))"

function fd_crc_loop :: "u32 \<Rightarrow> nat \<Rightarrow> fd_source \<Rightarrow> (int \<times> u32 \<times> fd_source) res" where
  "fd_crc_loop crc len f =
     (if len = 0 then Ok (0, crc, f)
      else let chunk = min len COPY_BUF_SIZE in
      case read_all chunk f of (ret, buf, f) \<Rightarrow>
      if ret < 0 then Ok (ret, crc, f)
      else bnd (sparse_crc32 crc buf (of_nat chunk)) (\<lambda>crc. fd_crc_loop crc (len - chunk) f))"
  by pat_completeness auto
termination by (relation "measure (\<lambda>(_, len, _). len)") (auto simp: COPY_BUF_SIZE_def)

declare fd_crc_loop.simps [simp del]

text \<open>A negative length would make the chunks negative, too; no caller has one.\<close>

definition SparseFileFdSource :: "fd_source source" where
  "SparseFileFdSource = \<lparr>
     Seek = (\<lambda>off f. snd (seek_fd (int (fs_pos f) + sint off) f)),
     GetOffset = (\<lambda>f. if fs_seekable f then of_nat (fs_pos f) else - 1),
     SetOffset = (\<lambda>offset f. case seek_fd (sint offset) f of (ret, f) \<Rightarrow> (if ret < 0 then ret else 0, f)),
     AddToSparseFile = (\<lambda>s len block f h.
       sparse_file_add_fd s (fs_fd f) (if fs_seekable f then of_nat (fs_pos f) else - 1) (ucast len) block h),
     ReadValue = (\<lambda>len f. Ok (read_all len f)),
     GetCrc32 = (\<lambda>crc len f. if sint len < 0 then Fault BadAccess else fd_crc_loop crc (unat len) f)\<rparr>"

paragraph \<open>Memory\<close>

text \<open>The memory at the pointer the source was made of, and the offset, by which \<open>buf\<close> has moved on.\<close>

record buf_source =
  bs_mem :: bytes
  bs_offset :: u64

definition at_buf :: "buf_source \<Rightarrow> (bytes \<Rightarrow> 'a res) \<Rightarrow> 'a res" where
  "at_buf r k = (if length (bs_mem r) < unat (bs_offset r) then Fault BadAccess else k (drop (unat (bs_offset r)) (bs_mem r)))"

definition SparseFileBufSource :: "buf_source source" where
  "SparseFileBufSource = \<lparr>
     Seek = (\<lambda>off r. r\<lparr>bs_offset := bs_offset r + off\<rparr>),
     GetOffset = bs_offset,
     SetOffset = (\<lambda>off r. (0, r\<lparr>bs_offset := off\<rparr>)),
     AddToSparseFile = (\<lambda>s len block r h. at_buf r (\<lambda>buf. sparse_file_add_data s buf (ucast len) block h)),
     ReadValue = (\<lambda>len r. at_buf r (\<lambda>buf. if length buf < len then Fault BadAccess
       else Ok (0, take len buf, r\<lparr>bs_offset := bs_offset r + of_nat len\<rparr>))),
     GetCrc32 = (\<lambda>crc len r. at_buf r (\<lambda>buf. bnd (sparse_crc32 crc buf len) (\<lambda>crc.
       Ok (0, crc, r\<lparr>bs_offset := bs_offset r + len\<rparr>))))\<rparr>"

subsection \<open>Chunks\<close>

text \<open>The checksum of \<open>len\<close> bytes in pieces of \<open>copybuf\<close>; \<open>buf\<close> are its first bytes, as many as are read.\<close>

function crc_copies :: "(nat \<Rightarrow> bytes) \<Rightarrow> nat \<Rightarrow> u32 \<Rightarrow> u32 res" where
  "crc_copies buf len crc =
     (if len = 0 then Ok crc
      else let chunk = min len COPY_BUF_SIZE in
      bnd (sparse_crc32 crc (buf chunk) (of_nat chunk)) (crc_copies buf (len - chunk)))"
  by pat_completeness auto
termination by (relation "measure (\<lambda>(_, len, _). len)") (auto simp: COPY_BUF_SIZE_def)

declare crc_copies.simps [simp del]

definition crc_copied :: "(nat \<Rightarrow> bytes) \<Rightarrow> u64 \<Rightarrow> u32 option \<Rightarrow> u32 option res" where
  "crc_copied buf len crc32 = (case crc32 of
     None \<Rightarrow> Ok None
   | Some crc \<Rightarrow> if sint len < 0 then Fault BadAccess else bnd (crc_copies buf (unat len) crc) (\<lambda>crc. Ok (Some crc)))"

text \<open>
  The state while a sparse image is read: the file, the source, the heap, and the checksum, when one is
  computed (\<open>crc32\<close> is not null).
\<close>

record 'r sparse_reading =
  rd_file :: sparse_file
  rd_source :: 'r
  rd_heap :: heap
  rd_crc32 :: "u32 option"

definition process_raw_chunk :: "'r source \<Rightarrow> u32 \<Rightarrow> u32 \<Rightarrow> u32 \<Rightarrow> 'r sparse_reading \<Rightarrow> (int \<times> 'r sparse_reading) res" where
  "process_raw_chunk src chunk_size blocks block r =
     (let sz = sf_block_size (rd_file r); len = ucast (blocks * sz) :: u64 in
      nonzero sz
        (if chunk_size mod sz \<noteq> 0 then Ok (- EINVAL, r)
         else if chunk_size div sz \<noteq> blocks then Ok (- EINVAL, r)
         else bnd (AddToSparseFile src (rd_file r) len block (rd_source r) (rd_heap r)) (\<lambda>(ret, s, h).
         let r = r\<lparr>rd_file := s, rd_heap := h\<rparr> in
         if ret < 0 then Ok (ret, r)
         else case rd_crc32 r of
           None \<Rightarrow> Ok (0, r\<lparr>rd_source := Seek src len (rd_source r)\<rparr>)
         | Some crc \<Rightarrow> bnd (GetCrc32 src crc len (rd_source r)) (\<lambda>(ret, crc, source).
             Ok (if ret < 0 then ret else 0, r\<lparr>rd_source := source, rd_crc32 := Some crc\<rparr>)))))"

definition process_fill_chunk :: "'r source \<Rightarrow> u32 \<Rightarrow> u32 \<Rightarrow> u32 \<Rightarrow> 'r sparse_reading \<Rightarrow> (int \<times> 'r sparse_reading) res" where
  "process_fill_chunk src chunk_size blocks block r =
     (let len = ucast blocks * ucast (sf_block_size (rd_file r)) :: u64 in
      if chunk_size \<noteq> 4 then Ok (- EINVAL, r)
      else bnd (ReadValue src 4 (rd_source r)) (\<lambda>(ret, val, source).
      let r = r\<lparr>rd_source := source\<rparr>; fill_val = load32 val 0 in
      if ret < 0 then Ok (ret, r)
      else bnd (sparse_file_add_fill (rd_file r) fill_val (ucast len) block (rd_heap r)) (\<lambda>(ret, s, h).
      let r = r\<lparr>rd_file := s, rd_heap := h\<rparr> in
      if ret < 0 then Ok (ret, r)
      else bnd (crc_copied (fill_bytes fill_val) len (rd_crc32 r)) (\<lambda>crc. Ok (0, r\<lparr>rd_crc32 := crc\<rparr>)))))"

definition process_skip_chunk :: "u32 \<Rightarrow> u32 \<Rightarrow> 'r sparse_reading \<Rightarrow> (int \<times> 'r sparse_reading) res" where
  "process_skip_chunk chunk_size blocks r =
     (if chunk_size \<noteq> 0 then Ok (- EINVAL, r)
      else bnd (crc_copied (\<lambda>n. replicate n 0) (ucast blocks * ucast (sf_block_size (rd_file r))) (rd_crc32 r)) (\<lambda>crc.
      Ok (0, r\<lparr>rd_crc32 := crc\<rparr>)))"

definition process_crc32_chunk :: "'r source \<Rightarrow> u32 \<Rightarrow> 'r sparse_reading \<Rightarrow> (int \<times> 'r sparse_reading) res" where
  "process_crc32_chunk src chunk_size r =
     (if chunk_size \<noteq> 4 then Ok (- EINVAL, r)
      else bnd (ReadValue src 4 (rd_source r)) (\<lambda>(ret, val, source).
      let r = r\<lparr>rd_source := source\<rparr> in
      if ret < 0 then Ok (ret, r)
      else if rd_crc32 r \<noteq> None \<and> Some (load32 val 0) \<noteq> rd_crc32 r then Ok (- EINVAL, r)
      else Ok (0, r)))"

text \<open>The result of a chunk is its number of blocks as an \<open>int\<close>; a chunk of unknown type is passed over.\<close>

definition process_chunk :: "'r source \<Rightarrow> u32 \<Rightarrow> chunk_header \<Rightarrow> u32 \<Rightarrow> 'r sparse_reading \<Rightarrow> (int \<times> 'r sparse_reading) res" where
  "process_chunk src hdr_sz c cur_block r =
     (let chunk_data_size = total_sz c - hdr_sz;
          done_with = (\<lambda>res ok. bnd res (\<lambda>(ret, r). Ok (if ret < 0 then ret else ok, r)))
      in if chunk_type c = CHUNK_TYPE_RAW
         then done_with (process_raw_chunk src chunk_data_size (chunk_sz c) cur_block r) (sint (chunk_sz c))
         else if chunk_type c = CHUNK_TYPE_FILL
         then done_with (process_fill_chunk src chunk_data_size (chunk_sz c) cur_block r) (sint (chunk_sz c))
         else if chunk_type c = CHUNK_TYPE_DONT_CARE
         then bnd (process_skip_chunk chunk_data_size (chunk_sz c) r) (\<lambda>(ret, r).
           Ok (if chunk_data_size \<noteq> 0 \<and> ret < 0 then ret else sint (chunk_sz c), r))
         else if chunk_type c = CHUNK_TYPE_CRC32
         then done_with (process_crc32_chunk src chunk_data_size r) 0
         else Ok (0, r))"

text \<open>\<open>n\<close> chunks from \<open>cur_block\<close> on; the last block is the second component.\<close>

fun chunks_loop :: "'r source \<Rightarrow> u16 \<Rightarrow> nat \<Rightarrow> u32 \<Rightarrow> 'r sparse_reading \<Rightarrow> (int \<times> u32 \<times> 'r sparse_reading) res" where
  "chunks_loop src hdr_sz 0 cur_block r = Ok (0, cur_block, r)"
| "chunks_loop src hdr_sz (Suc n) cur_block r =
     bnd (ReadValue src CHUNK_HEADER_LEN (rd_source r)) (\<lambda>(ret, hdr, source).
     if ret < 0 then Ok (ret, cur_block, r\<lparr>rd_source := source\<rparr>)
     else let source = (if unat hdr_sz > CHUNK_HEADER_LEN then Seek src (ucast hdr_sz - of_nat CHUNK_HEADER_LEN) source else source) in
     bnd (process_chunk src (ucast hdr_sz) (load_chunk_header hdr) cur_block (r\<lparr>rd_source := source\<rparr>)) (\<lambda>(ret, r).
     if ret < 0 then Ok (ret, cur_block, r)
     else chunks_loop src hdr_sz n (cur_block + of_int ret) r))"

subsection \<open>Images\<close>

text \<open>The checks of the file header, which \<open>sparse_file_import_source\<close> repeats.\<close>

definition header_ok :: "sparse_header \<Rightarrow> bool" where
  "header_ok fh \<longleftrightarrow> magic fh = SPARSE_HEADER_MAGIC \<and> major_version fh = SPARSE_HEADER_MAJOR_VER \<and>
     SPARSE_HEADER_LEN \<le> unat (file_hdr_sz fh) \<and> CHUNK_HEADER_LEN \<le> unat (chunk_hdr_sz fh)"

definition sparse_file_read_sparse :: "'r source \<Rightarrow> sparse_file \<Rightarrow> 'r \<Rightarrow> bool \<Rightarrow> library \<Rightarrow> (int \<times> sparse_file \<times> 'r \<times> library) res" where
  "sparse_file_read_sparse src s source crc lib =
     (case (if copybuf lib then (True, lib_heap lib) else try_alloc COPY_BUF_SIZE (lib_heap lib)) of (ok, h) \<Rightarrow>
      let lib = lib\<lparr>copybuf := ok, lib_heap := h\<rparr> in
      if \<not> ok then Ok (- ENOMEM, s, source, lib)
      else bnd (ReadValue src SPARSE_HEADER_LEN source) (\<lambda>(ret, hdr, source).
      let fh = load_sparse_header hdr in
      if ret < 0 then Ok (ret, s, source, lib)
      else if \<not> header_ok fh then Ok (- EINVAL, s, source, lib)
      else let source = (if unat (file_hdr_sz fh) > SPARSE_HEADER_LEN
             then Seek src (ucast (file_hdr_sz fh) - of_nat SPARSE_HEADER_LEN) source else source);
             r = \<lparr>rd_file = s, rd_source = source, rd_heap = h, rd_crc32 = (if crc then Some 0 else None)\<rparr> in
      bnd (chunks_loop src (chunk_hdr_sz fh) (unat (total_chunks fh)) 0 r) (\<lambda>(ret, cur_block, r).
      Ok (if ret < 0 then ret else if total_blks fh \<noteq> cur_block then - EINVAL else 0,
          rd_file r, rd_source r, lib\<lparr>lib_heap := rd_heap r\<rparr>))))"

text \<open>A block all of whose words are equal; the words are compared with the first one.\<close>

definition uniform_block :: "u32 \<Rightarrow> bytes \<Rightarrow> bool" where
  "uniform_block sz buf \<longleftrightarrow> (\<forall>i\<in>set [1..<unat sz div 4]. load32 buf 0 = load32 buf (4 * i))"

text \<open>
  The loop over a plain image. Results of adding are not looked at; the first word of a block is read even
  when the block is shorter.
\<close>

function read_normal_loop :: "nat \<Rightarrow> u64 \<Rightarrow> u32 \<Rightarrow> sparse_file \<Rightarrow> fd_source \<Rightarrow> heap \<Rightarrow> (int \<times> sparse_file \<times> fd_source \<times> heap) res" where
  "read_normal_loop remain offset block s f h =
     (if remain = 0 then Ok (0, s, f, h)
      else let sz = sf_block_size s; to_read = min remain (unat sz) in
      if to_read = 0 then Fault BadAccess
      else case read_all to_read f of (ret, buf, f) \<Rightarrow>
      if ret < 0 then Ok (ret, s, f, h)
      else bnd (if to_read = unat sz \<and> unat sz < 4 then Fault BadAccess
           else if to_read = unat sz \<and> uniform_block sz buf
           then sparse_file_add_fill s (load32 buf 0) (of_nat to_read) block h
           else sparse_file_add_fd s (fs_fd f) offset (of_nat to_read) block h) (\<lambda>(_, s, h).
      read_normal_loop (remain - to_read) (offset + of_nat to_read) (block + 1) s f h))"
  by pat_completeness auto
termination by (relation "measure fst") auto

declare read_normal_loop.simps [simp del]

definition sparse_file_read_normal :: "sparse_file \<Rightarrow> fd_source \<Rightarrow> library \<Rightarrow> (int \<times> sparse_file \<times> fd_source \<times> library) res" where
  "sparse_file_read_normal s f lib =
     (case try_alloc (unat (sf_block_size s)) (lib_heap lib) of (ok, h) \<Rightarrow>
      if \<not> ok then Ok (- ENOMEM, s, f, lib\<lparr>lib_heap := h\<rparr>)
      else bnd (read_normal_loop (nat (sint (sf_len s))) 0 0 s f h) (\<lambda>(ret, s, f, h). Ok (ret, s, f, lib\<lparr>lib_heap := h\<rparr>)))"

definition sparse_file_read :: "sparse_file \<Rightarrow> fd_source \<Rightarrow> bool \<Rightarrow> bool \<Rightarrow> library \<Rightarrow> (int \<times> sparse_file \<times> fd_source \<times> library) res" where
  "sparse_file_read s f sparse crc lib =
     (if crc \<and> \<not> sparse then Ok (- EINVAL, s, f, lib)
      else if sparse then sparse_file_read_sparse SparseFileFdSource s f crc lib
      else sparse_file_read_normal s f lib)"

definition sparse_file_read_buf :: "sparse_file \<Rightarrow> bytes \<Rightarrow> bool \<Rightarrow> library \<Rightarrow> (int \<times> sparse_file \<times> library) res" where
  "sparse_file_read_buf s buf crc lib =
     bnd (sparse_file_read_sparse SparseFileBufSource s \<lparr>bs_mem = buf, bs_offset = 0\<rparr> crc lib) (\<lambda>(ret, s, _, lib). Ok (ret, s, lib))"

definition sparse_file_import_source :: "'r source \<Rightarrow> 'r \<Rightarrow> bool \<Rightarrow> bool \<Rightarrow> library \<Rightarrow> (sparse_file option \<times> 'r \<times> library) res" where
  "sparse_file_import_source src source verbose crc lib =
     bnd (ReadValue src SPARSE_HEADER_LEN source) (\<lambda>(ret, hdr, source).
     let fh = load_sparse_header hdr in
     if ret < 0 then Ok (None, source, lib)
     else if \<not> header_ok fh then Ok (None, source, lib)
     else bnd (sparse_file_new (blk_sz fh) (ucast (total_blks fh) * ucast (blk_sz fh)) (lib_heap lib)) (\<lambda>(s, h).
     let lib = lib\<lparr>lib_heap := h\<rparr> in
     case s of
       None \<Rightarrow> Ok (None, source, lib)
     | Some s \<Rightarrow>
         case SetOffset src 0 source of (ret, source) \<Rightarrow>
         if ret < 0 then Ok (None, source, lib)
         else bnd (sparse_file_read_sparse src (s\<lparr>sf_verbose := verbose\<rparr>) source crc lib) (\<lambda>(ret, s, source, lib).
         Ok (if ret < 0 then None else Some s, source, lib))))"

definition sparse_file_import :: "fd_source \<Rightarrow> bool \<Rightarrow> bool \<Rightarrow> library \<Rightarrow> (sparse_file option \<times> fd_source \<times> library) res" where
  "sparse_file_import f verbose crc lib = sparse_file_import_source SparseFileFdSource f verbose crc lib"

definition sparse_file_import_buf :: "bytes \<Rightarrow> bool \<Rightarrow> bool \<Rightarrow> library \<Rightarrow> (sparse_file option \<times> library) res" where
  "sparse_file_import_buf buf verbose crc lib =
     bnd (sparse_file_import_source SparseFileBufSource \<lparr>bs_mem = buf, bs_offset = 0\<rparr> verbose crc lib) (\<lambda>(s, _, lib). Ok (s, lib))"

text \<open>When the image is not sparse it is read as a plain one, in blocks of 4096 bytes, from the start.\<close>

definition sparse_file_import_auto :: "fd_source \<Rightarrow> bool \<Rightarrow> bool \<Rightarrow> library \<Rightarrow> (sparse_file option \<times> fd_source \<times> library) res" where
  "sparse_file_import_auto f crc verbose lib =
     bnd (sparse_file_import f verbose crc lib) (\<lambda>(s, f, lib).
     case s of
       Some s \<Rightarrow> Ok (Some s, f, lib)
     | None \<Rightarrow>
         case seek_fd (int (length (fs_content f))) f of (len, f) \<Rightarrow>
         if len < 0 then Ok (None, f, lib)
         else case seek_fd 0 f of (_, f) \<Rightarrow>
         bnd (sparse_file_new 4096 (of_int len) (lib_heap lib)) (\<lambda>(s, h).
         let lib = lib\<lparr>lib_heap := h\<rparr> in
         case s of
           None \<Rightarrow> Ok (None, f, lib)
         | Some s \<Rightarrow> bnd (sparse_file_read_normal s f lib) (\<lambda>(ret, s, f, lib).
             Ok (if ret < 0 then None else Some s, f, lib))))"

end
