(* ===== verification/Sparse_Roundtrip.thy ===== *)
theory Sparse_Roundtrip
  imports Sparse_Written Sparse_Read
begin

text \<open>
  Reading what was written. The locale \<open>chunk_source\<close> is what the reader needs of a source, and its
  interpretations are memory and descriptors; the image of a list of chunks links the two directions.
\<close>

section \<open>The image of a list of chunks\<close>

fun chunk_blocks :: "nat \<Rightarrow> chunk \<Rightarrow> nat" where
  "chunk_blocks z (Raw d) = length d div z"
| "chunk_blocks z (Fill v k) = k"
| "chunk_blocks z (Hole k) = k"
| "chunk_blocks z (Checksum c) = 0"

text \<open>The contents of a chunk, all of which the reader takes into the checksum.\<close>

fun expanded :: "nat \<Rightarrow> chunk \<Rightarrow> bytes" where
  "expanded z (Raw d) = d"
| "expanded z (Fill v k) = fill_bytes v (k * z)"
| "expanded z (Hole k) = replicate (k * z) 0"
| "expanded z (Checksum c) = []"

fun chunk_covers :: "nat \<Rightarrow> chunk \<Rightarrow> nat \<Rightarrow> nat \<rightharpoonup> bytes" where
  "chunk_covers z (Hole k) n = Map.empty"
| "chunk_covers z (Checksum c) n = Map.empty"
| "chunk_covers z c n = (\<lambda>m. if n \<le> m \<and> m < n + chunk_blocks z c then Some (take z (drop ((m - n) * z) (expanded z c))) else None)"

fun chunk_image :: "nat \<Rightarrow> chunk list \<Rightarrow> nat \<Rightarrow> nat \<rightharpoonup> bytes" where
  "chunk_image z [] n = Map.empty"
| "chunk_image z (c # cs) n = chunk_covers z c n ++ chunk_image z cs (n + chunk_blocks z c)"

text \<open>Chunks that are no checksums, with whole blocks of data.\<close>

fun chunk_ok :: "nat \<Rightarrow> chunk \<Rightarrow> bool" where
  "chunk_ok z (Raw d) \<longleftrightarrow> z dvd length d \<and> d \<noteq> []"
| "chunk_ok z (Fill v k) \<longleftrightarrow> 0 < k"
| "chunk_ok z (Hole k) \<longleftrightarrow> 0 < k"
| "chunk_ok z (Checksum c) \<longleftrightarrow> False"

definition all_blocks :: "nat \<Rightarrow> chunk list \<Rightarrow> nat" where
  "all_blocks z cs = (\<Sum>c\<leftarrow>cs. chunk_blocks z c)"

lemma all_blocks_simps [simp]:
  "all_blocks z [] = 0" "all_blocks z (c # cs) = chunk_blocks z c + all_blocks z cs"
  "all_blocks z (cs @ ds) = all_blocks z cs + all_blocks z ds"
  by (simp_all add: all_blocks_def)

lemma chunk_image_append: "chunk_image z (cs @ ds) n = chunk_image z cs n ++ chunk_image z ds (n + all_blocks z cs)"
  by (induction cs arbitrary: n) (simp_all add: add.assoc)

lemma length_fill_bytes [simp]: "length (fill_bytes v n) = n"
  by (simp add: fill_bytes_def)

lemma hole_simps [simp]:
  "chunk_image z (hole k) n = Map.empty" "all_blocks z (hole k) = k" "\<forall>c\<in>set (hole k). chunk_ok z c"
  by (simp_all add: hole_def)

lemma take_drop_map:
  assumes "Suc j * z \<le> m"
  shows "take z (drop (j * z) (map f [0..<m])) = map (\<lambda>i. f (j * z + i)) [0..<z]"
proof (rule nth_equalityI)
  have m: "j * z + z \<le> m" using assms by simp
  then show "length (take z (drop (j * z) (map f [0..<m]))) = length (map (\<lambda>i. f (j * z + i)) [0..<z])" by simp
  have "j * z \<le> length (map f [0..<m])" using m by simp
  then show "take z (drop (j * z) (map f [0..<m])) ! i = map (\<lambda>i. f (j * z + i)) [0..<z] ! i"
    if "i < length (take z (drop (j * z) (map f [0..<m])))" for i
    using that m by (simp only: nth_drop nth_take length_take length_drop min_less_iff_conj) simp
qed

lemma whole_extent:
  assumes "small sz nb bb" "unat sz dvd unat (bb_len bb)"
  shows "extent sz bb * unat sz = unat (bb_len bb)"
proof -
  note z = small_sizes [OF assms(1)]
  obtain k where k: "unat (bb_len bb) = k * unat sz" using assms(2) by (metis dvdE mult.commute)
  then have "extent sz bb * unat sz < Suc k * unat sz" "k * unat sz \<le> extent sz bb * unat sz" using z(3,5) by simp_all
  then have "extent sz bb < Suc k" "k \<le> extent sz bb" using z(1) by (simp_all only: mult_less_cancel2 mult_le_cancel2)
  then have "extent sz bb = k" by simp
  then show ?thesis using k by simp
qed

lemma chunk_of_parts:
  assumes bb: "small sz nb bb"
  shows "chunk_blocks (unat sz) (chunk_of env sz bb) = extent sz bb" "chunk_ok (unat sz) (chunk_of env sz bb)"
    "(is_fill (bb_kind bb) \<longrightarrow> unat sz dvd unat (bb_len bb)) \<Longrightarrow>
      chunk_covers (unat sz) (chunk_of env sz bb) (unat (bb_block bb)) = covers env sz bb"
proof -
  let ?z = "unat sz" and ?b = "unat (bb_block bb)"
  note z = small_sizes [OF bb]
  show blocks: "chunk_blocks ?z (chunk_of env sz bb) = extent sz bb"
    using z(1) by (cases "bb_kind bb") (simp_all add: chunk_of_def padded_def)
  show "chunk_ok ?z (chunk_of env sz bb)"
    using z(1,2) by (cases "bb_kind bb") (auto simp: chunk_of_def padded_def simp flip: length_0_conv)
  assume whole: "is_fill (bb_kind bb) \<longrightarrow> unat sz dvd unat (bb_len bb)"
  have body: "take ?z (drop (k * ?z) (map f [0..<extent sz bb * ?z])) = map (\<lambda>i. f (k * ?z + i)) [0..<?z]"
    if "k < extent sz bb" for k and f :: "nat \<Rightarrow> u8"
  proof (rule take_drop_map)
    show "Suc k * ?z \<le> extent sz bb * ?z" using that by (intro mult_le_mono1) simp
  qed
  have e: "take ?z (drop ((m - ?b) * ?z) (expanded ?z (chunk_of env sz bb))) = block_bytes env sz bb (m - ?b)"
    if "m - ?b < extent sz bb" for m
  proof (cases "bb_kind bb")
    case (BACKED_BLOCK_FILL v)
    have "(m - ?b) * ?z + i < unat (bb_len bb)" if "i < ?z" for i
    proof -
      have "Suc (m - ?b) * ?z \<le> extent sz bb * ?z" using \<open>m - ?b < extent sz bb\<close> by (intro mult_le_mono1) simp
      then show ?thesis using that whole_extent [OF bb] whole BACKED_BLOCK_FILL by simp
    qed
    then show ?thesis
      using BACKED_BLOCK_FILL body [OF that, of "\<lambda>i. byte_at v (i mod 4)"]
      by (simp add: chunk_of_def fill_bytes_def block_bytes_def block_byte_def)
  qed (use body [OF that, of "block_byte env bb"] in \<open>simp_all add: chunk_of_def padded_def block_bytes_def\<close>)
  have "chunk_covers ?z (chunk_of env sz bb) ?b = (\<lambda>m. if ?b \<le> m \<and> m < ?b + extent sz bb
      then Some (take ?z (drop ((m - ?b) * ?z) (expanded ?z (chunk_of env sz bb)))) else None)"
  proof -
    have "(\<exists>d. chunk_of env sz bb = Raw d) \<or> (\<exists>v k. chunk_of env sz bb = Fill v k)"
      by (cases "bb_kind bb") (simp_all add: chunk_of_def)
    then show ?thesis using blocks by auto
  qed
  moreover have "covers env sz bb m = (if ?b \<le> m \<and> m < ?b + extent sz bb
      then Some (take ?z (drop ((m - ?b) * ?z) (expanded ?z (chunk_of env sz bb)))) else None)" for m
    using e [of m] by (cases "?b \<le> m \<and> m < ?b + extent sz bb") (auto simp: covers_def z(6))
  ultimately show "chunk_covers ?z (chunk_of env sz bb) ?b = covers env sz bb" by auto
qed

lemma block_chunks_image:
  assumes "\<forall>bb\<in>set bs. small sz nb bb" "blocks_ok sz bs" "\<forall>bb\<in>set bs. n \<le> unat (bb_block bb)"
  shows "(whole_fills sz bs \<longrightarrow> chunk_image (unat sz) (block_chunks env sz bs n) n = block_image env sz bs) \<and>
    n + all_blocks (unat sz) (block_chunks env sz bs n) = blocks_end sz bs n \<and>
    (\<forall>c\<in>set (block_chunks env sz bs n). chunk_ok (unat sz) c)"
  using assms
proof (induction bs arbitrary: n)
  case (Cons bb bs)
  have bb: "small sz nb bb" using Cons.prems(1) by simp
  have p: "past sz bb = unat (bb_block bb) + extent sz bb" by (rule small_sizes(6) [OF bb])
  have IH: "whole_fills sz bs \<Longrightarrow> chunk_image (unat sz) (block_chunks env sz bs (past sz bb)) (past sz bb) = block_image env sz bs"
    "past sz bb + all_blocks (unat sz) (block_chunks env sz bs (past sz bb)) = blocks_end sz bs (past sz bb)"
    "\<forall>c\<in>set (block_chunks env sz bs (past sz bb)). chunk_ok (unat sz) c"
    using Cons.IH [of "past sz bb"] Cons.prems by (auto simp: blocks_ok_Cons)
  have "dom (covers env sz bb) \<inter> dom (block_image env sz bs) = {}"
    using Cons.prems(2) by (auto simp: dom_covers dom_block_image blocks_ok_Cons)
  then show ?case
    using IH Cons.prems(3) p chunk_of_parts [OF bb, of env] by (auto simp: chunk_image_append map_add_comm hole_simps)
qed simp

lemma image_chunks_image:
  assumes "writable s"
  shows "all_blocks (unat (sf_block_size s)) (image_chunks env s) = total_blocks s"
    "\<forall>c\<in>set (image_chunks env s). chunk_ok (unat (sf_block_size s)) c"
    "whole_fills (sf_block_size s) (data_blocks (backed_blocks s)) \<Longrightarrow>
      chunk_image (unat (sf_block_size s)) (image_chunks env s) 0 = block_image env (sf_block_size s) (data_blocks (backed_blocks s))"
proof -
  let ?sz = "sf_block_size s" and ?bs = "data_blocks (backed_blocks s)"
  have "\<forall>bb\<in>set ?bs. small ?sz (total_blocks s) bb" "blocks_ok ?sz ?bs"
    using writable_small [OF assms] assms by (auto simp: writable_def list_ok_def)
  note b = block_chunks_image [OF this, of 0 env, simplified]
  moreover have "blocks_end ?sz ?bs 0 \<le> total_blocks s"
    using assms by (intro blocks_end_le) (auto simp: writable_def)
  ultimately show "all_blocks (unat ?sz) (image_chunks env s) = total_blocks s"
    "\<forall>c\<in>set (image_chunks env s). chunk_ok (unat ?sz) c"
    "whole_fills ?sz ?bs \<Longrightarrow> chunk_image (unat ?sz) (image_chunks env s) 0 = block_image env ?sz ?bs"
    by (auto simp: image_chunks_def Let_def chunk_image_append)
qed

lemma chunks_at_most_blocks: "\<forall>c\<in>set cs. chunk_ok z c \<Longrightarrow> 0 < z \<Longrightarrow> length cs \<le> all_blocks z cs"
proof (induction cs)
  case (Cons c cs)
  then have "0 < chunk_blocks z c" by (cases c) (auto simp: div_greater_zero_iff dvd_imp_le)
  then show ?case using Cons by simp
qed simp

section \<open>Headers\<close>

lemma load32_le: "load32 (xs @ le_bytes 4 w @ ys) (length xs) = w"
proof -
  have "map (byte_at w) (rev [0..<4]) = [byte_at w 3, byte_at w 2, byte_at w 1, byte_at w 0]"
    by (simp add: upt_rec numeral_3_eq_3 numeral_2_eq_2)
  moreover have "(xs @ le_bytes 4 w @ ys) ! (length xs + k) = byte_at w k" if "k < 4" for k
    using that by (simp add: nth_append le_bytes_def)
  from this [of 0] this [of 1] this [of 2] this [of 3]
  have "unat (load32 (xs @ le_bytes 4 w @ ys) (length xs)) = be_nat [byte_at w 3, byte_at w 2, byte_at w 1, byte_at w 0]"
    by (simp add: unat_load32)
  ultimately have "unat (load32 (xs @ le_bytes 4 w @ ys) (length xs)) = unat w mod 256 ^ 4"
    using be_nat_bytes_of [of w 4] by simp
  then show ?thesis using unat_u32_less [of w] by (simp add: word_unat_eq_iff)
qed

lemma load16_le: "load16 (xs @ le_bytes 2 (w :: u16) @ ys) (length xs) = w"
proof -
  have w: "unat w < 65536" using unsigned_less [of w, where ?'a = nat] by simp
  have "(xs @ le_bytes 2 w @ ys) ! (length xs + k) = byte_at w k" if "k < 2" for k
    using that by (simp add: nth_append le_bytes_def)
  from this [of 0] this [of 1]
  have l: "load16 (xs @ le_bytes 2 w @ ys) (length xs) = push_bit 8 (ucast (byte_at w 1)) OR ucast (byte_at w 0)"
    by (simp add: load16_def)
  have "unat (load16 (xs @ le_bytes 2 w @ ys) (length xs)) = unat (byte_at w 1) * 256 + unat (byte_at w 0)"
    using unat_u8_less [of "byte_at w 1"] unat_u8_less [of "byte_at w 0"]
    by (simp add: l unat_push_bit_or unat_ucast_up)
  also have "\<dots> = unat w" using w by (simp add: unat_byte_at)
  finally show ?thesis by (simp add: word_unat_eq_iff)
qed

lemma load_chunk_header_bytes: "load_chunk_header (chunk_header_bytes c @ ys) = c"
proof -
  let ?t = "le_bytes 2 (chunk_type c)" and ?r = "le_bytes 2 (reserved1 c)" and ?s = "le_bytes 4 (chunk_sz c)" and ?n = "le_bytes 4 (total_sz c)"
  show ?thesis
    using load16_le [of "[]" "chunk_type c" "?r @ ?s @ ?n @ ys"] load16_le [of ?t "reserved1 c" "?s @ ?n @ ys"]
      load32_le [of "?t @ ?r" "chunk_sz c" "?n @ ys"] load32_le [of "?t @ ?r @ ?s" "total_sz c" ys]
    by (simp add: load_chunk_header_def chunk_header_bytes_def)
qed

lemma load_sparse_header_bytes: "load_sparse_header (sparse_header_bytes h @ ys) = h"
proof -
  let ?m = "le_bytes 4 (magic h)" and ?j = "le_bytes 2 (major_version h)" and ?i = "le_bytes 2 (minor_version h)"
    and ?f = "le_bytes 2 (file_hdr_sz h)" and ?c = "le_bytes 2 (chunk_hdr_sz h)" and ?b = "le_bytes 4 (blk_sz h)"
    and ?t = "le_bytes 4 (total_blks h)" and ?n = "le_bytes 4 (total_chunks h)" and ?k = "le_bytes 4 (image_checksum h)"
  show ?thesis
    using load32_le [of "[]" "magic h" "?j @ ?i @ ?f @ ?c @ ?b @ ?t @ ?n @ ?k @ ys"]
      load16_le [of ?m "major_version h" "?i @ ?f @ ?c @ ?b @ ?t @ ?n @ ?k @ ys"]
      load16_le [of "?m @ ?j" "minor_version h" "?f @ ?c @ ?b @ ?t @ ?n @ ?k @ ys"]
      load16_le [of "?m @ ?j @ ?i" "file_hdr_sz h" "?c @ ?b @ ?t @ ?n @ ?k @ ys"]
      load16_le [of "?m @ ?j @ ?i @ ?f" "chunk_hdr_sz h" "?b @ ?t @ ?n @ ?k @ ys"]
      load32_le [of "?m @ ?j @ ?i @ ?f @ ?c" "blk_sz h" "?t @ ?n @ ?k @ ys"]
      load32_le [of "?m @ ?j @ ?i @ ?f @ ?c @ ?b" "total_blks h" "?n @ ?k @ ys"]
      load32_le [of "?m @ ?j @ ?i @ ?f @ ?c @ ?b @ ?t" "total_chunks h" "?k @ ys"]
      load32_le [of "?m @ ?j @ ?i @ ?f @ ?c @ ?b @ ?t @ ?n" "image_checksum h" ys]
    by (simp add: load_sparse_header_def sparse_header_bytes_def)
qed

section \<open>Adding to a file\<close>

text \<open>A file whose blocks lie below a block number.\<close>

definition filled_to :: "sparse_file \<Rightarrow> nat \<Rightarrow> bool" where
  "filled_to s n \<longleftrightarrow> list_ok (backed_blocks s) \<and> bbl_block_size (backed_blocks s) = sf_block_size s \<and>
     (\<forall>bb\<in>set (data_blocks (backed_blocks s)). past (sf_block_size s) bb \<le> n) \<and>
     total_len (data_blocks (backed_blocks s)) \<le> n * unat (sf_block_size s)"

abbreviation file_image :: "backing \<Rightarrow> sparse_file \<Rightarrow> nat \<rightharpoonup> bytes" where
  "file_image env s \<equiv> block_image env (sf_block_size s) (data_blocks (backed_blocks s))"

lemma past_le_dom:
  assumes "blocks_ok sz bs" "0 < sz"
  shows "(\<forall>bb\<in>set bs. past sz bb \<le> m) \<longleftrightarrow> dom (block_image env sz bs) \<subseteq> {..<m}"
proof -
  have "past sz bb \<le> m" if "{unat (bb_block bb)..<past sz bb} \<subseteq> {..<m}" "bb \<in> set bs" for bb
  proof -
    have "unat (bb_block bb) < past sz bb"
      using assms that(2) by (intro past_greater) (auto simp: blocks_ok_def list_all_iff block_fits_def)
    then have "past sz bb - 1 \<in> {unat (bb_block bb)..<past sz bb}" by auto
    with that(1) show ?thesis by auto
  qed
  then show ?thesis by (auto simp: dom_block_image)
qed

lemma add_block_filled:
  assumes s: "filled_to s n" and h: "malloc_total h" and k: "0 < k" "(n + k) * unat (sf_block_size s) < 2 ^ 31"
    and kind: "kind_present kind (k * unat (sf_block_size s))"
  defines "bb \<equiv> \<lparr>bb_block = of_nat n, bb_len = of_nat (k * unat (sf_block_size s)), bb_kind = kind\<rparr>"
  shows "\<exists>bbl h'. add_block (backed_blocks s) bb h = Ok (0, bbl, h') \<and> malloc_total h' \<and>
    filled_to (s\<lparr>backed_blocks := bbl\<rparr>) (n + k) \<and>
    (\<forall>env. block_image env (sf_block_size s) (data_blocks bbl) = file_image env s ++ covers env (sf_block_size s) bb) \<and>
    unat (bb_block bb) = n \<and> unat (bb_len bb) = k * unat (sf_block_size s) \<and> past (sf_block_size s) bb = n + k"
proof -
  let ?sz = "sf_block_size s" and ?z = "unat (sf_block_size s)" and ?bs = "data_blocks (backed_blocks s)"
  have l: "list_ok (backed_blocks s)" "bbl_block_size (backed_blocks s) = ?sz" and z: "0 < ?sz" "0 < ?z"
    using s by (auto simp: filled_to_def list_ok_def word_less_nat_alt)
  have kz: "n * ?z + k * ?z < 2 ^ 31" using k(2) by (simp add: add_mult_distrib)
  have "(n + k) * 1 \<le> (n + k) * ?z" using z(2) by (intro mult_le_mono2) simp
  then have nk: "n + k < 2 ^ 31" using le_less_trans [OF _ k(2)] by simp
  have b: "unat (bb_block bb) = n" "unat (bb_len bb) = k * ?z"
    using nk kz by (simp_all add: bb_def unsigned_of_nat take_bit_nat_eq_self del: of_nat_mult)
  have p: "past ?sz bb = n + k" using round_up_whole [OF z(2), of k 0] z(2) by (simp add: past_def b)
  have room: "has_room (backed_blocks s) bb"
    using s kind k(1) z nk kz by (auto simp: has_room_def filled_to_def block_fits_def p b word_less_nat_alt) (simp add: bb_def)
  then obtain bbl h' where a: "add_block (backed_blocks s) bb h = Ok (0, bbl, h')" "malloc_total h'" "list_ok bbl"
    "bbl_block_size bbl = ?sz" "extends_image ?sz ?bs bb (data_blocks bbl)"
    using add_block_extends [OF l(1) room h] l(2) by auto
  have im: "block_image env ?sz (data_blocks bbl) = file_image env s ++ covers env ?sz bb" for env
    using a(5) by (simp add: extends_image_def)
  have ok: "blocks_ok ?sz (data_blocks bbl)" "blocks_ok ?sz ?bs" using a(3,4) l by (auto simp: list_ok_def)
  have dom: "dom (block_image env ?sz ?bs) \<subseteq> {..<n}" for env
    using s past_le_dom [OF ok(2) z(1), of n env] by (simp add: filled_to_def)
  have "dom (block_image env ?sz (data_blocks bbl)) \<subseteq> {..<n + k}" for env
  proof
    fix x assume "x \<in> dom (block_image env ?sz (data_blocks bbl))"
    then have "x \<in> dom (file_image env s) \<or> x \<in> {n..<n + k}" unfolding im dom_map_add dom_covers p b by blast
    then show "x \<in> {..<n + k}" using dom [of env] by auto
  qed
  then have "\<forall>x\<in>set (data_blocks bbl). past ?sz x \<le> n + k" using past_le_dom [OF ok(1) z(1)] by blast
  moreover have "total_len (data_blocks bbl) \<le> (n + k) * ?z"
    using a(5) s by (simp add: extends_image_def b filled_to_def add_mult_distrib)
  ultimately have "filled_to (s\<lparr>backed_blocks := bbl\<rparr>) (n + k)" using a(3,4) by (simp add: filled_to_def)
  then show ?thesis using a(1,2) im b p by blast
qed

text \<open>The checksum in pieces of a buffer that is filled periodically.\<close>

lemma crc_copies_after:
  assumes buf: "\<And>k. buf k = map f [0..<k]" and f: "\<And>i. f (i + COPY_BUF_SIZE) = f i"
  shows "crc_copies buf n crc = Ok (crc_after crc (map f [0..<n]))"
proof (induction n arbitrary: crc rule: less_induct)
  case (less n)
  show ?case
  proof (cases "n = 0")
    case True
    then show ?thesis by (simp add: crc_copies.simps)
  next
    case False
    let ?k = "min n COPY_BUF_SIZE"
    have k: "unat (of_nat ?k :: u64) = ?k"
      by (simp add: COPY_BUF_SIZE_def unsigned_of_nat take_bit_nat_eq_self)
    have "[0..<n] = [0..<?k] @ map (\<lambda>i. i + ?k) [0..<n - ?k]"
      using upt_add_eq_append [of 0 ?k "n - ?k"] by (simp add: map_add_upt)
    moreover have "map (\<lambda>i. f (i + ?k)) [0..<n - ?k] = map f [0..<n - ?k]"
      using f by (cases "n \<le> COPY_BUF_SIZE") (auto simp: min_def)
    ultimately have split: "map f [0..<n] = map f [0..<?k] @ map f [0..<n - ?k]" by (simp add: comp_def)
    have "sparse_crc32 crc (buf ?k) (of_nat ?k) = Ok (crc_after crc (map f [0..<?k]))"
      using k by (simp add: sparse_crc32_after buf)
    moreover have "n - ?k < n" using False by (auto simp: COPY_BUF_SIZE_def)
    ultimately show ?thesis
      using False less.IH [of "n - ?k"] unfolding split crc_after_append by (subst crc_copies.simps) (simp add: Let_def)
  qed
qed

lemma sparse_file_new_total:
  assumes "malloc_total h"
  shows "\<exists>h'. sparse_file_new sz len h = Ok (Some \<lparr>sf_block_size = sz, sf_len = len, sf_verbose = False,
    backed_blocks = \<lparr>data_blocks = [], last_used = None, bbl_block_size = sz\<rparr>\<rparr>, h') \<and> malloc_total h'"
proof -
  obtain h1 where "try_alloc 40 h = (True, h1)" "malloc_total h1" using try_alloc_total [OF assms] by blast
  moreover obtain h2 where "try_alloc 24 h1 = (True, h2)" "malloc_total h2" using try_alloc_total calculation(2) by blast
  ultimately show ?thesis by (simp add: sparse_file_new_def backed_block_list_new_def)
qed

lemma filled_to_empty:
  "0 < sz \<Longrightarrow> 4 dvd unat sz \<Longrightarrow> filled_to \<lparr>sf_block_size = sz, sf_len = len, sf_verbose = v,
    backed_blocks = \<lparr>data_blocks = [], last_used = None, bbl_block_size = sz\<rparr>\<rparr> 0"
  by (simp add: filled_to_def list_ok_def)

section \<open>Sources\<close>

text \<open>
  \<open>rest r\<close> is what is still to be read, \<open>whole\<close> everything from the start. A block added refers to the next
  bytes.
\<close>

locale chunk_source =
  fixes src :: "'r source" and good :: "'r \<Rightarrow> bool" and rest :: "'r \<Rightarrow> bytes" and whole :: bytes and env :: backing
  assumes read_value: "good r \<Longrightarrow> n \<le> length (rest r) \<Longrightarrow> n < 2 ^ 31 \<Longrightarrow>
      \<exists>t. ReadValue src n r = Ok (0, take n (rest r), t) \<and> good t \<and> rest t = drop n (rest r)"
    and seek: "good r \<Longrightarrow> unat len \<le> length (rest r) \<Longrightarrow> unat len < 2 ^ 31 \<Longrightarrow>
      good (Seek src len r) \<and> rest (Seek src len r) = drop (unat len) (rest r)"
    and rewind: "good r \<Longrightarrow> \<exists>t. SetOffset src 0 r = (0, t) \<and> good t \<and> rest t = whole"
    and get_crc: "good r \<Longrightarrow> unat len \<le> length (rest r) \<Longrightarrow> unat len < 2 ^ 31 \<Longrightarrow>
      \<exists>t. GetCrc32 src crc len r = Ok (0, crc_after crc (take (unat len) (rest r)), t) \<and> good t \<and> rest t = drop (unat len) (rest r)"
    and add_next: "good r \<Longrightarrow> unat len \<le> length (rest r) \<Longrightarrow> unat len < 2 ^ 31 \<Longrightarrow>
      \<exists>k. AddToSparseFile src s len block r h = on_blocks s (add_block (backed_blocks s)
          \<lparr>bb_block = block, bb_len = ucast len, bb_kind = k\<rparr> h) \<and>
        \<not> is_fill k \<and> kind_present k (unat len) \<and> (\<forall>i<unat len. kind_byte env k i = rest r ! i)"
begin

text \<open>A state of the reader at block \<open>n\<close>.\<close>

definition reading_at :: "u32 \<Rightarrow> nat \<Rightarrow> 'r sparse_reading \<Rightarrow> bool" where
  "reading_at sz n r \<longleftrightarrow> sf_block_size (rd_file r) = sz \<and> filled_to (rd_file r) n \<and> malloc_total (rd_heap r) \<and> good (rd_source r)"

text \<open>What the chunks between two states were.\<close>

definition has_read :: "nat \<Rightarrow> bytes \<Rightarrow> (nat \<rightharpoonup> bytes) \<Rightarrow> 'r sparse_reading \<Rightarrow> 'r sparse_reading \<Rightarrow> bool" where
  "has_read k d m r t \<longleftrightarrow> file_image env (rd_file t) = file_image env (rd_file r) ++ m \<and>
     rd_crc32 t = map_option (\<lambda>c. crc_after c d) (rd_crc32 r) \<and> rest (rd_source t) = drop k (rest (rd_source r)) \<and>
     sf_len (rd_file t) = sf_len (rd_file r)"

lemma read_raw:
  assumes r: "reading_at sz n r" and k: "0 < k" "(n + k) * unat sz < 2 ^ 31" and len: "k * unat sz \<le> length (rest (rd_source r))"
  shows "\<exists>t. process_raw_chunk src (of_nat (k * unat sz)) (of_nat k) (of_nat n) r = Ok (0, t) \<and> reading_at sz (n + k) t \<and>
    has_read (k * unat sz) (take (k * unat sz) (rest (rd_source r)))
      (chunk_covers (unat sz) (Raw (take (k * unat sz) (rest (rd_source r)))) n) r t"
proof -
  let ?z = "unat sz" and ?s = "rd_file r" and ?R = "rest (rd_source r)"
  have sz: "sf_block_size ?s = sz" and f: "filled_to ?s n" and h: "malloc_total (rd_heap r)" and g: "good (rd_source r)"
    using r by (simp_all add: reading_at_def)
  have z: "0 < ?z" "sz \<noteq> 0" using f sz by (auto simp: filled_to_def list_ok_def word_less_nat_alt)
  have kz: "k * ?z < 2 ^ 31" using le_less_trans [OF _ k(2), of "k * ?z"] by simp
  have "k * 1 \<le> k * ?z" using z(1) by (intro mult_le_mono2) simp
  then have k31: "k < 2 ^ 31" using le_less_trans [OF _ kz] by simp
  have u: "unat (of_nat (k * ?z) :: u32) = k * ?z" "unat (of_nat k :: u32) = k"
    using kz k31 by (simp_all add: unsigned_of_nat take_bit_nat_eq_self del: of_nat_mult)
  define len where "len = (ucast (of_nat k * sz :: u32) :: u64)"
  have l: "unat len = k * ?z" "ucast len = (of_nat (k * ?z) :: u32)"
  proof -
    have "(of_nat k * sz :: u32) = of_nat (k * ?z)" by simp
    then show "unat len = k * ?z" using u(1) by (simp add: len_def unat_ucast_up)
    then show "ucast len = (of_nat (k * ?z) :: u32)" by (metis of_nat_unat)
  qed
  obtain kind where kind: "AddToSparseFile src ?s len (of_nat n) (rd_source r) (rd_heap r) = on_blocks ?s (add_block (backed_blocks ?s)
          \<lparr>bb_block = of_nat n, bb_len = of_nat (k * ?z), bb_kind = kind\<rparr> (rd_heap r))"
    "\<not> is_fill kind" "kind_present kind (k * ?z)" "\<forall>i<k * ?z. kind_byte env kind i = ?R ! i"
    using add_next [OF g, of len ?s "of_nat n" "rd_heap r"] kz len l by auto
  let ?bb = "\<lparr>bb_block = of_nat n, bb_len = of_nat (k * ?z), bb_kind = kind\<rparr>"
  obtain bbl h' where a: "add_block (backed_blocks ?s) ?bb (rd_heap r) = Ok (0, bbl, h')" "malloc_total h'"
    "filled_to (?s\<lparr>backed_blocks := bbl\<rparr>) (n + k)"
    "\<And>env. block_image env sz (data_blocks bbl) = file_image env ?s ++ covers env sz ?bb"
    "unat (bb_block ?bb) = n" "unat (bb_len ?bb) = k * ?z" "past sz ?bb = n + k"
    using add_block_filled [OF f h k(1), of kind] kind(3) k(2) unfolding sz by blast
  have cov: "covers env sz ?bb = chunk_covers ?z (Raw (take (k * ?z) ?R)) n"
  proof -
    have le: "Suc j * ?z \<le> k * ?z" if "j < k" for j using that by (intro mult_le_mono1) simp
    have "block_bytes env sz ?bb j = take ?z (drop (j * ?z) (take (k * ?z) ?R))" if j: "j < k" for j
    proof -
      have R: "take (k * ?z) ?R = map ((!) ?R) [0..<k * ?z]" using len by (intro nth_equalityI) auto
      have "block_byte env ?bb (j * ?z + i) = ?R ! (j * ?z + i)" if "i < ?z" for i
        using that le [OF j] kind(4) a(6) by (simp add: block_byte_def)
      then show ?thesis unfolding R take_drop_map [OF le [OF j]] by (simp add: block_bytes_def del: of_nat_mult)
    qed
    moreover have "length (take (k * ?z) ?R) div ?z = k" using len z(1) by simp
    ultimately show ?thesis using a(5,7) by (auto simp: covers_def less_diff_conv2 cong: if_cong)
  qed
  have im: "block_image env sz (data_blocks bbl) = file_image env ?s ++ chunk_covers ?z (Raw (take (k * ?z) ?R)) n" unfolding a(4) cov ..
  define t1 where "t1 = r\<lparr>rd_file := ?s\<lparr>backed_blocks := bbl\<rparr>, rd_heap := h'\<rparr>"
  have add: "AddToSparseFile src ?s len (of_nat n) (rd_source r) (rd_heap r) = Ok (0, ?s\<lparr>backed_blocks := bbl\<rparr>, h')"
    using kind(1) a(1) by (simp add: on_blocks_def)
  have chk: "(of_nat (k * ?z) :: u32) mod sz = 0" "(of_nat (k * ?z) :: u32) div sz = of_nat k"
    using z(1) u by (simp_all add: word_unat_eq_iff unat_mod unat_div del: of_nat_mult)
  have P: "process_raw_chunk src (of_nat (k * ?z)) (of_nat k) (of_nat n) r = (case rd_crc32 r of
      None \<Rightarrow> Ok (0, t1\<lparr>rd_source := Seek src len (rd_source r)\<rparr>)
    | Some crc \<Rightarrow> bnd (GetCrc32 src crc len (rd_source r)) (\<lambda>(ret, crc, source).
        Ok (if ret < 0 then ret else 0, t1\<lparr>rd_source := source, rd_crc32 := Some crc\<rparr>)))"
    unfolding process_raw_chunk_def Let_def sz nonzero_def chk len_def [symmetric] add
    using z(2) by (simp add: t1_def split: option.split)
  have done_with: "reading_at sz (n + k) (t1\<lparr>rd_source := src', rd_crc32 := c\<rparr>) \<and>
      has_read (k * ?z) (take (k * ?z) ?R) (chunk_covers ?z (Raw (take (k * ?z) ?R)) n) r (t1\<lparr>rd_source := src', rd_crc32 := c\<rparr>)"
    if "good src'" "rest src' = drop (k * ?z) ?R" "c = map_option (\<lambda>c. crc_after c (take (k * ?z) ?R)) (rd_crc32 r)" for src' c
    using that a(2,3) im by (simp add: t1_def reading_at_def has_read_def sz del: chunk_covers.simps)
  show ?thesis
  proof (cases "rd_crc32 r")
    case None
    have "process_raw_chunk src (of_nat (k * ?z)) (of_nat k) (of_nat n) r = Ok (0, t1\<lparr>rd_source := Seek src len (rd_source r), rd_crc32 := None\<rparr>)"
      using P None by (simp add: t1_def)
    moreover have "good (Seek src len (rd_source r))" "rest (Seek src len (rd_source r)) = drop (k * ?z) ?R"
      using seek [OF g, of len] l(1) kz len by simp_all
    ultimately show ?thesis using done_with [of "Seek src len (rd_source r)" None] None by (intro exI conjI) (assumption | simp)+
  next
    case (Some crc)
    obtain s' where s': "GetCrc32 src crc len (rd_source r) = Ok (0, crc_after crc (take (k * ?z) ?R), s')" "good s'"
      "rest s' = drop (k * ?z) ?R"
      using get_crc [OF g, of len crc] l(1) kz len by auto
    then have "process_raw_chunk src (of_nat (k * ?z)) (of_nat k) (of_nat n) r =
        Ok (0, t1\<lparr>rd_source := s', rd_crc32 := Some (crc_after crc (take (k * ?z) ?R))\<rparr>)"
      using P Some by simp
    then show ?thesis using done_with [of s'] s' Some by auto
  qed
qed

lemma read_fill:
  assumes r: "reading_at sz n r" and k: "0 < k" "(n + k) * unat sz < 2 ^ 31" and more: "rest (rd_source r) = le_bytes 4 v @ ys"
  shows "\<exists>t. process_fill_chunk src 4 (of_nat k) (of_nat n) r = Ok (0, t) \<and> reading_at sz (n + k) t \<and>
    has_read 4 (fill_bytes v (k * unat sz)) (chunk_covers (unat sz) (Fill v k) n) r t"
proof -
  let ?z = "unat sz" and ?s = "rd_file r"
  have sz: "sf_block_size ?s = sz" and f: "filled_to ?s n" and h: "malloc_total (rd_heap r)" and g: "good (rd_source r)"
    using r by (simp_all add: reading_at_def)
  have z: "0 < ?z" and four: "4 dvd ?z" using f sz by (auto simp: filled_to_def list_ok_def word_less_nat_alt)
  have kz: "k * ?z < 2 ^ 31" using le_less_trans [OF _ k(2), of "k * ?z"] by simp
  have "k * 1 \<le> k * ?z" using z by (intro mult_le_mono2) simp
  then have k31: "k < 2 ^ 31" using le_less_trans [OF _ kz] by simp
  then have uk: "unat (of_nat k :: u32) = k" by (simp add: unsigned_of_nat take_bit_nat_eq_self)
  define len where "len = (ucast (of_nat k :: u32) * ucast sz :: u64)"
  have l: "unat len = k * ?z" "ucast len = (of_nat (k * ?z) :: u32)"
  proof -
    show l: "unat len = k * ?z" using kz by (simp add: len_def unat_word_ariths unat_ucast_up uk)
    then show "ucast len = (of_nat (k * ?z) :: u32)" by (metis of_nat_unat)
  qed
  obtain t0 where t0: "ReadValue src 4 (rd_source r) = Ok (0, le_bytes 4 v, t0)" "good t0" "rest t0 = ys"
    using read_value [OF g, of 4] more by auto
  have val: "load32 (le_bytes 4 v) 0 = v" using load32_le [of "[]" v "[]"] by simp
  let ?bb = "\<lparr>bb_block = of_nat n, bb_len = of_nat (k * ?z), bb_kind = BACKED_BLOCK_FILL v\<rparr>"
  obtain bbl h' where a: "add_block (backed_blocks ?s) ?bb (rd_heap r) = Ok (0, bbl, h')" "malloc_total h'"
    "filled_to (?s\<lparr>backed_blocks := bbl\<rparr>) (n + k)"
    "\<And>env. block_image env sz (data_blocks bbl) = file_image env ?s ++ covers env sz ?bb"
    "unat (bb_block ?bb) = n" "unat (bb_len ?bb) = k * ?z" "past sz ?bb = n + k"
    using add_block_filled [OF f h k(1), of "BACKED_BLOCK_FILL v"] k(2) unfolding sz by auto
  have cov: "covers env sz ?bb = chunk_covers ?z (Fill v k) n"
  proof -
    have "block_bytes env sz ?bb j = take ?z (drop (j * ?z) (fill_bytes v (k * ?z)))" if "j < k" for j
    proof -
      have "Suc j * ?z \<le> k * ?z" using that by (intro mult_le_mono1) simp
      then have "take ?z (drop (j * ?z) (fill_bytes v (k * ?z))) = map (\<lambda>i. byte_at v ((j * ?z + i) mod 4)) [0..<?z]"
        unfolding fill_bytes_def by (rule take_drop_map)
      moreover have "j * ?z + i < k * ?z" if "i < ?z" for i using that \<open>Suc j * ?z \<le> k * ?z\<close> by simp
      ultimately show ?thesis using a(6) by (simp add: block_bytes_def block_byte_def)
    qed
    then show ?thesis using a(5,7) by (auto simp: covers_def less_diff_conv2 cong: if_cong)
  qed
  have im: "block_image env sz (data_blocks bbl) = file_image env ?s ++ chunk_covers ?z (Fill v k) n" unfolding a(4) cov ..
  have add: "sparse_file_add_fill ?s v (ucast len) (of_nat n) (rd_heap r) = Ok (0, ?s\<lparr>backed_blocks := bbl\<rparr>, h')"
    using a(1) by (simp add: sparse_file_add_fill_def on_blocks_def backed_block_add_fill_def l(2))
  have "crc_copies (fill_bytes v) (k * ?z) crc = Ok (crc_after crc (fill_bytes v (k * ?z)))" for crc
    using crc_copies_after [of "fill_bytes v" "\<lambda>i. byte_at v (i mod 4)" "k * ?z" crc]
    by (simp add: fill_bytes_def COPY_BUF_SIZE_def mod_add_right_eq [of _ 1048576 4, symmetric])
  moreover have "sint len = int (k * ?z)"
  proof -
    have "len = of_nat (k * ?z)" using l(1) by (metis of_nat_unat ucast_id)
    then show ?thesis using sint_of_nat_small [of "k * ?z"] kz by simp
  qed
  then have "\<not> sint len < 0" by (simp only: of_nat_less_0_iff not_False_eq_True)
  ultimately have crc: "crc_copied (fill_bytes v) len c = Ok (map_option (\<lambda>c. crc_after c (fill_bytes v (k * ?z))) c)" for c
    using l(1) by (simp add: crc_copied_def split: option.split)
  define t where "t = r\<lparr>rd_source := t0, rd_file := ?s\<lparr>backed_blocks := bbl\<rparr>, rd_heap := h',
    rd_crc32 := map_option (\<lambda>c. crc_after c (fill_bytes v (k * ?z))) (rd_crc32 r)\<rparr>"
  have "process_fill_chunk src 4 (of_nat k) (of_nat n) r = Ok (0, t)"
    unfolding process_fill_chunk_def sz Let_def len_def [symmetric] using t0 val add crc by (simp add: t_def)
  then show ?thesis using t0 a(2,3) im sz more by (simp add: t_def reading_at_def has_read_def)
qed

lemma read_hole:
  assumes r: "reading_at sz n r" and k: "k * unat sz < 2 ^ 31" "k < 2 ^ 31"
  shows "\<exists>t. process_skip_chunk 0 (of_nat k) r = Ok (0, t) \<and> reading_at sz (n + k) t \<and>
    has_read 0 (replicate (k * unat sz) 0) (chunk_covers (unat sz) (Hole k) n) r t"
proof -
  let ?z = "unat sz"
  define len where "len = (ucast (of_nat k :: u32) * ucast sz :: u64)"
  have uk: "unat (of_nat k :: u32) = k" using k(2) by (simp add: unsigned_of_nat take_bit_nat_eq_self)
  have l: "unat len = k * ?z" using k by (simp add: len_def unat_word_ariths unat_ucast_up uk)
  then have "len = of_nat (k * ?z)" by (metis of_nat_unat ucast_id)
  then have "sint len = int (k * ?z)" using sint_of_nat_small [of "k * ?z"] k by simp
  then have sl: "\<not> sint len < 0" by (simp only: of_nat_less_0_iff not_False_eq_True)
  have "crc_copies (\<lambda>n. replicate n 0) (k * ?z) crc = Ok (crc_after crc (replicate (k * ?z) 0))" for crc
    using crc_copies_after [of "\<lambda>n. replicate n 0" "\<lambda>_. 0" "k * ?z" crc] by (simp add: map_replicate_const)
  then have crc: "crc_copied (\<lambda>n. replicate n 0) len c = Ok (map_option (\<lambda>c. crc_after c (replicate (k * ?z) 0)) c)" for c
    using l sl by (simp add: crc_copied_def split: option.split)
  have sz: "sf_block_size (rd_file r) = sz" using r by (simp add: reading_at_def)
  have "process_skip_chunk 0 (of_nat k) r = Ok (0, r\<lparr>rd_crc32 := map_option (\<lambda>c. crc_after c (replicate (k * ?z) 0)) (rd_crc32 r)\<rparr>)"
    unfolding process_skip_chunk_def sz len_def [symmetric] using crc by simp
  moreover have "filled_to (rd_file r) (n + k)"
    using r by (force simp: reading_at_def filled_to_def add_mult_distrib)
  ultimately show ?thesis using r by (simp add: reading_at_def has_read_def)
qed

lemma read_payload:
  assumes r: "reading_at sz n r" and c: "chunk_ok (unat sz) c" and n: "(n + chunk_blocks (unat sz) c) * unat sz < 2 ^ 31"
    and enc: "encode_chunk (unat sz) c = encode_header ty k m @ p" and rest: "rest (rd_source r) = p @ ys"
  shows "\<exists>t. process_chunk src 12 \<lparr>chunk_type = ty, reserved1 = 0, chunk_sz = of_nat k, total_sz = of_nat (12 + m)\<rparr> (of_nat n) r =
      Ok (int (chunk_blocks (unat sz) c), t) \<and>
    reading_at sz (n + chunk_blocks (unat sz) c) t \<and>
    has_read (length p) (expanded (unat sz) c) (chunk_covers (unat sz) c n) r t"
proof -
  let ?z = "unat sz"
  have z: "0 < ?z" using r by (auto simp: reading_at_def filled_to_def list_ok_def word_less_nat_alt)
  have "chunk_blocks ?z c * 1 \<le> (n + chunk_blocks ?z c) * ?z" using z by (intro mult_le_mono) simp_all
  then have k31: "chunk_blocks ?z c < 2 ^ 31" using le_less_trans [OF _ n] by simp
  then have si: "sint (of_nat (chunk_blocks ?z c) :: u32) = int (chunk_blocks ?z c)"
    by (simp add: signed_of_nat signed_take_bit_int_eq_self)
  have hdr: "ty = ty' \<and> (of_nat k :: u32) = of_nat k' \<and> (of_nat (12 + m) :: u32) = of_nat (12 + m') \<and> p = p'"
    if "encode_header ty k m @ p = encode_header ty' k' m' @ p'" for ty' k' m' p'
  proof -
    have "encode_header ty k m = encode_header ty' k' m' \<and> p = p'"
      using that by (subst (asm) append_eq_append_conv) (simp_all add: encode_header_def)
    then show ?thesis
      using load_chunk_header_bytes [of _ "[]"] unfolding encode_header_def by (metis chunk_header.ext_inject append_Nil2)
  qed
  show ?thesis
  proof (cases c)
    case (Raw d)
    let ?k = "length d div ?z"
    have d: "length d = ?k * ?z" "0 < ?k" using c Raw z by (auto simp: div_greater_zero_iff dvd_imp_le)
    have h: "ty = CHUNK_TYPE_RAW" "(of_nat k :: u32) = of_nat ?k" "(of_nat (12 + m) :: u32) = of_nat (12 + length d)" "p = d"
      using hdr [OF trans [OF enc [symmetric]], of CHUNK_TYPE_RAW ?k "length d" d] Raw by simp_all
    have "take (?k * ?z) (rest (rd_source r)) = d" using rest h(4) d(1) by simp
    with read_raw [OF r d(2), of] n rest h(4) d obtain t where
      "process_raw_chunk src (of_nat (length d)) (of_nat ?k) (of_nat n) r = Ok (0, t)" "reading_at sz (n + ?k) t"
      "has_read (length d) d (chunk_covers ?z (Raw d) n) r t" by (auto simp: Raw)
    then show ?thesis
      using si h by (intro exI [of _ t]) (simp add: process_chunk_def Let_def Raw)
  next
    case (Fill v j)
    have h: "ty = CHUNK_TYPE_FILL" "(of_nat k :: u32) = of_nat j" "(of_nat (12 + m) :: u32) = of_nat (12 + 4)" "p = le_bytes 4 v"
      using hdr [OF trans [OF enc [symmetric]], of CHUNK_TYPE_FILL j 4 "le_bytes 4 v"] Fill by simp_all
    obtain t where "process_fill_chunk src 4 (of_nat j) (of_nat n) r = Ok (0, t)" "reading_at sz (n + j) t"
      "has_read 4 (fill_bytes v (j * ?z)) (chunk_covers ?z (Fill v j) n) r t"
      using read_fill [OF r, of j v ys] c n rest Fill h(4) by auto
    then show ?thesis
      using si h by (intro exI [of _ t]) (simp add: process_chunk_def Let_def Fill CHUNK_TYPE_FILL_def CHUNK_TYPE_RAW_def)
  next
    case (Hole j)
    have h: "ty = CHUNK_TYPE_DONT_CARE" "(of_nat k :: u32) = of_nat j" "(of_nat (12 + m) :: u32) = of_nat (12 + 0)" "p = []"
      using hdr [OF trans [OF enc [symmetric]], of CHUNK_TYPE_DONT_CARE j 0 "[]"] Hole by simp_all
    have "j * ?z < 2 ^ 31" using n Hole by (simp add: add_mult_distrib)
    then obtain t where "process_skip_chunk 0 (of_nat j) r = Ok (0, t)" "reading_at sz (n + j) t"
      "has_read 0 (replicate (j * ?z) 0) (chunk_covers ?z (Hole j) n) r t"
      using read_hole [OF r, of j] k31 Hole by auto
    then show ?thesis
      using si h by (intro exI [of _ t])
        (simp add: process_chunk_def Let_def Hole CHUNK_TYPE_DONT_CARE_def CHUNK_TYPE_FILL_def CHUNK_TYPE_RAW_def)
  qed (use c in simp)
qed

lemma has_read_trans: "has_read a d m r t \<Longrightarrow> has_read b e m' t u \<Longrightarrow> has_read (a + b) (d @ e) (m ++ m') r u"
  by (auto simp: has_read_def crc_after_append add.commute option.map_comp comp_def)

lemma has_read_refl: "has_read 0 [] Map.empty r r"
  by (simp add: has_read_def option.map_ident)

text \<open>The header of a chunk is read.\<close>

lemma read_header:
  assumes g: "good (rd_source r)" and rest: "rest (rd_source r) = encode_header ty k m @ ys"
  shows "\<exists>s. good s \<and> rest s = ys \<and> (\<forall>n cur. chunks_loop src 12 (Suc n) cur r =
    bnd (process_chunk src 12 \<lparr>chunk_type = ty, reserved1 = 0, chunk_sz = of_nat k, total_sz = of_nat (12 + m)\<rparr> cur (r\<lparr>rd_source := s\<rparr>))
      (\<lambda>(ret, r). if ret < 0 then Ok (ret, cur, r) else chunks_loop src 12 n (cur + of_int ret) r))"
proof -
  have l: "length (encode_header ty k m) = 12" by (simp add: encode_header_def CHUNK_HEADER_LEN_def)
  obtain s where s: "ReadValue src 12 (rd_source r) = Ok (0, encode_header ty k m, s)" "good s" "rest s = ys"
    using read_value [OF g, of 12] rest l by auto
  have "load_chunk_header (encode_header ty k m) = \<lparr>chunk_type = ty, reserved1 = 0, chunk_sz = of_nat k, total_sz = of_nat (12 + m)\<rparr>"
    using load_chunk_header_bytes [of _ "[]"] by (simp add: encode_header_def)
  then show ?thesis using s by (intro exI [of _ s]) (simp add: CHUNK_HEADER_LEN_def Let_def)
qed

lemma read_chunks:
  assumes "reading_at sz n r" "\<forall>c\<in>set cs. chunk_ok (unat sz) c" "(n + all_blocks (unat sz) cs) * unat sz < 2 ^ 31"
    "rest (rd_source r) = concat (map (encode_chunk (unat sz)) cs) @ ys"
  shows "\<exists>t. chunks_loop src 12 (length cs + m) (of_nat n) r = chunks_loop src 12 m (of_nat (n + all_blocks (unat sz) cs)) t \<and>
    reading_at sz (n + all_blocks (unat sz) cs) t \<and>
    has_read (length (concat (map (encode_chunk (unat sz)) cs))) (concat (map (expanded (unat sz)) cs)) (chunk_image (unat sz) cs n) r t"
  using assms
proof (induction cs arbitrary: n r)
  case Nil
  then show ?case using has_read_refl by auto
next
  case (Cons c cs)
  let ?z = "unat sz" and ?b = "chunk_blocks (unat sz) c"
  obtain ty k j p where enc: "encode_chunk ?z c = encode_header ty k j @ p"
  proof (cases c)
    case (Hole i)
    then show ?thesis using that [of CHUNK_TYPE_DONT_CARE i 0 "[]"] by simp
  qed (use that in auto)
  have g: "good (rd_source r)" using Cons.prems(1) by (simp add: reading_at_def)
  obtain s where s: "good s" "rest s = p @ concat (map (encode_chunk ?z) cs) @ ys"
    "\<And>n cur. chunks_loop src 12 (Suc n) cur r =
      bnd (process_chunk src 12 \<lparr>chunk_type = ty, reserved1 = 0, chunk_sz = of_nat k, total_sz = of_nat (12 + j)\<rparr> cur (r\<lparr>rd_source := s\<rparr>))
        (\<lambda>(ret, r). if ret < 0 then Ok (ret, cur, r) else chunks_loop src 12 n (cur + of_int ret) r)"
    using read_header [OF g, of ty k j "p @ concat (map (encode_chunk ?z) cs) @ ys"] Cons.prems(4) enc by auto
  have "(n + ?b) * ?z \<le> (n + all_blocks ?z (c # cs)) * ?z" by (intro mult_le_mono1) simp
  then have n: "(n + ?b) * ?z < 2 ^ 31" using le_less_trans [OF _ Cons.prems(3)] by blast
  have "reading_at sz n (r\<lparr>rd_source := s\<rparr>)" using Cons.prems(1) s(1) by (simp add: reading_at_def)
  from read_payload [OF this _ n enc, of "concat (map (encode_chunk ?z) cs) @ ys"] Cons.prems(2) s(2)
  obtain t where t: "process_chunk src 12 \<lparr>chunk_type = ty, reserved1 = 0, chunk_sz = of_nat k, total_sz = of_nat (12 + j)\<rparr> (of_nat n) (r\<lparr>rd_source := s\<rparr>) =
      Ok (int ?b, t)" "reading_at sz (n + ?b) t"
    "has_read (length p) (expanded ?z c) (chunk_covers ?z c n) (r\<lparr>rd_source := s\<rparr>) t" by auto
  have rt: "rest (rd_source t) = concat (map (encode_chunk ?z) cs) @ ys" using t(3) s(2) by (simp add: has_read_def)
  have one: "has_read (length (encode_chunk ?z c)) (expanded ?z c) (chunk_covers ?z c n) r t"
    using t(3) rt Cons.prems(4) by (auto simp: has_read_def)
  obtain u where u: "chunks_loop src 12 (length cs + m) (of_nat (n + ?b)) t = chunks_loop src 12 m (of_nat (n + ?b + all_blocks ?z cs)) u"
    "reading_at sz (n + ?b + all_blocks ?z cs) u"
    "has_read (length (concat (map (encode_chunk ?z) cs))) (concat (map (expanded ?z) cs)) (chunk_image ?z cs (n + ?b)) t u"
    using Cons.IH [OF t(2) _ _ rt] Cons.prems(2,3) by (auto simp: add.assoc)
  have "chunks_loop src 12 (length (c # cs) + m) (of_nat n) r = chunks_loop src 12 (length cs + m) (of_nat (n + ?b)) t"
    using s(3) [of "length cs + m"] t(1) by simp
  then show ?case using u has_read_trans [OF one u(3)] by (auto simp: add.assoc)
qed

text \<open>The checksum at the end.\<close>

lemma read_checksum:
  assumes r: "reading_at sz n r" and rest: "rest (rd_source r) = encode_chunk (unat sz) (Checksum c) @ ys"
  shows "\<exists>t. chunks_loop src 12 1 cur r =
      Ok (if rd_crc32 r = None \<or> rd_crc32 r = Some c then 0 else - EINVAL, cur, t) \<and> rd_file t = rd_file r \<and> rd_heap t = rd_heap r"
proof -
  have g: "good (rd_source r)" using r by (simp add: reading_at_def)
  obtain s where s: "good s" "rest s = le_bytes 4 c @ ys"
    "\<And>n cur. chunks_loop src 12 (Suc n) cur r =
      bnd (process_chunk src 12 \<lparr>chunk_type = CHUNK_TYPE_CRC32, reserved1 = 0, chunk_sz = of_nat 0, total_sz = of_nat (12 + 4)\<rparr> cur (r\<lparr>rd_source := s\<rparr>))
        (\<lambda>(ret, r). if ret < 0 then Ok (ret, cur, r) else chunks_loop src 12 n (cur + of_int ret) r)"
    using read_header [OF g, of CHUNK_TYPE_CRC32 0 4 "le_bytes 4 c @ ys"] rest by auto
  obtain t where t: "ReadValue src 4 s = Ok (0, le_bytes 4 c, t)" using read_value [OF s(1), of 4] s(2) by auto
  have "load32 (le_bytes 4 c) 0 = c" using load32_le [of "[]" c "[]"] by simp
  then have "chunks_loop src 12 (Suc 0) cur r = Ok (if rd_crc32 r = None \<or> rd_crc32 r = Some c then 0 else - EINVAL, cur, r\<lparr>rd_source := t\<rparr>)"
    unfolding s(3) using t by (auto simp: process_chunk_def process_crc32_chunk_def Let_def CHUNK_TYPE_CRC32_def CHUNK_TYPE_DONT_CARE_def
        CHUNK_TYPE_FILL_def CHUNK_TYPE_RAW_def EINVAL_def)
  then show ?thesis by auto
qed

text \<open>A whole file, with or without a checksum at the end.\<close>

lemma import_file:
  assumes g: "good r" and rest: "rest r = whole" and sz: "0 < sz" "4 dvd unat sz"
    and cs: "\<forall>c\<in>set cs. chunk_ok (unat sz) c" "all_blocks (unat sz) cs * unat sz < 2 ^ 31"
    and whole: "whole = encode_file sz (all_blocks (unat sz) cs) (cs @ sums) @ ys" and sums: "sums = [] \<or> sums = [Checksum c]"
    and h: "malloc_total (lib_heap lib)"
  shows "\<exists>s t lib'. sparse_file_import_source src r v crc lib = Ok (if crc \<and> sums \<noteq> [] \<and> crc_after 0 (concat (map (expanded (unat sz)) cs)) \<noteq> c
      then None else Some s, t, lib') \<and>
    sf_block_size s = sz \<and> unat (sf_len s) = all_blocks (unat sz) cs * unat sz \<and> filled_to s (all_blocks (unat sz) cs) \<and>
    file_image env s = chunk_image (unat sz) cs 0 \<and> malloc_total (lib_heap lib')"
proof -
  let ?z = "unat sz" and ?nb = "all_blocks (unat sz) cs" and ?L = "length (cs @ sums)"
  have z: "0 < ?z" using sz(1) by (simp add: word_less_nat_alt)
  have "?nb * 1 \<le> ?nb * ?z" using z by (intro mult_le_mono2) simp
  then have nb: "?nb < 2 ^ 31" using le_less_trans [OF _ cs(2)] by simp
  then have L: "?L < 2 ^ 32" using chunks_at_most_blocks [OF cs(1) z] sums by auto
  define fh where "fh = \<lparr>magic = 0xed26ff3a, major_version = 1, minor_version = 0, file_hdr_sz = 28,
     chunk_hdr_sz = 12, blk_sz = sz, total_blks = of_nat ?nb, total_chunks = of_nat ?L, image_checksum = 0\<rparr>"
  have hdr: "file_header sz ?nb ?L = sparse_header_bytes fh" "length (file_header sz ?nb ?L) = 28"
    by (simp_all add: file_header_def fh_def SPARSE_HEADER_LEN_def)
  have load: "load_sparse_header (file_header sz ?nb ?L) = fh" using load_sparse_header_bytes [of fh "[]"] hdr by simp
  have ok: "header_ok fh"
    by (simp add: header_ok_def fh_def SPARSE_HEADER_MAGIC_def SPARSE_HEADER_MAJOR_VER_def SPARSE_HEADER_LEN_def CHUNK_HEADER_LEN_def)
  have tc: "unat (total_chunks fh) = ?L" using L by (simp add: fh_def unsigned_of_nat take_bit_nat_eq_self del: length_append)
  have tb: "total_blks fh = of_nat ?nb" "blk_sz fh = sz" "file_hdr_sz fh = 28" "chunk_hdr_sz fh = 12" by (simp_all add: fh_def)
  have whole': "whole = file_header sz ?nb ?L @ concat (map (encode_chunk ?z) cs) @ concat (map (encode_chunk ?z) sums) @ ys"
    by (simp add: whole encode_file_def)
  obtain r1 where r1: "ReadValue src 28 r = Ok (0, file_header sz ?nb ?L, r1)" "good r1"
    using read_value [OF g, of 28] rest whole' hdr(2) by auto
  define len where "len = (ucast (of_nat ?nb :: u32) * ucast sz :: u64)"
  have len: "unat len = ?nb * ?z"
  proof -
    have "unat (of_nat ?nb :: u32) = ?nb" using nb by (simp add: unsigned_of_nat take_bit_nat_eq_self)
    then show ?thesis using cs(2) by (simp add: len_def unat_word_ariths unat_ucast_up)
  qed
  define s0 where "s0 = \<lparr>sf_block_size = sz, sf_len = len, sf_verbose = v,
    backed_blocks = \<lparr>data_blocks = [], last_used = None, bbl_block_size = sz\<rparr>\<rparr>"
  obtain h1 where h1: "sparse_file_new sz len (lib_heap lib) = Ok (Some (s0\<lparr>sf_verbose := False\<rparr>), h1)" "malloc_total h1"
    using sparse_file_new_total [OF h, of sz len] by (auto simp: s0_def)
  obtain r2 where r2: "SetOffset src 0 r1 = (0, r2)" "good r2" "rest r2 = whole" using rewind [OF r1(2)] by blast
  obtain h2 where h2: "(if copybuf lib then (True, h1) else try_alloc COPY_BUF_SIZE h1) = (True, h2)" "malloc_total h2"
    using h1(2) try_alloc_total [OF h1(2), of COPY_BUF_SIZE] by (cases "copybuf lib") auto
  obtain r3 where r3: "ReadValue src 28 r2 = Ok (0, file_header sz ?nb ?L, r3)" "good r3"
    "rest r3 = concat (map (encode_chunk ?z) cs) @ concat (map (encode_chunk ?z) sums) @ ys"
    using read_value [OF r2(2), of 28] r2(3) whole' hdr(2) by auto
  define rd where "rd = \<lparr>rd_file = s0, rd_source = r3, rd_heap = h2, rd_crc32 = (if crc then Some 0 else None)\<rparr>"
  have at: "reading_at sz 0 rd" using r3(2) h2(2) filled_to_empty [OF sz] by (simp add: rd_def reading_at_def s0_def)
  obtain t where t: "chunks_loop src 12 (length cs + length sums) 0 rd = chunks_loop src 12 (length sums) (of_nat ?nb) t"
    "reading_at sz ?nb t" "has_read (length (concat (map (encode_chunk ?z) cs))) (concat (map (expanded ?z) cs)) (chunk_image ?z cs 0) rd t"
    using read_chunks [OF at cs(1), of "concat (map (encode_chunk ?z) sums) @ ys" "length sums"] cs(2) r3(3)
    by (auto simp: rd_def)
  define sum where "sum = crc_after 0 (concat (map (expanded ?z) cs))"
  have crc_t: "rd_crc32 t = (if crc then Some sum else None)" using t(3) by (simp add: has_read_def rd_def sum_def)
  have rest_t: "rest (rd_source t) = concat (map (encode_chunk ?z) sums) @ ys" using t(3) r3(3) by (simp add: has_read_def rd_def)
  obtain u where u: "chunks_loop src 12 (length cs + length sums) 0 rd =
      Ok (if crc \<and> sums \<noteq> [] \<and> sum \<noteq> c then - EINVAL else 0, of_nat ?nb, u)" "rd_file u = rd_file t" "rd_heap u = rd_heap t"
  proof (cases "sums = []")
    case True
    then show ?thesis using that [of t] t(1) by simp
  next
    case False
    then have e: "sums = [Checksum c]" using sums by simp
    obtain w where "chunks_loop src 12 1 (of_nat ?nb) t = Ok (if rd_crc32 t = None \<or> rd_crc32 t = Some c then 0 else - EINVAL, of_nat ?nb, w)"
      "rd_file w = rd_file t" "rd_heap w = rd_heap t"
      using read_checksum [OF t(2), of c ys "of_nat ?nb"] rest_t e by auto
    then show ?thesis using that [of w] t(1) e crc_t by (auto simp del: chunks_loop.simps split: if_splits)
  qed
  define ret where "ret = (if crc \<and> sums \<noteq> [] \<and> sum \<noteq> c then - EINVAL else 0)"
  have ret: "(if ret < 0 then ret else if total_blks fh \<noteq> of_nat ?nb then - EINVAL else 0) = ret" by (simp add: ret_def tb EINVAL_def)
  have loop: "chunks_loop src 12 (unat (total_chunks fh)) 0 rd = Ok (ret, of_nat ?nb, u)" using u(1) tc by (simp add: ret_def)
  have "(if copybuf (lib\<lparr>lib_heap := h1\<rparr>) then (True, lib_heap (lib\<lparr>lib_heap := h1\<rparr>))
      else try_alloc COPY_BUF_SIZE (lib_heap (lib\<lparr>lib_heap := h1\<rparr>))) = (True, h2)"
    using h2(1) by (cases "copybuf lib") simp_all
  then have read: "sparse_file_read_sparse src s0 r2 crc (lib\<lparr>lib_heap := h1\<rparr>) =
      Ok (ret, rd_file t, rd_source u, lib\<lparr>lib_heap := rd_heap t, copybuf := True\<rparr>)"
    unfolding sparse_file_read_sparse_def SPARSE_HEADER_LEN_def
    by (simp only: r3(1) load ok tb Let_def bnd_simps prod.case loop [unfolded rd_def] ret u(2,3) if_True if_False not_True_eq_False simp_thms)
      (simp add: loop [unfolded rd_def] ret u(2,3), simp add: ret_def EINVAL_def)
  show ?thesis
  proof (intro exI conjI)
    show "sparse_file_import_source src r v crc lib = Ok (if crc \<and> sums \<noteq> [] \<and> crc_after 0 (concat (map (expanded ?z) cs)) \<noteq> c
      then None else Some (rd_file t), rd_source u, lib\<lparr>lib_heap := rd_heap t, copybuf := True\<rparr>)"
    proof -
      have "s0\<lparr>sf_verbose := v\<rparr> = s0" by (simp add: s0_def)
      then have "sparse_file_import_source src r v crc lib = Ok (if ret < 0 then None else Some (rd_file t), rd_source u,
          lib\<lparr>lib_heap := rd_heap t, copybuf := True\<rparr>)"
        unfolding sparse_file_import_source_def SPARSE_HEADER_LEN_def
        by (simp add: r1(1) load ok tb Let_def h1(1) r2(1) read del: length_append flip: len_def)
      moreover have "ret < 0 \<longleftrightarrow> crc \<and> sums \<noteq> [] \<and> crc_after 0 (concat (map (expanded ?z) cs)) \<noteq> c"
        by (simp add: ret_def EINVAL_def sum_def)
      ultimately show ?thesis by simp
    qed
    show "sf_block_size (rd_file t) = sz" "filled_to (rd_file t) ?nb" using t(2) by (simp_all add: reading_at_def)
    show "unat (sf_len (rd_file t)) = ?nb * ?z" using t(3) len by (simp add: has_read_def rd_def s0_def)
    show "file_image env (rd_file t) = chunk_image ?z cs 0" using t(3) by (simp add: has_read_def rd_def s0_def)
    show "malloc_total (lib_heap (lib\<lparr>lib_heap := rd_heap t, copybuf := True\<rparr>))" using t(2) by (simp add: reading_at_def)
  qed
qed

end

section \<open>The sources of the library\<close>

subsection \<open>Memory\<close>

definition buf_good :: "bytes \<Rightarrow> buf_source \<Rightarrow> bool" where
  "buf_good mem r \<longleftrightarrow> bs_mem r = mem \<and> unat (bs_offset r) \<le> length mem \<and> length mem < 2 ^ 63"

definition buf_rest :: "buf_source \<Rightarrow> bytes" where
  "buf_rest r = drop (unat (bs_offset r)) (bs_mem r)"

lemma buf_move:
  assumes "buf_good mem r" "n \<le> length (buf_rest r)"
  shows "buf_good mem (r\<lparr>bs_offset := bs_offset r + of_nat n\<rparr>)" "buf_rest (r\<lparr>bs_offset := bs_offset r + of_nat n\<rparr>) = drop n (buf_rest r)"
proof -
  have l: "unat (bs_offset r) + n \<le> length mem" "length mem < 2 ^ 63" "bs_mem r = mem"
    using assms by (auto simp: buf_good_def buf_rest_def)
  then have "unat (bs_offset r + of_nat n) = unat (bs_offset r) + n"
    by (simp add: unat_word_ariths unsigned_of_nat take_bit_nat_eq_self)
  then show "buf_good mem (r\<lparr>bs_offset := bs_offset r + of_nat n\<rparr>)"
    "buf_rest (r\<lparr>bs_offset := bs_offset r + of_nat n\<rparr>) = drop n (buf_rest r)"
    using l by (simp_all add: buf_good_def buf_rest_def add.commute)
qed

lemma at_buf_good: "buf_good mem r \<Longrightarrow> at_buf r k = k (buf_rest r)"
  by (auto simp: at_buf_def buf_good_def buf_rest_def)

interpretation buf: chunk_source SparseFileBufSource "buf_good mem" buf_rest mem env for mem env
proof unfold_locales
  fix r assume g: "buf_good mem r"
  show "\<exists>t. ReadValue SparseFileBufSource n r = Ok (0, take n (buf_rest r), t) \<and> buf_good mem t \<and> buf_rest t = drop n (buf_rest r)"
    if "n \<le> length (buf_rest r)" "n < 2 ^ 31" for n
    using that buf_move [OF g that(1)] by (auto simp: SparseFileBufSource_def at_buf_good [OF g])
  show "\<exists>t. SetOffset SparseFileBufSource 0 r = (0, t) \<and> buf_good mem t \<and> buf_rest t = mem"
    using g by (simp add: SparseFileBufSource_def buf_good_def buf_rest_def)
  fix len :: u64 assume l: "unat len \<le> length (buf_rest r)"
  note m = buf_move [OF g l]
  show "buf_good mem (Seek SparseFileBufSource len r) \<and> buf_rest (Seek SparseFileBufSource len r) = drop (unat len) (buf_rest r)"
    using m by (simp add: SparseFileBufSource_def)
  show "\<exists>t. GetCrc32 SparseFileBufSource crc len r = Ok (0, crc_after crc (take (unat len) (buf_rest r)), t) \<and> buf_good mem t \<and>
      buf_rest t = drop (unat len) (buf_rest r)" for crc
    using l m by (auto simp: SparseFileBufSource_def at_buf_good [OF g] sparse_crc32_after)
  show "\<exists>k. AddToSparseFile SparseFileBufSource s len block r h = on_blocks s (add_block (backed_blocks s)
      \<lparr>bb_block = block, bb_len = ucast len, bb_kind = k\<rparr> h) \<and>
    \<not> is_fill k \<and> kind_present k (unat len) \<and> (\<forall>i<unat len. kind_byte env k i = buf_rest r ! i)" for s block h
    using l by (intro exI [of _ "BACKED_BLOCK_DATA (buf_rest r)"])
      (simp add: SparseFileBufSource_def at_buf_good [OF g] sparse_file_add_data_def backed_block_add_data_def)
qed

subsection \<open>Descriptors\<close>

definition fd_holds :: "int \<Rightarrow> bytes \<Rightarrow> fd_source \<Rightarrow> bool" where
  "fd_holds fd content f \<longleftrightarrow> fs_fd f = fd \<and> fs_content f = content \<and> fs_seekable f \<and> fs_pos f \<le> length content \<and>
     length content < 2 ^ 63 \<and> (\<forall>e. Read_failed e \<notin> set (fs_answers f))"

definition fd_rest :: "fd_source \<Rightarrow> bytes" where
  "fd_rest f = drop (fs_pos f) (fs_content f)"

lemma read_fd_holds:
  assumes f: "fd_holds fd content f" and n: "0 < n" "n \<le> length (fd_rest f)"
  shows "\<exists>k g. read_fd n f = (Inr (take k (fd_rest f)), g) \<and> 0 < k \<and> k \<le> n \<and> fd_holds fd content g \<and> fd_rest g = drop k (fd_rest f)"
proof -
  have l: "length (fd_rest f) = length content - fs_pos f" "fs_pos f \<le> length content"
    using f by (simp_all add: fd_rest_def fd_holds_def)
  have r: "drop (fs_pos f) content = fd_rest f" using f by (simp add: fd_rest_def fd_holds_def)
  have "fd_holds fd content (f\<lparr>fs_answers := as, fs_pos := fs_pos f + k\<rparr>) \<and> fd_rest (f\<lparr>fs_answers := as, fs_pos := fs_pos f + k\<rparr>) = drop k (fd_rest f)"
    if "k \<le> n" "set as \<subseteq> set (fs_answers f)" for k as
    using that f n l by (auto simp: fd_holds_def fd_rest_def add.commute)
  note step = this
  show ?thesis
  proof (cases "fs_answers f")
    case Nil
    then show ?thesis
      using step [of "min n 0x7ffff000" "[]"] n f r
      by (intro exI [of _ "min n 0x7ffff000"] exI [of _ "f\<lparr>fs_answers := [], fs_pos := fs_pos f + min n 0x7ffff000\<rparr>"])
        (simp add: read_fd_def Let_def fd_holds_def)
  next
    case (Cons a as)
    then obtain j where a: "a = Up_to j" using f by (cases a) (auto simp: fd_holds_def)
    let ?k = "min n (min (Suc j) 0x7ffff000)"
    show ?thesis
      using step [of ?k as] n f r Cons a
      by (intro exI [of _ ?k] exI [of _ "f\<lparr>fs_answers := as, fs_pos := fs_pos f + ?k\<rparr>"])
        (auto simp: read_fd_def Let_def fd_holds_def)
  qed
qed

lemma read_all_loop_holds:
  "fd_holds fd content f \<Longrightarrow> n \<le> length (fd_rest f) \<Longrightarrow>
     \<exists>g. read_all_loop n buf f = (0, buf @ take n (fd_rest f), g) \<and> fd_holds fd content g \<and> fd_rest g = drop n (fd_rest f)"
proof (induction n arbitrary: buf f rule: less_induct)
  case (less n)
  show ?case
  proof (cases "n = 0")
    case True
    then show ?thesis using less.prems by (simp add: read_all_loop.simps)
  next
    case False
    obtain k g where r: "read_fd n f = (Inr (take k (fd_rest f)), g)" "0 < k" "k \<le> n" "fd_holds fd content g" "fd_rest g = drop k (fd_rest f)"
      using read_fd_holds [OF less.prems(1)] False less.prems(2) by blast
    have len: "length (take k (fd_rest f)) = k" using r(3) less.prems(2) by simp
    then have ne: "take k (fd_rest f) \<noteq> []" using r(2) by auto
    obtain h where h: "read_all_loop (n - k) (buf @ take k (fd_rest f)) g = (0, (buf @ take k (fd_rest f)) @ take (n - k) (fd_rest g), h)"
      "fd_holds fd content h" "fd_rest h = drop (n - k) (fd_rest g)"
      using less.IH [of "n - k" g "buf @ take k (fd_rest f)"] r False diff_le_mono [OF less.prems(2), of k] by auto
    have "take k (fd_rest f) @ take (n - k) (fd_rest g) = take n (fd_rest f)"
      using r(3,5) by (metis le_add_diff_inverse take_add)
    then show ?thesis
      using False r h len ne by (subst read_all_loop.simps) simp
  qed
qed

lemma fd_crc_loop_holds:
  "fd_holds fd content f \<Longrightarrow> n \<le> length (fd_rest f) \<Longrightarrow>
     \<exists>g. fd_crc_loop crc n f = Ok (0, crc_after crc (take n (fd_rest f)), g) \<and> fd_holds fd content g \<and> fd_rest g = drop n (fd_rest f)"
proof (induction n arbitrary: crc f rule: less_induct)
  case (less n)
  show ?case
  proof (cases "n = 0")
    case True
    then show ?thesis using less.prems by (simp add: fd_crc_loop.simps)
  next
    case False
    let ?k = "min n COPY_BUF_SIZE"
    have k: "unat (of_nat ?k :: u64) = ?k" "n - ?k < n"
      using False by (auto simp: COPY_BUF_SIZE_def unsigned_of_nat take_bit_nat_eq_self)
    obtain g where g: "read_all ?k f = (0, take ?k (fd_rest f), g)" "fd_holds fd content g" "fd_rest g = drop ?k (fd_rest f)"
      using read_all_loop_holds [OF less.prems(1), of ?k "[]"] less.prems(2) min.coboundedI1 [OF less.prems(2)] by (auto simp: read_all_def)
    define c where "c = crc_after crc (take ?k (fd_rest f))"
    have s: "sparse_crc32 crc (take ?k (fd_rest f)) (of_nat ?k) = Ok c"
      using k less.prems(2) by (simp add: sparse_crc32_after c_def)
    obtain h where h: "fd_crc_loop c (n - ?k) g = Ok (0, crc_after c (take (n - ?k) (fd_rest g)), h)"
      "fd_holds fd content h" "fd_rest h = drop (n - ?k) (fd_rest g)"
      using less.IH [OF k(2) g(2)] g(3) diff_le_mono [OF less.prems(2), of ?k] by auto
    have "take ?k (fd_rest f) @ take (n - ?k) (fd_rest g) = take n (fd_rest f)"
      using g(3) by (metis le_add_diff_inverse min.cobounded1 take_add)
    then have "crc_after c (take (n - ?k) (fd_rest g)) = crc_after crc (take n (fd_rest f))"
      by (simp add: c_def flip: crc_after_append)
    then show ?thesis
      using False g h s by (subst fd_crc_loop.simps) (simp add: Let_def)
  qed
qed

interpretation descriptor: chunk_source SparseFileFdSource "fd_holds fd content" fd_rest content
    "env\<lparr>open_file := (open_file env)(fd := \<lambda>p. content ! unat p)\<rparr>" for fd content env
proof unfold_locales
  fix r assume g: "fd_holds fd content r"
  show "\<exists>t. ReadValue SparseFileFdSource n r = Ok (0, take n (fd_rest r), t) \<and> fd_holds fd content t \<and> fd_rest t = drop n (fd_rest r)"
    if "n \<le> length (fd_rest r)" "n < 2 ^ 31" for n
    using read_all_loop_holds [OF g that(1), of "[]"] by (auto simp: SparseFileFdSource_def read_all_def)
  show "\<exists>t. SetOffset SparseFileFdSource 0 r = (0, t) \<and> fd_holds fd content t \<and> fd_rest t = content"
    using g by (simp add: SparseFileFdSource_def seek_fd_def fd_holds_def fd_rest_def)
  fix len :: u64 assume l: "unat len \<le> length (fd_rest r)" "unat len < 2 ^ 31"
  have p: "fs_pos r + unat len \<le> length content" "length content < 2 ^ 63" "fs_content r = content" "fs_seekable r" "fs_fd r = fd"
    using g l by (auto simp: fd_holds_def fd_rest_def)
  have si: "sint len = int (unat len)" using sint_of_nat_small [of "unat len"] l(2) by simp
  have pos: "nat (int (fs_pos r) + sint len) = fs_pos r + unat len" "\<not> int (fs_pos r) + sint len < 0" using si by linarith+
  show "fd_holds fd content (Seek SparseFileFdSource len r) \<and> fd_rest (Seek SparseFileFdSource len r) = drop (unat len) (fd_rest r)"
    using g p pos by (simp add: SparseFileFdSource_def seek_fd_def fd_holds_def fd_rest_def add.commute)
  show "\<exists>t. GetCrc32 SparseFileFdSource crc len r = Ok (0, crc_after crc (take (unat len) (fd_rest r)), t) \<and> fd_holds fd content t \<and>
      fd_rest t = drop (unat len) (fd_rest r)" for crc
    using fd_crc_loop_holds [OF g l(1), of crc] si by (auto simp: SparseFileFdSource_def)
  have "unat (of_nat (fs_pos r) + of_nat i :: u64) = fs_pos r + i" if "i < unat len" for i
    using that p by (simp add: unat_word_ariths unsigned_of_nat take_bit_nat_eq_self)
  then show "\<exists>k. AddToSparseFile SparseFileFdSource s len block r h = on_blocks s (add_block (backed_blocks s)
      \<lparr>bb_block = block, bb_len = ucast len, bb_kind = k\<rparr> h) \<and>
    \<not> is_fill k \<and> kind_present k (unat len) \<and>
    (\<forall>i<unat len. kind_byte (env\<lparr>open_file := (open_file env)(fd := \<lambda>p. content ! unat p)\<rparr>) k i = fd_rest r ! i)" for s block h
    using p by (intro exI [of _ "BACKED_BLOCK_FD fd (of_nat (fs_pos r))"])
      (simp add: SparseFileFdSource_def sparse_file_add_fd_def backed_block_add_fd_def fd_rest_def)
qed

end
