(* ===== verification/Sparse_Plain.thy ===== *)
theory Sparse_Plain
  imports Sparse_Roundtrip
begin

text \<open>
  Writing a plain image: the file holds the blocks of the image one after the other. The locale
  \<open>plain_sink\<close> adds skipping to the contract of a sink; a descriptor that can seek is its interpretation.
\<close>

section \<open>The plain image\<close>

definition raw_image :: "nat \<Rightarrow> nat \<Rightarrow> (nat \<rightharpoonup> bytes) \<Rightarrow> bytes" where
  "raw_image z nb m = concat (map (\<lambda>n. case m n of Some b \<Rightarrow> b | None \<Rightarrow> replicate z 0) [0..<nb])"

definition raw_from :: "nat \<Rightarrow> nat \<Rightarrow> nat \<Rightarrow> (nat \<rightharpoonup> bytes) \<Rightarrow> bytes" where
  "raw_from z n k m = concat (map (\<lambda>i. case m (n + i) of Some b \<Rightarrow> b | None \<Rightarrow> replicate z 0) [0..<k])"

lemma concat_slices: "length d = k * z \<Longrightarrow> concat (map (\<lambda>i. take z (drop (i * z) d)) [0..<k]) = d"
proof (induction k arbitrary: d)
  case (Suc k)
  have "concat (map (\<lambda>i. take z (drop (i * z) (take (k * z) d))) [0..<k]) = take (k * z) d"
    using Suc.prems by (intro Suc.IH) simp
  moreover have "take z (drop (i * z) (take (k * z) d)) = take z (drop (i * z) d)" if "i < k" for i
  proof -
    have "Suc i * z \<le> k * z" using that by (intro mult_le_mono1) simp
    then show ?thesis by (simp add: drop_take)
  qed
  then have "map (\<lambda>i. take z (drop (i * z) (take (k * z) d))) [0..<k] = map (\<lambda>i. take z (drop (i * z) d)) [0..<k]" by simp
  moreover have "take z (drop (k * z) d) = drop (k * z) d" using Suc.prems by simp
  ultimately show ?case by simp
qed simp

lemma concat_zeros: "concat (map (\<lambda>i. replicate z 0) [0..<k]) = replicate (k * z) (0 :: u8)"
proof (induction k)
  case (Suc k)
  then show ?case by (simp add: add.commute flip: replicate_add)
qed simp

lemma dom_chunk_image: "dom (chunk_image z cs n) \<subseteq> {n..<n + all_blocks z cs}"
proof (induction cs arbitrary: n)
  case (Cons c cs)
  have "dom (chunk_covers z c n) \<subseteq> {n..<n + chunk_blocks z c}" by (cases c) (auto split: if_splits)
  moreover have "dom (chunk_image z cs (n + chunk_blocks z c)) \<subseteq> {n + chunk_blocks z c..<n + chunk_blocks z c + all_blocks z cs}"
    by (rule Cons)
  ultimately show ?case by (fastforce simp: add.assoc)
qed simp

lemma chunk_raw:
  assumes "chunk_ok z c" "0 < z"
  shows "raw_from z n (chunk_blocks z c) (chunk_covers z c n) = expanded z c"
proof (cases "\<exists>k. c = Hole k")
  case True
  then show ?thesis by (auto simp: raw_from_def concat_zeros)
next
  case False
  have len: "length (expanded z c) = chunk_blocks z c * z" using assms False by (cases c) auto
  have "(case chunk_covers z c n (n + i) of Some b \<Rightarrow> b | None \<Rightarrow> replicate z 0) = take z (drop (i * z) (expanded z c))"
    if "i < chunk_blocks z c" for i using assms(1) False that by (cases c) auto
  then have "raw_from z n (chunk_blocks z c) (chunk_covers z c n) = concat (map (\<lambda>i. take z (drop (i * z) (expanded z c))) [0..<chunk_blocks z c])"
    unfolding raw_from_def by (intro arg_cong [where f = concat] map_cong) auto
  then show ?thesis using concat_slices [OF len] by simp
qed

lemma length_expanded:
  "\<forall>c\<in>set cs. chunk_ok z c \<Longrightarrow> length (concat (map (expanded z) cs)) = all_blocks z cs * z"
proof (induction cs)
  case (Cons c cs)
  then have "length (expanded z c) = chunk_blocks z c * z" by (cases c) auto
  then show ?case using Cons by (simp add: add_mult_distrib)
qed simp

lemma chunks_raw:
  assumes "\<forall>c\<in>set cs. chunk_ok z c" "0 < z"
  shows "raw_from z n (all_blocks z cs) (chunk_image z cs n) = concat (map (expanded z) cs)"
  using assms(1)
proof (induction cs arbitrary: n)
  case Nil
  then show ?case by (simp add: raw_from_def)
next
  case (Cons c cs)
  let ?b = "chunk_blocks z c" and ?m = "chunk_image z cs (n + chunk_blocks z c)"
  let ?f = "\<lambda>m i. case m (n + i) of Some b \<Rightarrow> b | None \<Rightarrow> replicate z 0"
  have split: "[0..<?b + all_blocks z cs] = [0..<?b] @ map (\<lambda>i. i + ?b) [0..<all_blocks z cs]"
    using upt_add_eq_append [of 0 ?b "all_blocks z cs"] by (simp add: map_add_upt add.commute)
  have lo: "(chunk_covers z c n ++ ?m) (n + i) = chunk_covers z c n (n + i)" if "i < ?b" for i
  proof -
    have "n + i \<notin> dom ?m" using dom_chunk_image [of z cs "n + ?b"] that by auto
    then show ?thesis by (simp add: map_add_dom_app_simps)
  qed
  have hi: "(chunk_covers z c n ++ ?m) (n + (i + ?b)) = ?m (n + ?b + i)" for i
  proof -
    have "n + (i + ?b) \<notin> dom (chunk_covers z c n)" by (cases c) (auto split: if_splits)
    then show ?thesis by (simp add: map_add_dom_app_simps add.commute add.left_commute)
  qed
  have "raw_from z n (all_blocks z (c # cs)) (chunk_image z (c # cs) n) =
      raw_from z n ?b (chunk_covers z c n) @ raw_from z (n + ?b) (all_blocks z cs) ?m"
  proof -
    have "map (?f (chunk_covers z c n ++ ?m)) [0..<?b] = map (?f (chunk_covers z c n)) [0..<?b]" by (intro map_cong) (auto simp: lo)
    then show ?thesis
      unfolding raw_from_def chunk_image.simps all_blocks_simps split map_append concat_append by (simp only:) (simp add: hi comp_def)
  qed
  then show ?case using chunk_raw Cons assms(2) by simp
qed

lemma image_chunks_raw:
  assumes "writable s" "whole_fills (sf_block_size s) (data_blocks (backed_blocks s))"
  shows "concat (map (expanded (unat (sf_block_size s))) (image_chunks env s)) =
    raw_image (unat (sf_block_size s)) (total_blocks s) (file_image env s)"
  using chunks_raw [OF image_chunks_image(2) [OF assms(1)] writable_len(2) [OF assms(1)], of 0 env]
  by (simp add: image_chunks_image(1) [OF assms(1)] image_chunks_image(3) [OF assms] raw_from_def raw_image_def)

section \<open>Sinks that can skip\<close>

locale plain_sink = chunk_sink ops good after
  for ops :: "'s output_file_ops" and good :: "'s \<Rightarrow> bool" and after :: "'s \<Rightarrow> bytes \<Rightarrow> 's \<Rightarrow> bool" +
  assumes sink_skip: "good s \<Longrightarrow> n < 2 ^ 31 \<Longrightarrow>
      \<exists>t. op_skip ops (of_nat n) s = Ok (0, t) \<and> good t \<and> after s (replicate n 0) t"
begin

definition open_plain :: "u32 \<Rightarrow> 's output_file \<Rightarrow> bool" where
  "open_plain sz out \<longleftrightarrow> \<not> sparse_ops out \<and> of_block_size out = sz \<and> length (fill_buf out) = unat sz \<and> good (sink out)"

definition put_out :: "'s output_file \<Rightarrow> bytes \<Rightarrow> 's output_file \<Rightarrow> bool" where
  "put_out out bs out' \<longleftrightarrow> open_plain (of_block_size out) out' \<and> of_len out' = of_len out \<and> after (sink out) bs (sink out')"

lemma put_out_trans: "put_out a xs b \<Longrightarrow> put_out b ys c \<Longrightarrow> put_out a (xs @ ys) c"
  unfolding put_out_def open_plain_def by (auto intro: after_trans)

lemma put_out_refl: "open_plain (of_block_size out) out \<Longrightarrow> put_out out [] out"
  by (simp add: put_out_def after_refl)

lemma plain_skip:
  assumes out: "open_plain sz out" and n: "n < 2 ^ 31"
  shows "\<exists>out'. skip_sink ops (of_nat n) out = Ok (0, out') \<and> put_out out (replicate n 0) out'"
proof -
  obtain t where "op_skip ops (of_nat n) (sink out) = Ok (0, t)" "good t" "after (sink out) (replicate n 0) t"
    using sink_skip [OF _ n, of "sink out"] out by (auto simp: open_plain_def)
  then show ?thesis using out by (auto simp: skip_sink_def put_out_def open_plain_def)
qed

lemma plain_data:
  assumes bb: "small sz nb bb" and out: "open_plain sz out"
    and data: "unat (bb_len bb) \<le> length data" "take (unat (bb_len bb)) data = map (block_byte env bb) [0..<unat (bb_len bb)]"
    and kind: "\<not> is_fill (bb_kind bb)"
  shows "\<exists>out'. write_normal_data_chunk ops (bb_len bb) data out = Ok (0, out') \<and> put_out out (padded env sz bb) out'"
proof -
  note z = small_sizes [OF bb] and w = small_words [OF bb]
  let ?l = "unat (bb_len bb)" and ?e = "extent sz bb * unat sz"
  define zl where "zl = ALIGN (bb_len bb) sz - bb_len bb"
  have pad: "padded env sz bb = take ?l data @ replicate (?e - ?l) 0" by (rule padded_split [OF bb data(2) kind])
  obtain t where t: "emit ops data (ucast (bb_len bb)) out = Ok (0, out\<lparr>sink := t\<rparr>)" "good t" "after (sink out) (take ?l data) t"
    using emit_writes [of out "ucast (bb_len bb)" data] out data(1) by (auto simp: open_plain_def unat_ucast_up)
  have one: "open_plain sz (out\<lparr>sink := t\<rparr>)" "put_out out (take ?l data) (out\<lparr>sink := t\<rparr>)"
    using out t by (simp_all add: put_out_def open_plain_def)
  have gt: "ALIGN (bb_len bb) sz > bb_len bb \<longleftrightarrow> ?l < ?e" by (simp add: word_less_nat_alt w(2))
  have zw: "ucast zl = (of_nat (?e - ?l) :: u64)" using w(4) by (metis of_nat_unat zl_def)
  show ?thesis
  proof (cases "?l < ?e")
    case True
    have "?e - ?l < 2 ^ 31" using z(4) by simp
    then obtain out' where "skip_sink ops (of_nat (?e - ?l)) (out\<lparr>sink := t\<rparr>) = Ok (0, out')"
      "put_out (out\<lparr>sink := t\<rparr>) (replicate (?e - ?l) 0) out'" using plain_skip [OF one(1)] by blast
    moreover have "write_normal_data_chunk ops (bb_len bb) data out = skip_sink ops (ucast zl) (out\<lparr>sink := t\<rparr>)"
      using out z(1) t(1) True gt by (auto simp: write_normal_data_chunk_def nonzero_def Let_def open_plain_def zl_def)
    ultimately show ?thesis using put_out_trans [OF one(2)] unfolding pad zw by auto
  next
    case False
    then show ?thesis
      using out z(1) t(1) gt one(2) by (auto simp: write_normal_data_chunk_def nonzero_def Let_def open_plain_def pad)
  qed
qed

text \<open>A fill is written a block at a time; it must end with a block.\<close>

lemma plain_fill_loop:
  assumes "open_plain sz out" "fill_buf out = fill_bytes v (unat sz)" "0 < unat sz" "4 dvd unat sz"
  shows "\<exists>out'. normal_fill_loop ops (k * unat sz) out = Ok (0, out') \<and> put_out out (fill_bytes v (k * unat sz)) out'"
  using assms
proof (induction k arbitrary: out)
  case 0
  then show ?case by (simp add: normal_fill_loop.simps fill_bytes_def put_out_refl open_plain_def)
next
  case (Suc k)
  let ?z = "unat sz"
  have u: "unat (of_nat ?z :: u64) = ?z" by (simp add: unat_ucast_up)
  obtain t where t: "emit ops (fill_buf out) (of_nat ?z) out = Ok (0, out\<lparr>sink := t\<rparr>)" "good t" "after (sink out) (fill_bytes v ?z) t"
    using emit_writes [of out "of_nat ?z" "fill_buf out"] Suc.prems u by (auto simp: open_plain_def)
  have one: "open_plain sz (out\<lparr>sink := t\<rparr>)" "put_out out (fill_bytes v ?z) (out\<lparr>sink := t\<rparr>)"
    using Suc.prems t by (simp_all add: put_out_def open_plain_def)
  obtain out' where two: "normal_fill_loop ops (k * ?z) (out\<lparr>sink := t\<rparr>) = Ok (0, out')"
    "put_out (out\<lparr>sink := t\<rparr>) (fill_bytes v (k * ?z)) out'" using Suc.IH [OF one(1)] Suc.prems by auto
  have "normal_fill_loop ops (Suc k * ?z) out = Ok (0, out')"
    using Suc.prems t(1) two(1) by (subst normal_fill_loop.simps) (simp add: open_plain_def Let_def)
  moreover have "fill_bytes v ?z @ fill_bytes v (k * ?z) = fill_bytes v (Suc k * ?z)"
    using fill_bytes_append [OF Suc.prems(4), of v "k * ?z"] by simp
  ultimately show ?case using put_out_trans [OF one(2) two(2)] by auto
qed

lemma plain_fill:
  assumes bb: "small sz nb bb" and out: "open_plain sz out" and whole: "unat sz dvd unat (bb_len bb)"
  shows "\<exists>out'. write_normal_fill_chunk ops (bb_len bb) v out = Ok (0, out') \<and> put_out out (fill_bytes v (extent sz bb * unat sz)) out'"
proof -
  note z = small_sizes [OF bb]
  have four: "4 dvd unat sz" using bb by (simp add: small_def)
  let ?out = "out\<lparr>fill_buf := fill_bytes v (unat sz)\<rparr>"
  have "concat (replicate (unat sz div 4) (le_bytes 4 v)) = fill_bytes v (unat sz)"
    using four by (simp flip: fill_bytes_words)
  moreover have "drop (4 * (unat sz div 4)) (fill_buf out) = []" using four out by (simp add: open_plain_def)
  ultimately have w: "write_normal_fill_chunk ops (bb_len bb) v out = normal_fill_loop ops (unat (bb_len bb)) ?out"
    using out by (simp add: write_normal_fill_chunk_def Let_def open_plain_def)
  obtain k where k: "unat (bb_len bb) = k * unat sz" using whole by (metis dvd_div_mult_self)
  have "extent sz bb = k" using round_up_whole [OF z(1), of k 0] z(1) by (simp add: z(8) k)
  moreover have "open_plain sz ?out" using out by (simp add: open_plain_def)
  ultimately show ?thesis
    using plain_fill_loop [of sz ?out v k] z(1) four out unfolding w k by (auto simp: put_out_def open_plain_def)
qed

lemma plain_block:
  assumes bb: "small sz nb bb" and rd: "block_readable os env bb" and out: "open_plain sz out"
    and whole: "is_fill (bb_kind bb) \<Longrightarrow> unat sz dvd unat (bb_len bb)"
  shows "\<exists>out'. sparse_file_write_block os ops bb out = Ok (0, out') \<and> put_out out (expanded (unat sz) (chunk_of env sz bb)) out'"
proof (cases "is_fill (bb_kind bb)")
  case True
  then obtain v where "bb_kind bb = BACKED_BLOCK_FILL v" by (cases "bb_kind bb") auto
  then show ?thesis
    using plain_fill [OF bb out, of v] out whole by (simp add: sparse_file_write_block_def write_fill_chunk_def open_plain_def chunk_of_def)
next
  case False
  then have "expanded (unat sz) (chunk_of env sz bb) = padded env sz bb" by (cases "bb_kind bb") (auto simp: chunk_of_def)
  moreover obtain data where "unat (bb_len bb) \<le> length data"
    "take (unat (bb_len bb)) data = map (block_byte env bb) [0..<unat (bb_len bb)]"
    "\<And>out. sparse_file_write_block os ops bb out = write_data_chunk ops (bb_len bb) data out"
    using write_block_data [of sz bb os env ops] bb rd False by (auto simp: small_def)
  ultimately show ?thesis
    using plain_data [OF bb out _ _ False] out by (simp add: write_data_chunk_def open_plain_def)
qed

lemma plain_hole:
  assumes "open_plain sz out" "n * unat sz < 2 ^ 31"
  shows "\<exists>out'. write_skip_chunk ops (of_nat (n * unat sz)) out = Ok (0, out') \<and>
    put_out out (concat (map (expanded (unat sz)) (hole n))) out'"
proof -
  have "concat (map (expanded (unat sz)) (hole n)) = replicate (n * unat sz) 0" by (simp add: hole_def)
  then show ?thesis
    using plain_skip [OF assms] assms(1) by (simp add: write_skip_chunk_def write_normal_skip_chunk_def open_plain_def)
qed

lemma plain_blocks:
  assumes "\<forall>bb\<in>set bs. small sz nb bb \<and> block_readable os env bb \<and> (is_fill (bb_kind bb) \<longrightarrow> unat sz dvd unat (bb_len bb))"
    "blocks_ok sz bs" "\<forall>bb\<in>set bs. unat last_block \<le> unat (bb_block bb)" "open_plain sz out"
  shows "\<exists>last' out'. write_blocks_loop os ops sz bs last_block out = Ok (0, last', out') \<and>
    unat last' = blocks_end sz bs (unat last_block) \<and>
    put_out out (concat (map (expanded (unat sz)) (block_chunks env sz bs (unat last_block)))) out'"
  using assms
proof (induction bs arbitrary: last_block out)
  case Nil
  then show ?case by (simp add: put_out_refl open_plain_def)
next
  case (Cons bb bs)
  let ?n = "unat (bb_block bb) - unat last_block" and ?z = "unat sz"
  have bb: "small sz nb bb" "block_readable os env bb" "is_fill (bb_kind bb) \<Longrightarrow> ?z dvd unat (bb_len bb)"
    and le: "unat last_block \<le> unat (bb_block bb)" and sz: "of_block_size out = sz"
    using Cons.prems by (auto simp: open_plain_def)
  have "\<exists>out1 ret. (if bb_block bb > last_block then write_skip_chunk ops (ucast (bb_block bb - last_block) * ucast sz) out
      else Ok (0, out)) = Ok (ret, out1) \<and> put_out out (concat (map (expanded ?z) (hole ?n))) out1"
  proof (cases "bb_block bb > last_block")
    case True
    then show ?thesis
      using plain_hole [OF Cons.prems(4) gap_size(1) [OF bb(1), of "unat last_block"]] unfolding gap_size(2) [OF bb(1) le] by auto
  next
    case False
    then show ?thesis using le Cons.prems(4) sz by (simp add: hole_def word_less_nat_alt put_out_refl)
  qed
  then obtain out1 ret where one: "(if bb_block bb > last_block then write_skip_chunk ops (ucast (bb_block bb - last_block) * ucast sz) out
      else Ok (0, out)) = Ok (ret, out1)" "put_out out (concat (map (expanded ?z) (hole ?n))) out1" by blast
  then have open1: "open_plain sz out1" using sz by (simp add: put_out_def)
  obtain out2 where two: "sparse_file_write_block os ops bb out1 = Ok (0, out2)" "put_out out1 (expanded ?z (chunk_of env sz bb)) out2"
    using plain_block [OF bb(1,2) open1 bb(3)] by blast
  have open2: "open_plain sz out2" using two(2) open1 by (simp add: put_out_def open_plain_def)
  have nx: "unat (next_block sz bb) = past sz bb" by (rule small_words(6) [OF bb(1)])
  obtain last' out3 where three: "write_blocks_loop os ops sz bs (next_block sz bb) out2 = Ok (0, last', out3)"
    "unat last' = blocks_end sz bs (past sz bb)" "put_out out2 (concat (map (expanded ?z) (block_chunks env sz bs (past sz bb)))) out3"
    using Cons.IH [of "next_block sz bb" out2] Cons.prems(1,2) open2 by (auto simp: nx blocks_ok_Cons)
  then show ?case using one(1) two(1) put_out_trans [OF one(2) put_out_trans [OF two(2) three(3)]] by simp
qed

lemma plain_image:
  assumes s: "writable s" and rd: "\<forall>bb\<in>set (data_blocks (backed_blocks s)). block_readable os env bb"
    and fills: "\<forall>bb\<in>set (data_blocks (backed_blocks s)). is_fill (bb_kind bb) \<longrightarrow> unat (sf_block_size s) dvd unat (bb_len bb)"
    and out: "open_plain (sf_block_size s) out"
  shows "\<exists>out'. write_all_blocks os ops s out = Ok (0, out') \<and>
    put_out out (raw_image (unat (sf_block_size s)) (total_blocks s) (file_image env s)) out'"
proof -
  let ?sz = "sf_block_size s" and ?bs = "data_blocks (backed_blocks s)"
  let ?n = "total_blocks s - blocks_end ?sz ?bs 0"
  have "\<forall>bb\<in>set ?bs. small ?sz (total_blocks s) bb \<and> block_readable os env bb \<and> (is_fill (bb_kind bb) \<longrightarrow> unat ?sz dvd unat (bb_len bb))"
    "blocks_ok ?sz ?bs" using writable_small [OF s] s rd fills by (auto simp: writable_def list_ok_def)
  then obtain last' out1 where one: "write_blocks_loop os ops ?sz ?bs 0 out = Ok (0, last', out1)"
    "unat last' = blocks_end ?sz ?bs 0" "put_out out (concat (map (expanded (unat ?sz)) (block_chunks env ?sz ?bs 0))) out1"
    using plain_blocks [of ?bs ?sz "total_blocks s" os env 0 out] out by auto
  have open1: "open_plain ?sz out1" using one(3) out by (simp add: put_out_def open_plain_def)
  define pad where "pad = sf_len s - ucast last' * ucast ?sz"
  note pad = end_gap [OF s one(2), folded pad_def]
  have "\<exists>ret out2. (if sint pad > 0 then write_skip_chunk ops pad out1 else Ok (0, out1)) = Ok (ret, out2) \<and>
    put_out out1 (concat (map (expanded (unat ?sz)) (hole ?n))) out2"
  proof (cases "?n = 0")
    case True
    then show ?thesis using pad(3) open1 by (simp add: hole_def put_out_refl open_plain_def)
  next
    case False
    then show ?thesis using pad(3) plain_hole [OF open1 pad(2)] unfolding pad(1) by auto
  qed
  then show ?thesis
    using one(1) put_out_trans [OF one(3)] unfolding image_chunks_raw [OF s fills, symmetric]
    by (fastforce simp: write_all_blocks_def image_chunks_def Let_def pad_def)
qed

end

section \<open>A descriptor that can seek\<close>

text \<open>
  Skipping moves the position beyond the end of the file; what was written is the file stretched to the position.
\<close>

definition seek_good :: "fd_sink \<Rightarrow> bool" where
  "seek_good f \<longleftrightarrow> length (fd_content f) \<le> fd_pos f \<and> (\<forall>e. Failed e \<in> set (fd_answers f) \<longrightarrow> e = EINTR) \<and>
     \<not> fd_no_seek f \<and> fd_no_truncate f = None"

definition seek_after :: "fd_sink \<Rightarrow> bytes \<Rightarrow> fd_sink \<Rightarrow> bool" where
  "seek_after f bs g \<longleftrightarrow> fd_pos g = fd_pos f + length bs \<and> stretch (fd_pos g) (fd_content g) = stretch (fd_pos f) (fd_content f) @ bs"

lemma seek_after_trans: "seek_after f xs g \<Longrightarrow> seek_after g ys h \<Longrightarrow> seek_after f (xs @ ys) h"
  unfolding seek_after_def by (metis add.assoc append.assoc length_append)

lemma put_stretch:
  "length (fd_content f) \<le> fd_pos f \<Longrightarrow> length (fd_content (put bs f)) \<le> fd_pos (put bs f) \<and> seek_after f bs (put bs f)"
  by (auto simp: put_def stretch_def seek_after_def)

lemma file_write_loop_seek:
  assumes "seek_good (f\<lparr>fd_answers := as\<rparr>)" "len \<le> length data"
  shows "\<exists>g. file_write_loop as data len f = (0, g) \<and> seek_good g \<and> seek_after f (take len data) g"
  using assms
proof (induction as data len f rule: file_write_loop.induct)
  case (1 data len f)
  then show ?case using put_stretch [of "f\<lparr>fd_answers := []\<rparr>" "take len data"] by (auto simp: seek_good_def seek_after_def)
next
  case (2 a as data len f)
  show ?case
  proof (cases "len = 0")
    case True
    then show ?thesis using 2 by (simp add: seek_after_def)
  next
    case False
    show ?thesis
    proof (cases a)
      case (Written n)
      let ?k = "min n len"
      have p: "length (fd_content (put (take ?k data) f)) \<le> fd_pos (put (take ?k data) f)" "seek_after f (take ?k data) (put (take ?k data) f)"
        using put_stretch [of f "take ?k data"] "2.prems"(1) by (auto simp: seek_good_def)
      have "seek_good ((put (take ?k data) f)\<lparr>fd_answers := as\<rparr>)" using "2.prems"(1) p(1) by (simp add: seek_good_def)
      then obtain g where g: "file_write_loop as (drop ?k data) (len - ?k) (put (take ?k data) f) = (0, g)" "seek_good g"
        "seek_after (put (take ?k data) f) (take (len - ?k) (drop ?k data)) g"
        using "2.IH"(1) [OF False Written refl] diff_le_mono [OF "2.prems"(2), of ?k] by auto
      have "take ?k data @ take (len - ?k) (drop ?k data) = take len data"
        by (metis add_diff_inverse_nat min.cobounded2 not_less take_add)
      moreover have "seek_after f (take ?k data @ take (len - ?k) (drop ?k data)) g"
        using seek_after_trans [OF p(2) g(3)] .
      ultimately show ?thesis using False Written g by simp
    next
      case (Failed e)
      then have "e = EINTR" using "2.prems"(1) by (simp add: seek_good_def)
      moreover have "seek_good (f\<lparr>fd_answers := as\<rparr>)" using "2.prems"(1) by (simp add: seek_good_def)
      ultimately show ?thesis using "2.IH"(2) [OF False Failed] "2.prems" False Failed by simp
    qed
  qed
qed

interpretation seekable: plain_sink file_ops seek_good seek_after
proof unfold_locales
  show "\<exists>t. op_write file_ops data n s = Ok (0, t) \<and> seek_good t \<and> seek_after s (take (unat n) data) t"
    if "seek_good s" "unat n \<le> length data" for s n data
    using file_write_loop_seek [of "fd_answers s" s "unat n" data] that by (auto simp: file_ops_def file_write_def)
  show "\<exists>t. op_skip file_ops (of_nat n) s = Ok (0, t) \<and> seek_good t \<and> seek_after s (replicate n 0) t"
    if "seek_good s" "n < 2 ^ 31" for s n
  proof -
    have "sint (of_nat n :: u64) = int n" using that(2) by (intro sint_of_nat_small) simp
    then have "op_skip file_ops (of_nat n) s = Ok (0, s\<lparr>fd_pos := fd_pos s + n\<rparr>)"
      using that(1) by (simp add: file_ops_def file_skip_def seek_good_def Let_def nat_add_distrib)
    moreover have "stretch (fd_pos s + n) (fd_content s) = stretch (fd_pos s) (fd_content s) @ replicate n 0"
      using that(1) by (simp add: stretch_def seek_good_def flip: replicate_add)
    ultimately show ?thesis using that(1) by (simp add: seek_good_def seek_after_def)
  qed
qed (auto simp: seek_after_def file_ops_def file_close_def)

section \<open>Results\<close>

lemma sparse_file_write_plain:
  assumes s: "writable s" "\<forall>bb\<in>set (data_blocks (backed_blocks s)). block_readable os env bb"
    and fills: "\<forall>bb\<in>set (data_blocks (backed_blocks s)). is_fill (bb_kind bb) \<longrightarrow> unat (sf_block_size s) dvd unat (bb_len bb)"
    and k: "seek_good k" "fd_pos k = 0" and h: "malloc_total h"
  shows "\<exists>k' h'. sparse_file_write os file_ops s fd False crc k h = Ok (0, k', h') \<and> malloc_total h' \<and>
    fd_content k' = raw_image (unat (sf_block_size s)) (total_blocks s) (file_image env s)"
proof -
  let ?sz = "sf_block_size s" and ?a = "unat (scast (sf_block_size s) :: u64)"
  let ?raw = "raw_image (unat ?sz) (total_blocks s) (file_image env s)"
  obtain h1 where h1: "try_alloc 80 h = (True, h1)" "malloc_total h1" using try_alloc_total [OF h] by blast
  obtain h2 where h2: "try_alloc ?a h1 = (True, h2)" "malloc_total h2" using try_alloc_total [OF h1(2)] by blast
  obtain h3 where h3: "try_alloc ?a h2 = (True, h3)" "malloc_total h3" using try_alloc_total [OF h2(2)] by blast
  define k1 where "k1 = k\<lparr>outn_fd := fd\<rparr>"
  have k1: "seek_good k1" "fd_content k1 = []" "fd_pos k1 = 0" using k by (auto simp: k1_def seek_good_def)
  define out where "out = (blank_file k1)\<lparr>of_len := sf_len s, of_block_size := ?sz, use_crc := crc,
    zero_buf := replicate (unat ?sz) 0, fill_buf := replicate (unat ?sz) 0, sparse_ops := False\<rparr>"
  have "seekable.open_plain ?sz out" using k1(1) by (simp add: seekable.open_plain_def out_def blank_file_def)
  from seekable.plain_image [OF s fills this] obtain out' where
    w: "write_all_blocks os file_ops s out = Ok (0, out')" "seekable.put_out out ?raw out'" by blast
  have after: "seek_after k1 ?raw (sink out')" "seek_good (sink out')" "\<not> sparse_ops out'" "of_len out' = sf_len s"
    using w(2) by (auto simp: seekable.put_out_def seekable.open_plain_def out_def blank_file_def)
  have len: "length ?raw = unat (sf_len s)"
    using length_expanded [OF image_chunks_image(2) [OF s(1)]] writable_len(1) [OF s(1)]
    by (simp add: image_chunks_image(1) [OF s(1)] flip: image_chunks_raw [OF s(1) fills])
  have "sint (sf_len s) = int (unat (sf_len s))" using sint_of_nat_small [of "unat (sf_len s)"] s(1) by (simp add: writable_def)
  then have pos: "\<not> sint (sf_len s) < 0" by linarith
  have "stretch (unat (sf_len s)) (fd_content (sink out')) = ?raw"
    using after(1) k1 len by (auto simp: seek_after_def stretch_def)
  then have "output_file_close file_ops out' = Ok ((sink out')\<lparr>fd_content := ?raw\<rparr>)"
    using after(2,3,4) pos by (simp add: output_file_close_def write_normal_end_chunk_def file_ops_def file_pad_def file_close_def seek_good_def)
  moreover have "sparse_count_chunks s = Ok (of_nat (length (image_chunks env s)))" by (rule count_chunks [OF s(1)])
  moreover have "output_file_open_fd file_ops k fd ?sz (sf_len s) False n crc h = Ok (True, out, h3)" for n
    using h1 h2 h3 by (simp add: output_file_open_fd_def output_file_init_def Let_def out_def k1_def file_ops_def file_open_def)
  ultimately show ?thesis using w(1) h3(2) by (simp add: sparse_file_write_def)
qed

end
