(* ===== verification/Sparse_Correct.thy ===== *)
theory Sparse_Correct
  imports Sparse_Plain
begin

text \<open>
  What the sparse image library guarantees, and a file on which it is run. The operations of the list of
  blocks keep the image, written files have the announced encoding and length and can be read back, and the
  checksum of the writer is not that of the reader.
\<close>

section \<open>Importing a written file\<close>

text \<open>The checksum of the writer as a chunk, and the verdict of the reader on it.\<close>

definition checksum_of :: "backing \<Rightarrow> sparse_file \<Rightarrow> u32" where
  "checksum_of env s = crc_after 0 (concat (map (summed (unat (sf_block_size s))) (image_chunks env s)))"

lemma written_parts:
  assumes s: "writable s"
  shows "0 < sf_block_size s" "4 dvd unat (sf_block_size s)" "\<forall>c\<in>set (image_chunks env s). chunk_ok (unat (sf_block_size s)) c"
    "all_blocks (unat (sf_block_size s)) (image_chunks env s) * unat (sf_block_size s) = unat (sf_len s)" "unat (sf_len s) < 2 ^ 31"
    "\<exists>sums. written_file env s crc = encode_file (sf_block_size s) (all_blocks (unat (sf_block_size s)) (image_chunks env s))
        (image_chunks env s @ sums) @ [] \<and> (sums = [] \<and> \<not> crc \<or> sums = [Checksum (checksum_of env s)] \<and> crc)"
proof -
  note i = image_chunks_image [OF s, of env]
  show "0 < sf_block_size s" "4 dvd unat (sf_block_size s)" using s by (auto simp: writable_def list_ok_def)
  show "\<forall>c\<in>set (image_chunks env s). chunk_ok (unat (sf_block_size s)) c" by (rule i(2))
  show "all_blocks (unat (sf_block_size s)) (image_chunks env s) * unat (sf_block_size s) = unat (sf_len s)"
    using writable_len(1) [OF s] by (simp add: i(1))
  show "unat (sf_len s) < 2 ^ 31" using s by (simp add: writable_def)
  show "\<exists>sums. written_file env s crc = encode_file (sf_block_size s) (all_blocks (unat (sf_block_size s)) (image_chunks env s))
        (image_chunks env s @ sums) @ [] \<and> (sums = [] \<and> \<not> crc \<or> sums = [Checksum (checksum_of env s)] \<and> crc)"
    by (cases crc) (simp_all add: written_file_def i(1) checksum_of_def)
qed

lemma import_written:
  assumes src: "chunk_source src good rest (written_file env s crc) env'" and r: "good r" "rest r = written_file env s crc"
    and s: "writable s" and h: "malloc_total (lib_heap lib)"
  shows "\<exists>t r' lib'. sparse_file_import_source src r v crc' lib = Ok (if crc \<and> crc' \<and>
        crc_after 0 (concat (map (expanded (unat (sf_block_size s))) (image_chunks env s))) \<noteq> checksum_of env s
      then None else Some t, r', lib') \<and>
    sf_block_size t = sf_block_size s \<and> sf_len t = sf_len s \<and> list_ok (backed_blocks t) \<and>
    file_image env' t = chunk_image (unat (sf_block_size s)) (image_chunks env s) 0"
proof -
  note w = written_parts [OF s]
  obtain sums where sums: "written_file env s crc = encode_file (sf_block_size s)
      (all_blocks (unat (sf_block_size s)) (image_chunks env s)) (image_chunks env s @ sums) @ []"
    "sums = [] \<and> \<not> crc \<or> sums = [Checksum (checksum_of env s)] \<and> crc" using w(6) by blast
  have sums': "sums = [] \<or> sums = [Checksum (checksum_of env s)]" "sums \<noteq> [] \<longleftrightarrow> crc" using sums(2) by auto
  have lt: "all_blocks (unat (sf_block_size s)) (image_chunks env s) * unat (sf_block_size s) < 2 ^ 31"
    using w(4,5) by simp
  from chunk_source.import_file [OF src r w(1,2,3) lt sums(1) sums'(1) h, of v crc'] show ?thesis
    using w(4) by (fastforce simp: sums'(2) filled_to_def word_unat_eq_iff)
qed

lemma import_written_buf:
  assumes s: "writable s" and h: "malloc_total (lib_heap lib)"
  shows "\<exists>t lib'. sparse_file_import_buf (written_file env s crc) v crc' lib = Ok (if crc \<and> crc' \<and>
        crc_after 0 (concat (map (expanded (unat (sf_block_size s))) (image_chunks env s))) \<noteq> checksum_of env s
      then None else Some t, lib') \<and>
    sf_block_size t = sf_block_size s \<and> sf_len t = sf_len s \<and>
    file_image env t = chunk_image (unat (sf_block_size s)) (image_chunks env s) 0"
proof -
  let ?w = "written_file env s crc"
  have "buf_good ?w \<lparr>bs_mem = ?w, bs_offset = 0\<rparr>" "buf_rest \<lparr>bs_mem = ?w, bs_offset = 0\<rparr> = ?w"
    using written_file_bound [OF s, of env crc] by (simp_all add: buf_good_def buf_rest_def)
  from import_written [OF buf.chunk_source_axioms this s h, of v crc' env] show ?thesis
    by (auto simp: sparse_file_import_buf_def)
qed

lemma import_written_fd:
  assumes s: "writable s" and h: "malloc_total (lib_heap lib)"
    and r: "fs_seekable r" "fs_pos r = 0" "\<forall>e. Read_failed e \<notin> set (fs_answers r)" and w: "fs_content r = written_file env s crc"
  shows "\<exists>t r' lib'. sparse_file_import r v crc' lib = Ok (if crc \<and> crc' \<and>
        crc_after 0 (concat (map (expanded (unat (sf_block_size s))) (image_chunks env s))) \<noteq> checksum_of env s
      then None else Some t, r', lib') \<and>
    sf_block_size t = sf_block_size s \<and> sf_len t = sf_len s \<and>
    file_image (env\<lparr>open_file := (open_file env)(fs_fd r := \<lambda>p. fs_content r ! unat p)\<rparr>) t =
      chunk_image (unat (sf_block_size s)) (image_chunks env s) 0"
proof -
  have "fd_holds (fs_fd r) (written_file env s crc) r" "fd_rest r = written_file env s crc"
    using written_file_bound [OF s, of env crc] r w by (simp_all add: fd_holds_def fd_rest_def)
  from import_written [OF descriptor.chunk_source_axioms this s h, of v crc' env] show ?thesis
    unfolding w by (auto simp: sparse_file_import_def)
qed

text \<open>A fill in the list of chunks covers its blocks with its pattern, the last one, too.\<close>

lemma fill_slice:
  assumes "j < k" "4 dvd z"
  shows "take z (drop (j * z) (fill_bytes v (k * z))) = fill_bytes v z"
proof -
  have "Suc j * z \<le> k * z" using assms(1) by (intro mult_le_mono1) simp
  then have "take z (drop (j * z) (fill_bytes v (k * z))) = map (\<lambda>i. byte_at v ((j * z + i) mod 4)) [0..<z]"
    unfolding fill_bytes_def by (rule take_drop_map)
  moreover have "(j * z + i) mod 4 = i mod 4" for i using assms(2) by (metis add.commute dvd_mult mod_add_self2 mod_mod_trivial mod_add_left_eq dvd_eq_mod_eq_0 add_0)
  ultimately show ?thesis by (simp add: fill_bytes_def)
qed

lemma fill_in_chunks:
  assumes "\<forall>bb\<in>set bs. small sz nb bb" "blocks_ok sz bs" "\<forall>bb\<in>set bs. n \<le> unat (bb_block bb)"
    and "bb \<in> set bs" "bb_kind bb = BACKED_BLOCK_FILL v" "unat (bb_block bb) \<le> m" "m < past sz bb"
  shows "chunk_image (unat sz) (block_chunks env sz bs n) n m = Some (fill_bytes v (unat sz))"
  using assms(1-4)
proof (induction bs arbitrary: n)
  case (Cons b bs)
  let ?z = "unat sz" and ?c = "chunk_of env sz b" and ?rest = "block_chunks env sz bs (past sz b)"
  have b: "small sz nb b" using Cons.prems(1) by simp
  note parts = chunk_of_parts [OF b, of env] small_sizes(6) [OF b]
  have im: "chunk_image ?z (block_chunks env sz (b # bs) n) n =
      chunk_covers ?z ?c (unat (bb_block b)) ++ chunk_image ?z ?rest (past sz b)"
    using Cons.prems(3) parts(1,4) by (simp add: chunk_image_append)
  show ?case
  proof (cases "bb \<in> set bs")
    case True
    have "chunk_image ?z ?rest (past sz b) m = Some (fill_bytes v ?z)"
      using Cons.IH [of "past sz b"] Cons.prems True by (auto simp: blocks_ok_Cons)
    then show ?thesis unfolding im map_add_Some_iff by simp
  next
    case False
    then have bb: "b = bb" using Cons.prems(4) by simp
    have "chunk_image ?z ?rest (past sz b) m = None"
      using dom_chunk_image [of ?z ?rest "past sz b"] assms(7) by (auto simp: bb domIff)
    moreover have "4 dvd ?z" using b by (simp add: small_def)
    moreover have "m - unat (bb_block bb) < extent sz bb" "m < unat (bb_block bb) + extent sz bb" using assms(6,7) parts(4) bb by simp_all
    ultimately show ?thesis
      using assms(5,6) fill_slice unfolding im by (simp add: map_add_def bb chunk_of_def)
  qed
qed simp

lemma fill_written:
  assumes s: "writable s" and bb: "bb \<in> set (data_blocks (backed_blocks s))" "bb_kind bb = BACKED_BLOCK_FILL v"
    and m: "unat (bb_block bb) \<le> m" "m < past (sf_block_size s) bb"
  shows "chunk_image (unat (sf_block_size s)) (image_chunks env s) 0 m = Some (fill_bytes v (unat (sf_block_size s)))"
proof -
  have "\<forall>bb\<in>set (data_blocks (backed_blocks s)). small (sf_block_size s) (total_blocks s) bb"
    "blocks_ok (sf_block_size s) (data_blocks (backed_blocks s))"
    using writable_small [OF s] s by (auto simp: writable_def list_ok_def)
  then show ?thesis
    using fill_in_chunks [OF _ _ _ bb m, of "total_blocks s" 0 env] by (simp add: image_chunks_def Let_def chunk_image_append)
qed

text \<open>The last block of a fill, as it is documented.\<close>

lemma past_block:
  assumes "small sz nb bb" "\<not> unat sz dvd unat (bb_len bb)"
  shows "past sz bb - 1 - unat (bb_block bb) = unat (bb_len bb) div unat sz" "unat (bb_block bb) \<le> past sz bb - 1" "past sz bb - 1 < past sz bb"
proof -
  let ?z = "unat sz" and ?l = "unat (bb_len bb)"
  note z = small_sizes [OF assms(1)]
  have whole: "(r + q * ?z) div ?z = q" if "r < ?z" for r q using that by simp
  have "?l mod ?z \<noteq> 0" using assms(2) by (simp add: dvd_eq_mod_eq_0)
  then have "?l + ?z - 1 = (?l mod ?z - 1) + (?l div ?z + 1) * ?z" "?l mod ?z - 1 < ?z"
    using z(1) mod_less_divisor [OF z(1), of ?l] div_mult_mod_eq [of ?l ?z] unfolding add_mult_distrib by linarith+
  then have "(?l + ?z - 1) div ?z = ?l div ?z + 1" using whole by metis
  then have "extent sz bb = ?l div ?z + 1" by (simp only: z(8))
  then show "past sz bb - 1 - unat (bb_block bb) = ?l div ?z" "unat (bb_block bb) \<le> past sz bb - 1" "past sz bb - 1 < past sz bb"
    by (simp_all add: z(6))
qed


lemma last_of_fill:
  assumes bb: "small sz nb bb" "bb_kind bb = BACKED_BLOCK_FILL v" "\<not> unat sz dvd unat (bb_len bb)"
  shows "covers env sz bb (past sz bb - 1) =
    Some (take (unat (bb_len bb) mod unat sz) (fill_bytes v (unat sz)) @ replicate (unat sz - unat (bb_len bb) mod unat sz) 0)"
proof -
  let ?z = "unat sz" and ?l = "unat (bb_len bb)"
  note p = past_block [OF bb(1,3)]
  have four: "4 dvd ?z" and z: "0 < ?z" using bb(1) by (auto simp: small_def word_less_nat_alt)
  have m: "?l mod ?z < ?z" using z by simp
  have at: "(?l div ?z * ?z + i) mod 4 = i mod 4" for i
    using four by (metis dvd_mult mod_add_left_eq dvd_eq_mod_eq_0 add_0)
  have "block_bytes env sz bb (?l div ?z) = take (?l mod ?z) (fill_bytes v ?z) @ replicate (?z - ?l mod ?z) 0"
  proof (rule nth_equalityI)
    show "length (block_bytes env sz bb (?l div ?z)) = length (take (?l mod ?z) (fill_bytes v ?z) @ replicate (?z - ?l mod ?z) 0)"
      using m by (simp add: block_bytes_def)
    show "block_bytes env sz bb (?l div ?z) ! i = (take (?l mod ?z) (fill_bytes v ?z) @ replicate (?z - ?l mod ?z) 0) ! i"
      if "i < length (block_bytes env sz bb (?l div ?z))" for i
    proof -
      have i: "i < ?z" using that by (simp add: block_bytes_def)
      have "?l div ?z * ?z + i < ?l \<longleftrightarrow> i < ?l mod ?z" using div_mult_mod_eq [of ?l ?z] by linarith
      then show ?thesis using i m at by (simp add: block_bytes_def block_byte_def bb(2) fill_bytes_def nth_append)
    qed
  qed
  then show ?thesis using p by (simp add: covers_def)
qed

section \<open>A file to run the library on\<close>

text \<open>
  Seven blocks of four bytes: block 1 holds three bytes of data, blocks 3 and 4 are filled with a word, block 5 is
  backed by a descriptor at an offset that is no whole page. In \<open>demo_backing\<close> every file holds at each offset its lowest
  byte, and \<open>demo_os\<close> maps such files. Memory never runs out.
\<close>

definition demo_blocks :: backed_block_list where
  "demo_blocks = \<lparr>data_blocks = [\<lparr>bb_block = 1, bb_len = 3, bb_kind = BACKED_BLOCK_DATA [97, 98, 99]\<rparr>,
     \<lparr>bb_block = 3, bb_len = 8, bb_kind = BACKED_BLOCK_FILL 7\<rparr>,
     \<lparr>bb_block = 5, bb_len = 4, bb_kind = BACKED_BLOCK_FD 3 65\<rparr>], last_used = None, bbl_block_size = 4\<rparr>"

definition demo_sparse :: sparse_file where
  "demo_sparse = \<lparr>sf_block_size = 4, sf_len = 28, sf_verbose = False, backed_blocks = demo_blocks\<rparr>"

definition demo_backing :: backing where
  "demo_backing = \<lparr>named_file = \<lambda>_ p. ucast p, open_file = \<lambda>_ p. ucast p\<rparr>"

definition demo_os :: os where
  "demo_os = \<lparr>mmap64 = \<lambda>len fd ofs. Inr (map (\<lambda>i. ucast (ofs + of_nat i)) [0..<unat len]), open_rdonly = \<lambda>name. Inr 3\<rparr>"

definition ample_heap :: heap where
  "ample_heap = \<lparr>hp_alloc = \<lambda>k n. Some 4096, hp_junk = \<lambda>k i. 0, hp_calls = 0\<rparr>"

definition empty_output :: fd_sink where
  "empty_output = \<lparr>outn_fd = 1, fd_content = [], fd_pos = 0, fd_answers = [], fd_no_seek = False, fd_no_truncate = None\<rparr>"

lemma ample_heap_total [simp]: "malloc_total ample_heap"
  by (simp add: malloc_total_def ample_heap_def)

lemma empty_output_good [simp]: "fd_good empty_output" "seek_good empty_output" "fd_pos empty_output = 0" "fd_content empty_output = []"
  by (simp_all add: fd_good_def seek_good_def empty_output_def)

lemma demo_parts [simp]:
  "sf_block_size demo_sparse = 4" "sf_len demo_sparse = 28" "backed_blocks demo_sparse = demo_blocks"
  "bbl_block_size demo_blocks = 4" "last_used demo_blocks = None"
  by (simp_all add: demo_sparse_def demo_blocks_def)

lemma demo_list_ok: "list_ok demo_blocks"
  by (simp add: list_ok_def blocks_ok_def block_fits_def past_def demo_blocks_def total_len_def)

lemma demo_writable: "writable demo_sparse"
  using demo_list_ok by (simp add: writable_def total_blocks_def past_def) (simp add: demo_blocks_def)

lemma demo_readable: "\<forall>bb\<in>set (data_blocks demo_blocks). block_readable demo_os demo_backing bb"
proof -
  have "mapped demo_os 4 3 65 (open_file demo_backing 3)"
    by (simp add: mapped_def demo_os_def demo_backing_def Let_def)
  then show ?thesis by (simp add: demo_blocks_def block_readable_def)
qed

lemma demo_fills: "\<forall>bb\<in>set (data_blocks demo_blocks). is_fill (bb_kind bb) \<longrightarrow> 4 dvd unat (bb_len bb)"
  by (simp add: demo_blocks_def)

lemma demo_total: "total_blocks demo_sparse = 7"
  by (simp add: total_blocks_def)

lemma upt_4: "[0..<4] = [0, 1, 2, 3 :: nat]" "[0..<8] = [0, 1, 2, 3, 4, 5, 6, 7 :: nat]" "[0..<6] = [0, 1, 2, 3, 4, 5 :: nat]"
  by (simp_all add: upt_rec)

lemma demo_chunks: "image_chunks demo_backing demo_sparse = [Hole 1, Raw [97, 98, 99, 0], Hole 1, Fill 7 2, Raw [65, 66, 67, 68], Hole 1]"
  by (simp add: image_chunks_def Let_def demo_total) (simp add: demo_blocks_def hole_def chunk_of_def extent_def padded_def past_def block_byte_def upt_4 demo_backing_def)

lemma demo_fill: "fill_bytes 7 4 = [7, 0, 0, 0]" "fill_bytes 7 8 = [7, 0, 0, 0, 7, 0, 0, 0]"
  by (simp_all add: fill_bytes_def upt_4 byte_at_def)

lemma demo_raw:
  "raw_image 4 7 (block_image demo_backing 4 (data_blocks demo_blocks)) = [0, 0, 0, 0, 97, 98, 99, 0, 0, 0, 0, 0, 7, 0, 0, 0, 7, 0, 0, 0, 65, 66, 67, 68, 0, 0, 0, 0]"
proof -
  have "replicate 4 0 = [0, 0, 0, 0 :: u8]" by (simp add: eval_nat_numeral)
  then show ?thesis
    using image_chunks_raw [OF demo_writable, of demo_backing, symmetric] demo_fills by (simp add: demo_total demo_chunks demo_fill)
qed

text \<open>The two checksums differ: one is over 12 bytes, the other over 28.\<close>

lemma crc_byte_steps:
  "crc_byte c b = crc_bit (crc_bit (crc_bit (crc_bit (crc_bit (crc_bit (crc_bit (crc_bit (c XOR ucast b))))))))"
  by (simp add: crc_byte_def eval_nat_numeral)

lemma demo_crc:
  "crc32_ref [97, 98, 99, 0, 7, 0, 0, 0, 65, 66, 67, 68] \<noteq>
   crc32_ref [0, 0, 0, 0, 97, 98, 99, 0, 0, 0, 0, 0, 7, 0, 0, 0, 7, 0, 0, 0, 65, 66, 67, 68, 0, 0, 0, 0]"
proof -
  have m: "NOT 0 = (0xffffffff :: u32)" by simp
  show ?thesis by (simp only: crc32_ref_def m foldl_Cons foldl_Nil) (simp add: crc_byte_steps crc_bit_def)
qed

text \<open>A file whose only block is a fill of one byte.\<close>

definition partial_sparse :: sparse_file where
  "partial_sparse = \<lparr>sf_block_size = 4, sf_len = 4, sf_verbose = False, backed_blocks = \<lparr>data_blocks =
     [\<lparr>bb_block = 0, bb_len = 1, bb_kind = BACKED_BLOCK_FILL 0x09090909\<rparr>], last_used = None, bbl_block_size = 4\<rparr>\<rparr>"

lemma partial_writable: "writable partial_sparse"
  by (simp add: writable_def list_ok_def blocks_ok_def block_fits_def past_def partial_sparse_def total_len_def total_blocks_def)

section \<open>Properties\<close>

text \<open>
  C34. Adding to an image. Where the image has room, each of the four operations that add a block succeeds when memory
  does; the list stays sorted, without overlaps, and the image afterwards is the image before with the new block
  laid over it, padded with zeros to whole blocks as the header says. Merging with the neighbours and the
  shortcut of the search change nothing about that.
\<close>

theorem sparse_add_extends_image:
  assumes s: "list_ok (backed_blocks s)" "bbl_block_size (backed_blocks s) = sf_block_size s" and h: "malloc_total h"
    and room: "has_room (backed_blocks s) \<lparr>bb_block = block, bb_len = len, bb_kind = k\<rparr>"
  shows "\<exists>s' h'. (case k of
      BACKED_BLOCK_DATA data \<Rightarrow> sparse_file_add_data s data len block h
    | BACKED_BLOCK_FILE f ofs \<Rightarrow> sparse_file_add_file s (the f) ofs len block h
    | BACKED_BLOCK_FD fd ofs \<Rightarrow> sparse_file_add_fd s fd ofs len block h
    | BACKED_BLOCK_FILL v \<Rightarrow> sparse_file_add_fill s v len block h) = Ok (0, s', h') \<and>
    s' = s\<lparr>backed_blocks := backed_blocks s'\<rparr> \<and> list_ok (backed_blocks s') \<and> malloc_total h' \<and>
    file_image env s' = file_image env s ++ covers env (sf_block_size s) \<lparr>bb_block = block, bb_len = len, bb_kind = k\<rparr>"
proof (cases k)
  case (BACKED_BLOCK_FILE f ofs)
  then obtain name where "f = Some name" using room by (auto simp: has_room_def block_fits_def)
  then show ?thesis
    using add_file_extends [OF s(1) _ h, of block len name ofs] room s(2) BACKED_BLOCK_FILE
    by (auto simp: sparse_file_add_file_def on_blocks_def extends_image_def)
qed (use add_block_extends [OF s(1) room h] s(2) in \<open>auto simp: sparse_file_add_data_def sparse_file_add_fd_def
    sparse_file_add_fill_def backed_block_add_data_def backed_block_add_fd_def backed_block_add_fill_def on_blocks_def extends_image_def\<close>)

theorem sparse_add_extends_image_witness:
  "\<exists>s' h'. sparse_file_add_fill demo_sparse 0x09090909 3 2 ample_heap = Ok (0, s', h') \<and> list_ok (backed_blocks s') \<and>
    file_image demo_backing s' 2 = Some [9, 9, 9, 0]"
proof -
  let ?b = "\<lparr>bb_block = 2, bb_len = 3, bb_kind = BACKED_BLOCK_FILL 0x09090909\<rparr>"
  have "has_room (backed_blocks demo_sparse) ?b"
    by (simp add: has_room_def block_fits_def past_def) (simp add: demo_blocks_def total_len_def)
  moreover have "covers demo_backing 4 ?b 2 = Some [9, 9, 9, 0]"
    by (simp add: covers_def past_def block_bytes_def block_byte_def upt_4 byte_at_def)
  ultimately show ?thesis
    using sparse_add_extends_image [of demo_sparse ample_heap 2 3 "BACKED_BLOCK_FILL 0x09090909" demo_backing] demo_list_ok
    by (auto simp: map_add_Some_iff)
qed

text \<open>
  C35. Splitting a block. With a limit of at least one image block the split succeeds when memory does, the first part is
  within the limit, and the list stays well-formed with the image and the sum of lengths as they were.
\<close>

theorem sparse_split_keeps_image:
  assumes "list_ok bbl" "k < length (data_blocks bbl)" "bbl_block_size bbl \<le> max_len" "malloc_total h"
  shows "\<exists>bbl' h'. backed_block_split bbl k max_len h = Ok (0, bbl', h') \<and> list_ok bbl' \<and>
    (\<forall>env. block_image env (bbl_block_size bbl) (data_blocks bbl') = block_image env (bbl_block_size bbl) (data_blocks bbl)) \<and>
    total_len (data_blocks bbl') = total_len (data_blocks bbl) \<and> bb_len (data_blocks bbl' ! k) \<le> max_len"
  using backed_block_split_same [OF assms] by (auto simp: same_image_def)

theorem sparse_split_keeps_image_witness:
  "\<exists>bbl' h'. backed_block_split demo_blocks 1 5 ample_heap = Ok (0, bbl', h') \<and> bb_len (data_blocks bbl' ! 1) \<le> 5 \<and>
    total_len (data_blocks bbl') = 15"
proof -
  have "total_len (data_blocks demo_blocks) = 15" "length (data_blocks demo_blocks) = 3"
    by (simp_all add: demo_blocks_def total_len_def)
  then show ?thesis
    using sparse_split_keeps_image [OF demo_list_ok, of 1 5 ample_heap] by auto
qed

text \<open>
  C36. Writing a sparse image, without checksum. For an image below 2 GiB of whole blocks whose fills are whole blocks
  and whose backing can be read, and a descriptor that writes what it is given (in pieces, interrupted or not),
  \<open>sparse_file_write\<close> appends exactly the encoding of the image: a header with the number of blocks and of chunks,
  and a chunk for every block of the list and for every gap before, between and behind them. The chunks expand to
  the plain image, and \<open>sparse_file_len\<close> announces the length of what is written.
\<close>

theorem sparse_write_exact:
  assumes s: "writable s" "\<forall>bb\<in>set (data_blocks (backed_blocks s)). block_readable os env bb"
    and fills: "whole_fills (sf_block_size s) (data_blocks (backed_blocks s))"
    and k: "fd_good k" and h: "malloc_total h"
  shows "\<exists>k' h' h''. sparse_file_write os file_ops s fd True False k h = Ok (0, k', h') \<and>
    fd_content k' = fd_content k @ encode_file (sf_block_size s) (total_blocks s) (image_chunks env s) \<and>
    concat (map (expanded (unat (sf_block_size s))) (image_chunks env s)) =
      raw_image (unat (sf_block_size s)) (total_blocks s) (file_image env s) \<and>
    sparse_file_length os s True False h =
      Ok (int (length (encode_file (sf_block_size s) (total_blocks s) (image_chunks env s))), h'')"
proof -
  have "written_file env s False = encode_file (sf_block_size s) (total_blocks s) (image_chunks env s)"
    by (simp add: written_file_def)
  then show ?thesis
    using sparse_file_write_content [OF s k h, of fd False] sparse_file_length_written [OF s h, of False] image_chunks_raw [OF s(1) fills]
    by auto
qed

theorem sparse_write_exact_witness:
  "\<exists>k' h'. sparse_file_write demo_os file_ops demo_sparse 1 True False empty_output ample_heap = Ok (0, k', h') \<and>
    fd_content k' = encode_file 4 7 [Hole 1, Raw [97, 98, 99, 0], Hole 1, Fill 7 2, Raw [65, 66, 67, 68], Hole 1]"
  using sparse_write_exact [OF demo_writable, of demo_os demo_backing empty_output ample_heap 1] demo_readable demo_fills
  by (auto simp: demo_chunks demo_total)

text \<open>
  C37. Round trip. A sparse image whose fills are whole blocks, once written, can be imported, from memory and from a
  descriptor that reads in pieces of any size; the imported file has the block size, the length and the image of the
  one written. (Its blocks are backed by the file read, so the list need not be the same.)
\<close>

theorem sparse_write_import_roundtrip:
  assumes s: "writable s" "\<forall>bb\<in>set (data_blocks (backed_blocks s)). block_readable os env bb"
    and fills: "whole_fills (sf_block_size s) (data_blocks (backed_blocks s))"
    and k: "fd_good k" "fd_content k = []" and h: "malloc_total h" "malloc_total (lib_heap lib)"
    and r: "fs_seekable r" "fs_pos r = 0" "\<forall>e. Read_failed e \<notin> set (fs_answers r)"
  shows "\<exists>k' h'. sparse_file_write os file_ops s fd True crc k h = Ok (0, k', h') \<and>
    (\<exists>t lib'. sparse_file_import_buf (fd_content k') v False lib = Ok (Some t, lib') \<and>
       sf_block_size t = sf_block_size s \<and> sf_len t = sf_len s \<and> file_image env t = file_image env s) \<and>
    (fs_content r = fd_content k' \<longrightarrow> (\<exists>t r' lib'. sparse_file_import r v False lib = Ok (Some t, r', lib') \<and>
       sf_block_size t = sf_block_size s \<and> sf_len t = sf_len s \<and>
       file_image (env\<lparr>open_file := (open_file env)(fs_fd r := \<lambda>p. fs_content r ! unat p)\<rparr>) t = file_image env s))"
proof -
  obtain k' h' where w: "sparse_file_write os file_ops s fd True crc k h = Ok (0, k', h')" "fd_content k' = written_file env s crc"
    using sparse_file_write_content [OF s k(1) h(1), of fd crc] k(2) by auto
  note im = image_chunks_image(3) [OF s(1) fills]
  show ?thesis
    using w import_written_buf [OF s(1) h(2), of env crc v False] import_written_fd [OF s(1) h(2) r, of env crc v False]
    unfolding im by fastforce
qed

theorem sparse_write_import_roundtrip_witness:
  "\<exists>k' h' t lib'. sparse_file_write demo_os file_ops demo_sparse 1 True True empty_output ample_heap = Ok (0, k', h') \<and>
    sparse_file_import_buf (fd_content k') True False \<lparr>copybuf = False, lib_heap = ample_heap\<rparr> = Ok (Some t, lib') \<and>
    sf_block_size t = 4 \<and> sf_len t = 28 \<and> file_image demo_backing t = file_image demo_backing demo_sparse"
  using sparse_write_import_roundtrip [OF demo_writable, of demo_os demo_backing empty_output ample_heap "\<lparr>copybuf = False, lib_heap = ample_heap\<rparr>"
    "\<lparr>fs_fd = 3, fs_content = [], fs_pos = 0, fs_seekable = True, fs_answers = []\<rparr>" 1 True True] demo_readable demo_fills
  by auto

text \<open>
  C38. Checksums disagree. The headers promise a checksum of the expanded data, gaps counted as zeros (\<open>sparse.h\<close>,
  \<open>sparse_format.h\<close>). The writer sums the data and one block of every fill, and no gap; the reader sums all of the
  expanded data. So an image written with a checksum is refused on import with checking exactly when the CRC-32 of
  the bytes the writer summed is not that of the plain image, although nothing was damaged.
\<close>

theorem sparse_checksum_verdict:
  assumes s: "writable s" "\<forall>bb\<in>set (data_blocks (backed_blocks s)). block_readable os env bb"
    and fills: "whole_fills (sf_block_size s) (data_blocks (backed_blocks s))"
    and k: "fd_good k" "fd_content k = []" and h: "malloc_total h" "malloc_total (lib_heap lib)"
  shows "\<exists>k' h' t lib'. sparse_file_write os file_ops s fd True True k h = Ok (0, k', h') \<and>
    fd_content k' = encode_file (sf_block_size s) (total_blocks s) (image_chunks env s @
      [Checksum (crc32_ref (concat (map (summed (unat (sf_block_size s))) (image_chunks env s))))]) \<and>
    sparse_file_import_buf (fd_content k') v True lib = Ok (t, lib') \<and>
    (t = None \<longleftrightarrow> crc32_ref (concat (map (summed (unat (sf_block_size s))) (image_chunks env s))) \<noteq>
       crc32_ref (raw_image (unat (sf_block_size s)) (total_blocks s) (file_image env s)))"
proof -
  obtain k' h' where w: "sparse_file_write os file_ops s fd True True k h = Ok (0, k', h')" "fd_content k' = written_file env s True"
    using sparse_file_write_content [OF s k(1) h(1), of fd True] k(2) by auto
  have "written_file env s True = encode_file (sf_block_size s) (total_blocks s) (image_chunks env s @
      [Checksum (crc32_ref (concat (map (summed (unat (sf_block_size s))) (image_chunks env s))))])"
    by (simp add: written_file_def crc_after_ref)
  then show ?thesis
    using w import_written_buf [OF s(1) h(2), of env True v True]
    by (auto simp: checksum_of_def crc_after_ref image_chunks_raw [OF s(1) fills])
qed

theorem sparse_checksum_verdict_witness:
  "\<exists>k' h' lib'. sparse_file_write demo_os file_ops demo_sparse 1 True True empty_output ample_heap = Ok (0, k', h') \<and>
    sparse_file_import_buf (fd_content k') True True \<lparr>copybuf = False, lib_heap = ample_heap\<rparr> = Ok (None, lib')"
proof -
  have c: "concat (map (summed 4) (image_chunks demo_backing demo_sparse)) = [97, 98, 99, 0, 7, 0, 0, 0, 65, 66, 67, 68]"
    by (simp add: demo_chunks demo_fill)
  show ?thesis
    using demo_crc sparse_checksum_verdict [OF demo_writable, of demo_os demo_backing empty_output ample_heap "\<lparr>copybuf = False, lib_heap = ample_heap\<rparr>" 1 True]
      demo_readable demo_fills by (auto simp: c demo_total demo_raw)
qed

text \<open>
  C39. Writing a plain image. On a descriptor that can seek, whose file is empty, an image whose fills are whole blocks is
  written out plainly: afterwards the file holds its blocks in order, with zeros for those it does not have. (The
  file is empty because \<open>seek_good\<close> has it end at or before the position.)
\<close>

theorem sparse_plain_write:
  assumes s: "writable s" "\<forall>bb\<in>set (data_blocks (backed_blocks s)). block_readable os env bb"
    and fills: "\<forall>bb\<in>set (data_blocks (backed_blocks s)). is_fill (bb_kind bb) \<longrightarrow> unat (sf_block_size s) dvd unat (bb_len bb)"
    and k: "seek_good k" "fd_pos k = 0" and h: "malloc_total h"
  shows "\<exists>k' h'. sparse_file_write os file_ops s fd False crc k h = Ok (0, k', h') \<and>
    fd_content k' = raw_image (unat (sf_block_size s)) (total_blocks s) (file_image env s)"
  using sparse_file_write_plain [OF assms] by blast

theorem sparse_plain_write_witness:
  "\<exists>k' h'. sparse_file_write demo_os file_ops demo_sparse 1 False False empty_output ample_heap = Ok (0, k', h') \<and>
    fd_content k' = [0, 0, 0, 0, 97, 98, 99, 0, 0, 0, 0, 0, 7, 0, 0, 0, 7, 0, 0, 0, 65, 66, 67, 68, 0, 0, 0, 0]"
proof -
  show ?thesis
    using sparse_plain_write [OF demo_writable, of demo_os demo_backing empty_output ample_heap 1 False] demo_readable demo_fills
    by (auto simp: demo_total demo_raw)
qed

text \<open>
  C40. Partial fills are not padded. The header says that a fill whose length is no multiple of the block size is padded
  with zeros; the writer rounds it up to whole blocks of the pattern. After writing and importing, the last block
  of such a fill holds the pattern to its end, where the image has zeros.
\<close>

theorem sparse_partial_fill_grows:
  assumes s: "writable s" "\<forall>bb\<in>set (data_blocks (backed_blocks s)). block_readable os env bb"
    and bb: "bb \<in> set (data_blocks (backed_blocks s))" "bb_kind bb = BACKED_BLOCK_FILL v" "r = unat (bb_len bb) mod unat (sf_block_size s)" "r \<noteq> 0"
    and k: "fd_good k" "fd_content k = []" and h: "malloc_total h" "malloc_total (lib_heap lib)"
  shows "\<exists>k' h' t lib'. sparse_file_write os file_ops s fd True crc k h = Ok (0, k', h') \<and>
    sparse_file_import_buf (fd_content k') verbose False lib = Ok (Some t, lib') \<and>
    covers env (sf_block_size s) bb (past (sf_block_size s) bb - 1) =
      Some (take r (fill_bytes v (unat (sf_block_size s))) @ replicate (unat (sf_block_size s) - r) 0) \<and>
    file_image env t (past (sf_block_size s) bb - 1) = Some (fill_bytes v (unat (sf_block_size s)))"
proof -
  have small: "small (sf_block_size s) (total_blocks s) bb" using writable_small [OF s(1)] bb(1) by blast
  have part: "\<not> unat (sf_block_size s) dvd unat (bb_len bb)" using bb(3,4) by (simp add: dvd_eq_mod_eq_0)
  obtain k' h' where w: "sparse_file_write os file_ops s fd True crc k h = Ok (0, k', h')" "fd_content k' = written_file env s crc"
    using sparse_file_write_content [OF s k(1) h(1), of fd crc] k(2) by auto
  show ?thesis
    using w import_written_buf [OF s(1) h(2), of env crc verbose False] fill_written [OF s(1) bb(1,2) past_block(2,3) [OF small part], of env]
      last_of_fill [OF small bb(2) part, of env] bb(3) by fastforce
qed

theorem sparse_partial_fill_grows_witness:
  "\<exists>k' h' t lib'. sparse_file_write demo_os file_ops partial_sparse 1 True False empty_output ample_heap = Ok (0, k', h') \<and>
    sparse_file_import_buf (fd_content k') True False \<lparr>copybuf = False, lib_heap = ample_heap\<rparr> = Ok (Some t, lib') \<and>
    file_image demo_backing partial_sparse 0 = Some [9, 0, 0, 0] \<and> file_image demo_backing t 0 = Some [9, 9, 9, 9]"
proof -
  let ?b = "\<lparr>bb_block = 0, bb_len = 1, bb_kind = BACKED_BLOCK_FILL 0x09090909\<rparr>"
  have p: "data_blocks (backed_blocks partial_sparse) = [?b]" "sf_block_size partial_sparse = 4" "past 4 ?b = 1"
    by (simp_all add: partial_sparse_def past_def)
  have f: "fill_bytes 0x09090909 4 = [9, 9, 9, 9]" by (simp add: fill_bytes_def upt_4 byte_at_def)
  have z: "replicate 3 0 = [0, 0, 0 :: u8]" by (simp add: eval_nat_numeral)
  show ?thesis
    using sparse_partial_fill_grows [OF partial_writable, of demo_os demo_backing ?b "0x09090909" 1 empty_output ample_heap
        "\<lparr>copybuf = False, lib_heap = ample_heap\<rparr>" 1 False True]
    by (auto simp: p f z block_readable_def)
qed

end
