(* ===== verification/Spec2Isabelle.thy ===== *)
theory Spec2Isabelle
  imports Avb_Examples Avb_Persistent Avb_Crc32 Sparse_Correct
begin

text \<open>
  Two programs of the boot image editor. Android Verified Boot: the C library \<open>libavb\<close> (\<open>src/aosp/libavb\<close>), which
  decides whether a device may boot a set of images, and the C++ program \<open>avbVerifier\<close> (\<open>src/avbImpl\<close>) that runs
  it on a directory of image files. And the sparse image library \<open>libsparse\<close> (\<open>src/aosp/libsparse/sparse\<close>), which
  reads, splits and writes images of partitions with gaps.

  How the parts of the verifier work together. \<open>main\<close> builds the host, \<open>CfigAvbOps\<close>, whose operations read keys, lock state,
  rollback indexes and partition images from files; it preloads some partitions and calls \<open>avb_slot_verify\<close>
  with the host's operations. That function loads the vbmeta image of the slot, has
  \<open>avb_vbmeta_image_verify\<close> check header, digest and signature, asks the host about the public key and the
  rollback index, and walks over the descriptors: hash descriptors load a partition and compare its digest,
  chain partition descriptors recurse into another vbmeta image under the key they name, command line and
  hash tree descriptors contribute to the kernel command line. The result is the slot data, which \<open>main\<close>
  prints as JSON.

  How the parts of the sparse library work together. A \<open>sparse_file\<close> has a list of backed blocks: where data in
  memory, a file, a descriptor or a fill stand in the image. \<open>sparse_file_write\<close> counts the chunks, opens an output
  file, which writes the header, and has the blocks and the gaps written as chunks of the sparse format, or plainly,
  to one of three sinks: a descriptor, zlib or a callback; \<open>sparse_file_len\<close> and \<open>sparse_file_resparse\<close> measure with
  a callback that counts. \<open>sparse_file_import\<close> and its relatives parse the format from a descriptor or from memory
  and add the blocks again.

  Theories, from the bottom, with the files they model (\<open>c\<close> and \<open>headers\<close> are under
  \<open>src/aosp/libavb/src/avb\<close>):

  \<^item> \<open>Avb_Prelude\<close>: bytes, words, results; a failing assertion or an access outside an object is a \<open>Fault\<close>.
  \<^item> \<open>Avb_Util\<close>: \<open>c/avb_util.c\<close>, \<open>c/avb_sysdeps_posix.c\<close>. \<open>malloc\<close> is a heap whose \<open>k\<close>-th request fails or not
    as the heap says, so that every allocation failure is covered; \<open>malloc_total\<close> says that none fails.
  \<^item> \<open>Avb_Vbmeta_Header\<close>, \<open>Avb_Vbmeta\<close>: \<open>c/avb_vbmeta_image.c\<close>, \<open>c/avb_footer.c\<close> and their headers; what each
    verdict means in terms of the bytes of the image.
  \<^item> \<open>Avb_Descriptors\<close>, \<open>Avb_Property\<close>: the descriptor files; the locale \<open>sized_descriptor\<close> is the contract of
    the validators, \<open>walk\<close> and \<open>desc_tiles\<close> specify the iteration.
  \<^item> \<open>Avb_Hash_Stream\<close>, \<open>Avb_Sha2\<close>, \<open>Avb_Sha256\<close>, \<open>Avb_Sha512\<close>: \<open>c/avb_sha256.c\<close>, \<open>c/avb_sha512.c\<close>; the locale
    \<open>avb_hash\<close> is the contract of a streaming digest, \<open>block_stream\<close> proves it from the block function, and
    FIPS 180-4 is the specification.
  \<^item> \<open>Avb_Crypto\<close>, \<open>Avb_Rsa\<close>: \<open>c/avb_crypto.c\<close>, \<open>c/avb_rsa.c\<close>; Montgomery arithmetic on 32-bit limbs against
    modular arithmetic on numbers.
  \<^item> \<open>Avb_Crc32\<close>: \<open>c/avb_crc32.c\<close>.
  \<^item> \<open>Avb_Ops\<close>: \<open>headers/avb_ops.h\<close>; operations are functions on the state of the host, programs on heap and
    host state are composed with \<open>andthen\<close>. The locale \<open>host\<close> fixes an invariant the operations keep; the
    rules for \<open>post\<close> are its partial-correctness logic.
  \<^item> \<open>Avb_Slot_Data\<close>, \<open>Avb_Partitions\<close>, \<open>Avb_Cmdline\<close>, \<open>Avb_Slot_Verify\<close>: \<open>c/avb_slot_verify.c\<close>,
    \<open>c/avb_cmdline.c\<close>. The locales \<open>loader\<close> and \<open>store\<close> add what the host promises about partition contents.
  \<^item> \<open>Avb_Slot_Sound\<close>: partial correctness of slot verification for every host: depth of the recursion, bounds,
    chain of trust, errors that get lost.
  \<^item> \<open>Avb_Options\<close>, \<open>Avb_Slot_Accepts\<close>, \<open>Avb_Persistent\<close>: total correctness (\<open>gives\<close>): the command line, a run that
    delivers a slot, persistent digests and the managed error mode on a host that keeps values.
  \<^item> \<open>Avb_Cfig_Ops\<close>, \<open>Avb_Verifier\<close>: \<open>CfigAvbOps.cpp\<close>, \<open>helper.cpp\<close>, \<open>main.cpp\<close> over a world of files; the locales
    \<open>host\<close> and \<open>store\<close> are interpreted on these operations.
  \<^item> \<open>Avb_Examples\<close>: a key, images and a directory on which everything above is run.
  \<^item> \<open>Sparse_Blocks\<close>: \<open>backed_block.cpp\<close>; \<open>block_image\<close> is the image a list of blocks stands for, padded with zeros as
    \<open>sparse.h\<close> has it, \<open>list_ok\<close> the invariant of the list.
  \<^item> \<open>Sparse_Format\<close>, \<open>Sparse_Output\<close>, \<open>Sparse_File\<close>, \<open>Sparse_Read\<close>: \<open>sparse_format.h\<close>, \<open>sparse_crc32.cpp\<close>,
    \<open>output_file.cpp\<close>, \<open>sparse.cpp\<close>, \<open>sparse_read.cpp\<close>. What a descriptor does with the next calls of \<open>write\<close> and
    \<open>read\<close> (how many bytes, which errors) is part of its state; zlib, \<open>mmap64\<close> and \<open>open\<close> are parameters.
  \<^item> \<open>Sparse_Written\<close>, \<open>Sparse_Roundtrip\<close>, \<open>Sparse_Plain\<close>: the locale \<open>chunk_sink\<close> is what the writers need of a sink,
    \<open>chunk_source\<close> what the reader needs of a source, \<open>plain_sink\<close> a sink that can skip; they are interpreted on the
    sinks and sources of the library.
  \<^item> \<open>Sparse_Correct\<close>: the properties of the sparse library, C34 to C40.

  Bounds. \<open>load_and_verify_vbmeta\<close> recurses on a depth of \<open>VBMETA_DEPTH = 3\<close>; C6 shows that this is the
  recursion of the source. Two loops take fuel because they may not end: \<open>gz_write_loop\<close> (zlib may write nothing
  and report no error) and \<open>resparse_loop\<close> (a maximum too small for a block); out of fuel they give a \<open>Fault\<close>, and no
  property is about them. All other loops are structural or have a measure.
  Lengths of messages are below \<open>2 ^ 61\<close> bytes, where the bit counters of the digests do not wrap; sparse images
  are below 2 GiB (\<open>writable\<close>), where no length of the writer wraps as an \<open>int\<close>; the heap never reuses freed memory.

  Where the code contradicts a header of the repository, the property says so in its text and its statement: C7,
  C11, C17, C29, C33, C38, C40 (and C2, C22 for allocation failures).

  Not modelled: printing to the console, and the functions that only free memory. Within the repository, the
  Kotlin front end, the vendored Python and Java tools, the ramdisk tool \<open>mkbootfs\<close> and the command line
  programs around the sparse library (\<open>img2simg\<close>, \<open>simg2img\<close>, \<open>simg2simg\<close>, \<open>append2simg\<close>), which open files and
  call it.
\<close>

section \<open>The verifier program\<close>

text \<open>
  C1. The chain of trust, end to end. When the device is locked and the program hands out slot data, the result
  is \<open>OK\<close>; the top-level vbmeta image carries the key of \<open>config/pubkey\<close>, its structure, digest, signature
  and rollback index were checked under that key, and every other image under a key that a chain partition
  descriptor of the top-level image names (with \<open>recovery\<close> requested, every image under the key of the
  file); every partition with data is the start of its image file; and every partition is vouched for by
  one of the images. Whatever the preloads, the partitions requested and the suffix are, and whichever
  allocations fail.
\<close>

theorem verifier_locked_trust:
  assumes run: "verifier_main env s = Ok ((ret, Some slot), s')" and fresh: "preloaded_partitions (sy_world s) = []"
    and locked: "read_line (sy_world s) lockStatusFile \<noteq> str ''0''"
    and key: "open_read (sy_world s) pubkeyFile = Some key" "length key < 2 ^ 64"
  shows "ret = AVB_SLOT_VERIFY_RESULT_OK \<and> (\<exists>w. prepared (sy_world s) w \<and>
    (if str ''recovery'' \<in> set (splitString (env_text (env_requests env)))
     then \<forall>j\<in>set (sd_vbmeta_images slot). image_verified cfig_avb_ops (\<lambda>v. v = w) key 0 j
     else \<exists>img imgs. sd_vbmeta_images slot = img # imgs \<and> image_verified cfig_avb_ops (\<lambda>v. v = w) key 0 img \<and>
       (\<forall>j\<in>set imgs. chained_image cfig_avb_ops (\<lambda>v. v = w) img j)) \<and>
    (\<forall>p\<in>set (sd_loaded_partitions slot). (pd_data p \<noteq> None \<longrightarrow> image_of_file (sy_world s) (env_text (env_suffix env)) p) \<and>
       (\<exists>j\<in>set (sd_vbmeta_images slot). vouched cfig_avb_ops (\<lambda>v. v = w) j p)))"
proof -
  let ?rs = "splitString (env_text (env_requests env))" and ?suffix = "env_text (env_suffix env)"
  obtain w where w: "prepared (sy_world s) w" "ret = AVB_SLOT_VERIFY_RESULT_OK"
    "slot_trusted cfig_avb_ops (\<lambda>v. v = w) (request (Some ?rs) ?suffix (verifier_flags ?rs False)) slot"
    "\<forall>p\<in>set (sd_loaded_partitions slot). pd_data p \<noteq> None \<longrightarrow> image_of_file (sy_world s) ?suffix p"
    using verifier_run [OF run fresh] locked unfolding prepared_def by metis
  have "expected_public_key w = key" using w(1) key(1) by (simp add: prepared_def)
  then have "image_verified cfig_avb_ops (\<lambda>v. v = w) key 0 j"
    if "trusted_image cfig_avb_ops (\<lambda>v. v = w) (request (Some ?rs) ?suffix (verifier_flags ?rs False)) j" for j
    using that cfig_trusts key(2) unfolding trusted_image_def by metis
  then show ?thesis
    using w cfig_vouching unfolding slot_trusted_def verifier_flags_vbmeta by (auto split: if_splits)
qed

theorem verifier_locked_trust_witness:
  "\<exists>slot s' w. verifier_main demo_env (forged_state demo_key) = Ok ((AVB_SLOT_VERIFY_RESULT_OK, Some slot), s') \<and>
    prepared (demo_world demo_key (forged demo_key)) w \<and>
    (\<exists>img imgs. sd_vbmeta_images slot = img # imgs \<and> image_verified cfig_avb_ops (\<lambda>v. v = w) demo_key 0 img)"
proof -
  obtain slot s' where r: "verifier_main demo_env (forged_state demo_key) = Ok ((AVB_SLOT_VERIFY_RESULT_OK, Some slot), s')"
    using forged_run [OF demo_key_ok demo_key_parts(2)] by blast
  let ?w = "sy_world (forged_state demo_key)"
  have "preloaded_partitions ?w = []" "read_line ?w lockStatusFile \<noteq> str ''0''" "open_read ?w pubkeyFile = Some demo_key"
    "length demo_key < 2 ^ 64" "str ''recovery'' \<notin> set (splitString (env_text (env_requests demo_env)))"
    using demo_files(1) [of demo_key "forged demo_key"]
    by (simp_all add: forged_state_def demo_locked demo_key_parts open_read_def demo_env_def env_text_def splitString_def)
      (simp_all add: demo_world_def str_def of_char_def)
  with verifier_locked_trust [OF r] r show ?thesis by (auto simp: forged_state_def)
qed

text \<open>
  C2. Allocation failure defeats the verifier. For every well-formed 2048-bit key there is an image, made
  without the private key by putting the padded digest where the signature belongs, that the program
  verifies as \<open>OK\<close> on a locked device with that key, when the eighth of its allocations fails.
\<close>

theorem verifier_accepts_forgery_on_oom:
  assumes "pubkey_ok key" "pk_bits key = 2048"
  shows "\<exists>slot s'. verifier_main demo_env (forged_state key) = Ok ((AVB_SLOT_VERIFY_RESULT_OK, Some slot), s') \<and>
    read_line (sy_world (forged_state key)) lockStatusFile = str ''1'' \<and>
    file_of (sy_world (forged_state key)) pubkeyFile = Some key \<and>
    vb_signature (forged key) = emsa_prefix 256 32 @ vb_hash (forged key)"
proof -
  have "length key = 520" using pubkey_bits(2) [OF assms(1)] assms(2) by simp
  then show ?thesis
    using forged_run [OF assms] forged_parts(4) [of key "[]"] demo_locked(1) [of key "forged key"] demo_files(1) [of key "forged key"]
    by (auto simp: forged_state_def)
qed

theorem verifier_accepts_forgery_on_oom_witness:
  "\<exists>slot s'. verifier_main demo_env (forged_state demo_key) = Ok ((AVB_SLOT_VERIFY_RESULT_OK, Some slot), s')"
  using verifier_accepts_forgery_on_oom [OF demo_key_ok demo_key_parts(2)] by blast

section \<open>Slot verification\<close>

text \<open>
  C3. The chain of trust, for every host. When errors are not allowed and \<open>avb_slot_verify\<close> hands out slot
  data, the result is \<open>OK\<close>; the first vbmeta image verified under a key the host was asked about and
  trusts, with a rollback index not below the host's, and every other image under a key and location
  named by a chain partition descriptor of the first (without vbmeta partition, the host trusts the key of
  every image for its location); and, for a host that keeps no persistent values, every loaded partition
  matches a descriptor of one of the images or belongs to an image with verification disabled. The host
  may change its state \<open>w\<close> as it likes as long as \<open>I\<close> is kept.
\<close>

theorem slot_verify_chain_of_trust:
  assumes host: "host ops I" "I (sy_world s)"
    and strict: "vf AND AVB_SLOT_VERIFY_FLAGS_ALLOW_VERIFICATION_ERROR = 0"
    and run: "avb_slot_verify ops parts suffix vf mode s = Ok ((ret, Some slot), s')"
  shows "ret = AVB_SLOT_VERIFY_RESULT_OK \<and> I (sy_world s') \<and>
    (if vf AND AVB_SLOT_VERIFY_FLAGS_NO_VBMETA_PARTITION \<noteq> 0
     then \<forall>j\<in>set (sd_vbmeta_images slot). \<exists>key loc. image_verified ops I key loc j \<and> host_trusts ops I (request parts suffix vf) key loc
     else \<exists>img imgs. sd_vbmeta_images slot = img # imgs \<and>
       (\<exists>key loc. image_verified ops I key loc img \<and> host_trusts ops I (request parts suffix vf) key loc) \<and>
       (\<forall>j\<in>set imgs. \<exists>key loc. image_verified ops I key loc j \<and> chained_key img key loc)) \<and>
    (no_persistent_values ops I \<longrightarrow>
       (\<forall>p\<in>set (sd_loaded_partitions slot). \<exists>j\<in>set (sd_vbmeta_images slot). vouched ops I j p))"
  using postD [OF host.slot_verify_trust [OF host(1) strict] host(2) run]
  unfolding slot_trusted_def trusted_image_def chained_image_def no_vbmeta_partition_def by simp

theorem slot_verify_chain_of_trust_witness:
  "\<exists>slot s' img key. avb_slot_verify cfig_avb_ops (Some []) [] 0 AVB_HASHTREE_ERROR_MODE_RESTART_AND_INVALIDATE (forged_built demo_key) =
      Ok ((AVB_SLOT_VERIFY_RESULT_OK, Some slot), s') \<and>
    sd_vbmeta_images slot = [img] \<and>
    host_trusts cfig_avb_ops (\<lambda>w. w = built_world demo_key (forged demo_key)) (request (Some []) [] 0) key 0"
proof -
  let ?I = "\<lambda>w. w = built_world demo_key (forged demo_key)"
  obtain slot s' where r: "avb_slot_verify cfig_avb_ops (Some []) [] 0 AVB_HASHTREE_ERROR_MODE_RESTART_AND_INVALIDATE (forged_built demo_key) =
      Ok ((AVB_SLOT_VERIFY_RESULT_OK, Some slot), s')" "length (sd_vbmeta_images slot) = 1"
    using forged_accepted [OF demo_key_ok demo_key_parts(2)] by (auto simp: accepted_slot_def)
  have "?I (sy_world (forged_built demo_key))" by (simp add: forged_built_def)
  from slot_verify_chain_of_trust [OF cfig.host_axioms this _ r(1)] obtain img key loc where
    "sd_vbmeta_images slot = img # tl (sd_vbmeta_images slot)" "host_trusts cfig_avb_ops ?I (request (Some []) [] 0) key loc"
    by (auto simp: AVB_SLOT_VERIFY_FLAGS_NO_VBMETA_PARTITION_def)
  moreover have "loc = 0" using calculation(2) by (auto simp: host_trusts_def no_vbmeta_partition_def)
  ultimately show ?thesis using r by (cases "sd_vbmeta_images slot") auto
qed

text \<open>
  C4. Shape of the result, for every host, request and heap: slot data is handed out exactly when the
  result is \<open>OK\<close>, or one of the verification errors after which it may go on and the caller allowed it;
  it then has between one and 32 vbmeta images, at most 32 loaded partitions and exactly 32 rollback
  indexes, so that no array is overrun.
\<close>

theorem slot_verify_data_shape:
  "case avb_slot_verify ops parts suffix vf mode s of
     Fault e \<Rightarrow> True
   | Ok ((ret, data), s') \<Rightarrow>
       (data \<noteq> None \<longleftrightarrow> goes_on (request parts suffix vf) ret) \<and>
       (case data of None \<Rightarrow> True | Some slot \<Rightarrow>
          sd_vbmeta_images slot \<noteq> [] \<and> length (sd_vbmeta_images slot) \<le> 32 \<and>
          length (sd_loaded_partitions slot) \<le> 32 \<and> length (sd_rollback_indexes slot) = 32)"
proof -
  have h: "host ops (\<lambda>_. True)" by unfold_locales simp_all
  have "loader ops (\<lambda>_. True) (\<lambda>_ _ _. True)"
    by (intro loader.intro h loader_axioms.intro) (rule post_weaken [OF host.load_full_calm [OF h]], simp split: prod.split)
  note shape = postD [OF loader.slot_verify_shape [OF this]]
  show ?thesis
  proof (cases "avb_slot_verify ops parts suffix vf mode s")
    case (Ok r)
    then obtain ret data s' where r: "r = ((ret, data), s')" by (metis surj_pair)
    show ?thesis
      using shape [OF _ Ok [unfolded r]] unfolding Ok r
      by (cases data) (auto simp: goes_on_def slot_shape_def MAX_NUMBER_OF_VBMETA_IMAGES_def
          MAX_NUMBER_OF_LOADED_PARTITIONS_def AVB_MAX_NUMBER_OF_ROLLBACK_INDEX_LOCATIONS_def)
  qed simp
qed

text \<open>
  C5. A slot is delivered. For a host that serves a vbmeta image without descriptors, accepts its key and
  stores no higher rollback index, with four allocations and the buffer granted and every allocation
  after the image's verification, \<open>avb_slot_verify\<close> does return the slot: one image, the rollback index of
  its header, and the command line of \<open>accepted_slot\<close>; the result is that of the image's verdict.
\<close>

theorem slot_verify_delivers:
  assumes H: "\<And>k n. k < 4 \<Longrightarrow> hp_alloc (sy_heap s) (hp_calls (sy_heap s) + k) n \<noteq> None"
    and M: "avb_malloc_obj VBMETA_MAX_SIZE ((sy_heap s)\<lparr>hp_calls := hp_calls (sy_heap s) + 4\<rparr>) = (Some (ptr, junk), h1)"
    and V: "avb_vbmeta_image_verify (ptr, data @ drop (length data) junk) (of_nat (length data)) h1 = Ok ((v, pk), h)" "malloc_total h"
    and verdict: "vbmeta_verdict (rq_allow_verification_error (request parts suffix vf)) v = Inr ret"
      "v = AVB_VBMETA_VERIFY_RESULT_OK \<longrightarrow> (\<exists>ofs len. pk = Some (ofs, len) \<and> len > 0)"
    and W: "serves ops (sy_world s) suffix data stored unlocked g"
      "key_accepted ops (sy_world s) (data @ drop (length data) junk) pk"
    and R: "stored \<le> rollback_index (host_header (data @ drop (length data) junk))"
      "bare ptr (data @ drop (length data) junk) (length data)" "\<not> no_vbmeta_partition (request parts suffix vf)"
      "images_whole [image_entry v ptr (data @ drop (length data) junk)]"
      "algorithm_type (host_header (data @ drop (length data) junk)) = algorithm_value a"
    and N: "cstring suffix" "length suffix \<le> 25" "length data \<le> VBMETA_MAX_SIZE"
    and mode: "mode \<notin> {AVB_HASHTREE_ERROR_MODE_MANAGED_RESTART_AND_EIO, AVB_HASHTREE_ERROR_MODE_LOGGING}"
  shows "\<exists>s'. avb_slot_verify ops parts suffix vf mode s =
    Ok ((ret, Some (accepted_slot suffix vf unlocked a mode g v ptr (data @ drop (length data) junk))), s')"
  by (rule slot_verify_bare [OF H M V verdict W R N mode])

theorem slot_verify_delivers_witness:
  "\<exists>s'. avb_slot_verify cfig_avb_ops (Some []) [] 0 AVB_HASHTREE_ERROR_MODE_EIO (forged_built demo_key) =
    Ok ((AVB_SLOT_VERIFY_RESULT_OK, Some (accepted_slot [] 0 False AVB_ALGORITHM_TYPE_SHA256_RSA2048
      AVB_HASHTREE_ERROR_MODE_EIO (\<lambda>_. demo_guid) AVB_VBMETA_VERIFY_RESULT_OK 4096 (forged_buffer demo_key))), s')"
  using slot_verify_delivers [of "forged_built demo_key" 4096 "replicate VBMETA_MAX_SIZE 0" "(oom_heap 7)\<lparr>hp_calls := 5\<rparr>"
      "forged demo_key" AVB_VBMETA_VERIFY_RESULT_OK "Some (576, 520)" "(oom_heap 7)\<lparr>hp_calls := 10\<rparr>" "Some []" "[]" 0
      AVB_SLOT_VERIFY_RESULT_OK cfig_avb_ops 0 False "\<lambda>_. demo_guid" AVB_ALGORITHM_TYPE_SHA256_RSA2048
      AVB_HASHTREE_ERROR_MODE_EIO] forged_conditions [OF demo_key_ok demo_key_parts(2)]
  by (simp add: forged_built_def oom_heap_def vbmeta_verdict_def cstring_def VBMETA_MAX_SIZE_def no_vbmeta_partition_def)

text \<open>
  C6. Three levels of recursion are enough. \<open>load_and_verify_vbmeta\<close> calls itself for chained partitions and for
  the boot partition when the vbmeta partition is missing; unfolding its recursive equation any number of
  times, at least three, gives the same call, whatever stands at the bottom.
\<close>

theorem vbmeta_recursion_bounded:
  "((\<lambda>rec. load_and_verify_vbmeta_with rec ops rq) ^^ (3 + k)) rec args out =
     load_and_verify_vbmeta VBMETA_DEPTH ops rq args out"
  using vbmeta_depth_any [where k = k] by (simp only: VBMETA_DEPTH_def)

text \<open>
  C7. Errors of chained partitions that are forgotten. When the last descriptor processed is a hash tree
  descriptor without root digest, the loop over the descriptors ends the same whether the recursive calls
  for chained partitions report their errors or hide all those after which verification may go on, and
  whatever the result was before: its step assigns the result of reading the persistent digest.
\<close>

theorem chained_errors_lost:
  assumes "persistent_hashtree (drop t img)" "load_AvbDescriptor (drop t img) = Ok src"
    "avb_descriptor_validate_and_byteswap src = (True, d)" "tag d = tag_value AVB_DESCRIPTOR_TAG_HASHTREE"
  shows "descriptor_loop (\<lambda>n. descriptor_step rec ops rq m fl (drop n img)) (cs @ [t]) ret out =
    descriptor_loop (\<lambda>n. descriptor_step (forgiving rec) ops rq m fl (drop n img)) (cs @ [t]) ret' out"
  by (rule chain_errors_forgotten [OF assms])

theorem chained_errors_lost_witness:
  "\<forall>rec ops rq m fl cs ret ret' out.
    descriptor_loop (\<lambda>n. descriptor_step rec ops rq m fl (drop n (be_bytes 8 (1 :: u64) @ be_bytes 8 (168 :: u64) @ replicate 168 0))) (cs @ [0]) ret out =
    descriptor_loop (\<lambda>n. descriptor_step (forgiving rec) ops rq m fl (drop n (be_bytes 8 (1 :: u64) @ be_bytes 8 (168 :: u64) @ replicate 168 0))) (cs @ [0]) ret' out"
proof -
  let ?d = "be_bytes 8 (1 :: u64) @ be_bytes 8 (168 :: u64) @ replicate 168 0"
  have h: "avb_be64toh (load64 ?d 0) = 1" "avb_be64toh (load64 ?d 8) = 168"
    by (rule be64toh_be_bytes, simp)+
  have z: "avb_be32toh (load32 ?d i) = 0" if "16 \<le> i" "i + 4 \<le> 184" for i
    by (rule zero_field) (use that in \<open>auto simp: nth_append\<close>)
  have v: "load_AvbDescriptor ?d = Ok \<lparr>tag = load64 ?d 0, num_bytes_following = load64 ?d 8\<rparr>"
    "avb_descriptor_validate_and_byteswap \<lparr>tag = load64 ?d 0, num_bytes_following = load64 ?d 8\<rparr> =
       (True, \<lparr>tag = 1, num_bytes_following = 168\<rparr>)"
    by (simp_all add: load_AvbDescriptor_def avb_descriptor_validate_and_byteswap_def h sizeof_AvbDescriptor_def)
  then have "persistent_hashtree ?d"
    by (simp add: persistent_hashtree_def load_AvbHashtreeDescriptor_def avb_hashtree_descriptor_validate_and_byteswap_def
        sizeof_AvbHashtreeDescriptor_def z sizeof_AvbDescriptor_def avb_safe_add_to_spec Let_def)
  note lost = chained_errors_lost [where t = 0 and img = ?d, unfolded drop_0, OF this v]
  show ?thesis by (intro allI, rule lost) simp
qed

text \<open>
  C8. Arguments that do not fit. Logging without permission to ignore errors, the managed mode on a host
  without persistent values, or no vbmeta partition on a host that cannot validate keys per partition:
  \<open>INVALID_ARGUMENT\<close>, before anything is allocated or read.
\<close>

theorem slot_verify_invalid_arguments:
  assumes "read_is_device_unlocked ops \<noteq> None" "read_from_partition ops \<noteq> None" "get_size_of_partition ops \<noteq> None"
    and "read_rollback_index ops \<noteq> None" "get_unique_guid_for_partition ops \<noteq> None"
    and "mode = AVB_HASHTREE_ERROR_MODE_LOGGING \<and> vf AND AVB_SLOT_VERIFY_FLAGS_ALLOW_VERIFICATION_ERROR = 0 \<or>
      mode = AVB_HASHTREE_ERROR_MODE_MANAGED_RESTART_AND_EIO \<and>
        (read_persistent_value ops = None \<or> write_persistent_value ops = None) \<or>
      vf AND AVB_SLOT_VERIFY_FLAGS_NO_VBMETA_PARTITION \<noteq> 0 \<and> validate_public_key_for_partition ops = None"
  shows "avb_slot_verify ops parts suffix vf mode s = Ok ((AVB_SLOT_VERIFY_RESULT_ERROR_INVALID_ARGUMENT, None), s)"
  using assms
  by (auto simp: avb_slot_verify_def Let_def asserting_def avb_assert_def retn_def no_vbmeta_partition_def)

theorem slot_verify_invalid_arguments_witness:
  "avb_slot_verify cfig_avb_ops None [] 0 AVB_HASHTREE_ERROR_MODE_LOGGING (forged_built demo_key) =
    Ok ((AVB_SLOT_VERIFY_RESULT_ERROR_INVALID_ARGUMENT, None), forged_built demo_key)"
  using slot_verify_invalid_arguments [of cfig_avb_ops AVB_HASHTREE_ERROR_MODE_LOGGING 0] by (simp add: cfig_avb_ops_def)

section \<open>Persistent values, digest and command line\<close>

text \<open>
  C9. The managed error mode over any sequence of boots, on a host that keeps values and starts without
  one: a boot reports \<open>EIO\<close> exactly when it, or an earlier boot since which the vbmeta images have the same
  digest, was a restart caused by hash tree corruption, and \<open>RESTART\<close> otherwise.
\<close>

theorem managed_mode_over_boots:
  assumes "keeps_values ops stored" "\<forall>(vf, slot)\<in>set bs. images_whole (sd_vbmeta_images slot)"
    and "stored (sy_world s) AVB_NPV_MANAGED_VERITY_MODE = None"
  shows "\<exists>s'. managed_boots ops bs s = Ok (map (\<lambda>k. if corruption_stands bs k
    then AVB_HASHTREE_ERROR_MODE_EIO else AVB_HASHTREE_ERROR_MODE_RESTART) [0..<length bs], s')"
  by (rule managed_boots_history [OF assms])

theorem managed_mode_over_boots_witness:
  "\<exists>s'. managed_boots store_ops [(0, bare_slot), (AVB_SLOT_VERIFY_FLAGS_RESTART_CAUSED_BY_HASHTREE_CORRUPTION, bare_slot), (0, bare_slot)]
      \<lparr>sy_heap = demo_heap, sy_world = \<lambda>_. None\<rparr> =
    Ok ([AVB_HASHTREE_ERROR_MODE_RESTART, AVB_HASHTREE_ERROR_MODE_EIO, AVB_HASHTREE_ERROR_MODE_EIO], s')"
proof -
  let ?bs = "[(0, bare_slot), (AVB_SLOT_VERIFY_FLAGS_RESTART_CAUSED_BY_HASHTREE_CORRUPTION, bare_slot), (0, bare_slot)]"
  have c: "corrupted AVB_SLOT_VERIFY_FLAGS_RESTART_CAUSED_BY_HASHTREE_CORRUPTION" "\<not> corrupted 0"
    by (simp_all add: corrupted_def AVB_SLOT_VERIFY_FLAGS_RESTART_CAUSED_BY_HASHTREE_CORRUPTION_def)
  have dig: "slot_digest (snd (?bs ! j)) = slot_digest bare_slot" if "j \<le> 2" for j
    using that by (auto simp: le_Suc_eq numeral_2_eq_2)
  have "corruption_stands ?bs k" if "Suc 0 \<le> k" "k \<le> 2" for k
    unfolding corruption_stands_def
  proof (intro exI conjI allI impI)
    show "slot_digest (snd (?bs ! j)) = slot_digest (snd (?bs ! k))" if "Suc 0 \<le> j \<and> j \<le> k" for j
      by (rule trans [OF dig dig [symmetric]]) (use that \<open>k \<le> 2\<close> in simp_all)
  qed (use that c in simp_all)
  then have "corruption_stands ?bs (Suc 0)" "corruption_stands ?bs (Suc (Suc 0))" by simp_all
  moreover have "\<not> corruption_stands ?bs 0" using c by (simp add: corruption_stands_def)
  ultimately show ?thesis
    using managed_mode_over_boots [OF store_ops_keep, of ?bs "\<lparr>sy_heap = demo_heap, sy_world = \<lambda>_. None\<rparr>"]
    by (simp add: bare_slot_def images_whole_def)
qed

text \<open>
  C10. Persistent digests are trusted on first use. With memory, on a host that keeps values: a digest that is
  stored is returned if it has the expected size, and never replaced; a missing one is initialised from
  the image on a locked device, and is a verification error on an unlocked one.
\<close>

theorem persistent_digest_first_use:
  assumes "keeps_values ops stored" "roomy w s" "length part < 2 ^ 32" "0 < length d" "length d < 2 ^ 32"
    and "read_is_device_unlocked ops = Some f" "f w = Ok ((AVB_IO_RESULT_OK, unlocked), w)"
    and "\<And>e. stored w (AVB_NPV_PERSISTENT_DIGEST_PREFIX @ part) = Some e \<Longrightarrow> length e < 2 ^ 32"
  shows "\<exists>r s'. read_persistent_digest ops part (length d) (Some d) s = Ok (r, s') \<and>
    (case stored w (AVB_NPV_PERSISTENT_DIGEST_PREFIX @ part) of
       None \<Rightarrow> if unlocked then r = (AVB_SLOT_VERIFY_RESULT_ERROR_VERIFICATION, []) \<and> stored (sy_world s') = stored w
         else r = (AVB_SLOT_VERIFY_RESULT_OK, d) \<and>
           stored (sy_world s') = (stored w)(AVB_NPV_PERSISTENT_DIGEST_PREFIX @ part \<mapsto> d)
     | Some e \<Rightarrow> stored (sy_world s') = stored w \<and>
         (if length e = length d then r = (AVB_SLOT_VERIFY_RESULT_OK, e)
          else fst r = AVB_SLOT_VERIFY_RESULT_ERROR_INVALID_METADATA))"
proof -
  let ?v = "stored w (AVB_NPV_PERSISTENT_DIGEST_PREFIX @ part)"
  obtain r s' where "read_persistent_digest ops part (length d) (Some d) s = Ok (r, s')"
    "if ?v \<noteq> None \<or> unlocked then r = stored_digest ?v (length d) \<and> stored (sy_world s') = stored w
     else r = (AVB_SLOT_VERIFY_RESULT_OK, d) \<and> stored (sy_world s') = (stored w)(AVB_NPV_PERSISTENT_DIGEST_PREFIX @ part \<mapsto> d)"
    using gives_persistent_digest [OF assms] unfolding gives_def by blast
  then show ?thesis by (intro exI [of _ r] exI [of _ s']) (cases ?v; simp add: stored_digest_def split: if_splits)
qed

theorem persistent_digest_first_use_witness:
  "\<exists>s'. read_persistent_digest store_ops (str ''vendor'') 32 (Some (replicate 32 7)) \<lparr>sy_heap = demo_heap, sy_world = \<lambda>_. None\<rparr> =
      Ok ((AVB_SLOT_VERIFY_RESULT_OK, replicate 32 7), s') \<and>
    sy_world s' (AVB_NPV_PERSISTENT_DIGEST_PREFIX @ str ''vendor'') = Some (replicate 32 7)"
  using persistent_digest_first_use [OF store_ops_keep, of "\<lambda>_. None" "\<lparr>sy_heap = demo_heap, sy_world = \<lambda>_. None\<rparr>"
      "str ''vendor''" "replicate 32 7" "\<lambda>w. Ok ((AVB_IO_RESULT_OK, False), w)" False]
  by (auto simp: roomy_def demo_heap_total store_ops_def str_def)

text \<open>
  C11. The kernel command line. With memory and a host that answers, \<open>avb_append_options\<close> appends exactly the
  options of \<open>vbmeta_options\<close> in order (device, version, state, digest name, total size and digest of the
  images), replaces the placeholder of the verity mode and appends that mode; nothing else of the slot
  changes. This is the text of \<open>avb_slot_verify.h\<close> but for one case, in which the code contradicts the header:
  with hash trees disabled and the managed mode it also says that the mode is managed.
\<close>

theorem append_options_text:
  assumes "shows_text slot t" "roomy w s" "images_whole (sd_vbmeta_images slot)"
    and "read_is_device_unlocked ops = Some f" "f w = Ok ((AVB_IO_RESULT_OK, unlocked), w)"
    and "resolved \<noteq> AVB_HASHTREE_ERROR_MODE_MANAGED_RESTART_AND_EIO"
  shows "\<exists>s'. avb_append_options ops vflags slot toplevel (algorithm_value a) mode resolved s =
    Ok ((AVB_SLOT_VERIFY_RESULT_OK, slot\<lparr>sd_cmdline := Some
      (let text = header_text (with_options t (vbmeta_options vflags unlocked a (sd_vbmeta_images slot))) mode resolved (flags toplevel)
       in (if flags toplevel AND AVB_VBMETA_IMAGE_FLAGS_HASHTREE_DISABLED \<noteq> 0 \<and> mode = AVB_HASHTREE_ERROR_MODE_MANAGED_RESTART_AND_EIO
           then with_option text (str ''androidboot.veritymode.managed'') (str ''yes'') else text) @ [0])\<rparr>), s')"
  using gives_append_options [OF assms, of vflags toplevel a mode] unfolding gives_def verity_text_header Let_def by auto

theorem append_options_text_witness:
  "\<exists>s' toplevel. flags toplevel = 0 \<and> avb_append_options store_ops 0 bare_slot toplevel 0
      AVB_HASHTREE_ERROR_MODE_EIO AVB_HASHTREE_ERROR_MODE_EIO \<lparr>sy_heap = demo_heap, sy_world = \<lambda>_. None\<rparr> =
    Ok ((AVB_SLOT_VERIFY_RESULT_OK, bare_slot\<lparr>sd_cmdline := Some
      (header_text (with_options [] (vbmeta_options 0 False AVB_ALGORITHM_TYPE_NONE [])) AVB_HASHTREE_ERROR_MODE_EIO
         AVB_HASHTREE_ERROR_MODE_EIO 0 @ [0])\<rparr>), s')"
proof -
  let ?s = "\<lparr>sy_heap = demo_heap, sy_world = \<lambda>_. None\<rparr>" and ?h = "(host_header demo_header)\<lparr>flags := 0\<rparr>"
  have f: "sd_vbmeta_images bare_slot = []" "shows_text bare_slot []"
    by (simp_all add: shows_text_def bare_slot_def cmdline_ended_def cmdline_text_def)
  have u: "read_is_device_unlocked store_ops = Some (\<lambda>w. Ok ((AVB_IO_RESULT_OK, False), w))" by (simp add: store_ops_def)
  from append_options_text [OF f(2) _ _ u, of "\<lambda>_. None" ?s False AVB_HASHTREE_ERROR_MODE_EIO 0 ?h AVB_ALGORITHM_TYPE_NONE
      AVB_HASHTREE_ERROR_MODE_EIO]
  have "\<exists>s'. avb_append_options store_ops 0 bare_slot ?h 0 AVB_HASHTREE_ERROR_MODE_EIO AVB_HASHTREE_ERROR_MODE_EIO ?s =
    Ok ((AVB_SLOT_VERIFY_RESULT_OK, bare_slot\<lparr>sd_cmdline := Some
      (header_text (with_options [] (vbmeta_options 0 False AVB_ALGORITHM_TYPE_NONE [])) AVB_HASHTREE_ERROR_MODE_EIO
         AVB_HASHTREE_ERROR_MODE_EIO 0 @ [0])\<rparr>), s')"
    by (simp add: f roomy_def demo_heap_total images_whole_def)
  moreover have "flags ?h = 0" by simp
  ultimately show ?thesis by blast
qed

text \<open>
  C12. The digest of the slot: SHA-256 or SHA-512 of all the vbmeta images, in order.
\<close>

theorem vbmeta_digest_of_images:
  assumes "list_all image_whole (sd_vbmeta_images slot)" "length (concat (map image_bytes (sd_vbmeta_images slot))) < 2 ^ 61"
  shows "avb_slot_verify_data_calculate_vbmeta_digest slot t = Ok (case t of
     AVB_DIGEST_TYPE_SHA256 \<Rightarrow> sha256 (concat (map image_bytes (sd_vbmeta_images slot)))
   | AVB_DIGEST_TYPE_SHA512 \<Rightarrow> sha512 (concat (map image_bytes (sd_vbmeta_images slot))))"
  using calculate_vbmeta_digest_value [OF assms, of t] by (cases t) simp_all

theorem vbmeta_digest_of_images_witness:
  "avb_slot_verify_data_calculate_vbmeta_digest
     (bare_slot\<lparr>sd_vbmeta_images := [image_entry AVB_VBMETA_VERIFY_RESULT_OK 4096 demo_image, image_entry AVB_VBMETA_VERIFY_RESULT_OK 8192 demo_image]\<rparr>)
     AVB_DIGEST_TYPE_SHA512 = Ok (sha512 (demo_image @ demo_image))"
proof -
  have "vb_auth_size demo_image = 320" "vb_aux_size demo_image = 576"
    using demo_fields(3,4) [of "drop 256 demo_image"] by (simp_all add: demo_image_def image_of_def demo_header_length)
  then have "image_whole (image_entry v p demo_image)" "image_bytes (image_entry v p demo_image) = demo_image" for v p
    by (simp_all add: image_whole_def image_bytes_def image_entry_def demo_image_parts(1))
  then show ?thesis
    using vbmeta_digest_of_images [of "bare_slot\<lparr>sd_vbmeta_images := [image_entry AVB_VBMETA_VERIFY_RESULT_OK 4096 demo_image,
        image_entry AVB_VBMETA_VERIFY_RESULT_OK 8192 demo_image]\<rparr>" AVB_DIGEST_TYPE_SHA512]
    by (simp add: demo_image_parts(1))
qed

section \<open>Vbmeta images\<close>

text \<open>
  C13. Verdict on a signed image. For an image whose header is supported and whose fields lie where they
  belong, with a well-formed public key and enough memory, verification answers \<open>OK\<close> (and hands out the
  key's place) exactly when the embedded hash has the algorithm's size and is the digest of header and
  auxiliary block, and the signature raised to 65537 modulo the key's modulus is the PKCS#1 v1.5 encoding
  of that hash; otherwise the answer names the first check that failed.
\<close>

theorem vbmeta_signed_verdict:
  assumes "n \<le> length d" "256 \<le> n" "n < 2 ^ 61" "unat ptr + n < 2 ^ 64"
    and "take 4 d = AVB_MAGIC" "vb_version_ok d" "vb_structure d n"
    and "a \<noteq> AVB_ALGORITHM_TYPE_NONE" "vb_algorithm d = unat (algorithm_value a)"
    and "pubkey_ok (vb_public_key d)" "malloc_total h"
  shows "\<exists>h'. avb_vbmeta_image_verify (ptr, d) (of_nat n) h =
    Ok (if vb_hash_size d \<noteq> algorithm_hash_bytes a then (AVB_VBMETA_VERIFY_RESULT_INVALID_VBMETA_HEADER, None)
        else if vb_hash d \<noteq> algorithm_digest a (vb_signed_data d) then (AVB_VBMETA_VERIFY_RESULT_HASH_MISMATCH, None)
        else if \<not> vb_signature_ok a d then (AVB_VBMETA_VERIFY_RESULT_SIGNATURE_MISMATCH, None)
        else (AVB_VBMETA_VERIFY_RESULT_OK,
              Some (256 + vb_auth_size d + vb_key_ofs d, of_nat (vb_key_size d))), h')"
proof -
  have "vb_algorithm d \<noteq> 0" using assms(8,9) by (cases a) simp_all
  then have "avb_vbmeta_image_verify (ptr, d) (of_nat n) h = vbmeta_check_signed (host_header d) d h"
    using verify_cases [OF assms(1,4)] assms(2,5-7) by simp
  with check_signed_value [OF assms(1-3) assms(7-11)] show ?thesis by auto
qed

theorem vbmeta_signed_verdict_witness:
  "\<exists>h'. avb_vbmeta_image_verify (4096, demo_image) (of_nat 1152) demo_heap =
    Ok (if vb_hash_size demo_image \<noteq> algorithm_hash_bytes AVB_ALGORITHM_TYPE_SHA256_RSA2048
        then (AVB_VBMETA_VERIFY_RESULT_INVALID_VBMETA_HEADER, None)
        else if vb_hash demo_image \<noteq> algorithm_digest AVB_ALGORITHM_TYPE_SHA256_RSA2048 (vb_signed_data demo_image)
        then (AVB_VBMETA_VERIFY_RESULT_HASH_MISMATCH, None)
        else if \<not> vb_signature_ok AVB_ALGORITHM_TYPE_SHA256_RSA2048 demo_image
        then (AVB_VBMETA_VERIFY_RESULT_SIGNATURE_MISMATCH, None)
        else (AVB_VBMETA_VERIFY_RESULT_OK,
              Some (256 + vb_auth_size demo_image + vb_key_ofs demo_image, of_nat (vb_key_size demo_image))), h')"
  by (rule vbmeta_signed_verdict [of 1152 demo_image 4096])
    (simp_all add: demo_image_parts demo_key_ok demo_heap_total)

text \<open>
  C14. Soundness of the answer \<open>OK\<close>, for every image and every heap: whenever verification answers \<open>OK\<close>,
  the image has the magic, a supported version and a sound structure, it is signed with one of the six
  algorithms, the embedded hash is the digest of header and auxiliary block, and the RSA check of that
  hash under the embedded key succeeded.
\<close>

theorem vbmeta_ok_sound:
  assumes "n \<le> length d" "n < 2 ^ 61" "unat ptr + n < 2 ^ 64"
    and "avb_vbmeta_image_verify (ptr, d) (of_nat n) h = Ok ((AVB_VBMETA_VERIFY_RESULT_OK, key), h')"
  shows "256 \<le> n \<and> take 4 d = AVB_MAGIC \<and> vb_version_ok d \<and> vb_structure d n \<and>
    (\<exists>a. a \<noteq> AVB_ALGORITHM_TYPE_NONE \<and> vb_algorithm d = unat (algorithm_value a) \<and>
      vb_hash d = algorithm_digest a (vb_signed_data d) \<and>
      vb_rsa_call a d h = Ok (True, h'))"
proof -
  have r: "256 \<le> n" "take 4 d = AVB_MAGIC" "vb_version_ok d" "vb_structure d n" "vb_algorithm d \<noteq> 0"
    "vbmeta_check_signed (host_header d) d h = Ok ((AVB_VBMETA_VERIFY_RESULT_OK, key), h')"
    using verify_cases [OF assms(1,3), of h] assms(4) by (auto split: if_splits)
  then show ?thesis
    using check_signed_OK [OF assms(1,2) r(1,4,5,6)] by blast
qed

theorem vbmeta_ok_sound_witness:
  "\<exists>h'. avb_vbmeta_image_verify (4096, forged demo_key) (of_nat 1152) (oom_heap 2) =
      Ok ((AVB_VBMETA_VERIFY_RESULT_OK, Some (576, 520)), h') \<and>
    (\<exists>a. a \<noteq> AVB_ALGORITHM_TYPE_NONE \<and> vb_hash (forged demo_key) = algorithm_digest a (vb_signed_data (forged demo_key)))"
proof -
  have r: "avb_vbmeta_image_verify (4096, forged demo_key) (of_nat 1152) (oom_heap 2) =
      Ok ((AVB_VBMETA_VERIFY_RESULT_OK, Some (576, 520)), (oom_heap 2)\<lparr>hp_calls := 5\<rparr>)"
    using forged_verdict [OF demo_key_ok demo_key_parts(2), of "oom_heap 2" 4096 "[]"] by (simp add: oom_heap_def)
  have "length (forged demo_key) = 1152"
    using forged_parts(1) [OF demo_key_parts(1), of "[]"] by simp
  with vbmeta_ok_sound [OF _ _ _ r] show ?thesis
    unfolding r by auto
qed

text \<open>
  C15. Everything short of a signed image: a truncated image, a wrong magic or a field out of place is
  \<open>INVALID_VBMETA_HEADER\<close>, an unknown version is \<open>UNSUPPORTED_VERSION\<close>, a sound image without algorithm is
  \<open>OK_NOT_SIGNED\<close>; no key is handed out, no memory is allocated and no byte outside the image is read.
\<close>

theorem vbmeta_unsigned_verdict:
  assumes "n \<le> length d" "unat ptr + n < 2 ^ 64"
    and "n < 256 \<or> take 4 d \<noteq> AVB_MAGIC \<or> \<not> vb_version_ok d \<or> \<not> vb_structure d n \<or> vb_algorithm d = 0"
  shows "avb_vbmeta_image_verify (ptr, d) (of_nat n) h =
    Ok ((if n < 256 \<or> take 4 d \<noteq> AVB_MAGIC then AVB_VBMETA_VERIFY_RESULT_INVALID_VBMETA_HEADER
         else if \<not> vb_version_ok d then AVB_VBMETA_VERIFY_RESULT_UNSUPPORTED_VERSION
         else if \<not> vb_structure d n then AVB_VBMETA_VERIFY_RESULT_INVALID_VBMETA_HEADER
         else AVB_VBMETA_VERIFY_RESULT_OK_NOT_SIGNED, None), h)"
  using verify_cases [OF assms(1,2), of h] assms(3) by auto

theorem vbmeta_unsigned_verdict_witness:
  "avb_vbmeta_image_verify (4096, replicate 256 0) (of_nat 256) demo_heap =
    Ok ((AVB_VBMETA_VERIFY_RESULT_INVALID_VBMETA_HEADER, None), demo_heap)"
proof -
  have "AVB_MAGIC ! 0 \<noteq> 0" by (simp add: AVB_MAGIC_def str_def)
  moreover have "take 4 (replicate 256 0 :: bytes) ! 0 = 0" by simp
  ultimately have "take 4 (replicate 256 0) \<noteq> AVB_MAGIC" by metis
  then show ?thesis
    using vbmeta_unsigned_verdict [of 256 "replicate 256 0" 4096 demo_heap] by simp
qed

section \<open>Descriptors\<close>

text \<open>
  C16. The walk over the descriptors. When the sizes of the descriptors tile the area, each descriptor starting
  where the one before ends, the callback runs on each of them, in order, until it says to stop; nothing
  outside is read and no address wraps round.
\<close>

theorem foreach_visits_tiles:
  assumes "image_ok base img n" "desc_area img = (start, fin)" "start mod 8 = 0"
    and "fin \<le> n" "desc_tiles img fin start os"
  shows "avb_descriptor_foreach (Some (base, img)) (of_nat n) (Some f) s = visit f os True s"
  by (rule foreach_tiles [OF assms])

theorem foreach_visits_tiles_witness:
  "avb_descriptor_foreach (Some (4096, props_image)) (of_nat 296) (Some count_descriptors) 0 = Ok (True, 1)"
  using foreach_visits_tiles [OF props_image_parts(1,2) [of 0] _ _ props_image_parts(3) [of 0], of count_descriptors 0]
  by (simp add: count_descriptors_def)

text \<open>
  C17. Property lookup. On an image whose descriptors tile the area, the lookup returns the place and length of
  the value of the first property descriptor with the given key, and null when there is none; it skips
  descriptors that are too short for key, value and their terminators, and those whose key is not followed by
  a NUL. It does not look at the byte behind the value. So the guarantee of the header, that a NUL follows the
  value, holds only on images whose property descriptors have one there; the witness is an image without.
\<close>

theorem property_lookup_first:
  assumes "image_ok base img n" "desc_area img = (start, fin)" "start mod 8 = 0" "fin \<le> n" "desc_tiles img fin start os"
    and "\<forall>x\<in>set os. x + 32 \<le> length img" "key_arg key kbuf key_size"
  shows "avb_property_lookup (Some (base, img)) (of_nat n) kbuf key_size =
    Ok (case first_prop img key os of Some (a, v) \<Rightarrow> PropValue a (of_nat v) | None \<Rightarrow> PropNull) \<and>
    ((\<forall>x\<in>set os. value_ended img x) \<longrightarrow> (\<forall>a v. first_prop img key os = Some (a, v) \<longrightarrow> img ! (a + v) = 0))"
  using lookup_first_prop [OF assms] first_prop_ended by blast

theorem property_lookup_first_witness:
  "avb_property_lookup (Some (4096, props_image_with 1)) (of_nat 296) (str ''k'' @ [0]) 0 = Ok (PropValue 290 1) \<and>
    props_image_with 1 ! (290 + 1) \<noteq> 0"
proof -
  have "key_arg (str ''k'') (str ''k'' @ [0]) 0"
    by (simp add: key_arg_def str_def cstring_def of_char_def)
  from property_lookup_first [OF props_image_parts(1,2) _ _ props_image_parts(3) _ this] show ?thesis
    by (simp add: props_image_parts)
qed

text \<open>
  C18. Descriptor fields stay in memory. A hash descriptor that validates, in a buffer that holds the descriptor
  as its header announces it, holds the partition name, the salt and the digest its lengths name.
\<close>

theorem hash_descriptor_fields_inside:
  assumes "load_AvbHashDescriptor m = Ok src" "avb_hash_descriptor_validate_and_byteswap src = (True, d)"
    and "sizeof_AvbDescriptor + be_nat (take 8 (drop 8 m)) \<le> length m"
  shows "sizeof_AvbHashDescriptor + unat (hd_partition_name_len d) + unat (hd_salt_len d) + unat (hd_digest_len d) \<le> length m"
  using hash_desc.fields_inside [OF assms] by (simp add: add.assoc)

theorem hash_descriptor_fields_inside_witness:
  "\<exists>src d. load_AvbHashDescriptor hash_descriptor = Ok src \<and> avb_hash_descriptor_validate_and_byteswap src = (True, d) \<and>
    sizeof_AvbHashDescriptor + unat (hd_partition_name_len d) + unat (hd_salt_len d) + unat (hd_digest_len d) \<le> length hash_descriptor"
proof -
  obtain src d where d: "load_AvbHashDescriptor hash_descriptor = Ok src" "avb_hash_descriptor_validate_and_byteswap src = (True, d)"
    using hash_descriptor_valid by blast
  moreover have "sizeof_AvbDescriptor + be_nat (take 8 (drop 8 hash_descriptor)) \<le> length hash_descriptor"
    by (simp add: hash_descriptor_def sizeof_AvbDescriptor_def be_nat_be_bytes)
  ultimately show ?thesis using hash_descriptor_fields_inside by blast
qed

section \<open>Signatures\<close>

text \<open>
  C19. Public-key operation. For every well-formed preprocessed key the in-place routine, 17 Montgomery
  products on 32-bit limbs and a final reduction, replaces the buffer by its 65537th power modulo the
  key's modulus, most significant byte first.
\<close>

theorem modpowF4_power:
  assumes "key_ok key" "length inout = 4 * unat (ik_len key)" "malloc_total h"
  shows "\<exists>out h'. modpowF4 key inout h = Ok (out, h') \<and> length out = length inout \<and>
    be_nat out = be_nat inout ^ 65537 mod lval (ik_n key)"
  using modpowF4_value [OF assms] by blast

theorem modpowF4_power_witness:
  "\<exists>out h'. modpowF4 \<lparr>ik_len = 1, ik_n0inv = 1, ik_n = [0xffffffff], ik_rr = [1]\<rparr> [0, 0, 0, 1] demo_heap = Ok (out, h') \<and>
    length out = 4 \<and> be_nat out = 1"
proof -
  have k: "key_ok \<lparr>ik_len = 1, ik_n0inv = 1, ik_n = [0xffffffff], ik_rr = [1]\<rparr>"
    by (simp add: key_ok_def key_shape_def n0inv_ok_def)
  have l: "length [0, 0, 0, 1 :: u8] = 4 * unat (ik_len \<lparr>ik_len = 1, ik_n0inv = 1, ik_n = [0xffffffff], ik_rr = [1]\<rparr>)"
    by simp
  obtain out h' where "modpowF4 \<lparr>ik_len = 1, ik_n0inv = 1, ik_n = [0xffffffff], ik_rr = [1]\<rparr> [0, 0, 0, 1] demo_heap = Ok (out, h')"
    "length out = length [0, 0, 0, 1 :: u8]"
    "be_nat out = be_nat [0, 0, 0, 1] ^ 65537 mod lval (ik_n \<lparr>ik_len = 1, ik_n0inv = 1, ik_n = [0xffffffff], ik_rr = [1]\<rparr>)"
    using modpowF4_power [OF k l demo_heap_total] by blast
  moreover note be_nat_values(2)
  ultimately show ?thesis by (simp add: power_one)
qed

text \<open>
  C20. Montgomery multiplication. For a key of any length whose \<open>n0inv\<close> is \<open>-1 / n\<close> modulo \<open>2 ^ 32\<close>, the
  product stays in the limb array and, multiplied by the array's range, is congruent to the product of
  the operands; no 64-bit accumulator overflows on the way.
\<close>

theorem montMul_congruent:
  assumes "key_shape key" "n0inv_ok key" "length a = unat (ik_len key)" "length b = unat (ik_len key)"
  shows "length (montMul key a b) = unat (ik_len key) \<and>
    (2 ^ (32 * unat (ik_len key)) * lval (montMul key a b)) mod lval (ik_n key) =
      (lval a * lval b) mod lval (ik_n key)"
  using montMul_value [OF assms] by blast

theorem montMul_congruent_witness:
  "(2 ^ 32 * lval (montMul \<lparr>ik_len = 1, ik_n0inv = 1, ik_n = [0xffffffff], ik_rr = [1]\<rparr> [7] [9])) mod 4294967295 = 63"
  using montMul_congruent [of "\<lparr>ik_len = 1, ik_n0inv = 1, ik_n = [0xffffffff], ik_rr = [1]\<rparr>" "[7]" "[9]"]
  by (simp add: key_shape_def n0inv_ok_def)

text \<open>
  C21. Signature check. With a well-formed key and enough memory the check accepts exactly when the
  signature is as long as the modulus, padding and hash fill it, and the signature's 65537th power modulo
  the modulus reads padding followed by hash.
\<close>

theorem rsa_verify_exact:
  assumes "pubkey_ok (take kn km)" "kn \<le> length km" "malloc_total h"
    and "sn \<le> length sm" "hn \<le> length hm" "sn < 2 ^ 63" "hn < 2 ^ 62" "length padding < 2 ^ 62"
  shows "\<exists>h'. avb_rsa_verify (Some km) (of_nat kn) (Some sm) (of_nat sn) (Some hm) (of_nat hn)
      (Some padding) (of_nat (length padding)) h =
    Ok (8 * sn = pk_bits (take kn km) \<and> length padding + hn = sn \<and>
        be_nat (take sn sm) ^ 65537 mod pk_modulus (take kn km) = be_nat (padding @ take hn hm), h')"
  using rsa_verify_all [OF assms] by blast

theorem rsa_verify_exact_witness:
  "\<exists>h'. avb_rsa_verify (Some demo_key) (of_nat 520) (Some (replicate 256 0)) (of_nat 256) (Some (replicate 32 0))
      (of_nat 32) (Some (replicate 224 0)) (of_nat 224) demo_heap = Ok (True, h')"
proof -
  have "(0 :: nat) ^ 65537 mod pk_modulus demo_key = 0" by simp
  then show ?thesis
    using rsa_verify_exact [of 520 demo_key demo_heap 256 "replicate 256 0" 32 "replicate 32 0" "replicate 224 0"]
      demo_key_ok demo_heap_total demo_key_parts(1,2) be_nat_zeros [of 256]
    by (simp add: be_nat_zeros del: power_0_left flip: replicate_add)
qed

text \<open>
  C22. Allocation failure defeats the signature check. \<open>modpowF4\<close> returns nothing, so a failed allocation
  inside it goes unnoticed and the raw signature is compared instead of its power: when the third
  allocation of the check fails, the padded hash itself is accepted as a signature, under every key.
\<close>

theorem rsa_verify_accepts_padding_on_oom:
  assumes "pubkey_ok (take kn km)" "kn \<le> length km" "8 * sn = pk_bits (take kn km)"
    and "\<And>sz. hp_alloc h (hp_calls h) sz \<noteq> None" "\<And>sz. hp_alloc h (Suc (hp_calls h)) sz \<noteq> None"
    and "\<And>sz. hp_alloc h (Suc (Suc (hp_calls h))) sz = None"
    and "length padding + length hash = sn"
  shows "\<exists>h'. avb_rsa_verify (Some km) (of_nat kn) (Some (padding @ hash)) (of_nat sn) (Some hash)
      (of_nat (length hash)) (Some padding) (of_nat (length padding)) h = Ok (True, h')"
  using rsa_verify_oom [of kn km sn h "length hash" hash "padding @ hash" padding] assms by auto

theorem rsa_verify_accepts_padding_on_oom_witness:
  "\<exists>h'. avb_rsa_verify (Some demo_key) (of_nat 520) (Some (replicate 224 7 @ replicate 32 8)) (of_nat 256)
      (Some (replicate 32 8)) (of_nat 32) (Some (replicate 224 7)) (of_nat 224) (oom_heap 2) = Ok (True, h')"
  using rsa_verify_accepts_padding_on_oom [of 520 demo_key 256 "oom_heap 2" "replicate 224 7" "replicate 32 8"]
    demo_key_ok demo_key_parts(1,2)
  by (simp add: oom_heap_def)

text \<open>
  C23. Paddings. The padding table of every algorithm is the EMSA-PKCS1-v1_5 prefix of RFC 8017 for its
  digest, and fills, with the digest, a block of the algorithm's key size.
\<close>

theorem algorithm_table_pkcs1:
  assumes "a \<noteq> AVB_ALGORITHM_TYPE_NONE"
  shows "avb_get_algorithm_data (algorithm_value a) =
      Some (alg_entry (emsa_prefix (algorithm_rsa_bytes a) (algorithm_hash_bytes a)) (algorithm_hash_bytes a)) \<and>
    length (emsa_prefix (algorithm_rsa_bytes a) (algorithm_hash_bytes a)) + algorithm_hash_bytes a =
      algorithm_rsa_bytes a"
  using algorithm_data_lookup [OF assms] by blast

theorem algorithm_table_pkcs1_witness:
  "avb_get_algorithm_data 5 = Some (alg_entry (emsa_prefix 512 64) 64)"
  using algorithm_table_pkcs1 [of AVB_ALGORITHM_TYPE_SHA512_RSA4096] by (simp add: crypto_sizes)

section \<open>Digests\<close>

text \<open>
  C24. SHA-256 streams. From any context, \<open>init\<close>, any sequence of \<open>update\<close> calls and \<open>final\<close> compute the
  SHA-256 of FIPS 180-4 of the concatenated pieces, however the message is cut.
\<close>

theorem sha256_stream_correct:
  assumes "stream_shape AVB_SHA256_BLOCK_SIZE AVB_SHA256_DIGEST_SIZE c" "length (concat pieces) < 2 ^ 61"
  shows "\<exists>c'. bnd (feed avb_sha256_update (avb_sha256_init c) pieces) avb_sha256_final =
    Ok (sha256 (concat pieces), c')"
  using sha256_stream.stream.stream_pieces [OF assms] unfolding digests .

theorem sha256_stream_correct_witness:
  "\<exists>c'. bnd (feed avb_sha256_update (avb_sha256_init fresh_sha256) [str ''a'', [], replicate 100 0]) avb_sha256_final =
    Ok (sha256 (str ''a'' @ replicate 100 0), c')"
  using sha256_stream_correct [OF fresh_shapes(1), of "[str ''a'', [], replicate 100 0]"] by (simp add: str_def)

text \<open>
  C25. SHA-512 streams, likewise.
\<close>

theorem sha512_stream_correct:
  assumes "stream_shape AVB_SHA512_BLOCK_SIZE AVB_SHA512_DIGEST_SIZE c" "length (concat pieces) < 2 ^ 61"
  shows "\<exists>c'. bnd (feed avb_sha512_update (avb_sha512_init c) pieces) avb_sha512_final =
    Ok (sha512 (concat pieces), c')"
  using sha512_stream.stream.stream_pieces [OF assms] unfolding digests .

theorem sha512_stream_correct_witness:
  "\<exists>c'. bnd (feed avb_sha512_update (avb_sha512_init fresh_sha512) [str ''a'', [], replicate 200 0]) avb_sha512_final =
    Ok (sha512 (str ''a'' @ replicate 200 0), c')"
  using sha512_stream_correct [OF fresh_shapes(2), of "[str ''a'', [], replicate 200 0]"] by (simp add: str_def)

text \<open>
  C26. The unrolled SHA-256 and SHA-512 block functions, which rotate the names of the working variables
  instead of their contents, compute the same as the rolled ones, for every state and block.
\<close>

theorem sha2_unrolled_equal:
  "sha256_block_unrolled h b = sha256_block h b \<and> sha512_block_unrolled h' b' = sha512_block h' b'"
  by (simp add: sha256_block_shared sha512_block_shared unrolled_block)

text \<open>
  C27. The four constant tables hold the leading fractional bits of the square and cube roots of the
  first primes, as the standard defines them.
\<close>

theorem sha2_tables_are_roots:
  "roots_table 2 32 (take 8 first_primes) (map unat sha256_h0) \<and> roots_table 3 32 (take 64 first_primes) (map unat sha256_k) \<and>
   roots_table 2 64 (take 8 first_primes) (map unat sha512_h0) \<and> roots_table 3 64 first_primes (map unat sha512_k)"
  by (intro conjI sha256_tables sha512_tables)

section \<open>The host of the verifier\<close>

text \<open>
  C28. Finding vbmeta by its footer. An image file that ends in the encoding of a footer with the right magic, a
  supported major version and a vbmeta size of at most 64 KiB is read from the footer's offset with the
  footer's size: writing and reading the footer are inverse.
\<close>

theorem find_vbmeta_footer:
  assumes "getPartitionFile part \<in> validPartitions (sy_world s)"
    and "open_read (sy_world s) (getPartitionFile part) = Some (data @ footer_bytes f)" "length data < 2 ^ 62"
    and "length (ft_reserved f) = 28" "ft_magic f = AVB_FOOTER_MAGIC" "version_major f \<le> 1" "unat (vbmeta_size f) \<le> VBMETA_MAX_SIZE"
  shows "find_vbmeta cfig_avb_ops part s = Ok (Inr (vbmeta_offset f, vbmeta_size f), s)"
proof -
  have l: "length (footer_bytes f) = 64" using assms(4) by (simp add: footer_bytes_def)
  have k: "(0 :: nat) < AVB_FOOTER_SIZE" "AVB_FOOTER_SIZE < 2 ^ 63" "AVB_FOOTER_SIZE = 64"
    by (simp_all add: AVB_FOOTER_SIZE_def)
  have n: "length (data @ footer_bytes f) < 2 ^ 63" using assms(3) l by simp
  have rd: "posix_read (data @ footer_bytes f) (length (data @ footer_bytes f) - 64) 64 = footer_bytes f"
    using l by (simp add: posix_read_def READ_MAX_def)
  have "\<not> vbmeta_size f > of_nat VBMETA_MAX_SIZE"
    using assms(7) by (simp add: VBMETA_MAX_SIZE_def word_less_nat_alt)
  then show ?thesis
    unfolding find_vbmeta_def andthen_def cfig_read_call read_backward [OF assms(1,2) n k(1,2)]
    using l rd footer_roundtrip [OF assms(4-6)]
    by (simp add: k(3) pure_def retn_def asserting_def avb_assert_def Let_def)
qed

theorem find_vbmeta_footer_witness:
  "\<exists>f. find_vbmeta cfig_avb_ops (str ''vbmeta'') \<lparr>sy_heap = demo_heap,
      sy_world = built_world demo_key (demo_image @ footer_bytes f)\<rparr> = Ok (Inr (7, 1152),
    \<lparr>sy_heap = demo_heap, sy_world = built_world demo_key (demo_image @ footer_bytes f)\<rparr>)"
proof -
  let ?f = "\<lparr>ft_magic = AVB_FOOTER_MAGIC, version_major = 1, version_minor = 0, original_image_size = 7, vbmeta_offset = 7,
    vbmeta_size = 1152, ft_reserved = replicate 28 0\<rparr>"
  let ?w = "built_world demo_key (demo_image @ footer_bytes ?f)"
  have f: "getPartitionFile (str ''vbmeta'') = str ''vbmeta.img''"
    by (simp add: getPartitionFile_def str_def)
  have "getPartitionFile (str ''vbmeta'') \<in> validPartitions ?w" "open_read ?w (getPartitionFile (str ''vbmeta'')) = Some (demo_image @ footer_bytes ?f)"
    using demo_files(8) [of demo_key "demo_image @ footer_bytes ?f"] unfolding f
    by (simp_all add: built_world_def open_read_def demo_world_def)
  then show ?thesis
    using find_vbmeta_footer [of "str ''vbmeta''" "\<lparr>sy_heap = demo_heap, sy_world = ?w\<rparr>" demo_image ?f]
    by (intro exI [of _ ?f]) (simp add: demo_image_parts(1) VBMETA_MAX_SIZE_def)
qed

text \<open>
  C29. Rollback indexes survive, but the answer is the wrong way round. After writing an index to a location whose
  file can be written and read, the program reads that index back, for every 64-bit value and location; a file
  that cannot be written is left alone. Against \<open>avb_ops.h\<close>, which wants \<open>OK\<close> when the index was set and an error
  otherwise, the write answers with an I/O error exactly when the file could be written.
\<close>

theorem rollback_write_read:
  "fst (write_rollback_indexX loc v w) = (if fs_writable w (rollback_file loc) then AVB_IO_RESULT_ERROR_IO else AVB_IO_RESULT_OK) \<and>
   (fs_writable w (rollback_file loc) \<and> fs_readable w (rollback_file loc) \<longrightarrow>
      read_rollback_indexX loc (snd (write_rollback_indexX loc v w)) = (AVB_IO_RESULT_OK, v)) \<and>
   (\<not> fs_writable w (rollback_file loc) \<longrightarrow> snd (write_rollback_indexX loc v w) = w)"
  using rollback_round_trip by (simp add: write_rollback_run)

theorem rollback_write_read_witness:
  "read_rollback_indexX 3 (snd (write_rollback_indexX 3 (- 1) (demo_world demo_key demo_image))) = (AVB_IO_RESULT_OK, - 1)"
  using rollback_write_read [of 3 "- 1" "demo_world demo_key demo_image"] by (simp add: demo_world_def)

text \<open>
  C30. Preloaded partitions. Preloading keeps the invariant that every preloaded buffer holds the contents of
  its image file, touches no file, and never replaces an entry; a failed preload changes nothing of the
  host.
\<close>

theorem preload_invariant:
  assumes "preloads_ok (sy_world s)"
  shows "case preload_partition part s of Fault e \<Rightarrow> True
    | Ok (r, s') \<Rightarrow> preloads_ok (sy_world s') \<and> fs_files (sy_world s') = fs_files (sy_world s) \<and>
        (if r then map_of (preloaded_partitions (sy_world s)) part = None \<and> map_of (preloaded_partitions (sy_world s')) part \<noteq> None
         else sy_world s' = sy_world s)"
proof (cases "preload_partition part s")
  case (Ok x)
  obtain r s' where x: "x = (r, s')" by fastforce
  show ?thesis
    using preload_step [OF Ok [unfolded x]] preload_keeps [OF Ok [unfolded x] assms]
    by (auto simp: Ok x add_preload_def split: if_splits)
qed simp

theorem preload_invariant_witness:
  "\<exists>s'. preload_partition (str ''vbmeta'') \<lparr>sy_heap = demo_heap, sy_world = built_world demo_key demo_image\<rparr> = Ok (True, s') \<and>
    preloads_ok (sy_world s')"
proof -
  let ?w = "built_world demo_key demo_image"
  have f: "getPartitionFile (str ''vbmeta'') = str ''vbmeta.img''"
    by (simp add: getPartitionFile_def str_def)
  have p: "getPartitionFile (str ''vbmeta'') \<in> validPartitions ?w" "file_of ?w (getPartitionFile (str ''vbmeta'')) = Some demo_image"
    "open_read ?w (getPartitionFile (str ''vbmeta'')) = Some demo_image" "preloaded_partitions ?w = []"
    using demo_files(8) [of demo_key demo_image] unfolding f
    by (simp_all add: built_world_def open_read_def demo_world_def)
  have "\<exists>s'. preload_partition (str ''vbmeta'') \<lparr>sy_heap = demo_heap, sy_world = ?w\<rparr> = Ok (True, s')"
    using size_of_file [OF p(1,2)] p(3,4)
    by (simp add: preload_partition_def demo_image_parts(1) avb_malloc_obj_def avb_malloc_def demo_heap_def Let_def posix_read_def READ_MAX_def)
  moreover have "preloads_ok ?w" using p(4) by (simp add: preloads_ok_def)
  ultimately show ?thesis
    using preload_invariant [of "\<lparr>sy_heap = demo_heap, sy_world = ?w\<rparr>" "str ''vbmeta''"] by auto
qed

section \<open>Utilities\<close>

text \<open>
  C31. CRC-32. The table-driven loop computes the bitwise CRC-32 (polynomial 0xEDB88320, reflected, complemented
  before and after) of any buffer shorter than 2 GiB.
\<close>

theorem crc32_bitwise:
  assumes "n \<le> length buf" "n < 2 ^ 31"
  shows "avb_crc32 buf (of_nat n) = Ok (crc32_ref (take n buf))"
  by (rule avb_crc32_ref [OF assms])

theorem crc32_bitwise_witness:
  "avb_crc32 (str ''123456789'') 9 = Ok (crc32_ref (str ''123456789''))"
  using crc32_bitwise [of 9 "str ''123456789''"] by (simp add: str_def)

text \<open>
  C32. Numbers. The decimal text of a 64-bit value has at most 20 digits, and the integer parser of the
  property descriptors reads it back, whatever follows the terminator.
\<close>

theorem base10_parse_roundtrip:
  "length (uint64_to_base10 v) \<le> 20 \<and> parse_uint64 (uint64_to_base10 v @ 0 # rest) = Ok (Some v)"
  using base10_length parse_base10 by blast

text \<open>
  C33. UTF-8. Of the given number of bytes, the validator accepts exactly the sequences of characters of one to four
  bytes by lead byte and number of continuation bytes. Every valid UTF-8 text (RFC 3629) is among them, but, against
  \<open>avb_util.h\<close>, so are others: overlong forms such as \<open>C0 80\<close>, and by their shape surrogates and values above
  \<open>U+10FFFF\<close>. It reads no byte beyond the given number, and beyond the memory it has only while all it has read so
  far is the beginning of an accepted text.
\<close>

theorem validate_utf8_exact:
  "avb_validate_utf8 data n =
     (if n \<le> length data then Ok (utf8_shape (take n data))
      else if \<exists>more. utf8_shape (data @ more) then Fault BadAccess else Ok False) \<and>
   (utf8_valid (take n data) \<longrightarrow> utf8_shape (take n data)) \<and>
   avb_validate_utf8 [0xC0, 0x80] 2 = Ok True \<and> \<not> utf8_valid [0xC0, 0x80]"
  using utf8_valid_shape utf8_overlong by (simp add: validate_utf8_verdict)

theorem validate_utf8_exact_witness:
  "avb_validate_utf8 [0xE2, 0x82, 0xAC] 3 = Ok True"
proof -
  have "utf8_encode 0x20AC = [0xE2, 0x82, 0xAC]" by (simp add: utf8_encode_def)
  then have "utf8_valid [0xE2, 0x82, 0xAC]"
    unfolding utf8_valid_def by (intro exI [of _ "[0x20AC]"]) (simp add: scalar_value_def)
  then show ?thesis using validate_utf8_exact [of "[0xE2, 0x82, 0xAC]" 3] by simp
qed

end
